(* ===== verification/Prelude.thy ===== *)
theory Prelude
  imports Main "HOL-Library.Word" "HOL-Library.Monad_Syntax"
begin

text \<open>
  What the components share: names for the machine types, reading and writing C arrays with
  the out-of-range access as the value \<open>None\<close>, wrap-around of 16 bit counters that the
  models keep as naturals, the first-match loop, and the two halves of a 32 bit word.

  A model function that may reach undefined behaviour (an access outside an array, a null
  pointer, a loop that does not end) returns an option, and \<open>None\<close> is that outcome; a
  theorem that gives \<open>Some\<close> therefore also says that the run is memory safe and returns.
\<close>

unbundle bit_operations_syntax

type_synonym u8 = "8 word"
type_synonym u16 = "16 word"
type_synonym u32 = "32 word"

named_theorems c_mem "reading and writing arrays and fields"
named_theorems c_word "halves of machine words"

section \<open>Error numbers\<close>

text \<open>The values of errno.h that the sources return negated.\<close>

abbreviation EIO :: int where "EIO \<equiv> 5"
abbreviation ENOMEM :: int where "ENOMEM \<equiv> 12"
abbreviation EBUSY :: int where "EBUSY \<equiv> 16"
abbreviation EINVAL :: int where "EINVAL \<equiv> 22"
abbreviation ETIMEDOUT :: int where "ETIMEDOUT \<equiv> 110"

section \<open>Arrays\<close>

definition rd :: "'a list \<Rightarrow> nat \<Rightarrow> 'a option" where
  "rd xs i = (if i < length xs then Some (xs ! i) else None)"

definition wr :: "'a list \<Rightarrow> nat \<Rightarrow> 'a \<Rightarrow> 'a list option" where
  "wr xs i v = (if i < length xs then Some (xs[i := v]) else None)"

lemma rd_in [simp, c_mem]: "i < length xs \<Longrightarrow> rd xs i = Some (xs ! i)"
  by (simp add: rd_def)

lemma rd_out: "length xs \<le> i \<Longrightarrow> rd xs i = None"
  by (simp add: rd_def)

lemma rd_Some_iff: "rd xs i = Some v \<longleftrightarrow> i < length xs \<and> xs ! i = v"
  by (auto simp: rd_def)

lemma wr_in [simp, c_mem]: "i < length xs \<Longrightarrow> wr xs i v = Some (xs[i := v])"
  by (simp add: wr_def)

lemma wr_Some_iff: "wr xs i v = Some ys \<longleftrightarrow> i < length xs \<and> ys = xs[i := v]"
  by (auto simp: wr_def)

section \<open>Sixteen bit counters kept as naturals\<close>

definition trunc16 :: "nat \<Rightarrow> nat" where
  "trunc16 n = n mod 65536"

definition sub16 :: "nat \<Rightarrow> nat \<Rightarrow> nat" where
  "sub16 a b = (a + 65536 - b) mod 65536"

lemma trunc16_id [simp]: "n < 65536 \<Longrightarrow> trunc16 n = n"
  by (simp add: trunc16_def)

lemma sub16_exact: "b \<le> a \<Longrightarrow> a < 65536 \<Longrightarrow> sub16 a b = a - b"
proof -
  assume "b \<le> a" "a < 65536"
  then have "a + 65536 - b = (a - b) + 65536" and "a - b < 65536" by linarith+
  then show ?thesis unfolding sub16_def by (metis mod_add_self2 mod_less)
qed

lemma sub16_less: "sub16 a b < 65536"
  by (simp add: sub16_def)

section \<open>The first-match loop\<close>

text \<open>
  \<open>for (i = from; i < lim; i++) if (p(i)) return i;\<close> where the test itself reads memory and
  may be undefined. The result is the index found, or \<open>Some None\<close> when the loop runs out.
\<close>

function scan_first :: "(nat \<Rightarrow> bool option) \<Rightarrow> nat \<Rightarrow> nat \<Rightarrow> nat option option" where
  "scan_first p lim i =
     (if i < lim
      then do { b \<leftarrow> p i; if b then Some (Some i) else scan_first p lim (Suc i) }
      else Some None)"
  by pat_completeness auto
termination
  by (relation "measure (\<lambda>(p, lim, i). lim - i)") auto

declare scan_first.simps [simp del]

lemma scan_first_total:
  assumes "\<And>j. i \<le> j \<Longrightarrow> j < lim \<Longrightarrow> p j = Some (q j)"
  shows "scan_first p lim i =
    Some (if \<exists>j. i \<le> j \<and> j < lim \<and> q j then Some (LEAST j. i \<le> j \<and> q j) else None)"
  using assms
proof (induction p lim i rule: scan_first.induct)
  case (1 p lim i)
  show ?case
  proof (cases "i < lim")
    case False
    then show ?thesis by (auto simp: scan_first.simps [of p lim i])
  next
    case True
    then have pi: "p i = Some (q i)" using "1.prems" by simp
    show ?thesis
    proof (cases "q i")
      case True
      have "(LEAST j. i \<le> j \<and> q j) = i"
        by (rule Least_equality) (use True in auto)
      with True \<open>i < lim\<close> pi show ?thesis by (auto simp: scan_first.simps [of p lim i])
    next
      case False
      have same: "(i \<le> j \<and> q j) = (Suc i \<le> j \<and> q j)" for j
        using False by (metis Suc_leD Suc_leI le_neq_implies_less)
      have ex: "(\<exists>j. i \<le> j \<and> j < lim \<and> q j) = (\<exists>j. Suc i \<le> j \<and> j < lim \<and> q j)"
        using same by metis
      have "scan_first p lim (Suc i) =
        Some (if \<exists>j. Suc i \<le> j \<and> j < lim \<and> q j then Some (LEAST j. Suc i \<le> j \<and> q j) else None)"
        by (rule "1.IH" [OF \<open>i < lim\<close>]) (use False pi "1.prems" in auto)
      with False \<open>i < lim\<close> pi show ?thesis
        by (simp only: scan_first.simps [of p lim i] same ex) (simp add: False)
    qed
  qed
qed

lemma scan_first_found:
  assumes "\<And>j. i \<le> j \<Longrightarrow> j < lim \<Longrightarrow> p j = Some (q j)"
    and "scan_first p lim i = Some (Some j)"
  shows "i \<le> j \<and> j < lim \<and> q j \<and> (\<forall>k. i \<le> k \<and> k < j \<longrightarrow> \<not> q k)"
proof -
  from scan_first_total [OF assms(1)] assms(2)
  have ex: "\<exists>j. i \<le> j \<and> j < lim \<and> q j" and j: "j = (LEAST j. i \<le> j \<and> q j)"
    by (auto split: if_splits)
  then obtain j' where j': "i \<le> j' \<and> q j'" "j' < lim" by blast
  have "i \<le> j \<and> q j" using LeastI [of "\<lambda>j. i \<le> j \<and> q j", OF j'(1)] j by simp
  moreover have "j \<le> j'" using Least_le [of "\<lambda>j. i \<le> j \<and> q j", OF j'(1)] j by simp
  moreover have "\<forall>k. i \<le> k \<and> k < j \<longrightarrow> \<not> q k" using not_less_Least j by blast
  ultimately show ?thesis using j'(2) by simp
qed

lemma scan_first_none:
  assumes "\<And>j. i \<le> j \<Longrightarrow> j < lim \<Longrightarrow> p j = Some (q j)"
    and "scan_first p lim i = Some None"
  shows "\<forall>j. i \<le> j \<and> j < lim \<longrightarrow> \<not> q j"
  using scan_first_total [OF assms(1)] assms(2) by (auto split: if_splits)

section \<open>The counting loop\<close>

text \<open>\<open>for (; i < lim; i++) body(i)\<close> over a state, with a body that may be undefined.\<close>

function for_range :: "(nat \<Rightarrow> 's \<Rightarrow> 's option) \<Rightarrow> nat \<Rightarrow> nat \<Rightarrow> 's \<Rightarrow> 's option" where
  "for_range body lim i s =
     (if i < lim then do { s \<leftarrow> body i s; for_range body lim (Suc i) s } else Some s)"
  by pat_completeness auto
termination
  by (relation "measure (\<lambda>(body, lim, i, s). lim - i)") auto

declare for_range.simps [simp del]

lemma for_range_end [simp]: "lim \<le> i \<Longrightarrow> for_range body lim i s = Some s"
  by (simp add: for_range.simps [of body lim i])

lemma for_range_step: "i < lim \<Longrightarrow> for_range body lim i s = body i s \<bind> for_range body lim (Suc i)"
  by (simp add: for_range.simps [of body lim i])

lemma for_range_inv:
  assumes "I i s" "i \<le> lim"
    and step: "\<And>j s. i \<le> j \<Longrightarrow> j < lim \<Longrightarrow> I j s \<Longrightarrow> \<exists>s'. body j s = Some s' \<and> I (Suc j) s'"
  shows "\<exists>s'. for_range body lim i s = Some s' \<and> I lim s'"
  using assms
proof (induction body lim i s rule: for_range.induct)
  case (1 body lim i s)
  show ?case
  proof (cases "i < lim")
    case False
    then have "i = lim" using 1(3) by simp
    then show ?thesis using 1(2) by simp
  next
    case True
    with 1(2,4) obtain s' where s': "body i s = Some s'" "I (Suc i) s'" by blast
    have "\<exists>s''. for_range body lim (Suc i) s' = Some s'' \<and> I lim s''"
      by (rule 1(1) [OF True s']) (use True 1(4) in auto)
    then show ?thesis using True s'(1) by (simp add: for_range_step)
  qed
qed

section \<open>The two halves of a 32 bit word\<close>

definition lo16 :: "u32 \<Rightarrow> u16" where
  "lo16 w = ucast w"

definition hi16 :: "u32 \<Rightarrow> u16" where
  "hi16 w = ucast (drop_bit 16 w)"

definition mk32 :: "u16 \<Rightarrow> u16 \<Rightarrow> u32" where
  "mk32 h l = push_bit 16 (ucast h) OR ucast l"

lemma lo16_mk32 [simp, c_word]: "lo16 (mk32 h l) = l"
  by (rule bit_word_eqI) (auto simp: lo16_def mk32_def bit_simps)

lemma hi16_mk32 [simp, c_word]: "hi16 (mk32 h l) = h"
  by (rule bit_word_eqI) (auto simp: hi16_def mk32_def bit_simps dest: bit_imp_le_length)

lemma mk32_halves [simp, c_word]: "mk32 (hi16 w) (lo16 w) = w"
  by (rule bit_word_eqI) (auto simp: lo16_def hi16_def mk32_def bit_simps)

lemma mk32_inject [simp]: "mk32 h l = mk32 h' l' \<longleftrightarrow> h = h' \<and> l = l'"
  by (metis hi16_mk32 lo16_mk32)

lemma lo16_0 [simp]: "lo16 0 = 0" and hi16_0 [simp]: "hi16 0 = 0"
  by (simp_all add: lo16_def hi16_def)

lemma u16_bound [simp]: "unat (w :: u16) < 65536"
  using unsigned_less [of w] by simp

lemma u16_le [simp]: "unat (w :: u16) \<le> 65535"
  using u16_bound [of w] by linarith

lemma unat_of_nat16 [simp]: "n < 65536 \<Longrightarrow> unat (of_nat n :: u16) = n"
  by (simp add: unsigned_of_nat take_bit_nat_eq_self)

lemma of_nat16_eq_0: "n < 65536 \<Longrightarrow> ((of_nat n :: u16) = 0) = (n = 0)"
  using unat_of_nat16 [of n] by (cases "n = 0") (auto simp del: unat_of_nat16)

end
