(* ===== verification/Paths.thy ===== *)
theory Paths
  imports Prelude
begin

text \<open>
  Linked lists in a map of links: \<open>path nxt x as\<close> says that following \<open>nxt\<close> from \<open>x\<close>
  visits \<open>as\<close> and ends at 0, \<open>backs prv p as\<close> that the backward links of \<open>as\<close> lead to
  \<open>p\<close>. The lemmas say what appending and unlinking an element does to both. The NAT tables
  use them with slot numbers as links, the linked list of the GPS utilities with addresses.
\<close>

section \<open>Lists in a next-index array\<close>

primrec path :: "(nat \<Rightarrow> nat) \<Rightarrow> nat \<Rightarrow> nat list \<Rightarrow> bool" where
  "path nxt x [] \<longleftrightarrow> x = 0"
| "path nxt x (a # as) \<longleftrightarrow> x = a \<and> a \<noteq> 0 \<and> path nxt (nxt a) as"

primrec backs :: "(nat \<Rightarrow> nat) \<Rightarrow> nat \<Rightarrow> nat list \<Rightarrow> bool" where
  "backs prv p [] \<longleftrightarrow> True"
| "backs prv p (a # as) \<longleftrightarrow> prv a = p \<and> backs prv a as"

lemma path_cong: "(\<And>a. a \<in> set as \<Longrightarrow> f a = g a) \<Longrightarrow> path f x as = path g x as"
  by (induction as arbitrary: x) auto

lemma backs_cong: "(\<And>a. a \<in> set as \<Longrightarrow> f a = g a) \<Longrightarrow> backs f p as = backs g p as"
  by (induction as arbitrary: p) auto

lemma path_upd [simp]: "u \<notin> set as \<Longrightarrow> path (nxt(u := v)) x as = path nxt x as"
  by (rule path_cong) auto

lemma backs_upd [simp]: "u \<notin> set as \<Longrightarrow> backs (prv(u := v)) p as = backs prv p as"
  by (rule backs_cong) auto

lemma path_hd: "path nxt x as \<Longrightarrow> as \<noteq> [] \<longleftrightarrow> x \<noteq> 0"
  by (cases as) auto

lemma path_snoc:
  "path nxt x as \<Longrightarrow> as \<noteq> [] \<Longrightarrow> distinct as \<Longrightarrow> e \<notin> set as \<Longrightarrow> e \<noteq> 0 \<Longrightarrow>
   path (nxt(e := 0, last as := e)) x (as @ [e])"
proof (induction as arbitrary: x)
  case (Cons a as)
  show ?case
  proof (cases "as = []")
    case True
    with Cons.prems show ?thesis by auto
  next
    case False
    then have "path (nxt(e := 0, last as := e)) (nxt a) (as @ [e])"
      by (intro Cons.IH) (use Cons.prems in auto)
    moreover have "(nxt(e := 0, last as := e)) a = nxt a"
      using False Cons.prems by (auto dest: last_in_set)
    ultimately show ?thesis
      using False Cons.prems by (simp del: fun_upd_apply)
  qed
qed simp

lemma path_drop: "path nxt x (as @ e # bs) \<Longrightarrow> path nxt (nxt e) bs"
  by (induction as arbitrary: x) auto

lemma path_remove:
  "path nxt x (as @ e # bs) \<Longrightarrow> as \<noteq> [] \<Longrightarrow> distinct (as @ e # bs) \<Longrightarrow>
   path (nxt(last as := nxt e, e := v)) x (as @ bs)"
proof (induction as arbitrary: x)
  case (Cons a as)
  show ?case
  proof (cases "as = []")
    case True
    with Cons.prems have "path (nxt(a := nxt e, e := v)) (nxt e) bs" by simp
    moreover have "(nxt(a := nxt e, e := v)) a = nxt e" using Cons.prems by auto
    ultimately show ?thesis using True Cons.prems by (simp del: fun_upd_apply)
  next
    case False
    then have "path (nxt(last as := nxt e, e := v)) (nxt a) (as @ bs)"
      by (intro Cons.IH) (use Cons.prems in auto)
    moreover have "(nxt(last as := nxt e, e := v)) a = nxt a"
      using False Cons.prems by (auto dest: last_in_set)
    ultimately show ?thesis using False Cons.prems by (simp del: fun_upd_apply)
  qed
qed simp

lemma backs_snoc: "backs prv p as \<Longrightarrow> e \<notin> set as \<Longrightarrow> backs (prv(e := last (p # as))) p (as @ [e])"
  by (induction as arbitrary: p) auto

lemma backs_mid: "backs prv p (as @ e # bs) \<Longrightarrow> prv e = last (p # as)"
  by (induction as arbitrary: p) auto

lemma backs_remove_last: "backs prv p (as @ [e]) \<Longrightarrow> backs prv p as"
  by (induction as arbitrary: p) auto

lemma backs_remove_mid:
  "backs prv p (as @ e # b # bs) \<Longrightarrow> b \<notin> set as \<Longrightarrow> b \<notin> set bs \<Longrightarrow>
   backs (prv(b := last (p # as))) p (as @ b # bs)"
  by (induction as arbitrary: p) auto

lemma path_unique: "path nxt x as \<Longrightarrow> path nxt x bs \<Longrightarrow> as = bs"
proof (induction as arbitrary: x bs)
  case Nil
  then show ?case by (cases bs) auto
next
  case (Cons a as)
  then show ?case by (cases bs) auto
qed

end
