(* ===== verification/Linked_List.thy ===== *)
theory Linked_List
  imports Paths
begin

text \<open>
  The linked list of the GPS utilities (gps/utils/linked_list.c): a heap of elements and list
  headers addressed by naturals, 0 for NULL. An access through a dangling or null pointer is
  the outcome \<open>None\<close>, as is a traversal that does not end. The address that \<open>malloc\<close> or
  \<open>calloc\<close> returns is an argument (0 when it fails), a call of a deallocation function is
  recorded in the heap, and the comparison function of a search is an argument.
\<close>

datatype linked_list_err_type =
    eLINKED_LIST_SUCCESS | eLINKED_LIST_FAILURE_GENERAL | eLINKED_LIST_INVALID_PARAMETER
  | eLINKED_LIST_INVALID_HANDLE | eLINKED_LIST_UNAVAILABLE_RESOURCE | eLINKED_LIST_INSUFFICIENT_BUFFER

abbreviation (input) NULL :: nat where "NULL \<equiv> 0"

record list_element =
  el_next :: nat
  el_prev :: nat
  el_data_ptr :: nat
  el_dealloc_func :: nat

record list_state =
  p_head :: nat
  p_tail :: nat

record ll_heap =
  elems :: "nat \<Rightarrow> list_element option"
  lists :: "nat \<Rightarrow> list_state option"
  dealloc_calls :: "(nat \<times> nat) list"

section \<open>Memory\<close>

definition get_elem :: "ll_heap \<Rightarrow> nat \<Rightarrow> list_element option" where
  "get_elem h a = (if a = NULL then None else elems h a)"

definition get_list :: "ll_heap \<Rightarrow> nat \<Rightarrow> list_state option" where
  "get_list h l = (if l = NULL then None else lists h l)"

definition put_elem :: "nat \<Rightarrow> list_element \<Rightarrow> ll_heap \<Rightarrow> ll_heap" where
  "put_elem a e h = h\<lparr>elems := (elems h)(a := Some e)\<rparr>"

definition put_list :: "nat \<Rightarrow> list_state \<Rightarrow> ll_heap \<Rightarrow> ll_heap" where
  "put_list l s h = h\<lparr>lists := (lists h)(l := Some s)\<rparr>"

definition upd_elem :: "nat \<Rightarrow> (list_element \<Rightarrow> list_element) \<Rightarrow> ll_heap \<Rightarrow> ll_heap option" where
  "upd_elem a f h = do { e \<leftarrow> get_elem h a; Some (put_elem a (f e) h) }"

definition free_elem :: "nat \<Rightarrow> ll_heap \<Rightarrow> ll_heap option" where
  "free_elem a h = do { e \<leftarrow> get_elem h a; Some (h\<lparr>elems := (elems h)(a := None)\<rparr>) }"

definition call_dealloc :: "list_element \<Rightarrow> ll_heap \<Rightarrow> ll_heap" where
  "call_dealloc e h = h\<lparr>dealloc_calls := dealloc_calls h @ [(el_dealloc_func e, el_data_ptr e)]\<rparr>"

section \<open>The operations\<close>

definition linked_list_init ::
  "nat \<Rightarrow> bool \<Rightarrow> ll_heap \<Rightarrow> linked_list_err_type \<times> nat option \<times> ll_heap" where
  "linked_list_init mem list_data_null h =
     (if list_data_null then (eLINKED_LIST_INVALID_PARAMETER, None, h)
      else if mem = NULL then (eLINKED_LIST_FAILURE_GENERAL, None, h)
      else (eLINKED_LIST_SUCCESS, Some mem, put_list mem \<lparr>p_head = NULL, p_tail = NULL\<rparr> h))"

definition linked_list_add ::
  "nat \<Rightarrow> nat \<Rightarrow> nat \<Rightarrow> nat \<Rightarrow> ll_heap \<Rightarrow> (linked_list_err_type \<times> ll_heap) option" where
  "linked_list_add mem list_data data_obj dealloc h =
     (if list_data = NULL then Some (eLINKED_LIST_INVALID_HANDLE, h)
      else if data_obj = NULL then Some (eLINKED_LIST_INVALID_PARAMETER, h)
      else if mem = NULL then Some (eLINKED_LIST_FAILURE_GENERAL, h)
      else do {
        let h = put_elem mem \<lparr>el_next = NULL, el_prev = NULL, el_data_ptr = data_obj,
                               el_dealloc_func = dealloc\<rparr> h;
        p_list \<leftarrow> get_list h list_data;
        let tmp = p_head p_list;
        let p_list = p_list\<lparr>p_head := mem\<rparr>;
        h \<leftarrow> upd_elem mem (\<lambda>e. e\<lparr>el_next := tmp\<rparr>) h;
        (if tmp \<noteq> NULL
         then do { h \<leftarrow> upd_elem tmp (\<lambda>e. e\<lparr>el_prev := mem\<rparr>) h;
                   Some (eLINKED_LIST_SUCCESS, put_list list_data p_list h) }
         else Some (eLINKED_LIST_SUCCESS, put_list list_data (p_list\<lparr>p_tail := mem\<rparr>) h))
      })"

definition linked_list_remove ::
  "nat \<Rightarrow> bool \<Rightarrow> ll_heap \<Rightarrow> (linked_list_err_type \<times> nat option \<times> ll_heap) option" where
  "linked_list_remove list_data data_obj_null h =
     (if list_data = NULL then Some (eLINKED_LIST_INVALID_HANDLE, None, h)
      else if data_obj_null then Some (eLINKED_LIST_INVALID_PARAMETER, None, h)
      else do {
        p_list \<leftarrow> get_list h list_data;
        if p_tail p_list = NULL then Some (eLINKED_LIST_UNAVAILABLE_RESOURCE, None, h)
        else do {
          let tmp = p_tail p_list;
          e \<leftarrow> get_elem h tmp;
          let p_list = p_list\<lparr>p_tail := el_prev e\<rparr>;
          (p_list, h) \<leftarrow>
            (if p_tail p_list \<noteq> NULL
             then do { h \<leftarrow> upd_elem (p_tail p_list) (\<lambda>e. e\<lparr>el_next := NULL\<rparr>) h; Some (p_list, h) }
             else Some (p_list\<lparr>p_head := p_tail p_list\<rparr>, h));
          h \<leftarrow> free_elem tmp (put_list list_data p_list h);
          Some (eLINKED_LIST_SUCCESS, Some (el_data_ptr e), h)
        }
      })"

text \<open>1 for empty, 0 for not empty, and the error number -3 for a null handle.\<close>

definition linked_list_empty :: "nat \<Rightarrow> ll_heap \<Rightarrow> int option" where
  "linked_list_empty list_data h =
     (if list_data = NULL then Some (- 3)
      else do { p_list \<leftarrow> get_list h list_data; Some (if p_head p_list = NULL then 1 else 0) })"

partial_function (option) flush_loop :: "nat \<Rightarrow> ll_heap \<Rightarrow> ll_heap option" where
  "flush_loop list_data h =
     do {
       p_list \<leftarrow> get_list h list_data;
       if p_head p_list = NULL then Some h
       else do {
         e \<leftarrow> get_elem h (p_head p_list);
         let tmp = el_next e;
         let h = (if el_dealloc_func e \<noteq> NULL then call_dealloc e h else h);
         h \<leftarrow> free_elem (p_head p_list) h;
         flush_loop list_data (put_list list_data (p_list\<lparr>p_head := tmp\<rparr>) h)
       }
     }"

definition linked_list_flush :: "nat \<Rightarrow> ll_heap \<Rightarrow> (linked_list_err_type \<times> ll_heap) option" where
  "linked_list_flush list_data h =
     (if list_data = NULL then Some (eLINKED_LIST_INVALID_HANDLE, h)
      else do {
        h \<leftarrow> flush_loop list_data h;
        p_list \<leftarrow> get_list h list_data;
        Some (eLINKED_LIST_SUCCESS, put_list list_data (p_list\<lparr>p_tail := NULL\<rparr>) h)
      })"

text \<open>\<open>list_data\<close> is a pointer to the handle: the argument is the handle it points to, if any.\<close>

definition linked_list_destroy ::
  "nat option \<Rightarrow> ll_heap \<Rightarrow> (linked_list_err_type \<times> nat option \<times> ll_heap) option" where
  "linked_list_destroy list_data h =
     (case list_data of
        None \<Rightarrow> Some (eLINKED_LIST_INVALID_HANDLE, None, h)
      | Some p_list \<Rightarrow> do {
          (ret, h) \<leftarrow> linked_list_flush p_list h;
          Some (eLINKED_LIST_SUCCESS, Some NULL, h\<lparr>lists := (lists h)(p_list := None)\<rparr>)
        })"

text \<open>The traversal of a search: the first element whose data matches, or NULL.\<close>

partial_function (option) search_loop :: "(nat \<Rightarrow> nat \<Rightarrow> bool) \<Rightarrow> nat \<Rightarrow> ll_heap \<Rightarrow> nat \<Rightarrow> nat option" where
  "search_loop equal data_0 h tmp =
     (if tmp = NULL then Some NULL
      else do {
        e \<leftarrow> get_elem h tmp;
        if equal data_0 (el_data_ptr e) then Some tmp else search_loop equal data_0 h (el_next e)
      })"

text \<open>The removal of the element found, in the order of the code.\<close>

definition search_unlink :: "nat \<Rightarrow> bool \<Rightarrow> nat \<Rightarrow> ll_heap \<Rightarrow> ll_heap option" where
  "search_unlink list_data data_p_null tmp h =
     do {
       p_list \<leftarrow> get_list h list_data;
       e \<leftarrow> get_elem h tmp;
       (p_list, h) \<leftarrow>
         (if el_prev e = NULL then Some (p_list\<lparr>p_head := el_next e\<rparr>, h)
          else do { h \<leftarrow> upd_elem (el_prev e) (\<lambda>p. p\<lparr>el_next := el_next e\<rparr>) h; Some (p_list, h) });
       (p_list, h) \<leftarrow>
         (if el_next e = NULL then Some (p_list\<lparr>p_tail := el_prev e\<rparr>, h)
          else do { h \<leftarrow> upd_elem (el_next e) (\<lambda>n. n\<lparr>el_prev := el_prev e\<rparr>) h; Some (p_list, h) });
       h \<leftarrow> upd_elem tmp (\<lambda>e. e\<lparr>el_prev := NULL, el_next := NULL\<rparr>) (put_list list_data p_list h);
       let h = (if data_p_null \<and> el_dealloc_func e \<noteq> NULL then call_dealloc e h else h);
       free_elem tmp h
     }"

text \<open>The result: return code, what is written to \<open>*data_p\<close>, the heap.\<close>

definition linked_list_search ::
  "nat \<Rightarrow> bool \<Rightarrow> (nat \<Rightarrow> nat \<Rightarrow> bool) option \<Rightarrow> nat \<Rightarrow> bool \<Rightarrow> ll_heap \<Rightarrow>
   (linked_list_err_type \<times> nat option \<times> ll_heap) option" where
  "linked_list_search list_data data_p_null equal data_0 rm_if_found h =
     (case equal of
        None \<Rightarrow> Some (eLINKED_LIST_INVALID_HANDLE, None, h)
      | Some equal \<Rightarrow>
        if list_data = NULL then Some (eLINKED_LIST_INVALID_HANDLE, None, h)
        else do {
          p_list \<leftarrow> get_list h list_data;
          if p_tail p_list = NULL then Some (eLINKED_LIST_UNAVAILABLE_RESOURCE, None, h)
          else do {
            tmp \<leftarrow> search_loop equal data_0 h (p_head p_list);
            if tmp = NULL
            then Some (eLINKED_LIST_SUCCESS, if data_p_null then None else Some NULL, h)
            else do {
              e \<leftarrow> get_elem h tmp;
              h \<leftarrow> (if rm_if_found then search_unlink list_data data_p_null tmp h else Some h);
              Some (eLINKED_LIST_SUCCESS, if data_p_null then None else Some (el_data_ptr e), h)
            }
          }
        })"

section \<open>What a heap represents\<close>

definition nx :: "ll_heap \<Rightarrow> nat \<Rightarrow> nat" where
  "nx h a = (case elems h a of Some e \<Rightarrow> el_next e | None \<Rightarrow> NULL)"

definition pv :: "ll_heap \<Rightarrow> nat \<Rightarrow> nat" where
  "pv h a = (case elems h a of Some e \<Rightarrow> el_prev e | None \<Rightarrow> NULL)"

definition item :: "ll_heap \<Rightarrow> nat \<Rightarrow> nat \<times> nat" where
  "item h a = (case elems h a of Some e \<Rightarrow> (el_data_ptr e, el_dealloc_func e) | None \<Rightarrow> (NULL, NULL))"

text \<open>The list at \<open>l\<close> consists of the elements \<open>ps\<close>, from head to tail.\<close>

definition ll_rep :: "ll_heap \<Rightarrow> nat \<Rightarrow> nat list \<Rightarrow> bool" where
  "ll_rep h l ps \<longleftrightarrow>
     (\<exists>s. get_list h l = Some s \<and> path (nx h) (p_head s) ps \<and> backs (pv h) NULL ps \<and>
          p_tail s = last (NULL # ps)) \<and>
     distinct ps \<and> (\<forall>a\<in>set ps. a \<noteq> NULL \<and> elems h a \<noteq> None)"

section \<open>Facts on the memory\<close>

lemma heap_simps [simp]:
  "elems (put_elem a e h) = (elems h)(a := Some e)" "elems (put_list l s h) = elems h"
  "lists (put_elem a e h) = lists h" "lists (put_list l s h) = (lists h)(l := Some s)"
  "dealloc_calls (put_elem a e h) = dealloc_calls h" "dealloc_calls (put_list l s h) = dealloc_calls h"
  "elems (call_dealloc e h) = elems h" "lists (call_dealloc e h) = lists h"
  "dealloc_calls (call_dealloc e h) = dealloc_calls h @ [(el_dealloc_func e, el_data_ptr e)]"
  by (simp_all add: put_elem_def put_list_def call_dealloc_def)

lemma links_put [simp]:
  "nx (put_elem a e h) = (nx h)(a := el_next e)" "pv (put_elem a e h) = (pv h)(a := el_prev e)"
  "item (put_elem a e h) = (item h)(a := (el_data_ptr e, el_dealloc_func e))"
  by (simp_all add: nx_def pv_def item_def fun_eq_iff)

lemma links_same:
  assumes "elems h' = elems h"
  shows "nx h' = nx h" "pv h' = pv h" "item h' = item h"
  using assms by (simp_all add: nx_def pv_def item_def fun_eq_iff)

lemma links_put_list [simp]: "nx (put_list l s h) = nx h" "pv (put_list l s h) = pv h" "item (put_list l s h) = item h"
  by (rule links_same, simp)+

lemma links_call_dealloc [simp]:
  "nx (call_dealloc e h) = nx h" "pv (call_dealloc e h) = pv h" "item (call_dealloc e h) = item h"
  by (rule links_same, simp)+

lemma get_simps [simp]:
  "a \<noteq> 0 \<Longrightarrow> get_elem h a = elems h a" "l \<noteq> 0 \<Longrightarrow> get_list h l = lists h l"
  "elems h a = Some e \<Longrightarrow> a \<noteq> 0 \<Longrightarrow> upd_elem a f h = Some (put_elem a (f e) h)"
  "elems h a = Some e \<Longrightarrow> a \<noteq> 0 \<Longrightarrow> free_elem a h = Some (h\<lparr>elems := (elems h)(a := None)\<rparr>)"
  by (simp_all add: get_elem_def get_list_def upd_elem_def free_elem_def)

lemma links_free [simp]:
  "nx (h\<lparr>elems := (elems h)(a := None)\<rparr>) = (nx h)(a := 0)"
  "pv (h\<lparr>elems := (elems h)(a := None)\<rparr>) = (pv h)(a := 0)"
  "item (h\<lparr>elems := (elems h)(a := None)\<rparr>) = (item h)(a := (0, 0))"
  by (simp_all add: nx_def pv_def item_def fun_eq_iff)

lemma links_at [simp]:
  "elems h a = Some e \<Longrightarrow> nx h a = el_next e" "elems h a = Some e \<Longrightarrow> pv h a = el_prev e"
  "elems h a = Some e \<Longrightarrow> item h a = (el_data_ptr e, el_dealloc_func e)"
  by (simp_all add: nx_def pv_def item_def)

lemma ll_repE:
  assumes "ll_rep h l ps"
  obtains s where "l \<noteq> 0" "lists h l = Some s" "path (nx h) (p_head s) ps" "backs (pv h) 0 ps"
    "p_tail s = last (0 # ps)" "distinct ps" "\<forall>a\<in>set ps. a \<noteq> 0 \<and> (\<exists>e. elems h a = Some e)"
  using assms by (auto simp: ll_rep_def get_list_def split: if_splits)

lemma ll_repI:
  assumes "l \<noteq> 0" "lists h l = Some s" "path (nx h) (p_head s) ps" "backs (pv h) 0 ps"
    "p_tail s = last (0 # ps)" "distinct ps" "\<And>a. a \<in> set ps \<Longrightarrow> a \<noteq> 0 \<and> elems h a \<noteq> None"
  shows "ll_rep h l ps"
  using assms by (auto simp: ll_rep_def)

lemma ll_rep_unique: "ll_rep h l ps \<Longrightarrow> ll_rep h l qs \<Longrightarrow> ps = qs"
  by (auto simp: ll_rep_def intro: path_unique)

section \<open>The operations on a list\<close>

lemma linked_list_init_spec:
  "mem \<noteq> 0 \<Longrightarrow> linked_list_init mem False h = (eLINKED_LIST_SUCCESS, Some mem, put_list mem \<lparr>p_head = 0, p_tail = 0\<rparr> h)"
  "mem \<noteq> 0 \<Longrightarrow> ll_rep (put_list mem \<lparr>p_head = 0, p_tail = 0\<rparr> h) mem []"
  by (auto simp: linked_list_init_def ll_rep_def)

lemma linked_list_add_spec:
  assumes rep: "ll_rep h l ps" and mem: "mem \<noteq> 0" "elems h mem = None" and d: "data \<noteq> 0"
  obtains h' where "linked_list_add mem l data f h = Some (eLINKED_LIST_SUCCESS, h')" "ll_rep h' l (mem # ps)"
    "map (item h') (mem # ps) = (data, f) # map (item h) ps" "dealloc_calls h' = dealloc_calls h"
    "\<And>a. a \<noteq> mem \<Longrightarrow> elems h a = None \<Longrightarrow> elems h' a = None"
proof -
  from rep obtain s where s: "l \<noteq> 0" "lists h l = Some s" "path (nx h) (p_head s) ps" "backs (pv h) 0 ps"
    "p_tail s = last (0 # ps)" "distinct ps" "\<forall>a\<in>set ps. a \<noteq> 0 \<and> (\<exists>e. elems h a = Some e)"
    by (rule ll_repE)
  have m: "mem \<notin> set ps" using s(7) mem by auto
  let ?e = "\<lparr>el_next = p_head s, el_prev = 0, el_data_ptr = data, el_dealloc_func = f\<rparr>"
  show ?thesis
  proof (cases ps)
    case Nil
    then have h0: "p_head s = 0" using s(3) by simp
    let ?h = "put_list l (s\<lparr>p_head := mem, p_tail := mem\<rparr>) (put_elem mem ?e (put_elem mem ?e h))"
    have "linked_list_add mem l data f h = Some (eLINKED_LIST_SUCCESS, ?h)"
      using s mem d h0 by (simp add: linked_list_add_def Let_def put_elem_def)
    moreover have "ll_rep ?h l (mem # ps)"
      by (rule ll_repI [of _ _ "s\<lparr>p_head := mem, p_tail := mem\<rparr>"]) (use s mem Nil h0 in auto)
    ultimately show ?thesis using Nil by (intro that [of ?h]) auto
  next
    case (Cons a as)
    then have ha: "p_head s = a" "a \<noteq> 0" "a \<noteq> mem" using s(3) m by auto
    obtain e where e: "elems h a = Some e" using s(7) Cons by auto
    let ?h = "put_list l (s\<lparr>p_head := mem\<rparr>) (put_elem a (e\<lparr>el_prev := mem\<rparr>) (put_elem mem ?e (put_elem mem ?e h)))"
    have "linked_list_add mem l data f h = Some (eLINKED_LIST_SUCCESS, ?h)"
      using s mem d ha e by (simp add: linked_list_add_def Let_def put_elem_def)
    moreover have "ll_rep ?h l (mem # ps)"
    proof (rule ll_repI [of _ _ "s\<lparr>p_head := mem\<rparr>"])
      have n: "nx ?h = (nx h)(mem := a)" using ha e by (auto simp: fun_eq_iff)
      show "path (nx ?h) (p_head (s\<lparr>p_head := mem\<rparr>)) (mem # ps)" unfolding n using s(3) m mem ha by simp
      have p: "pv ?h = (pv h)(mem := 0, a := mem)" by auto
      have na: "mem \<notin> set as" "a \<notin> set as" using m s(6) Cons by auto
      have "backs (pv h) a as" using s(4) Cons by simp
      then show "backs (pv ?h) 0 (mem # ps)" unfolding p Cons using na ha(3) by simp
    qed (use s mem Cons m in auto)
    moreover have "map (item ?h) (mem # ps) = (data, f) # map (item h) ps"
      using m e ha by (auto simp: fun_upd_def)
    ultimately show ?thesis using e by (intro that [of ?h]) auto
  qed
qed

lemma linked_list_remove_spec:
  assumes rep: "ll_rep h l (ps @ [a])"
  obtains h' where "linked_list_remove l False h = Some (eLINKED_LIST_SUCCESS, Some (fst (item h a)), h')"
    "ll_rep h' l ps" "map (item h') ps = map (item h) ps" "dealloc_calls h' = dealloc_calls h" "elems h' a = None"
    "\<And>b. elems h b = None \<Longrightarrow> elems h' b = None"
proof -
  from rep obtain s where s: "l \<noteq> 0" "lists h l = Some s" "path (nx h) (p_head s) (ps @ [a])" "backs (pv h) 0 (ps @ [a])"
    "p_tail s = last (0 # ps @ [a])" "distinct (ps @ [a])"
    "\<forall>b\<in>set (ps @ [a]). b \<noteq> 0 \<and> (\<exists>e. elems h b = Some e)"
    by (rule ll_repE)
  obtain e where e: "elems h a = Some e" "a \<noteq> 0" using s(7) by auto
  have prev: "el_prev e = last (0 # ps)" using backs_mid [of "pv h" 0 ps a "[]"] s(4) e(1) by simp
  have next0: "nx h a = 0" using path_drop [OF s(3)] by simp
  show ?thesis
  proof (cases "ps = []")
    case True
    let ?h = "put_list l (s\<lparr>p_tail := 0, p_head := 0\<rparr>) h"
    let ?h' = "?h\<lparr>elems := (elems h)(a := None)\<rparr>"
    have "linked_list_remove l False h = Some (eLINKED_LIST_SUCCESS, Some (fst (item h a)), ?h')"
      using s e prev True by (simp add: linked_list_remove_def Let_def)
    moreover have "ll_rep ?h' l ps" using True s(1) by (auto simp: ll_rep_def)
    ultimately show ?thesis using True by (intro that [of ?h']) auto
  next
    case False
    let ?b = "last ps"
    have b: "?b \<in> set ps" "?b \<noteq> a" "?b \<noteq> 0" using False s(6,7) last_in_set [OF False] by auto
    obtain f where f: "elems h ?b = Some f" using s(7) b by auto
    let ?h = "put_list l (s\<lparr>p_tail := ?b\<rparr>) (put_elem ?b (f\<lparr>el_next := 0\<rparr>) h)"
    let ?h' = "?h\<lparr>elems := (elems ?h)(a := None)\<rparr>"
    have "linked_list_remove l False h = Some (eLINKED_LIST_SUCCESS, Some (fst (item h a)), ?h')"
      using s e prev False b f by (simp add: linked_list_remove_def Let_def)
    moreover have "ll_rep ?h' l ps"
    proof (rule ll_repI [of _ _ "s\<lparr>p_tail := ?b\<rparr>"])
      have n: "nx ?h' = (nx h)(?b := nx h a, a := 0)" by (subst links_free) (simp add: next0)
      show "path (nx ?h') (p_head (s\<lparr>p_tail := ?b\<rparr>)) ps"
        unfolding n using path_remove [of "nx h" "p_head s" ps a "[]" 0] s(3,6) False by simp
      have p: "pv ?h' = (pv h)(a := 0)" using f by (subst links_free) (auto simp: fun_eq_iff)
      show "backs (pv ?h') 0 ps" unfolding p using backs_remove_last [OF s(4)] s(6) by simp
    qed (use s b False in auto)
    moreover have "map (item ?h') ps = map (item h) ps" using f s(6) by (subst links_free) auto
    ultimately show ?thesis using f by (intro that [of ?h']) auto
  qed
qed

lemma linked_list_remove_empty:
  "ll_rep h l [] \<Longrightarrow> linked_list_remove l False h = Some (eLINKED_LIST_UNAVAILABLE_RESOURCE, None, h)"
  by (erule ll_repE) (simp add: linked_list_remove_def)

lemma linked_list_empty_spec: "ll_rep h l ps \<Longrightarrow> linked_list_empty l h = Some (if ps = [] then 1 else 0)"
  by (erule ll_repE) (cases ps; simp add: linked_list_empty_def)

text \<open>Flushing: every element is freed, and deallocated when it has a function for that.\<close>

definition dealloc_of :: "ll_heap \<Rightarrow> nat list \<Rightarrow> (nat \<times> nat) list" where
  "dealloc_of h ps = map (\<lambda>a. (snd (item h a), fst (item h a))) (filter (\<lambda>a. snd (item h a) \<noteq> 0) ps)"

lemma dealloc_of_cong: "(\<And>a. a \<in> set ps \<Longrightarrow> item h a = item h' a) \<Longrightarrow> dealloc_of h ps = dealloc_of h' ps"
  by (induction ps) (auto simp: dealloc_of_def)

lemma flush_loop_spec:
  assumes "l \<noteq> 0" "lists h l = Some s" "path (nx h) (p_head s) ps" "distinct ps"
    "\<forall>a\<in>set ps. a \<noteq> 0 \<and> (\<exists>e. elems h a = Some e)"
  shows "\<exists>h'. flush_loop l h = Some h' \<and> lists h' = (lists h)(l := Some (s\<lparr>p_head := 0\<rparr>)) \<and>
    elems h' = (\<lambda>a. if a \<in> set ps then None else elems h a) \<and>
    dealloc_calls h' = dealloc_calls h @ dealloc_of h ps"
  using assms
proof (induction ps arbitrary: h s)
  case Nil
  then have "s\<lparr>p_head := 0\<rparr> = s" by simp
  with Nil show ?case by (subst flush_loop.simps) (auto simp: dealloc_of_def fun_eq_iff)
next
  case (Cons a ps)
  then obtain e where a: "p_head s = a" "a \<noteq> 0" "elems h a = Some e" by auto
  let ?c = "if el_dealloc_func e \<noteq> 0 then call_dealloc e h else h"
  let ?f = "?c\<lparr>elems := (elems h)(a := None)\<rparr>"
  let ?s = "s\<lparr>p_head := el_next e\<rparr>"
  let ?h = "put_list l ?s ?f"
  have el: "elems ?c = elems h" by simp
  have step: "flush_loop l h = flush_loop l ?h"
    using Cons.prems(1,2) a el by (subst flush_loop.simps) (simp add: Let_def)
  have nx: "nx ?h = (nx h)(a := 0)" "item ?h = (item h)(a := (0, 0))"
    by (simp_all add: nx_def item_def fun_eq_iff)
  have "\<exists>h'. flush_loop l ?h = Some h' \<and> lists h' = (lists ?h)(l := Some (?s\<lparr>p_head := 0\<rparr>)) \<and>
    elems h' = (\<lambda>b. if b \<in> set ps then None else elems ?h b) \<and> dealloc_calls h' = dealloc_calls ?h @ dealloc_of ?h ps"
  proof (rule Cons.IH)
    show "path (nx ?h) (p_head ?s) ps" unfolding nx using Cons.prems(3,4) a by simp
  qed (use Cons.prems a in auto)
  moreover have "item ?h b = item h b" if "b \<in> set ps" for b
    using that Cons.prems(4) by (subst nx(2)) auto
  then have "dealloc_of ?h ps = dealloc_of h ps" by (rule dealloc_of_cong)
  moreover have "dealloc_calls ?h @ dealloc_of h ps = dealloc_calls h @ dealloc_of h (a # ps)"
    using a by (simp add: dealloc_of_def)
  moreover have "(lists ?h)(l := Some (?s\<lparr>p_head := 0\<rparr>)) = (lists h)(l := Some (s\<lparr>p_head := 0\<rparr>))"
    by (simp add: fun_eq_iff)
  moreover have "(\<lambda>b. if b \<in> set ps then None else elems ?h b) = (\<lambda>b. if b \<in> set (a # ps) then None else elems h b)"
    by (auto simp: fun_eq_iff)
  ultimately show ?case unfolding step by metis
qed

lemma linked_list_flush_spec:
  assumes rep: "ll_rep h l ps"
  obtains h' where "linked_list_flush l h = Some (eLINKED_LIST_SUCCESS, h')" "ll_rep h' l []"
    "elems h' = (\<lambda>a. if a \<in> set ps then None else elems h a)"
    "dealloc_calls h' = dealloc_calls h @ dealloc_of h ps"
proof -
  from rep obtain s where s: "l \<noteq> 0" "lists h l = Some s" "path (nx h) (p_head s) ps" "backs (pv h) 0 ps"
    "p_tail s = last (0 # ps)" "distinct ps" "\<forall>a\<in>set ps. a \<noteq> 0 \<and> (\<exists>e. elems h a = Some e)"
    by (rule ll_repE)
  from flush_loop_spec [OF s(1-3,6,7)] obtain h' where h': "flush_loop l h = Some h'"
    "lists h' = (lists h)(l := Some (s\<lparr>p_head := 0\<rparr>))" "elems h' = (\<lambda>a. if a \<in> set ps then None else elems h a)"
    "dealloc_calls h' = dealloc_calls h @ dealloc_of h ps" by blast
  show ?thesis
    by (rule that [of "put_list l (s\<lparr>p_head := 0, p_tail := 0\<rparr>) h'"])
      (use s(1) h' in \<open>auto simp: linked_list_flush_def ll_rep_def\<close>)
qed

lemma linked_list_destroy_spec:
  assumes rep: "ll_rep h l ps"
  obtains h' where "linked_list_destroy (Some l) h = Some (eLINKED_LIST_SUCCESS, Some 0, h')"
    "lists h' l = None" "elems h' = (\<lambda>a. if a \<in> set ps then None else elems h a)"
    "dealloc_calls h' = dealloc_calls h @ dealloc_of h ps"
proof -
  from linked_list_flush_spec [OF rep] obtain h' where h': "linked_list_flush l h = Some (eLINKED_LIST_SUCCESS, h')"
    "elems h' = (\<lambda>a. if a \<in> set ps then None else elems h a)" "dealloc_calls h' = dealloc_calls h @ dealloc_of h ps"
    by metis
  show ?thesis
    by (rule that [of "h'\<lparr>lists := (lists h')(l := None)\<rparr>"]) (use h' in \<open>simp_all add: linked_list_destroy_def\<close>)
qed

section \<open>Searching\<close>

lemma search_loop_spec:
  assumes "path (nx h) x ps" "\<forall>a\<in>set ps. a \<noteq> 0 \<and> (\<exists>e. elems h a = Some e)"
  shows "search_loop eq d h x = Some (case find (\<lambda>a. eq d (fst (item h a))) ps of None \<Rightarrow> 0 | Some a \<Rightarrow> a)"
  using assms
proof (induction ps arbitrary: x)
  case Nil
  then show ?case by (simp add: search_loop.simps)
next
  case (Cons a ps)
  then obtain e where a: "x = a" "a \<noteq> 0" "elems h a = Some e" by auto
  have "search_loop eq d h (el_next e) = Some (case find (\<lambda>a. eq d (fst (item h a))) ps of None \<Rightarrow> 0 | Some a \<Rightarrow> a)"
    by (rule Cons.IH) (use Cons.prems a in auto)
  then show ?case using a by (subst search_loop.simps) simp
qed

lemma search_unlink_spec:
  assumes rep: "ll_rep h l (as @ a # bs)"
  obtains h' where "search_unlink l null a h = Some h'" "ll_rep h' l (as @ bs)"
    "map (item h') (as @ bs) = map (item h) (as @ bs)" "elems h' a = None"
    "dealloc_calls h' = dealloc_calls h @ (if null then dealloc_of h [a] else [])"
proof -
  from rep obtain s where s: "l \<noteq> 0" "lists h l = Some s" "path (nx h) (p_head s) (as @ a # bs)"
    "backs (pv h) 0 (as @ a # bs)" "p_tail s = last (0 # as @ a # bs)" "distinct (as @ a # bs)"
    "\<forall>b\<in>set (as @ a # bs). b \<noteq> 0 \<and> (\<exists>e. elems h b = Some e)"
    by (rule ll_repE)
  obtain e where e: "elems h a = Some e" "a \<noteq> 0" using s(7) by auto
  have prev: "el_prev e = last (0 # as)" using backs_mid [OF s(4)] e(1) by simp
  have tl: "path (nx h) (el_next e) bs" using path_drop [OF s(3)] e(1) by simp
  have asl: "as \<noteq> [] \<Longrightarrow> last as \<in> set as" by simp
  define h1 where "h1 = (if as = [] then h else put_elem (last as) (the (elems h (last as))\<lparr>el_next := el_next e\<rparr>) h)"
  define h2 where "h2 = (if bs = [] then h1 else put_elem (hd bs) (the (elems h1 (hd bs))\<lparr>el_prev := el_prev e\<rparr>) h1)"
  define s2 where "s2 = (let s = (if as = [] then s\<lparr>p_head := el_next e\<rparr> else s) in if bs = [] then s\<lparr>p_tail := el_prev e\<rparr> else s)"
  have hdbs: "bs = [] \<longleftrightarrow> el_next e = 0" "bs \<noteq> [] \<Longrightarrow> el_next e = hd bs" using tl by (cases bs; auto)+
  have prev0: "as = [] \<longleftrightarrow> el_prev e = 0" "as \<noteq> [] \<Longrightarrow> el_prev e = last as" using prev asl s(7) by auto
  have dj: "as \<noteq> [] \<Longrightarrow> last as \<noteq> a" "bs \<noteq> [] \<Longrightarrow> hd bs \<noteq> a" "as \<noteq> [] \<Longrightarrow> bs \<noteq> [] \<Longrightarrow> last as \<noteq> hd bs"
    using s(6) by (auto simp: disjoint_iff) (metis asl hd_in_set)
  have lin: "as \<noteq> [] \<Longrightarrow> last as \<in> set (as @ a # bs)" "bs \<noteq> [] \<Longrightarrow> hd bs \<in> set (as @ a # bs)" by simp_all
  have al: "\<exists>f. elems h (last as) = Some f" "last as \<noteq> 0" if "as \<noteq> []" using s(7) lin(1) [OF that] by blast+
  have bl: "\<exists>f. elems h (hd bs) = Some f" "hd bs \<noteq> 0" if "bs \<noteq> []" using s(7) lin(2) [OF that] by blast+
  have e1: "elems h1 a = Some e" unfolding h1_def using e(1) dj(1) by (cases "as = []") auto
  have e2: "elems h2 a = Some e" unfolding h2_def using e1 dj(2) by (cases "bs = []") auto
  define h3 where "h3 = put_elem a (e\<lparr>el_prev := 0, el_next := 0\<rparr>) (put_list l s2 h2)"
  define h4 where "h4 = (if null \<and> el_dealloc_func e \<noteq> 0 then call_dealloc e h3 else h3)"
  let ?h' = "h4\<lparr>elems := (elems h4)(a := None)\<rparr>"
  have l1: "lists h1 = lists h" "dealloc_calls h1 = dealloc_calls h" "lists h2 = lists h" "dealloc_calls h2 = dealloc_calls h"
    by (simp_all add: h1_def h2_def)
  have step1: "(if el_prev e = 0 then Some (s\<lparr>p_head := el_next e\<rparr>, h)
      else do { h \<leftarrow> upd_elem (el_prev e) (\<lambda>p. p\<lparr>el_next := el_next e\<rparr>) h; Some (s, h) })
      = Some (if as = [] then s\<lparr>p_head := el_next e\<rparr> else s, h1)"
    using prev0 al by (auto simp: h1_def)
  have bl1: "\<exists>f. elems h1 (hd bs) = Some f" if "bs \<noteq> []" using bl [OF that] by (auto simp: h1_def)
  have step2: "(if el_next e = 0 then Some (t\<lparr>p_tail := el_prev e\<rparr>, h1)
      else do { h \<leftarrow> upd_elem (el_next e) (\<lambda>n. n\<lparr>el_prev := el_prev e\<rparr>) h1; Some (t, h) })
      = Some (if bs = [] then t\<lparr>p_tail := el_prev e\<rparr> else t, h2)" for t
    using hdbs bl bl1 by (auto simp: h2_def)
  have el4: "elems h4 a = Some (e\<lparr>el_prev := 0, el_next := 0\<rparr>)" by (simp add: h4_def h3_def)
  have "search_unlink l null a h = Some ?h'"
  proof -
    have "free_elem a h4 = Some ?h'" using el4 e(2) by simp
    then have "free_elem a (if null \<and> el_dealloc_func e \<noteq> 0 then call_dealloc e h3 else h3) = Some ?h'"
      by (simp only: h4_def)
    then show ?thesis
      using s(1,2) e e2 step2 [of "if as = [] then s\<lparr>p_head := el_next e\<rparr> else s"]
      by (simp add: search_unlink_def step1 s2_def [symmetric, unfolded Let_def] h3_def [symmetric] Let_def)
  qed
  moreover have nx': "nx ?h' = (if as = [] then nx h else (nx h)(last as := nx h a))(a := 0)"
  proof -
    have "nx h1 = (if as = [] then nx h else (nx h)(last as := nx h a))" using e by (simp add: h1_def)
    moreover have "nx h2 = nx h1" using bl1 by (auto simp: h2_def fun_eq_iff)
    ultimately show ?thesis by (simp add: h4_def h3_def)
  qed
  moreover have pv': "pv ?h' = (if bs = [] then pv h else (pv h)(hd bs := last (0 # as)))(a := 0)"
  proof -
    have "pv h1 = pv h" using al by (auto simp: h1_def fun_eq_iff)
    then have "pv h2 = (if bs = [] then pv h else (pv h)(hd bs := last (0 # as)))" using prev by (simp add: h2_def)
    then show ?thesis by (simp add: h4_def h3_def)
  qed
  have it': "item ?h' = (item h)(a := (0, 0))"
  proof -
    have "item h1 = item h" using al by (auto simp: h1_def fun_eq_iff)
    moreover have "item h2 = item h1" using bl1 by (auto simp: h2_def fun_eq_iff)
    ultimately show ?thesis by (simp add: h4_def h3_def)
  qed
  have "ll_rep ?h' l (as @ bs)"
  proof (rule ll_repI [of _ _ s2])
    show "lists ?h' l = Some s2" by (simp add: h4_def h3_def)
    show "path (nx ?h') (p_head s2) (as @ bs)"
    proof (cases "as = []")
      case True
      then show ?thesis unfolding nx' using tl s(6) by (auto simp: s2_def Let_def)
    next
      case False
      then show ?thesis unfolding nx' using path_remove [OF s(3) False s(6), of 0] by (auto simp: s2_def Let_def simp del: fun_upd_apply)
    qed
    show "backs (pv ?h') 0 (as @ bs)"
    proof (cases bs)
      case Nil
      then show ?thesis unfolding pv' using backs_remove_last [of "pv h" 0 as a] s(4,6) by simp
    next
      case (Cons b cs)
      then show ?thesis unfolding pv' using backs_remove_mid [of "pv h" 0 as a b cs] s(4,6) by simp
    qed
    show "p_tail s2 = last (0 # as @ bs)" using s(5) prev by (auto simp: s2_def Let_def)
    show "distinct (as @ bs)" using s(6) by simp
    show "x \<noteq> 0 \<and> elems ?h' x \<noteq> None" if "x \<in> set (as @ bs)" for x
    proof -
      have x: "x \<in> set (as @ a # bs)" "x \<noteq> a" using that s(6) by auto
      then obtain f where f: "x \<noteq> 0" "elems h x = Some f" using s(7) by blast
      have "elems h1 x \<noteq> None" unfolding h1_def using f(2) by simp
      then have "elems h2 x \<noteq> None" unfolding h2_def by simp
      then have "elems h4 x \<noteq> None" by (simp add: h4_def h3_def x(2))
      with f(1) x(2) show ?thesis by simp
    qed
  qed (rule s(1))
  moreover have "map (item ?h') (as @ bs) = map (item h) (as @ bs)" unfolding it' using s(6) by auto
  moreover have "dealloc_calls ?h' = dealloc_calls h @ (if null then dealloc_of h [a] else [])"
    using e(1) l1 by (simp add: h4_def h3_def dealloc_of_def)
  ultimately show ?thesis by (intro that [of ?h']) simp_all
qed

lemma find_split:
  "find P ps = Some a \<Longrightarrow> \<exists>as bs. ps = as @ a # bs \<and> P a \<and> (\<forall>x\<in>set as. \<not> P x)"
proof (induction ps)
  case (Cons b ps)
  show ?case
  proof (cases "P b")
    case True
    with Cons.prems show ?thesis by (intro exI [of _ "[]"] exI [of _ ps]) simp
  next
    case False
    with Cons obtain as bs where "ps = as @ a # bs \<and> P a \<and> (\<forall>x\<in>set as. \<not> P x)" by auto
    with False show ?thesis by (intro exI [of _ "b # as"] exI [of _ bs]) simp
  qed
qed simp

lemma search_finds:
  assumes rep: "ll_rep h l ps" and ne: "ps \<noteq> []"
  shows "linked_list_search l null (Some eq) d rm h =
    (case find (\<lambda>a. eq d (fst (item h a))) ps of
       None \<Rightarrow> Some (eLINKED_LIST_SUCCESS, if null then None else Some 0, h)
     | Some a \<Rightarrow> do { h' \<leftarrow> (if rm then search_unlink l null a h else Some h);
                     Some (eLINKED_LIST_SUCCESS, if null then None else Some (fst (item h a)), h') })"
proof -
  from rep obtain s where s: "l \<noteq> 0" "lists h l = Some s" "path (nx h) (p_head s) ps" "backs (pv h) 0 ps"
    "p_tail s = last (0 # ps)" "distinct ps" "\<forall>a\<in>set ps. a \<noteq> 0 \<and> (\<exists>e. elems h a = Some e)"
    by (rule ll_repE)
  have "last ps \<in> set ps" using ne by simp
  then have tail: "p_tail s \<noteq> 0" using s(5,7) ne by auto
  note loop = search_loop_spec [OF s(3,7), of eq d]
  show ?thesis
  proof (cases "find (\<lambda>a. eq d (fst (item h a))) ps")
    case None
    then show ?thesis using s(1,2) tail loop by (simp add: linked_list_search_def)
  next
    case (Some a)
    then have "a \<in> set ps" using find_split by fastforce
    then obtain e where "a \<noteq> 0" "elems h a = Some e" using s(7) by auto
    then show ?thesis using s(1,2) tail loop Some by (simp add: linked_list_search_def)
  qed
qed

lemma search_missing:
  assumes "ll_rep h l ps" "ps \<noteq> []" "\<forall>a\<in>set ps. \<not> eq d (fst (item h a))"
  shows "linked_list_search l null (Some eq) d rm h = Some (eLINKED_LIST_SUCCESS, if null then None else Some 0, h)"
proof -
  have "find (\<lambda>a. eq d (fst (item h a))) ps = None" using assms(3) by (simp add: find_None_iff)
  then show ?thesis by (simp add: search_finds [OF assms(1,2)])
qed

lemma search_first:
  assumes rep: "ll_rep h l (as @ a # bs)" and eq: "eq d (fst (item h a))" "\<forall>b\<in>set as. \<not> eq d (fst (item h b))"
  shows "linked_list_search l null (Some eq) d False h =
      Some (eLINKED_LIST_SUCCESS, if null then None else Some (fst (item h a)), h)"
    "\<exists>h'. linked_list_search l null (Some eq) d True h =
      Some (eLINKED_LIST_SUCCESS, if null then None else Some (fst (item h a)), h') \<and>
      ll_rep h' l (as @ bs) \<and> map (item h') (as @ bs) = map (item h) (as @ bs) \<and> elems h' a = None \<and>
      dealloc_calls h' = dealloc_calls h @ (if null then dealloc_of h [a] else [])"
proof -
  have "find (\<lambda>a. eq d (fst (item h a))) (as @ a # bs) = Some a"
    using eq by (induction as) auto
  note f = search_finds [OF rep, of null eq d, unfolded this]
  show "linked_list_search l null (Some eq) d False h =
      Some (eLINKED_LIST_SUCCESS, if null then None else Some (fst (item h a)), h)"
    using f [of False] by simp
  obtain h' where "search_unlink l null a h = Some h'" "ll_rep h' l (as @ bs)"
    "map (item h') (as @ bs) = map (item h) (as @ bs)" "elems h' a = None"
    "dealloc_calls h' = dealloc_calls h @ (if null then dealloc_of h [a] else [])"
    by (rule search_unlink_spec [OF rep])
  then show "\<exists>h'. linked_list_search l null (Some eq) d True h =
      Some (eLINKED_LIST_SUCCESS, if null then None else Some (fst (item h a)), h') \<and>
      ll_rep h' l (as @ bs) \<and> map (item h') (as @ bs) = map (item h) (as @ bs) \<and> elems h' a = None \<and>
      dealloc_calls h' = dealloc_calls h @ (if null then dealloc_of h [a] else [])"
    using f [of True] by (intro exI [of _ h']) simp
qed

end
