(* ===== verification/Msg_Q.thy ===== *)
theory Msg_Q
  imports Linked_List
begin

text \<open>
  The message queue of the GPS utilities (gps/utils/msg_q.c), a linked list with a mutex, a
  condition variable and an unblocked flag. Every function runs under the mutex from its first
  access to the queue to its end, but for \<open>pthread_cond_wait\<close> in \<open>msg_q_rcv\<close>, which gives
  the mutex up; so \<open>msg_q_rcv\<close> is two atomic pieces, the entry and the return from a wait.
  The condition variable is the list of threads that wait and the list of threads that have
  been woken and have not run yet; which threads a signal wakes is an argument. The locale
  \<open>message_store\<close> states first-in first-out order as an interface; the linked list and the
  message queue are both interpreted.
\<close>

section \<open>First in, first out\<close>

locale message_store =
  fixes rep :: "'s \<Rightarrow> 'm list \<Rightarrow> bool"
    and can_put :: "'c \<Rightarrow> 'm \<Rightarrow> 's \<Rightarrow> bool"
    and put :: "'c \<Rightarrow> 'm \<Rightarrow> 's \<Rightarrow> 's option"
    and take_one :: "'s \<Rightarrow> ('d \<times> 's) option"
    and data :: "'m \<Rightarrow> 'd"
  assumes put_law: "rep s xs \<Longrightarrow> can_put c x s \<Longrightarrow> \<exists>s'. put c x s = Some s' \<and> rep s' (xs @ [x])"
    and take_law: "rep s (x # xs) \<Longrightarrow> \<exists>s'. take_one s = Some (data x, s') \<and> rep s' xs"
begin

text \<open>A run of puts (each with its allocation) and takes, and what it takes out.\<close>

fun run :: "('c \<times> 'm) option list \<Rightarrow> 's \<Rightarrow> ('d list \<times> 's) option" where
  "run [] s = Some ([], s)"
| "run (Some (c, x) # ops) s =
     (if can_put c x s then do { s \<leftarrow> put c x s; run ops s } else None)"
| "run (None # ops) s =
     do { (d, s) \<leftarrow> take_one s; (ds, s) \<leftarrow> run ops s; Some (d # ds, s) }"

text \<open>The same run on a list.\<close>

fun list_run :: "('c \<times> 'm) option list \<Rightarrow> 'm list \<Rightarrow> 'm list \<times> 'm list" where
  "list_run [] xs = ([], xs)"
| "list_run (Some (c, x) # ops) xs = list_run ops (xs @ [x])"
| "list_run (None # ops) [] = ([], [])"
| "list_run (None # ops) (x # xs) = (let (out, left) = list_run ops xs in (x # out, left))"

fun never_empty :: "('c \<times> 'm) option list \<Rightarrow> 'm list \<Rightarrow> bool" where
  "never_empty [] xs \<longleftrightarrow> True"
| "never_empty (Some (c, x) # ops) xs \<longleftrightarrow> never_empty ops (xs @ [x])"
| "never_empty (None # ops) [] \<longleftrightarrow> False"
| "never_empty (None # ops) (x # xs) \<longleftrightarrow> never_empty ops xs"

lemma run_refines:
  "rep s xs \<Longrightarrow> never_empty ops xs \<Longrightarrow> run ops s = Some (ds, s') \<Longrightarrow>
   ds = map data (fst (list_run ops xs)) \<and> rep s' (snd (list_run ops xs))"
proof (induction ops xs arbitrary: s ds rule: list_run.induct)
  case (2 c x ops xs)
  then have c: "can_put c x s" by (auto split: if_splits)
  obtain s1 where s1: "put c x s = Some s1" "rep s1 (xs @ [x])" using put_law [OF 2(2) c] by blast
  with c have "run ops s1 = Some (ds, s')" using 2 by simp
  then show ?case using 2(1) [OF s1(2)] 2(3) by simp
next
  case (4 ops x xs)
  obtain s1 where s1: "take_one s = Some (data x, s1)" "rep s1 xs" using take_law [OF 4(2)] by blast
  then obtain es where es: "run ops s1 = Some (es, s')" "ds = data x # es" using 4(4) by (auto split: bind_splits)
  have "never_empty ops xs" using 4(3) by simp
  from 4(1) [OF s1(2) this es(1)] es(2) show ?case by (simp add: case_prod_beta Let_def)
qed auto

lemma list_run_order: "never_empty ops xs \<Longrightarrow>
   fst (list_run ops xs) @ snd (list_run ops xs) = xs @ [x. Some (c, x) \<leftarrow> ops]"
  by (induction ops xs rule: list_run.induct) (auto simp: case_prod_beta Let_def)

text \<open>What is taken out, followed by what is left, is what was there and was put, in order.\<close>

lemma run_fifo:
  assumes "rep s xs" "never_empty ops xs" "run ops s = Some (ds, s')"
  obtains ys where "rep s' ys" "ds @ map data ys = map data (xs @ [x. Some (c, x) \<leftarrow> ops])"
proof -
  let ?o = "fst (list_run ops xs)" and ?l = "snd (list_run ops xs)"
  have "ds = map data ?o" "rep s' ?l" using run_refines [OF assms] by auto
  moreover have "map data (?o @ ?l) = map data (xs @ [x. Some (c, x) \<leftarrow> ops])"
    using list_run_order [OF assms(2)] by simp
  ultimately show ?thesis by (intro that [of ?l]) simp_all
qed

end

section \<open>The linked list as a store of messages\<close>

definition ll_items :: "nat \<Rightarrow> ll_heap \<Rightarrow> (nat \<times> nat) list \<Rightarrow> bool" where
  "ll_items l h xs \<longleftrightarrow> (\<exists>ps. ll_rep h l ps \<and> xs = rev (map (item h) ps))"

definition fresh_elem :: "nat \<Rightarrow> ll_heap \<Rightarrow> bool" where
  "fresh_elem mem h \<longleftrightarrow> mem \<noteq> NULL \<and> elems h mem = None"

definition ll_put :: "nat \<Rightarrow> nat \<Rightarrow> nat \<times> nat \<Rightarrow> ll_heap \<Rightarrow> ll_heap option" where
  "ll_put l mem x h =
     do { (r, h) \<leftarrow> linked_list_add mem l (fst x) (snd x) h;
          if r = eLINKED_LIST_SUCCESS then Some h else None }"

definition ll_take :: "nat \<Rightarrow> ll_heap \<Rightarrow> (nat \<times> ll_heap) option" where
  "ll_take l h =
     do { (r, d, h) \<leftarrow> linked_list_remove l False h; d \<leftarrow> d;
          if r = eLINKED_LIST_SUCCESS then Some (d, h) else None }"

lemma ll_put_law:
  assumes "ll_items l h xs" "fresh_elem mem h \<and> fst x \<noteq> NULL"
  shows "\<exists>h'. ll_put l mem x h = Some h' \<and> ll_items l h' (xs @ [x])"
proof -
  obtain ps where ps: "ll_rep h l ps" "xs = rev (map (item h) ps)" using assms by (auto simp: ll_items_def)
  have m: "mem \<noteq> 0" "elems h mem = None" "fst x \<noteq> 0" using assms by (auto simp: fresh_elem_def)
  obtain h' where h': "linked_list_add mem l (fst x) (snd x) h = Some (eLINKED_LIST_SUCCESS, h')"
    "ll_rep h' l (mem # ps)" "map (item h') (mem # ps) = (fst x, snd x) # map (item h) ps"
    by (rule linked_list_add_spec [OF ps(1) m])
  then show ?thesis using ps(2)
    by (intro exI [of _ h']) (auto simp: ll_put_def ll_items_def intro!: exI [of _ "mem # ps"])
qed

lemma ll_take_law:
  assumes "ll_items l h (x # xs)"
  shows "\<exists>h'. ll_take l h = Some (fst x, h') \<and> ll_items l h' xs"
proof -
  obtain ps where ps: "ll_rep h l ps" "rev (map (item h) ps) = x # xs" using assms unfolding ll_items_def by metis
  then obtain a qs where qs: "ps = qs @ [a]" by (cases ps rule: rev_cases) auto
  obtain h' where h': "linked_list_remove l False h = Some (eLINKED_LIST_SUCCESS, Some (fst (item h a)), h')"
    "ll_rep h' l qs" "map (item h') qs = map (item h) qs"
    by (rule linked_list_remove_spec [OF ps(1) [unfolded qs]])
  then show ?thesis using ps(2) qs
    by (intro exI [of _ h']) (auto simp: ll_take_def ll_items_def)
qed

interpretation ls: message_store "ll_items l" "\<lambda>mem x h. fresh_elem mem h \<and> fst x \<noteq> NULL" "ll_put l" "ll_take l" fst
  for l
  by unfold_locales (fact ll_put_law ll_take_law)+

section \<open>The message queue\<close>

datatype msq_q_err_type =
    eMSG_Q_SUCCESS | eMSG_Q_FAILURE_GENERAL | eMSG_Q_INVALID_PARAMETER
  | eMSG_Q_INVALID_HANDLE | eMSG_Q_UNAVAILABLE_RESOURCE | eMSG_Q_INSUFFICIENT_BUFFER

record msg_q =
  msg_list :: nat
  cond_waiting :: "nat list"
  cond_woken :: "nat list"
  unblocked :: bool

record mq_state =
  mq_ll :: ll_heap
  mq_queues :: "nat \<Rightarrow> msg_q option"

fun convert_linked_list_err_type :: "linked_list_err_type \<Rightarrow> msq_q_err_type" where
  "convert_linked_list_err_type eLINKED_LIST_SUCCESS = eMSG_Q_SUCCESS"
| "convert_linked_list_err_type eLINKED_LIST_INVALID_PARAMETER = eMSG_Q_INVALID_PARAMETER"
| "convert_linked_list_err_type eLINKED_LIST_INVALID_HANDLE = eMSG_Q_INVALID_HANDLE"
| "convert_linked_list_err_type eLINKED_LIST_UNAVAILABLE_RESOURCE = eMSG_Q_UNAVAILABLE_RESOURCE"
| "convert_linked_list_err_type eLINKED_LIST_INSUFFICIENT_BUFFER = eMSG_Q_INSUFFICIENT_BUFFER"
| "convert_linked_list_err_type eLINKED_LIST_FAILURE_GENERAL = eMSG_Q_FAILURE_GENERAL"

definition get_q :: "mq_state \<Rightarrow> nat \<Rightarrow> msg_q option" where
  "get_q s q = (if q = NULL then None else mq_queues s q)"

definition put_q :: "nat \<Rightarrow> msg_q \<Rightarrow> mq_state \<Rightarrow> mq_state" where
  "put_q q m s = s\<lparr>mq_queues := (mq_queues s)(q := Some m)\<rparr>"

text \<open>
  \<open>pthread_cond_signal\<close> wakes the threads \<open>wake\<close>, at least one when one waits
  (\<open>wake_ok\<close>); \<open>pthread_cond_broadcast\<close> wakes all.
\<close>

definition wake_ok :: "nat list \<Rightarrow> msg_q \<Rightarrow> bool" where
  "wake_ok wake m \<longleftrightarrow> distinct wake \<and> set wake \<subseteq> set (cond_waiting m) \<and> (cond_waiting m \<noteq> [] \<longrightarrow> wake \<noteq> [])"

definition cond_signal :: "nat list \<Rightarrow> msg_q \<Rightarrow> msg_q" where
  "cond_signal wake m = m\<lparr>cond_waiting := filter (\<lambda>t. t \<notin> set wake) (cond_waiting m),
                           cond_woken := cond_woken m @ wake\<rparr>"

definition cond_broadcast :: "msg_q \<Rightarrow> msg_q" where
  "cond_broadcast m = cond_signal (cond_waiting m) m"

section \<open>Operations\<close>

text \<open>
  \<open>mem_q\<close> and \<open>mem_l\<close> are the results of the two allocations, \<open>mutex_rc\<close> and
  \<open>cond_rc\<close> those of the two pthread initialisations.
\<close>

definition msg_q_init ::
  "nat \<Rightarrow> nat \<Rightarrow> int \<Rightarrow> int \<Rightarrow> bool \<Rightarrow> mq_state \<Rightarrow> (msq_q_err_type \<times> nat option \<times> mq_state) option" where
  "msg_q_init mem_q mem_l mutex_rc cond_rc msg_q_data_null s =
     (if msg_q_data_null then Some (eMSG_Q_INVALID_PARAMETER, None, s)
      else if mem_q = NULL then Some (eMSG_Q_FAILURE_GENERAL, None, s)
      else let (rc, list_data, h) = linked_list_init mem_l False (mq_ll s)
      in (case list_data of
            None \<Rightarrow> Some (eMSG_Q_FAILURE_GENERAL, None, s\<lparr>mq_ll := h\<rparr>)
          | Some l \<Rightarrow>
              if mutex_rc \<noteq> 0 \<or> cond_rc \<noteq> 0
              then do { (r, p, h) \<leftarrow> linked_list_destroy (Some l) h;
                        Some (eMSG_Q_FAILURE_GENERAL, None, s\<lparr>mq_ll := h\<rparr>) }
              else Some (eMSG_Q_SUCCESS, Some mem_q,
                     put_q mem_q \<lparr>msg_list = l, cond_waiting = [], cond_woken = [], unblocked = False\<rparr>
                       (s\<lparr>mq_ll := h\<rparr>))))"

definition msg_q_init2 :: "nat \<Rightarrow> nat \<Rightarrow> int \<Rightarrow> int \<Rightarrow> mq_state \<Rightarrow> (nat \<times> mq_state) option" where
  "msg_q_init2 mem_q mem_l mutex_rc cond_rc s =
     do { (r, q, s) \<leftarrow> msg_q_init mem_q mem_l mutex_rc cond_rc False s;
          Some (if r \<noteq> eMSG_Q_SUCCESS then NULL else case q of None \<Rightarrow> NULL | Some q \<Rightarrow> q, s) }"

definition msg_q_destroy :: "nat option \<Rightarrow> mq_state \<Rightarrow> (msq_q_err_type \<times> nat option \<times> mq_state) option" where
  "msg_q_destroy msg_q_data s =
     (case msg_q_data of
        None \<Rightarrow> Some (eMSG_Q_INVALID_HANDLE, None, s)
      | Some q \<Rightarrow> do {
          m \<leftarrow> get_q s q;
          (r, p, h) \<leftarrow> linked_list_destroy (Some (msg_list m)) (mq_ll s);
          Some (eMSG_Q_SUCCESS, Some NULL, s\<lparr>mq_ll := h, mq_queues := (mq_queues s)(q := None)\<rparr>)
        })"

definition msg_q_snd ::
  "nat \<Rightarrow> nat list \<Rightarrow> nat \<Rightarrow> nat \<Rightarrow> nat \<Rightarrow> mq_state \<Rightarrow> (msq_q_err_type \<times> mq_state) option" where
  "msg_q_snd mem wake msg_q_data msg_obj dealloc s =
     (if msg_q_data = NULL then Some (eMSG_Q_INVALID_HANDLE, s)
      else if msg_obj = NULL then Some (eMSG_Q_INVALID_PARAMETER, s)
      else do {
        m \<leftarrow> get_q s msg_q_data;
        if unblocked m then Some (eMSG_Q_UNAVAILABLE_RESOURCE, s)
        else do {
          (rv, h) \<leftarrow> linked_list_add mem (msg_list m) msg_obj dealloc (mq_ll s);
          Some (convert_linked_list_err_type rv, put_q msg_q_data (cond_signal wake m) (s\<lparr>mq_ll := h\<rparr>))
        }
      })"

text \<open>A receive ends with a code and the message, or the thread waits.\<close>

datatype rcv_result = RCV_DONE msq_q_err_type "nat option" | RCV_WAIT

text \<open>The test of the while loop, and what follows it when it fails.\<close>

definition rcv_check :: "nat \<Rightarrow> nat \<Rightarrow> mq_state \<Rightarrow> (rcv_result \<times> mq_state) option" where
  "rcv_check tid q s =
     do {
       m \<leftarrow> get_q s q;
       e \<leftarrow> linked_list_empty (msg_list m) (mq_ll s);
       if e \<noteq> 0 \<and> \<not> unblocked m
       then Some (RCV_WAIT, put_q q (m\<lparr>cond_waiting := cond_waiting m @ [tid]\<rparr>) s)
       else do {
         (rv, d, h) \<leftarrow> linked_list_remove (msg_list m) False (mq_ll s);
         Some (RCV_DONE (convert_linked_list_err_type rv) d, s\<lparr>mq_ll := h\<rparr>)
       }
     }"

definition msg_q_rcv :: "nat \<Rightarrow> nat \<Rightarrow> bool \<Rightarrow> mq_state \<Rightarrow> (rcv_result \<times> mq_state) option" where
  "msg_q_rcv tid msg_q_data msg_obj_null s =
     (if msg_q_data = NULL then Some (RCV_DONE eMSG_Q_INVALID_HANDLE None, s)
      else if msg_obj_null then Some (RCV_DONE eMSG_Q_INVALID_PARAMETER None, s)
      else do {
        m \<leftarrow> get_q s msg_q_data;
        if unblocked m then Some (RCV_DONE eMSG_Q_UNAVAILABLE_RESOURCE None, s)
        else rcv_check tid msg_q_data s
      })"

text \<open>The return from \<open>pthread_cond_wait\<close>, after a wake-up or spuriously.\<close>

definition msg_q_rcv_resume :: "nat \<Rightarrow> nat \<Rightarrow> mq_state \<Rightarrow> (rcv_result \<times> mq_state) option" where
  "msg_q_rcv_resume tid q s =
     do {
       m \<leftarrow> get_q s q;
       rcv_check tid q (put_q q (m\<lparr>cond_waiting := removeAll tid (cond_waiting m),
                                    cond_woken := removeAll tid (cond_woken m)\<rparr>) s)
     }"

definition msg_q_flush :: "nat \<Rightarrow> mq_state \<Rightarrow> (msq_q_err_type \<times> mq_state) option" where
  "msg_q_flush msg_q_data s =
     (if msg_q_data = NULL then Some (eMSG_Q_INVALID_HANDLE, s)
      else do {
        m \<leftarrow> get_q s msg_q_data;
        (rv, h) \<leftarrow> linked_list_flush (msg_list m) (mq_ll s);
        Some (convert_linked_list_err_type rv, s\<lparr>mq_ll := h\<rparr>)
      })"

definition msg_q_unblock :: "nat \<Rightarrow> mq_state \<Rightarrow> (msq_q_err_type \<times> mq_state) option" where
  "msg_q_unblock msg_q_data s =
     (if msg_q_data = NULL then Some (eMSG_Q_INVALID_HANDLE, s)
      else do {
        m \<leftarrow> get_q s msg_q_data;
        if unblocked m then Some (eMSG_Q_UNAVAILABLE_RESOURCE, s)
        else Some (eMSG_Q_SUCCESS, put_q msg_q_data (cond_broadcast (m\<lparr>unblocked := True\<rparr>)) s)
      })"

section \<open>What the operations do\<close>

definition mq_rep :: "mq_state \<Rightarrow> nat \<Rightarrow> msg_q \<Rightarrow> nat list \<Rightarrow> bool" where
  "mq_rep s q m ps \<longleftrightarrow> q \<noteq> NULL \<and> mq_queues s q = Some m \<and> ll_rep (mq_ll s) (msg_list m) ps"

text \<open>The messages in the queue, oldest first.\<close>

definition messages :: "mq_state \<Rightarrow> nat list \<Rightarrow> (nat \<times> nat) list" where
  "messages s ps = rev (map (item (mq_ll s)) ps)"

lemma mq_simps [simp]:
  "mq_ll (put_q q m s) = mq_ll s" "mq_queues (put_q q m s) = (mq_queues s)(q := Some m)"
  "q \<noteq> 0 \<Longrightarrow> get_q s q = mq_queues s q"
  "msg_list (cond_signal w m) = msg_list m" "unblocked (cond_signal w m) = unblocked m"
  "cond_waiting (cond_broadcast m) = []" "cond_woken (cond_broadcast m) = cond_woken m @ cond_waiting m"
  "msg_list (cond_broadcast m) = msg_list m" "unblocked (cond_broadcast m) = unblocked m"
  by (simp_all add: put_q_def get_q_def cond_signal_def cond_broadcast_def)

lemma convert_success [simp]: "convert_linked_list_err_type r = eMSG_Q_SUCCESS \<longleftrightarrow> r = eLINKED_LIST_SUCCESS"
  by (cases r) simp_all

lemma msg_q_init_spec:
  assumes "mem_q \<noteq> 0" "mem_l \<noteq> 0"
  obtains s' m where "msg_q_init mem_q mem_l 0 0 False s = Some (eMSG_Q_SUCCESS, Some mem_q, s')"
    "mq_rep s' mem_q m []" "\<not> unblocked m" "cond_waiting m = []" "cond_woken m = []"
proof -
  let ?m = "\<lparr>msg_list = mem_l, cond_waiting = [], cond_woken = [], unblocked = False\<rparr>"
  show ?thesis
    by (rule that [of "put_q mem_q ?m (s\<lparr>mq_ll := put_list mem_l \<lparr>p_head = 0, p_tail = 0\<rparr> (mq_ll s)\<rparr>)" ?m])
      (use assms linked_list_init_spec [OF assms(2), of "mq_ll s"] in \<open>simp_all add: msg_q_init_def mq_rep_def\<close>)
qed

lemma msg_q_snd_spec:
  assumes rep: "mq_rep s q m ps" and u: "\<not> unblocked m" and mem: "fresh_elem mem (mq_ll s)" and o: "obj \<noteq> 0"
  obtains s' where "msg_q_snd mem wake q obj f s = Some (eMSG_Q_SUCCESS, s')" "mq_rep s' q (cond_signal wake m) (mem # ps)"
    "messages s' (mem # ps) = messages s ps @ [(obj, f)]"
proof -
  have r: "q \<noteq> 0" "mq_queues s q = Some m" "ll_rep (mq_ll s) (msg_list m) ps" using rep by (auto simp: mq_rep_def)
  have m: "mem \<noteq> 0" "elems (mq_ll s) mem = None" using mem by (auto simp: fresh_elem_def)
  obtain h where h: "linked_list_add mem (msg_list m) obj f (mq_ll s) = Some (eLINKED_LIST_SUCCESS, h)"
    "ll_rep h (msg_list m) (mem # ps)" "map (item h) (mem # ps) = (obj, f) # map (item (mq_ll s)) ps"
    by (rule linked_list_add_spec [OF r(3) m o])
  show ?thesis
    by (rule that [of "put_q q (cond_signal wake m) (s\<lparr>mq_ll := h\<rparr>)"])
      (use r u o h in \<open>auto simp: msg_q_snd_def mq_rep_def messages_def\<close>)
qed

lemma msg_q_snd_no_memory:
  assumes rep: "mq_rep s q m ps" and u: "\<not> unblocked m" and o: "obj \<noteq> 0"
  shows "msg_q_snd 0 wake q obj f s = Some (eMSG_Q_FAILURE_GENERAL, put_q q (cond_signal wake m) s)"
proof -
  have "get_list (mq_ll s) (msg_list m) \<noteq> None" "q \<noteq> 0" "mq_queues s q = Some m"
    using rep by (auto simp: mq_rep_def ll_rep_def)
  then have "msg_list m \<noteq> 0" "q \<noteq> 0" "mq_queues s q = Some m" by (auto simp: get_list_def split: if_splits)
  moreover have "s\<lparr>mq_ll := mq_ll s\<rparr> = s" by simp
  ultimately show ?thesis using u o by (simp add: msg_q_snd_def linked_list_add_def)
qed

lemma msg_q_snd_unblocked:
  "mq_rep s q m ps \<Longrightarrow> unblocked m \<Longrightarrow> obj \<noteq> 0 \<Longrightarrow> msg_q_snd mem wake q obj f s = Some (eMSG_Q_UNAVAILABLE_RESOURCE, s)"
  by (simp add: msg_q_snd_def mq_rep_def)

lemma rcv_check_wait:
  assumes "mq_rep s q m []" "\<not> unblocked m"
  shows "rcv_check tid q s = Some (RCV_WAIT, put_q q (m\<lparr>cond_waiting := cond_waiting m @ [tid]\<rparr>) s)"
  using assms linked_list_empty_spec by (fastforce simp: rcv_check_def mq_rep_def)

lemma rcv_check_unblocked:
  assumes "mq_rep s q m []" "unblocked m"
  shows "rcv_check tid q s = Some (RCV_DONE eMSG_Q_UNAVAILABLE_RESOURCE None, s)"
proof -
  have r: "q \<noteq> 0" "mq_queues s q = Some m" "ll_rep (mq_ll s) (msg_list m) []" using assms(1) by (auto simp: mq_rep_def)
  show ?thesis
    using r assms(2) linked_list_empty_spec [OF r(3)] linked_list_remove_empty [OF r(3)] by (simp add: rcv_check_def)
qed

lemma rcv_check_message:
  assumes rep: "mq_rep s q m (ps @ [a])"
  obtains s' where "rcv_check tid q s = Some (RCV_DONE eMSG_Q_SUCCESS (Some (fst (hd (messages s (ps @ [a]))))), s')"
    "mq_rep s' q m ps" "messages s (ps @ [a]) = hd (messages s (ps @ [a])) # messages s' ps"
proof -
  have r: "q \<noteq> 0" "mq_queues s q = Some m" "ll_rep (mq_ll s) (msg_list m) (ps @ [a])" using rep by (auto simp: mq_rep_def)
  obtain h where h: "linked_list_remove (msg_list m) False (mq_ll s) = Some (eLINKED_LIST_SUCCESS, Some (fst (item (mq_ll s) a)), h)"
    "ll_rep h (msg_list m) ps" "map (item h) ps = map (item (mq_ll s)) ps"
    by (rule linked_list_remove_spec [OF r(3)])
  show ?thesis
    by (rule that [of "s\<lparr>mq_ll := h\<rparr>"])
      (use r h linked_list_empty_spec [OF r(3)] in \<open>simp_all add: rcv_check_def mq_rep_def messages_def\<close>)
qed

lemma msg_q_rcv_blocked:
  "mq_rep s q m ps \<Longrightarrow> unblocked m \<Longrightarrow> msg_q_rcv tid q False s = Some (RCV_DONE eMSG_Q_UNAVAILABLE_RESOURCE None, s)"
  by (simp add: msg_q_rcv_def mq_rep_def)

lemma msg_q_rcv_open:
  "mq_rep s q m ps \<Longrightarrow> \<not> unblocked m \<Longrightarrow> msg_q_rcv tid q False s = rcv_check tid q s"
  by (simp add: msg_q_rcv_def mq_rep_def)

lemma msg_q_flush_spec:
  assumes rep: "mq_rep s q m ps"
  obtains s' where "msg_q_flush q s = Some (eMSG_Q_SUCCESS, s')" "mq_rep s' q m []"
    "dealloc_calls (mq_ll s') = dealloc_calls (mq_ll s) @ dealloc_of (mq_ll s) ps"
proof -
  have r: "q \<noteq> 0" "mq_queues s q = Some m" "ll_rep (mq_ll s) (msg_list m) ps" using rep by (auto simp: mq_rep_def)
  obtain h where h: "linked_list_flush (msg_list m) (mq_ll s) = Some (eLINKED_LIST_SUCCESS, h)" "ll_rep h (msg_list m) []"
    "dealloc_calls h = dealloc_calls (mq_ll s) @ dealloc_of (mq_ll s) ps"
    by (rule linked_list_flush_spec [OF r(3)])
  show ?thesis by (rule that [of "s\<lparr>mq_ll := h\<rparr>"]) (use r h in \<open>simp_all add: msg_q_flush_def mq_rep_def\<close>)
qed

lemma msg_q_unblock_spec:
  assumes rep: "mq_rep s q m ps" and u: "\<not> unblocked m"
  shows "msg_q_unblock q s = Some (eMSG_Q_SUCCESS, put_q q (cond_broadcast (m\<lparr>unblocked := True\<rparr>)) s)"
    "mq_rep (put_q q (cond_broadcast (m\<lparr>unblocked := True\<rparr>)) s) q (cond_broadcast (m\<lparr>unblocked := True\<rparr>)) ps"
  using assms by (simp_all add: msg_q_unblock_def mq_rep_def)

section \<open>The queue as a store of messages\<close>

definition mq_items :: "nat \<Rightarrow> mq_state \<Rightarrow> (nat \<times> nat) list \<Rightarrow> bool" where
  "mq_items q s xs \<longleftrightarrow> (\<exists>m ps. mq_rep s q m ps \<and> \<not> unblocked m \<and> xs = messages s ps)"

definition mq_put :: "nat \<Rightarrow> nat \<times> nat list \<Rightarrow> nat \<times> nat \<Rightarrow> mq_state \<Rightarrow> mq_state option" where
  "mq_put q c x s =
     do { (r, s) \<leftarrow> msg_q_snd (fst c) (snd c) q (fst x) (snd x) s; if r = eMSG_Q_SUCCESS then Some s else None }"

definition mq_take :: "nat \<Rightarrow> nat \<Rightarrow> mq_state \<Rightarrow> (nat \<times> mq_state) option" where
  "mq_take q tid s =
     do { (r, s) \<leftarrow> msg_q_rcv tid q False s;
          case r of RCV_DONE e (Some d) \<Rightarrow> (if e = eMSG_Q_SUCCESS then Some (d, s) else None) | _ \<Rightarrow> None }"

lemma mq_put_law:
  assumes "mq_items q s xs" "fresh_elem (fst c) (mq_ll s) \<and> fst x \<noteq> NULL"
  shows "\<exists>s'. mq_put q c x s = Some s' \<and> mq_items q s' (xs @ [x])"
proof -
  obtain m ps where r: "mq_rep s q m ps" "\<not> unblocked m" "xs = messages s ps" using assms(1) by (auto simp: mq_items_def)
  obtain s' where s': "msg_q_snd (fst c) (snd c) q (fst x) (snd x) s = Some (eMSG_Q_SUCCESS, s')"
    "mq_rep s' q (cond_signal (snd c) m) (fst c # ps)" "messages s' (fst c # ps) = messages s ps @ [(fst x, snd x)]"
    using assms(2) by (metis msg_q_snd_spec [OF r(1,2)])
  then show ?thesis
    using r by (intro exI [of _ s']) (auto simp: mq_put_def mq_items_def intro!: exI [of _ "cond_signal (snd c) m"] exI [of _ "fst c # ps"])
qed

lemma mq_take_law:
  assumes "mq_items q s (x # xs)"
  shows "\<exists>s'. mq_take q tid s = Some (fst x, s') \<and> mq_items q s' xs"
proof -
  obtain m ps where r: "mq_rep s q m ps" "\<not> unblocked m" "messages s ps = x # xs"
    using assms unfolding mq_items_def by metis
  then obtain a qs where qs: "ps = qs @ [a]" by (cases ps rule: rev_cases) (auto simp: messages_def)
  obtain s' where "rcv_check tid q s = Some (RCV_DONE eMSG_Q_SUCCESS (Some (fst (hd (messages s ps)))), s')"
    "mq_rep s' q m qs" "messages s ps = hd (messages s ps) # messages s' qs"
    using rcv_check_message [OF r(1) [unfolded qs], of tid] unfolding qs by metis
  then show ?thesis
    using r msg_q_rcv_open [OF r(1,2)] by (intro exI [of _ s']) (auto simp: mq_take_def mq_items_def)
qed

interpretation ms: message_store "mq_items q" "\<lambda>c x s. fresh_elem (fst c) (mq_ll s) \<and> fst x \<noteq> NULL"
    "mq_put q" "mq_take q tid" fst
  for q tid
  by unfold_locales (fact mq_put_law mq_take_law)+

section \<open>Threads\<close>

text \<open>
  Any number of threads on one queue. Each step is one atomic piece of a call; the ghost lists
  record the messages accepted and what became of the messages taken out, in order.
\<close>

datatype out_event = Received nat (out_obj: nat) | Flushed (out_obj: nat)

record mq_sys =
  sys_st :: mq_state
  sys_sent :: "nat list"
  sys_out :: "out_event list"

fun rcv_out :: "nat \<Rightarrow> rcv_result \<Rightarrow> out_event list" where
  "rcv_out tid (RCV_DONE e (Some d)) = [Received tid d]"
| "rcv_out tid _ = []"

definition in_wait :: "mq_sys \<Rightarrow> nat \<Rightarrow> nat \<Rightarrow> bool" where
  "in_wait S q tid = (case mq_queues (sys_st S) q of None \<Rightarrow> False
     | Some m \<Rightarrow> tid \<in> set (cond_waiting m) \<or> tid \<in> set (cond_woken m))"

inductive mq_step :: "nat \<Rightarrow> mq_sys \<Rightarrow> mq_sys \<Rightarrow> bool" for q where
  snd: "msg_q_snd mem wake q obj f (sys_st S) = Some (r, s') \<Longrightarrow>
     mem = NULL \<or> fresh_elem mem (mq_ll (sys_st S)) \<Longrightarrow>
     \<forall>m. mq_queues (sys_st S) q = Some m \<longrightarrow> wake_ok wake m \<Longrightarrow>
     mq_step q S (S\<lparr>sys_st := s', sys_sent := sys_sent S @ (if r = eMSG_Q_SUCCESS then [obj] else [])\<rparr>)"
| rcv: "msg_q_rcv tid q False (sys_st S) = Some (r, s') \<Longrightarrow> \<not> in_wait S q tid \<Longrightarrow>
     mq_step q S (S\<lparr>sys_st := s', sys_out := sys_out S @ rcv_out tid r\<rparr>)"
| resume: "msg_q_rcv_resume tid q (sys_st S) = Some (r, s') \<Longrightarrow> in_wait S q tid \<Longrightarrow>
     mq_step q S (S\<lparr>sys_st := s', sys_out := sys_out S @ rcv_out tid r\<rparr>)"
| flush: "msg_q_flush q (sys_st S) = Some (r, s') \<Longrightarrow> mq_rep (sys_st S) q m ps \<Longrightarrow>
     mq_step q S (S\<lparr>sys_st := s', sys_out := sys_out S @ map (\<lambda>x. Flushed (fst x)) (messages (sys_st S) ps)\<rparr>)"
| unblock: "msg_q_unblock q (sys_st S) = Some (r, s') \<Longrightarrow> mq_step q S (S\<lparr>sys_st := s'\<rparr>)"

inductive mq_reach :: "nat \<Rightarrow> mq_sys \<Rightarrow> mq_sys \<Rightarrow> bool" for q S0 where
  start: "mq_reach q S0 S0"
| more: "mq_reach q S0 S \<Longrightarrow> mq_step q S S' \<Longrightarrow> mq_reach q S0 S'"

definition threads_ok :: "msg_q \<Rightarrow> nat \<Rightarrow> bool" where
  "threads_ok m n \<longleftrightarrow> distinct (cond_waiting m) \<and> distinct (cond_woken m) \<and>
     set (cond_waiting m) \<inter> set (cond_woken m) = {} \<and>
     (unblocked m \<longrightarrow> cond_waiting m = []) \<and> (cond_waiting m \<noteq> [] \<longrightarrow> n \<le> length (cond_woken m))"

definition mq_inv :: "nat \<Rightarrow> mq_sys \<Rightarrow> bool" where
  "mq_inv q S \<longleftrightarrow> (\<exists>m ps. mq_rep (sys_st S) q m ps \<and> threads_ok m (length ps) \<and>
     sys_sent S = map out_obj (sys_out S) @ map fst (messages (sys_st S) ps))"

lemma mq_invI:
  "mq_rep (sys_st S) q m ps \<Longrightarrow> threads_ok m (length ps) \<Longrightarrow>
   sys_sent S = map out_obj (sys_out S) @ map fst (messages (sys_st S) ps) \<Longrightarrow> mq_inv q S"
  by (auto simp: mq_inv_def)

lemma mq_invE:
  assumes "mq_inv q S"
  obtains m ps where "mq_rep (sys_st S) q m ps" "threads_ok m (length ps)"
    "sys_sent S = map out_obj (sys_out S) @ map fst (messages (sys_st S) ps)" "mq_queues (sys_st S) q = Some m"
  using assms by (auto simp: mq_inv_def mq_rep_def)

lemma threads_ok_signal:
  assumes "threads_ok m n" "wake_ok wake m" "n' \<le> Suc n" "\<not> unblocked m"
  shows "threads_ok (cond_signal wake m) n'"
proof -
  have "cond_waiting m \<noteq> [] \<Longrightarrow> 1 \<le> length wake" using assms(2) by (cases wake) (auto simp: wake_ok_def)
  then have "cond_waiting m \<noteq> [] \<Longrightarrow> n' \<le> length (cond_woken m) + length wake"
    using assms(1,3) by (auto simp: threads_ok_def)
  then show ?thesis using assms by (cases "cond_waiting m = []") (auto simp: threads_ok_def wake_ok_def cond_signal_def)
qed

lemma threads_ok_less: "threads_ok m n \<Longrightarrow> n' \<le> n \<Longrightarrow> threads_ok m n'"
  by (auto simp: threads_ok_def)

lemma threads_ok_wait:
  "threads_ok m 0 \<Longrightarrow> \<not> unblocked m \<Longrightarrow> tid \<notin> set (cond_waiting m) \<Longrightarrow> tid \<notin> set (cond_woken m) \<Longrightarrow>
   threads_ok (m\<lparr>cond_waiting := cond_waiting m @ [tid]\<rparr>) 0"
  by (auto simp: threads_ok_def)

text \<open>One pass of the receive loop, for a thread that is in neither list.\<close>

lemma mq_inv_check:
  assumes rep: "mq_rep s q m ps" and th: "threads_ok m (length ps) \<or> (\<exists>n. threads_ok m n \<and> length ps \<le> Suc n)"
    and tid: "tid \<notin> set (cond_waiting m)" "tid \<notin> set (cond_woken m)"
    and sent: "sys_sent S = map out_obj (sys_out S) @ map fst (messages s ps)"
    and c: "rcv_check tid q s = Some (r, s')"
  shows "mq_inv q (S\<lparr>sys_st := s', sys_out := sys_out S @ rcv_out tid r\<rparr>)"
proof (cases ps rule: rev_cases)
  case Nil
  then have th0: "threads_ok m 0" using th threads_ok_less by blast
  have q: "q \<noteq> 0" using rep by (simp add: mq_rep_def)
  show ?thesis
  proof (cases "unblocked m")
    case True
    then show ?thesis
      using c rcv_check_unblocked [OF rep [unfolded Nil]] rep th0 sent Nil
      by (intro mq_invI [of _ _ m "[]"]) (auto simp: messages_def)
  next
    case False
    then show ?thesis
      using c rcv_check_wait [OF rep [unfolded Nil]] rep sent Nil threads_ok_wait [OF th0 False tid]
      by (intro mq_invI [of _ _ "m\<lparr>cond_waiting := cond_waiting m @ [tid]\<rparr>" "[]"]) (auto simp: messages_def mq_rep_def)
  qed
next
  case (snoc qs a)
  obtain s1 where s1: "rcv_check tid q s = Some (RCV_DONE eMSG_Q_SUCCESS (Some (fst (hd (messages s ps)))), s1)"
    "mq_rep s1 q m qs" "messages s ps = hd (messages s ps) # messages s1 qs"
    using rcv_check_message [OF rep [unfolded snoc], of tid] unfolding snoc by metis
  have t: "threads_ok m (length qs)" using th snoc threads_ok_less by fastforce
  have "map fst (messages s ps) = fst (hd (messages s ps)) # map fst (messages s1 qs)"
    using arg_cong [OF s1(3), of "map fst"] by simp
  then show ?thesis
    using s1(1,2) c t sent by (intro mq_invI [of _ _ m qs]) auto
qed

lemma mq_step_inv:
  assumes step: "mq_step q S S'" and inv: "mq_inv q S"
  shows "mq_inv q S'"
proof -
  obtain m ps where I: "mq_rep (sys_st S) q m ps" "threads_ok m (length ps)"
    "sys_sent S = map out_obj (sys_out S) @ map fst (messages (sys_st S) ps)" "mq_queues (sys_st S) q = Some m"
    using inv by (rule mq_invE)
  have q: "q \<noteq> 0" using I(1) by (simp add: mq_rep_def)
  from step show ?thesis
  proof (cases rule: mq_step.cases)
    case (snd mem wake obj f r s')
    show ?thesis
    proof (cases "obj = 0 \<or> unblocked m")
      case True
      then have "r \<noteq> eMSG_Q_SUCCESS \<and> s' = sys_st S"
        using snd(2) q I(4) by (auto simp: msg_q_snd_def split: if_splits)
      then show ?thesis using I snd(1) by (intro mq_invI [of _ _ m ps]) auto
    next
      case False
      have w: "wake_ok wake m" using snd(4) I(4) by blast
      show ?thesis
      proof (cases "mem = 0")
        case True
        then have "r = eMSG_Q_FAILURE_GENERAL" "s' = put_q q (cond_signal wake m) (sys_st S)"
          using msg_q_snd_no_memory [OF I(1), of obj wake f] False snd(2) by auto
        moreover have "threads_ok (cond_signal wake m) (length ps)"
          by (rule threads_ok_signal [OF I(2) w]) (use False in auto)
        ultimately show ?thesis using I q snd(1)
          by (intro mq_invI [of _ _ "cond_signal wake m" ps]) (auto simp: mq_rep_def messages_def)
      next
        case mem: False
        then have f: "fresh_elem mem (mq_ll (sys_st S))" using snd(3) by blast
        obtain s1 where s1: "msg_q_snd mem wake q obj f (sys_st S) = Some (eMSG_Q_SUCCESS, s1)"
          "mq_rep s1 q (cond_signal wake m) (mem # ps)" "messages s1 (mem # ps) = messages (sys_st S) ps @ [(obj, f)]"
          using False by (metis msg_q_snd_spec [OF I(1) _ f])
        have "threads_ok (cond_signal wake m) (length (mem # ps))"
          by (rule threads_ok_signal [OF I(2) w]) (use False in auto)
        then show ?thesis using s1 snd(1,2) I(3)
          by (intro mq_invI [of _ _ "cond_signal wake m" "mem # ps"]) auto
      qed
    qed
  next
    case (rcv tid r s')
    then have tid: "tid \<notin> set (cond_waiting m)" "tid \<notin> set (cond_woken m)" using I(4) by (auto simp: in_wait_def)
    show ?thesis
    proof (cases "unblocked m")
      case True
      then have "r = RCV_DONE eMSG_Q_UNAVAILABLE_RESOURCE None" "s' = sys_st S"
        using msg_q_rcv_blocked [OF I(1)] rcv(2) by auto
      then show ?thesis using I rcv(1) by (intro mq_invI [of _ _ m ps]) auto
    next
      case False
      then have "rcv_check tid q (sys_st S) = Some (r, s')" using msg_q_rcv_open [OF I(1)] rcv(2) by simp
      from mq_inv_check [OF I(1) _ tid I(3) this] I(2) show ?thesis using rcv(1) by simp
    qed
  next
    case (resume tid r s')
    let ?m = "m\<lparr>cond_waiting := removeAll tid (cond_waiting m), cond_woken := removeAll tid (cond_woken m)\<rparr>"
    have c: "rcv_check tid q (put_q q ?m (sys_st S)) = Some (r, s')"
      using resume(2) q I(4) by (simp add: msg_q_rcv_resume_def)
    have rep: "mq_rep (put_q q ?m (sys_st S)) q ?m ps" using I(1) by (simp add: mq_rep_def)
    have len: "length (cond_woken m) \<le> Suc (length (removeAll tid (cond_woken m)))"
      using I(2) by (auto simp: threads_ok_def distinct_remove1_removeAll [symmetric] length_remove1)
    have "threads_ok ?m (length ps - 1)"
      using I(2) len by (auto simp: threads_ok_def distinct_removeAll)
    then have "threads_ok ?m (length ps) \<or> (\<exists>n. threads_ok ?m n \<and> length ps \<le> Suc n)"
      by (intro disjI2 exI [of _ "length ps - 1"]) simp
    from mq_inv_check [OF rep this _ _ _ c, of S] I(3) show ?thesis using resume(1) by (simp add: messages_def)
  next
    case (flush r s' m' ps')
    have m': "m' = m" using flush(3) I(4) by (simp add: mq_rep_def)
    obtain s1 where s1: "msg_q_flush q (sys_st S) = Some (eMSG_Q_SUCCESS, s1)" "mq_rep s1 q m' []"
      by (rule msg_q_flush_spec [OF flush(3)])
    have "map fst (messages (sys_st S) ps) = map fst (messages (sys_st S) ps')"
    proof -
      have "ps' = ps" using flush(3) I(1) unfolding mq_rep_def m' by (metis ll_rep_unique)
      then show ?thesis by simp
    qed
    then show ?thesis
      using s1 flush(1,2) I(3) threads_ok_less [OF I(2), of 0] m'
      by (intro mq_invI [of _ _ m "[]"]) (auto simp: messages_def comp_def)
  next
    case (unblock r s')
    show ?thesis
    proof (cases "unblocked m")
      case True
      then have "s' = sys_st S" using unblock(2) q I(4) by (simp add: msg_q_unblock_def)
      then show ?thesis using I unblock(1) by (intro mq_invI [of _ _ m ps]) auto
    next
      case False
      note u = msg_q_unblock_spec [OF I(1) False]
      have "threads_ok (cond_broadcast (m\<lparr>unblocked := True\<rparr>)) (length ps)"
        using I(2) by (auto simp: threads_ok_def cond_broadcast_def cond_signal_def)
      then show ?thesis using u unblock(1,2) I(3)
        by (intro mq_invI [of _ _ "cond_broadcast (m\<lparr>unblocked := True\<rparr>)" ps]) (auto simp: messages_def)
    qed
  qed
qed

lemma mq_reach_inv: "mq_reach q S0 S \<Longrightarrow> mq_inv q S0 \<Longrightarrow> mq_inv q S"
  by (induction rule: mq_reach.induct) (auto intro: mq_step_inv)

end
