(* ===== verification/Sync_Req.thy ===== *)
theory Sync_Req
  imports Prelude
begin

text \<open>
  Synchronous location requests (gps/loc_api/loc_api_v02/loc_api_sync_req.c): an array of eight
  slots, one for each request that waits for its indication. Every definition up to
  \<open>loc_sync_wait_resume\<close> but \<open>loc_sync_select_ind\<close> is one critical section;
  \<open>loc_sync_select_ind\<close>, \<open>loc_sync_wait_for_ind\<close> and \<open>loc_sync_send_req\<close> run several, and
  what other threads, the location engine and \<open>locClientSendReq\<close> do between them is the record
  \<open>sync_env\<close>, their argument. Client handles and pointers are naturals, 0 for NULL;
  the memory behind a payload pointer is a list of bytes, and a copy past its end, as an access
  outside the slots, is the outcome \<open>None\<close>.
\<close>

datatype locClientStatusEnumType =
    eLOC_CLIENT_SUCCESS | eLOC_CLIENT_FAILURE_GENERAL | eLOC_CLIENT_FAILURE_UNSUPPORTED
  | eLOC_CLIENT_FAILURE_INVALID_PARAMETER | eLOC_CLIENT_FAILURE_ENGINE_BUSY
  | eLOC_CLIENT_FAILURE_PHONE_OFFLINE | eLOC_CLIENT_FAILURE_TIMEOUT
  | eLOC_CLIENT_FAILURE_SERVICE_NOT_PRESENT | eLOC_CLIENT_FAILURE_SERVICE_VERSION_UNSUPPORTED
  | eLOC_CLIENT_FAILURE_CLIENT_VERSION_UNSUPPORTED | eLOC_CLIENT_FAILURE_INVALID_HANDLE
  | eLOC_CLIENT_FAILURE_INTERNAL | eLOC_CLIENT_FAILURE_NOT_INITIALIZED
  | eLOC_CLIENT_FAILURE_NOT_ENOUGH_MEMORY

abbreviation (input) LOC_SYNC_REQ_BUFFER_SIZE :: nat where "LOC_SYNC_REQ_BUFFER_SIZE \<equiv> 8"
abbreviation (input) LOC_CLIENT_INVALID_HANDLE_VALUE :: nat where "LOC_CLIENT_INVALID_HANDLE_VALUE \<equiv> 0"

record loc_sync_req_data =
  client_handle :: nat
  ind_is_selected :: bool
  ind_is_waiting :: bool
  ind_has_arrived :: bool
  slot_req_id :: u32
  recv_ind_payload_ptr :: nat
  recv_ind_id :: u32
  ind_signalled :: bool

record loc_sync_state =
  loc_sync_call_initialized :: bool
  arr_in_use :: bool
  slot_in_use :: "bool list"
  slots :: "loc_sync_req_data list"
  payload_mem :: "nat \<Rightarrow> u8 list"

definition clear_slot :: loc_sync_req_data where
  "clear_slot = \<lparr>client_handle = LOC_CLIENT_INVALID_HANDLE_VALUE, ind_is_selected = False,
     ind_is_waiting = False, ind_has_arrived = False, slot_req_id = 0, recv_ind_payload_ptr = 0,
     recv_ind_id = 0, ind_signalled = False\<rparr>"

section \<open>Operations\<close>

definition loc_sync_req_init :: "loc_sync_state \<Rightarrow> loc_sync_state" where
  "loc_sync_req_init s =
     (if loc_sync_call_initialized s then s
      else s\<lparr>arr_in_use := False, slot_in_use := replicate LOC_SYNC_REQ_BUFFER_SIZE False,
             slots := replicate LOC_SYNC_REQ_BUFFER_SIZE clear_slot, loc_sync_call_initialized := True\<rparr>)"

text \<open>\<open>memcpy(dst, src, size)\<close> with the size of the source.\<close>

definition copy_payload :: "nat \<Rightarrow> u8 list \<Rightarrow> (nat \<Rightarrow> u8 list) \<Rightarrow> (nat \<Rightarrow> u8 list) option" where
  "copy_payload dst src mem =
     (if length src \<le> length (mem dst) then Some (mem(dst := src @ drop (length src) (mem dst))) else None)"

text \<open>
  One slot of the loop of \<open>loc_sync_process_ind\<close>: whether the payload was consumed, and the
  new state. \<open>ind_payload\<close> is \<open>None\<close> for a null pointer.
\<close>

definition process_slot ::
  "nat \<Rightarrow> u32 \<Rightarrow> u8 list option \<Rightarrow> nat \<Rightarrow> loc_sync_state \<Rightarrow> (bool \<times> loc_sync_state) option" where
  "process_slot handle ind_id ind_payload i s =
     do {
       used \<leftarrow> rd (slot_in_use s) i;
       slot \<leftarrow> rd (slots s) i;
       if used \<and> client_handle slot = handle \<and> ind_id = recv_ind_id slot \<and> \<not> ind_has_arrived slot
       then do {
         (consumed, mem) \<leftarrow>
           (case ind_payload of
              Some p \<Rightarrow>
                if recv_ind_payload_ptr slot \<noteq> 0 \<and> 0 < length p
                then do { mem \<leftarrow> copy_payload (recv_ind_payload_ptr slot) p (payload_mem s); Some (True, mem) }
                else Some (False, payload_mem s)
            | None \<Rightarrow> Some (False, payload_mem s));
         let slot = (if ind_is_waiting slot
                     then slot\<lparr>recv_ind_id := ind_id, ind_signalled := True\<rparr>
                     else slot\<lparr>ind_has_arrived := True\<rparr>);
         Some (consumed, s\<lparr>slots := (slots s)[i := slot], payload_mem := mem\<rparr>)
       }
       else Some (False, s)
     }"

text \<open>The loop, from slot \<open>i\<close>; the flag is the loop's \<open>in_use\<close>.\<close>

function process_loop ::
  "nat \<Rightarrow> u32 \<Rightarrow> u8 list option \<Rightarrow> nat \<Rightarrow> bool \<Rightarrow> bool \<Rightarrow> loc_sync_state \<Rightarrow> (bool \<times> loc_sync_state) option" where
  "process_loop handle ind_id ind_payload i in_use consumed s =
     (if i < LOC_SYNC_REQ_BUFFER_SIZE \<and> \<not> consumed
      then do {
        used \<leftarrow> rd (slot_in_use s) i;
        (consumed, s) \<leftarrow> process_slot handle ind_id ind_payload i s;
        process_loop handle ind_id ind_payload (Suc i) (in_use \<or> used) consumed s
      }
      else Some (in_use, s))"
  by pat_completeness auto
termination
  by (relation "measure (\<lambda>(_, _, _, i, _). LOC_SYNC_REQ_BUFFER_SIZE - i)") auto

declare process_loop.simps [simp del]

definition loc_sync_process_ind ::
  "nat \<Rightarrow> u32 \<Rightarrow> u8 list option \<Rightarrow> loc_sync_state \<Rightarrow> loc_sync_state option" where
  "loc_sync_process_ind handle ind_id ind_payload s =
     (if \<not> arr_in_use s then Some s
      else do {
        (in_use, s) \<leftarrow> process_loop handle ind_id ind_payload 0 False False s;
        Some (if \<not> in_use then s\<lparr>arr_in_use := False\<rparr> else s)
      })"

text \<open>The slot number, or -1.\<close>

definition loc_alloc_slot :: "loc_sync_state \<Rightarrow> (int \<times> loc_sync_state) option" where
  "loc_alloc_slot s =
     do {
       r \<leftarrow> scan_first (\<lambda>i. map_option Not (rd (slot_in_use s) i)) LOC_SYNC_REQ_BUFFER_SIZE 0;
       case r of
         None \<Rightarrow> Some (- 1, s)
       | Some i \<Rightarrow> Some (int i, s\<lparr>slot_in_use := (slot_in_use s)[i := True], arr_in_use := True\<rparr>)
     }"

definition loc_free_slot :: "nat \<Rightarrow> loc_sync_state \<Rightarrow> loc_sync_state option" where
  "loc_free_slot select_id s =
     do {
       used \<leftarrow> wr (slot_in_use s) select_id False;
       slot \<leftarrow> rd (slots s) select_id;
       sl \<leftarrow> wr (slots s) select_id (clear_slot\<lparr>ind_signalled := ind_signalled slot\<rparr>);
       r \<leftarrow> scan_first (rd used) LOC_SYNC_REQ_BUFFER_SIZE 0;
       Some (s\<lparr>slot_in_use := used, slots := sl,
               arr_in_use := (case r of None \<Rightarrow> False | Some i \<Rightarrow> arr_in_use s)\<rparr>)
     }"

text \<open>
  Between the critical sections of a call other threads run: at which point of the code, of which
  attempt, is what they are told. \<open>env_send\<close> is attempt \<open>k\<close> to send and what happens
  until it returns, \<open>env_wait\<close> the \<open>k\<close>th wait, with the result of
  \<open>pthread_cond_timedwait\<close>.
\<close>

datatype sync_point = AFTER_ALLOC | BEFORE_LOCK | BEFORE_FREE | BEFORE_LAST_FREE

record sync_env =
  env_send :: "nat \<Rightarrow> loc_sync_state \<Rightarrow> locClientStatusEnumType \<times> loc_sync_state"
  env_wait :: "nat \<Rightarrow> loc_sync_state \<Rightarrow> int \<times> loc_sync_state"
  env_at :: "sync_point \<Rightarrow> nat \<Rightarrow> loc_sync_state \<Rightarrow> loc_sync_state"

text \<open>The part of \<open>loc_sync_select_ind\<close> under the lock of the slot.\<close>

definition loc_sync_select_store ::
  "nat \<Rightarrow> u32 \<Rightarrow> u32 \<Rightarrow> nat \<Rightarrow> nat \<Rightarrow> loc_sync_state \<Rightarrow> loc_sync_state option" where
  "loc_sync_select_store handle ind_id req_id ind_payload_ptr select_id s =
     do {
       slot \<leftarrow> rd (slots s) select_id;
       Some (s\<lparr>slots := (slots s)[select_id :=
         slot\<lparr>client_handle := handle, ind_is_selected := True, ind_is_waiting := False,
              ind_has_arrived := False, recv_ind_id := ind_id, slot_req_id := req_id,
              recv_ind_payload_ptr := ind_payload_ptr\<rparr>]\<rparr>)
     }"

definition loc_sync_select_ind ::
  "sync_env \<Rightarrow> nat \<Rightarrow> u32 \<Rightarrow> u32 \<Rightarrow> nat \<Rightarrow> loc_sync_state \<Rightarrow> (int \<times> loc_sync_state) option" where
  "loc_sync_select_ind env handle ind_id req_id ind_payload_ptr s =
     do {
       (select_id, s) \<leftarrow> loc_alloc_slot s;
       if select_id < 0 then Some (- ENOMEM, s)
       else do {
         let s = env_at env AFTER_ALLOC 0 s;
         s \<leftarrow> loc_sync_select_store handle ind_id req_id ind_payload_ptr (nat select_id) s;
         Some (select_id, s)
       }
     }"

text \<open>
  \<open>loc_sync_wait_for_ind\<close> reads the slot's flag without a lock, then runs under the lock of the
  slot up to the wait, or to the end of its block; the rest of the block follows the wait; and the
  slot is freed after that, under the other lock.
\<close>

datatype wait_result = WAIT_DONE int | WAIT_BLOCKED

definition loc_sync_wait_lock :: "nat \<Rightarrow> loc_sync_state \<Rightarrow> (wait_result \<times> loc_sync_state) option" where
  "loc_sync_wait_lock select_id s =
     do {
       slot \<leftarrow> rd (slots s) select_id;
       if ind_has_arrived slot then Some (WAIT_DONE 0, s)
       else if ind_is_waiting slot then Some (WAIT_DONE (- EBUSY), s)
       else Some (WAIT_BLOCKED,
              s\<lparr>slots := (slots s)[select_id := slot\<lparr>ind_is_waiting := True, ind_signalled := False\<rparr>]\<rparr>)
     }"

definition loc_sync_wait_resume :: "nat \<Rightarrow> int \<Rightarrow> loc_sync_state \<Rightarrow> (int \<times> loc_sync_state) option" where
  "loc_sync_wait_resume select_id rc s =
     do {
       slot \<leftarrow> rd (slots s) select_id;
       Some (if rc = ETIMEDOUT then - ETIMEDOUT else 0,
             s\<lparr>slots := (slots s)[select_id := slot\<lparr>ind_is_waiting := False\<rparr>]\<rparr>)
     }"

definition loc_sync_wait_for_ind :: "sync_env \<Rightarrow> nat \<Rightarrow> int \<Rightarrow> loc_sync_state \<Rightarrow> (int \<times> loc_sync_state) option" where
  "loc_sync_wait_for_ind env k select_id s =
     (if select_id < 0 \<or> int LOC_SYNC_REQ_BUFFER_SIZE \<le> select_id then Some (- EINVAL, s)
      else do {
        used \<leftarrow> rd (slot_in_use s) (nat select_id);
        if \<not> used then Some (- EINVAL, s)
        else do {
          let s = env_at env BEFORE_LOCK k s;
          (r, s) \<leftarrow> loc_sync_wait_lock (nat select_id) s;
          (ret, s) \<leftarrow> (case r of
             WAIT_DONE ret \<Rightarrow> Some (ret, s)
           | WAIT_BLOCKED \<Rightarrow> let (rc, s) = env_wait env k s in loc_sync_wait_resume (nat select_id) rc s);
          s \<leftarrow> loc_free_slot (nat select_id) (env_at env BEFORE_FREE k s);
          Some (ret, s)
        }
      })"

definition retry_status :: "locClientStatusEnumType \<Rightarrow> bool" where
  "retry_status status \<longleftrightarrow> status = eLOC_CLIENT_FAILURE_ENGINE_BUSY \<or>
     status = eLOC_CLIENT_FAILURE_PHONE_OFFLINE \<or> status = eLOC_CLIENT_FAILURE_INTERNAL"

text \<open>The retry loop: the status, the number of requests sent, the state.\<close>

function send_loop ::
  "sync_env \<Rightarrow> int \<Rightarrow> nat \<Rightarrow> nat \<Rightarrow> loc_sync_state \<Rightarrow>
   (locClientStatusEnumType \<times> nat \<times> loc_sync_state) option" where
  "send_loop env select_id sendReqRetryRem k s =
     do {
       let (status, s) = env_send env k s;
       (status, s) \<leftarrow>
         (if status = eLOC_CLIENT_SUCCESS
          then do {
            (rc, s) \<leftarrow> loc_sync_wait_for_ind env k select_id s;
            Some (if rc < 0 then if rc = - ETIMEDOUT then eLOC_CLIENT_FAILURE_TIMEOUT
                                 else eLOC_CLIENT_FAILURE_INTERNAL
                  else eLOC_CLIENT_SUCCESS, s)
          }
          else Some (status, s));
       if retry_status status \<and> 0 < sendReqRetryRem
       then send_loop env select_id (sendReqRetryRem - 1) (Suc k) s
       else Some (status, Suc k, s)
     }"
  by pat_completeness auto
termination
  by (relation "measure (\<lambda>(env, select_id, rem, k, s). rem)") auto

declare send_loop.simps [simp del]

definition loc_sync_send_req ::
  "sync_env \<Rightarrow> nat \<Rightarrow> u32 \<Rightarrow> u32 \<Rightarrow> nat \<Rightarrow> loc_sync_state \<Rightarrow>
   (locClientStatusEnumType \<times> nat \<times> loc_sync_state) option" where
  "loc_sync_send_req env handle req_id ind_id ind_payload_ptr s =
     do {
       (select_id, s) \<leftarrow> loc_sync_select_ind env handle ind_id req_id ind_payload_ptr s;
       if 0 \<le> select_id
       then do {
         (status, sends, s) \<leftarrow> send_loop env select_id 5 0 s;
         if status \<noteq> eLOC_CLIENT_SUCCESS
         then do { s \<leftarrow> loc_free_slot (nat select_id) (env_at env BEFORE_LAST_FREE sends s); Some (status, sends, s) }
         else Some (status, sends, s)
       }
       else Some (eLOC_CLIENT_SUCCESS, 0, s)
     }"

section \<open>Undisturbed runs\<close>

text \<open>
  What the critical sections of a call amount to when no other thread runs between them: selecting,
  the wait up to the block, and the rest of it. These are for the proofs below.
\<close>

definition quiet_select ::
  "nat \<Rightarrow> u32 \<Rightarrow> u32 \<Rightarrow> nat \<Rightarrow> loc_sync_state \<Rightarrow> (int \<times> loc_sync_state) option" where
  "quiet_select handle ind_id req_id ind_payload_ptr s =
     do {
       (select_id, s) \<leftarrow> loc_alloc_slot s;
       if select_id < 0 then Some (- ENOMEM, s)
       else do {
         slot \<leftarrow> rd (slots s) (nat select_id);
         Some (select_id, s\<lparr>slots := (slots s)[nat select_id :=
           slot\<lparr>client_handle := handle, ind_is_selected := True, ind_is_waiting := False,
                ind_has_arrived := False, recv_ind_id := ind_id, slot_req_id := req_id,
                recv_ind_payload_ptr := ind_payload_ptr\<rparr>]\<rparr>)
       }
     }"

definition quiet_begin :: "int \<Rightarrow> loc_sync_state \<Rightarrow> (wait_result \<times> loc_sync_state) option" where
  "quiet_begin select_id s =
     (if select_id < 0 \<or> int LOC_SYNC_REQ_BUFFER_SIZE \<le> select_id then Some (WAIT_DONE (- EINVAL), s)
      else do {
        used \<leftarrow> rd (slot_in_use s) (nat select_id);
        if \<not> used then Some (WAIT_DONE (- EINVAL), s)
        else do {
          slot \<leftarrow> rd (slots s) (nat select_id);
          if ind_has_arrived slot
          then do { s \<leftarrow> loc_free_slot (nat select_id) s; Some (WAIT_DONE 0, s) }
          else if ind_is_waiting slot
          then do { s \<leftarrow> loc_free_slot (nat select_id) s; Some (WAIT_DONE (- EBUSY), s) }
          else Some (WAIT_BLOCKED,
                 s\<lparr>slots := (slots s)[nat select_id := slot\<lparr>ind_is_waiting := True, ind_signalled := False\<rparr>]\<rparr>)
        }
      })"

text \<open>The rest, after \<open>pthread_cond_timedwait\<close> has returned \<open>rc\<close>.\<close>

definition quiet_end :: "nat \<Rightarrow> int \<Rightarrow> loc_sync_state \<Rightarrow> (int \<times> loc_sync_state) option" where
  "quiet_end select_id rc s =
     do {
       slot \<leftarrow> rd (slots s) select_id;
       let s = s\<lparr>slots := (slots s)[select_id := slot\<lparr>ind_is_waiting := False\<rparr>]\<rparr>;
       s \<leftarrow> loc_free_slot select_id s;
       Some (if rc = ETIMEDOUT then - ETIMEDOUT else 0, s)
     }"

lemma select_quiet:
  assumes "\<And>t. env_at env AFTER_ALLOC 0 t = t"
  shows "loc_sync_select_ind env h d r p s = quiet_select h d r p s"
  by (simp add: loc_sync_select_ind_def quiet_select_def loc_sync_select_store_def assms Let_def
      split: option.split prod.split Option.bind_split)

lemma wait_quiet:
  assumes "\<And>t. env_at env BEFORE_LOCK k t = t" "\<And>t. env_at env BEFORE_FREE k t = t"
  shows "loc_sync_wait_for_ind env k i s =
    do {
      (r, s) \<leftarrow> quiet_begin i s;
      case r of
        WAIT_DONE ret \<Rightarrow> Some (ret, s)
      | WAIT_BLOCKED \<Rightarrow> let (rc, s) = env_wait env k s in quiet_end (nat i) rc s
    }"
  by (auto simp: loc_sync_wait_for_ind_def quiet_begin_def quiet_end_def loc_sync_wait_lock_def
      loc_sync_wait_resume_def assms Let_def split: option.splits prod.splits Option.bind_splits)

section \<open>Invariant\<close>

text \<open>
  A slot that nobody uses has its reset contents, the array's flag says whether a slot is in
  use, and no slot has both a waiting thread and a remembered indication.
\<close>

definition slot_free_ok :: "loc_sync_req_data \<Rightarrow> bool" where
  "slot_free_ok slot \<longleftrightarrow> slot\<lparr>ind_signalled := False\<rparr> = clear_slot"

definition sync_inv :: "loc_sync_state \<Rightarrow> bool" where
  "sync_inv s \<longleftrightarrow>
     length (slot_in_use s) = LOC_SYNC_REQ_BUFFER_SIZE \<and> length (slots s) = LOC_SYNC_REQ_BUFFER_SIZE \<and>
     (arr_in_use s \<longleftrightarrow> (\<exists>i < LOC_SYNC_REQ_BUFFER_SIZE. slot_in_use s ! i)) \<and>
     (\<forall>i < LOC_SYNC_REQ_BUFFER_SIZE. \<not> slot_in_use s ! i \<longrightarrow> slot_free_ok (slots s ! i)) \<and>
     (\<forall>i < LOC_SYNC_REQ_BUFFER_SIZE. \<not> (ind_is_waiting (slots s ! i) \<and> ind_has_arrived (slots s ! i)))"

lemma sync_invD:
  assumes "sync_inv s"
  shows "length (slot_in_use s) = 8" "length (slots s) = 8"
    "arr_in_use s \<longleftrightarrow> (\<exists>i < 8. slot_in_use s ! i)"
    "\<And>i. i < 8 \<Longrightarrow> \<not> slot_in_use s ! i \<Longrightarrow> slot_free_ok (slots s ! i)"
    "\<And>i. i < 8 \<Longrightarrow> \<not> (ind_is_waiting (slots s ! i) \<and> ind_has_arrived (slots s ! i))"
  using assms by (auto simp: sync_inv_def)

lemma slot_free_ok_fields:
  assumes "slot_free_ok slot"
  shows "\<not> ind_is_waiting slot" "\<not> ind_has_arrived slot" "client_handle slot = 0"
  using assms by (cases slot; simp add: slot_free_ok_def clear_slot_def)+

lemma sync_inv_slot:
  assumes "sync_inv s" "i < 8" "\<not> slot_in_use s ! i \<Longrightarrow> slot_free_ok v"
    "\<not> (ind_is_waiting v \<and> ind_has_arrived v)"
  shows "sync_inv (s\<lparr>slots := (slots s)[i := v]\<rparr>)"
proof -
  note inv = sync_invD [OF assms(1)]
  have "slot_free_ok ((slots s)[i := v] ! j)" if "j < 8" "\<not> slot_in_use s ! j" for j
    using assms(3) inv(4) [OF that] that(2) inv(2) assms(2) by (cases "j = i") simp_all
  moreover have "\<not> (ind_is_waiting ((slots s)[i := v] ! j) \<and> ind_has_arrived ((slots s)[i := v] ! j))" if "j < 8" for j
    using assms(4) inv(5) [OF that] inv(2) assms(2) by (cases "j = i") simp_all
  ultimately show ?thesis using inv(1-3) by (simp add: sync_inv_def)
qed

lemma slot_free_ok_wait: "slot_free_ok slot \<Longrightarrow> slot_free_ok (slot\<lparr>ind_is_waiting := False\<rparr>)"
  by (cases slot) (simp add: slot_free_ok_def clear_slot_def)

lemma slot_free_ok_clear [simp]: "slot_free_ok (clear_slot\<lparr>ind_signalled := b\<rparr>)"
  by (simp add: slot_free_ok_def clear_slot_def)

lemma clear_slot_fields [simp]:
  "ind_is_waiting clear_slot = False" "ind_has_arrived clear_slot = False"
  "client_handle clear_slot = 0" "slot_free_ok clear_slot"
  by (simp_all add: clear_slot_def slot_free_ok_def)

lemma loc_sync_req_init_spec:
  assumes "\<not> loc_sync_call_initialized s"
  shows "sync_inv (loc_sync_req_init s)" and "\<not> arr_in_use (loc_sync_req_init s)"
    and "loc_sync_req_init (loc_sync_req_init s) = loc_sync_req_init s"
  using assms by (auto simp: loc_sync_req_init_def sync_inv_def)

section \<open>Allocation and release\<close>

lemma loc_alloc_slot_spec:
  assumes "length (slot_in_use s) = 8"
  shows "loc_alloc_slot s =
    Some (if \<exists>j < 8. \<not> slot_in_use s ! j
          then (int (LEAST j. \<not> slot_in_use s ! j),
                s\<lparr>slot_in_use := (slot_in_use s)[(LEAST j. \<not> slot_in_use s ! j) := True], arr_in_use := True\<rparr>)
          else (- 1, s))"
proof -
  have "scan_first (\<lambda>i. map_option Not (rd (slot_in_use s) i)) 8 0 =
      Some (if \<exists>j. 0 \<le> j \<and> j < 8 \<and> \<not> slot_in_use s ! j then Some (LEAST j. 0 \<le> j \<and> \<not> slot_in_use s ! j) else None)"
    by (rule scan_first_total) (use assms in simp)
  then show ?thesis by (simp add: loc_alloc_slot_def)
qed

lemma loc_alloc_slot_cases:
  assumes "length (slot_in_use s) = 8"
  obtains (full) "\<forall>j < 8. slot_in_use s ! j" "loc_alloc_slot s = Some (- 1, s)"
    | (slot) i where "i < 8" "\<not> slot_in_use s ! i" "\<forall>j < i. slot_in_use s ! j"
        "loc_alloc_slot s = Some (int i, s\<lparr>slot_in_use := (slot_in_use s)[i := True], arr_in_use := True\<rparr>)"
proof (cases "\<exists>j < 8. \<not> slot_in_use s ! j")
  case False
  then show ?thesis using full loc_alloc_slot_spec [OF assms] by auto
next
  case True
  define i where "i = (LEAST j. \<not> slot_in_use s ! j)"
  from True obtain j where j: "j < 8" "\<not> slot_in_use s ! j" by blast
  have free: "\<not> slot_in_use s ! i" unfolding i_def by (rule LeastI) (rule j)
  have "i \<le> j" unfolding i_def by (rule Least_le) (rule j)
  moreover have "\<forall>k < i. slot_in_use s ! k" unfolding i_def using not_less_Least by blast
  moreover have "loc_alloc_slot s =
      Some (int i, s\<lparr>slot_in_use := (slot_in_use s)[i := True], arr_in_use := True\<rparr>)"
    unfolding loc_alloc_slot_spec [OF assms] if_P [OF True] i_def ..
  ultimately show ?thesis using slot free j(1) by (meson le_less_trans)
qed

lemma loc_free_slot_spec:
  assumes "length (slot_in_use s) = 8" "length (slots s) = 8" "i < 8"
  shows "loc_free_slot i s =
    Some (s\<lparr>slot_in_use := (slot_in_use s)[i := False],
            slots := (slots s)[i := clear_slot\<lparr>ind_signalled := ind_signalled (slots s ! i)\<rparr>],
            arr_in_use := (arr_in_use s \<and> (\<exists>j < 8. j \<noteq> i \<and> slot_in_use s ! j))\<rparr>)"
proof -
  let ?used = "(slot_in_use s)[i := False]"
  have "scan_first (rd ?used) 8 0 =
      Some (if \<exists>j. 0 \<le> j \<and> j < 8 \<and> ?used ! j then Some (LEAST j. 0 \<le> j \<and> ?used ! j) else None)"
    by (rule scan_first_total) (use assms in simp)
  moreover have "(\<exists>j < 8. ?used ! j) \<longleftrightarrow> (\<exists>j < 8. j \<noteq> i \<and> slot_in_use s ! j)"
    using assms(1,3) by (metis nth_list_update)
  ultimately show ?thesis using assms by (simp add: loc_free_slot_def Let_def)
qed

lemma loc_free_slot_inv:
  assumes "sync_inv s" "i < 8"
  obtains s' where "loc_free_slot i s = Some s'" "sync_inv s'" "\<not> slot_in_use s' ! i"
proof -
  note inv = sync_invD [OF assms(1)]
  note free = loc_free_slot_spec [OF inv(1,2) assms(2)]
  have used: "(arr_in_use s \<and> (\<exists>j < 8. j \<noteq> i \<and> slot_in_use s ! j)) \<longleftrightarrow>
      (\<exists>j < 8. (slot_in_use s)[i := False] ! j)"
    using inv(1,3) assms(2) by (metis nth_list_update)
  have "sync_inv (the (loc_free_slot i s))"
    unfolding sync_inv_def free option.sel used
    using inv(1,2,4,5) assms(2) by (auto simp: nth_list_update)
  then show thesis using that [of "the (loc_free_slot i s)"] free inv(1) assms(2) by simp
qed

lemma quiet_select_cases:
  assumes "sync_inv s"
  obtains (full) "\<forall>j < 8. slot_in_use s ! j"
      "quiet_select handle ind_id req_id ptr s = Some (- ENOMEM, s)"
    | (slot) i where "i < 8" "\<not> slot_in_use s ! i" "\<forall>j < i. slot_in_use s ! j"
        "quiet_select handle ind_id req_id ptr s = Some (int i,
           s\<lparr>slot_in_use := (slot_in_use s)[i := True], arr_in_use := True,
             slots := (slots s)[i := (slots s ! i)\<lparr>client_handle := handle, ind_is_selected := True,
               ind_is_waiting := False, ind_has_arrived := False, recv_ind_id := ind_id, slot_req_id := req_id, recv_ind_payload_ptr := ptr\<rparr>]\<rparr>)"
proof (rule loc_alloc_slot_cases [OF sync_invD(1) [OF assms]])
  assume "\<forall>j < 8. slot_in_use s ! j" "loc_alloc_slot s = Some (- 1, s)"
  then show thesis using full by (simp add: quiet_select_def)
next
  fix i
  assume i: "i < 8" "\<not> slot_in_use s ! i" "\<forall>j < i. slot_in_use s ! j"
    and alloc: "loc_alloc_slot s = Some (int i, s\<lparr>slot_in_use := (slot_in_use s)[i := True], arr_in_use := True\<rparr>)"
  have "quiet_select handle ind_id req_id ptr s = Some (int i,
           s\<lparr>slot_in_use := (slot_in_use s)[i := True], arr_in_use := True,
             slots := (slots s)[i := (slots s ! i)\<lparr>client_handle := handle, ind_is_selected := True,
               ind_is_waiting := False, ind_has_arrived := False, recv_ind_id := ind_id,
               slot_req_id := req_id, recv_ind_payload_ptr := ptr\<rparr>]\<rparr>)"
    using i(1) sync_invD(2) [OF assms] by (simp add: quiet_select_def alloc)
  then show thesis using slot i by blast
qed

lemma quiet_select_inv:
  assumes "sync_inv s" and "quiet_select handle ind_id req_id ptr s = Some (k, s')"
  shows "sync_inv s' \<and> k < 8 \<and> (0 \<le> k \<longrightarrow> slot_in_use s' ! nat k)"
proof (rule quiet_select_cases [OF assms(1), of handle ind_id req_id ptr])
  assume "quiet_select handle ind_id req_id ptr s = Some (- ENOMEM, s)"
  then show ?thesis using assms by simp
next
  fix i
  note inv = sync_invD [OF assms(1)]
  assume i: "i < 8" "\<not> slot_in_use s ! i"
    and sel: "quiet_select handle ind_id req_id ptr s = Some (int i,
           s\<lparr>slot_in_use := (slot_in_use s)[i := True], arr_in_use := True,
             slots := (slots s)[i := (slots s ! i)\<lparr>client_handle := handle, ind_is_selected := True,
               ind_is_waiting := False, ind_has_arrived := False, recv_ind_id := ind_id, slot_req_id := req_id, recv_ind_payload_ptr := ptr\<rparr>]\<rparr>)"
  have k: "k = int i" and s': "s' = s\<lparr>slot_in_use := (slot_in_use s)[i := True], arr_in_use := True,
             slots := (slots s)[i := (slots s ! i)\<lparr>client_handle := handle, ind_is_selected := True,
               ind_is_waiting := False, ind_has_arrived := False, recv_ind_id := ind_id, slot_req_id := req_id, recv_ind_payload_ptr := ptr\<rparr>]\<rparr>"
    using sel assms(2) by simp_all
  have "sync_inv s'"
    unfolding sync_inv_def s' using inv i by (auto simp: nth_list_update)
  then show ?thesis using i inv(1) by (simp add: k s')
qed

section \<open>Indications\<close>

text \<open>
  A slot takes part when it is used, of the client, selected for this indication, and has not
  seen it yet; it takes the payload when it has a buffer. The first that takes the payload ends
  the loop.
\<close>

definition slot_matches :: "nat \<Rightarrow> u32 \<Rightarrow> loc_sync_state \<Rightarrow> nat \<Rightarrow> bool" where
  "slot_matches handle ind_id s i \<longleftrightarrow> slot_in_use s ! i \<and> client_handle (slots s ! i) = handle \<and>
     recv_ind_id (slots s ! i) = ind_id \<and> \<not> ind_has_arrived (slots s ! i)"

definition slot_takes :: "nat \<Rightarrow> u32 \<Rightarrow> u8 list option \<Rightarrow> loc_sync_state \<Rightarrow> nat \<Rightarrow> bool" where
  "slot_takes handle ind_id ind_payload s i \<longleftrightarrow> slot_matches handle ind_id s i \<and>
     recv_ind_payload_ptr (slots s ! i) \<noteq> 0 \<and> (case ind_payload of None \<Rightarrow> False | Some p \<Rightarrow> p \<noteq> [])"

definition told :: "loc_sync_req_data \<Rightarrow> loc_sync_req_data" where
  "told slot = (if ind_is_waiting slot then slot\<lparr>ind_signalled := True\<rparr> else slot\<lparr>ind_has_arrived := True\<rparr>)"

definition tell :: "nat \<Rightarrow> u32 \<Rightarrow> nat set \<Rightarrow> loc_sync_state \<Rightarrow> loc_sync_state" where
  "tell handle ind_id is s = s\<lparr>slots := map (\<lambda>j. if j \<in> is \<and> slot_matches handle ind_id s j
     then told (slots s ! j) else slots s ! j) [0..<length (slots s)]\<rparr>"

definition payload_fits :: "u8 list option \<Rightarrow> loc_sync_state \<Rightarrow> nat \<Rightarrow> bool" where
  "payload_fits ind_payload s i \<longleftrightarrow>
     (case ind_payload of None \<Rightarrow> True
      | Some p \<Rightarrow> length p \<le> length (payload_mem s (recv_ind_payload_ptr (slots s ! i))))"

definition put_payload :: "u8 list option \<Rightarrow> nat \<Rightarrow> loc_sync_state \<Rightarrow> loc_sync_state" where
  "put_payload ind_payload i s =
     (case ind_payload of None \<Rightarrow> s
      | Some p \<Rightarrow> (let q = recv_ind_payload_ptr (slots s ! i) in
          s\<lparr>payload_mem := (payload_mem s)(q := p @ drop (length p) (payload_mem s q))\<rparr>))"

definition deliver ::
  "nat \<Rightarrow> u32 \<Rightarrow> u8 list option \<Rightarrow> nat \<Rightarrow> loc_sync_state \<Rightarrow> loc_sync_state option" where
  "deliver handle ind_id ind_payload i s =
     (case find (slot_takes handle ind_id ind_payload s) [i..<LOC_SYNC_REQ_BUFFER_SIZE] of
        None \<Rightarrow> Some (tell handle ind_id {i..<LOC_SYNC_REQ_BUFFER_SIZE} s)
      | Some k \<Rightarrow> if payload_fits ind_payload s k
                  then Some (put_payload ind_payload k (tell handle ind_id {i..k} s)) else None)"

lemma told_fields [simp]:
  "client_handle (told slot) = client_handle slot" "recv_ind_id (told slot) = recv_ind_id slot"
  "recv_ind_payload_ptr (told slot) = recv_ind_payload_ptr slot"
  "ind_is_waiting (told slot) = ind_is_waiting slot"
  "ind_has_arrived (told slot) = (ind_has_arrived slot \<or> \<not> ind_is_waiting slot)"
  by (auto simp: told_def)

lemma tell_fields [simp]:
  "slot_in_use (tell h d is s) = slot_in_use s" "payload_mem (tell h d is s) = payload_mem s"
  "arr_in_use (tell h d is s) = arr_in_use s" "length (slots (tell h d is s)) = length (slots s)"
  "loc_sync_call_initialized (tell h d is s) = loc_sync_call_initialized s"
  by (simp_all add: tell_def)

lemma tell_slot [simp]:
  "j < length (slots s) \<Longrightarrow> slots (tell h d is s) ! j =
     (if j \<in> is \<and> slot_matches h d s j then told (slots s ! j) else slots s ! j)"
  by (simp add: tell_def)

lemma put_payload_fields [simp]:
  "slot_in_use (put_payload p i s) = slot_in_use s" "arr_in_use (put_payload p i s) = arr_in_use s"
  "slots (put_payload p i s) = slots s"
  "loc_sync_call_initialized (put_payload p i s) = loc_sync_call_initialized s"
  by (simp_all add: put_payload_def Let_def split: option.split)

lemma sync_state_eqI:
  assumes "slots (s :: loc_sync_state) = slots t" "slot_in_use s = slot_in_use t" "arr_in_use s = arr_in_use t"
    "loc_sync_call_initialized s = loc_sync_call_initialized t" "payload_mem s = payload_mem t"
  shows "s = t"
  using assms by (cases s; cases t) simp

text \<open>One slot of the loop.\<close>

lemma process_slot_spec:
  assumes "i < length (slots s)" "i < length (slot_in_use s)"
  shows "process_slot handle ind_id ind_payload i s =
    (if slot_takes handle ind_id ind_payload s i
     then if payload_fits ind_payload s i
          then Some (True, put_payload ind_payload i (tell handle ind_id {i} s)) else None
     else Some (False, tell handle ind_id {i} s))"
proof -
  have one: "slots (tell h d {i} s) =
      (if slot_matches h d s i then (slots s)[i := told (slots s ! i)] else slots s)" for h d
    by (rule nth_equalityI) (auto simp: nth_list_update)
  have tells: "tell h d {i} s =
      (if slot_matches h d s i then s\<lparr>slots := (slots s)[i := told (slots s ! i)]\<rparr> else s)" for h d
    by (rule sync_state_eqI) (simp_all add: one)
  have told: "(if ind_is_waiting (slots s ! i)
       then (slots s ! i)\<lparr>recv_ind_id := recv_ind_id (slots s ! i), ind_signalled := True\<rparr>
       else (slots s ! i)\<lparr>ind_has_arrived := True\<rparr>) = told (slots s ! i)"
    by (simp add: told_def)
  show ?thesis
  proof (cases "slot_matches handle ind_id s i")
    case False
    then show ?thesis
      using assms by (auto simp: process_slot_def tells slot_takes_def slot_matches_def)
  next
    case True
    then have "ind_id = recv_ind_id (slots s ! i)" by (simp add: slot_matches_def)
    with True assms told show ?thesis
      by (cases ind_payload)
        (auto simp: process_slot_def tells slot_takes_def slot_matches_def payload_fits_def
          put_payload_def copy_payload_def Let_def)
  qed
qed

lemma slot_matches_tell:
  assumes "j \<notin> is" "j < length (slots s)"
  shows "slot_matches h d (tell h' d' is s) j = slot_matches h d s j"
    and "slot_takes h d p (tell h' d' is s) j = slot_takes h d p s j"
    and "payload_fits p (tell h' d' is s) j = payload_fits p s j"
  using assms by (auto simp: slot_matches_def slot_takes_def payload_fits_def split: option.split)

lemma tell_tell:
  assumes "is \<inter> js = {}"
  shows "tell h d js (tell h d is s) = tell h d (is \<union> js) s"
proof (rule sync_state_eqI)
  show "slots (tell h d js (tell h d is s)) = slots (tell h d (is \<union> js) s)"
  proof (rule nth_equalityI, simp)
    fix j assume "j < length (slots (tell h d js (tell h d is s)))"
    then have j: "j < length (slots s)" by simp
    show "slots (tell h d js (tell h d is s)) ! j = slots (tell h d (is \<union> js) s) ! j"
      using j assms slot_matches_tell(1) [OF _ j, of "is" h d h d] by auto
  qed
qed simp_all

lemma process_loop_done: "process_loop h d p i u True s = Some (u, s)"
  by (simp add: process_loop.simps)

lemma process_loop_spec:
  assumes "length (slots s) = 8" "length (slot_in_use s) = 8" "i \<le> 8"
  shows "process_loop h d p i u False s =
    (case deliver h d p i s of None \<Rightarrow> None
     | Some s' \<Rightarrow> Some (u \<or> (\<exists>j < 8. i \<le> j \<and> slot_in_use s ! j), s'))"
  using assms
proof (induction "8 - i" arbitrary: i s u)
  case 0
  then have "i = 8" by simp
  moreover have "tell h d {} s = s" by (rule sync_state_eqI) (simp_all add: tell_def map_nth)
  ultimately show ?case by (auto simp: process_loop.simps deliver_def)
next
  case (Suc n)
  then have i: "i < 8" by simp
  let ?s1 = "tell h d {i} s"
  have step: "process_loop h d p i u False s =
      do { (c, t) \<leftarrow> process_slot h d p i s; process_loop h d p (Suc i) (u \<or> slot_in_use s ! i) c t }"
    using i Suc.prems by (simp add: process_loop.simps [of h d p i])
  have slot: "process_slot h d p i s =
      (if slot_takes h d p s i then if payload_fits p s i then Some (True, put_payload p i ?s1) else None
       else Some (False, ?s1))"
    by (rule process_slot_spec) (use i Suc.prems in simp_all)
  have cons: "[i..<8] = i # [Suc i..<8]" using i by (simp add: upt_rec)
  show ?case
  proof (cases "slot_takes h d p s i")
    case True
    then have "slot_in_use s ! i" by (simp add: slot_takes_def slot_matches_def)
    with True i show ?thesis
      unfolding step slot deliver_def cons by (auto simp: process_loop_done)
  next
    case False
    have IH: "process_loop h d p (Suc i) (u \<or> slot_in_use s ! i) False ?s1 =
      (case deliver h d p (Suc i) ?s1 of None \<Rightarrow> None
       | Some s' \<Rightarrow> Some ((u \<or> slot_in_use s ! i) \<or> (\<exists>j < 8. Suc i \<le> j \<and> slot_in_use ?s1 ! j), s'))"
      by (rule Suc.hyps(1)) (use Suc.hyps(2) Suc.prems i in simp_all)
    have used: "((u \<or> slot_in_use s ! i) \<or> (\<exists>j < 8. Suc i \<le> j \<and> slot_in_use s ! j)) \<longleftrightarrow>
        (u \<or> (\<exists>j < 8. i \<le> j \<and> slot_in_use s ! j))"
      using i by (metis Suc_leD Suc_leI le_neq_implies_less le_refl)
    have find: "find (slot_takes h d p ?s1) [Suc i..<8] = find (slot_takes h d p s) [Suc i..<8]"
      by (rule find_cong) (use Suc.prems(1) in \<open>auto simp: slot_matches_tell\<close>)
    have all: "tell h d {Suc i..<8} ?s1 = tell h d {i..<8} s"
    proof -
      have "{i} \<union> {Suc i..<8} = {i..<8}" using i by auto
      then show ?thesis using tell_tell [of "{i}" "{Suc i..<8}" h d s] by simp
    qed
    have upto: "tell h d {Suc i..k} ?s1 = tell h d {i..k} s \<and> payload_fits p ?s1 k = payload_fits p s k"
      if "find (slot_takes h d p s) [Suc i..<8] = Some k" for k
    proof -
      have k: "Suc i \<le> k" "k < 8" using that by (auto simp: find_Some_iff)
      then have "{i} \<union> {Suc i..k} = {i..k}" by auto
      then show ?thesis
        using tell_tell [of "{i}" "{Suc i..k}" h d s] slot_matches_tell(3) [of k "{i}" s p h d] k Suc.prems(1)
        by simp
    qed
    have "deliver h d p (Suc i) ?s1 = deliver h d p i s"
      unfolding deliver_def cons find using False upto by (auto simp: all split: option.split)
    with False show ?thesis
      unfolding step slot using IH used by (simp split: option.split)
  qed
qed

text \<open>The handler as a whole, and what it keeps.\<close>

lemma loc_sync_process_ind_spec:
  assumes "sync_inv s"
  shows "loc_sync_process_ind h d p s = deliver h d p 0 s"
proof (cases "arr_in_use s")
  case True
  note inv = sync_invD [OF assms]
  have "process_loop h d p 0 False False s =
      (case deliver h d p 0 s of None \<Rightarrow> None | Some s' \<Rightarrow> Some (True, s'))"
    using process_loop_spec [OF inv(2,1), of 0 h d p False] True inv(3) by (simp split: option.split)
  with True show ?thesis
    by (simp add: loc_sync_process_ind_def split: option.split)
next
  case False
  note inv = sync_invD [OF assms]
  have none: "\<not> slot_in_use s ! j" if "j < 8" for j using that inv(3) False by blast
  have "find (slot_takes h d p s) [0..<8] = None"
    using none by (auto simp: find_None_iff slot_takes_def slot_matches_def)
  moreover have "tell h d {0..<8} s = s"
  proof (rule sync_state_eqI)
    show "slots (tell h d {0..<8} s) = slots s"
    proof (rule nth_equalityI)
      fix j assume "j < length (slots (tell h d {0..<8} s))"
      then have j: "j < length (slots s)" by simp
      with none have "\<not> slot_matches h d s j" using inv(2) by (simp add: slot_matches_def)
      with j show "slots (tell h d {0..<8} s) ! j = slots s ! j" by simp
    qed simp
  qed simp_all
  ultimately show ?thesis using False by (simp add: loc_sync_process_ind_def deliver_def)
qed

lemma tell_inv:
  assumes "sync_inv s"
  shows "sync_inv (tell h d is s)"
  unfolding sync_inv_def using sync_invD [OF assms] by (auto simp: slot_matches_def)

lemma put_payload_inv [simp]: "sync_inv (put_payload p k s) = sync_inv s"
  by (simp add: sync_inv_def)

lemma loc_sync_process_ind_inv:
  assumes "sync_inv s" and "loc_sync_process_ind h d p s = Some s'"
  shows "sync_inv s'"
  using assms tell_inv [OF assms(1)]
  by (auto simp: loc_sync_process_ind_spec deliver_def split: option.splits if_splits)

section \<open>Waiting\<close>

lemma quiet_begin_invalid:
  assumes "k < 0 \<or> 8 \<le> k"
  shows "quiet_begin k s = Some (WAIT_DONE (- EINVAL), s)"
  using assms by (auto simp: quiet_begin_def)

lemma quiet_begin_spec:
  assumes "sync_inv s" "i < 8"
  shows "quiet_begin (int i) s =
    (if \<not> slot_in_use s ! i then Some (WAIT_DONE (- EINVAL), s)
     else if ind_has_arrived (slots s ! i)
     then map_option (Pair (WAIT_DONE 0)) (loc_free_slot i s)
     else if ind_is_waiting (slots s ! i)
     then map_option (Pair (WAIT_DONE (- EBUSY))) (loc_free_slot i s)
     else Some (WAIT_BLOCKED,
       s\<lparr>slots := (slots s)[i := (slots s ! i)\<lparr>ind_is_waiting := True, ind_signalled := False\<rparr>]\<rparr>))"
proof -
  obtain s' where "loc_free_slot i s = Some s'" using loc_free_slot_inv [OF assms] by blast
  then show ?thesis
    using assms(2) sync_invD(1,2) [OF assms(1)] by (simp add: quiet_begin_def)
qed

lemma quiet_begin_arrived:
  assumes "sync_inv s" "i < 8" "slot_in_use s ! i" "ind_has_arrived (slots s ! i)" "loc_free_slot i s = Some s'"
  shows "quiet_begin (int i) s = Some (WAIT_DONE 0, s')"
  using assms(3-) by (simp add: quiet_begin_spec [OF assms(1,2)])

lemma quiet_begin_inv:
  assumes "sync_inv s"
  obtains r s' where "quiet_begin k s = Some (r, s')" "sync_inv s'"
    "r = WAIT_BLOCKED \<Longrightarrow> 0 \<le> k \<and> k < 8 \<and> slot_in_use s' ! nat k \<and> ind_is_waiting (slots s' ! nat k)"
    "\<And>ret. r = WAIT_DONE ret \<Longrightarrow> 0 \<le> ret \<Longrightarrow> 0 \<le> k \<and> k < 8 \<and> \<not> slot_in_use s' ! nat k"
proof (cases "k < 0 \<or> 8 \<le> k")
  case True
  then show thesis using that [of "WAIT_DONE (- EINVAL)" s] assms quiet_begin_invalid by simp
next
  case False
  then obtain i where k: "k = int i" and i: "i < 8" by (metis linorder_not_le nonneg_int_cases of_nat_less_numeral_iff)
  note inv = sync_invD [OF assms]
  obtain s' where free: "loc_free_slot i s = Some s'" "sync_inv s'" "\<not> slot_in_use s' ! i"
    using loc_free_slot_inv [OF assms i] .
  let ?blocked = "s\<lparr>slots := (slots s)[i := (slots s ! i)\<lparr>ind_is_waiting := True, ind_signalled := False\<rparr>]\<rparr>"
  have blocked: "sync_inv ?blocked" if "slot_in_use s ! i" "\<not> ind_has_arrived (slots s ! i)"
    by (rule sync_inv_slot [OF assms i]) (use that in simp_all)
  note spec = quiet_begin_spec [OF assms i, folded k]
  consider "\<not> slot_in_use s ! i" | "slot_in_use s ! i" "ind_has_arrived (slots s ! i)"
    | "slot_in_use s ! i" "\<not> ind_has_arrived (slots s ! i)" "ind_is_waiting (slots s ! i)"
    | "slot_in_use s ! i" "\<not> ind_has_arrived (slots s ! i)" "\<not> ind_is_waiting (slots s ! i)"
    by blast
  then show thesis
  proof cases
    case 1
    then have "quiet_begin k s = Some (WAIT_DONE (- EINVAL), s)" by (simp add: spec)
    then show thesis by (rule that) (simp_all add: assms)
  next
    case 2
    then have "quiet_begin k s = Some (WAIT_DONE 0, s')" by (simp add: spec free(1))
    then show thesis by (rule that) (use free i k in simp_all)
  next
    case 3
    then have "quiet_begin k s = Some (WAIT_DONE (- EBUSY), s')" by (simp add: spec free(1))
    then show thesis by (rule that) (use free(2) in simp_all)
  next
    case 4
    then have "quiet_begin k s = Some (WAIT_BLOCKED, ?blocked)" by (simp add: spec)
    then show thesis by (rule that) (use 4 blocked i k inv(2) in simp_all)
  qed
qed

lemma quiet_end_spec:
  assumes "sync_inv s" "i < 8"
  obtains s' where "quiet_end i rc s = Some (if rc = ETIMEDOUT then - ETIMEDOUT else 0, s')"
    "sync_inv s'" "\<not> slot_in_use s' ! i"
    "payload_mem s' = payload_mem s" "\<And>j. j < 8 \<Longrightarrow> j \<noteq> i \<Longrightarrow> slots s' ! j = slots s ! j \<and> slot_in_use s' ! j = slot_in_use s ! j"
proof -
  note inv = sync_invD [OF assms(1)]
  let ?s1 = "s\<lparr>slots := (slots s)[i := (slots s ! i)\<lparr>ind_is_waiting := False\<rparr>]\<rparr>"
  have s1: "sync_inv ?s1"
  proof (rule sync_inv_slot [OF assms])
    assume "\<not> slot_in_use s ! i"
    then have "slot_free_ok (slots s ! i)" using inv(4) assms(2) by blast
    then show "slot_free_ok ((slots s ! i)\<lparr>ind_is_waiting := False\<rparr>)"
      by (rule slot_free_ok_wait)
  qed simp
  obtain s' where s': "loc_free_slot i ?s1 = Some s'" "sync_inv s'" "\<not> slot_in_use s' ! i"
    using loc_free_slot_inv [OF s1 assms(2)] .
  have s'_def: "s' = ?s1\<lparr>slot_in_use := (slot_in_use ?s1)[i := False],
            slots := (slots ?s1)[i := clear_slot\<lparr>ind_signalled := ind_signalled (slots ?s1 ! i)\<rparr>],
            arr_in_use := (arr_in_use ?s1 \<and> (\<exists>j < 8. j \<noteq> i \<and> slot_in_use ?s1 ! j))\<rparr>"
    using s'(1) unfolding loc_free_slot_spec [OF sync_invD(1,2) [OF s1] assms(2)] by (rule option.inject [THEN iffD1, symmetric])
  have same: "payload_mem s' = payload_mem s"
    "\<And>j. j < 8 \<Longrightarrow> j \<noteq> i \<Longrightarrow> slots s' ! j = slots s ! j \<and> slot_in_use s' ! j = slot_in_use s ! j"
    unfolding s'_def by simp_all
  have "quiet_end i rc s = Some (if rc = ETIMEDOUT then - ETIMEDOUT else 0, s')"
    using s'(1) inv(2) assms(2) by (simp add: quiet_end_def Let_def)
  then show thesis using that s' same by blast
qed

section \<open>One indication for one waiting request\<close>

lemma deliver_one:
  assumes "sync_inv t" "k < 8" "slot_takes h d (Some p) t k"
    and alone: "\<forall>j < 8. j \<noteq> k \<longrightarrow> \<not> slot_matches h d t j" and fits: "payload_fits (Some p) t k"
  shows "loc_sync_process_ind h d (Some p) t = Some (t\<lparr>slots := (slots t)[k := told (slots t ! k)],
    payload_mem := (payload_mem t)(recv_ind_payload_ptr (slots t ! k) :=
      p @ drop (length p) (payload_mem t (recv_ind_payload_ptr (slots t ! k))))\<rparr>)"
proof -
  note inv = sync_invD [OF assms(1)]
  have "find (slot_takes h d (Some p) t) [0..<8] = Some k"
    using assms(2,3) alone by (auto simp: find_Some_iff slot_takes_def intro!: exI [of _ k])
  moreover have "slots (tell h d {0..k} t) = (slots t)[k := told (slots t ! k)]"
  proof (rule nth_equalityI)
    fix j assume "j < length (slots (tell h d {0..k} t))"
    then have j: "j < 8" by (simp add: inv(2))
    have "slot_matches h d t k" using assms(3) by (simp add: slot_takes_def)
    with j show "slots (tell h d {0..k} t) ! j = (slots t)[k := told (slots t ! k)] ! j"
      using alone assms(2) inv(2) by (cases "j = k") auto
  qed simp
  moreover from this have "tell h d {0..k} t = t\<lparr>slots := (slots t)[k := told (slots t ! k)]\<rparr>"
    by (intro sync_state_eqI) simp_all
  ultimately show ?thesis
    using fits assms(2) inv(2)
    by (simp add: loc_sync_process_ind_spec [OF assms(1)] deliver_def put_payload_def Let_def)
qed

text \<open>
  The engine's answer arrives before the wait starts, or during it; \<open>env\<close> does nothing else.
\<close>

definition answers_before :: "sync_env \<Rightarrow> nat \<Rightarrow> u32 \<Rightarrow> u8 list \<Rightarrow> bool" where
  "answers_before env h d p \<longleftrightarrow>
     (\<forall>q k t. env_at env q k t = t) \<and>
     (\<forall>t t'. loc_sync_process_ind h d (Some p) t = Some t' \<longrightarrow> env_send env 0 t = (eLOC_CLIENT_SUCCESS, t'))"

definition answers_during :: "sync_env \<Rightarrow> nat \<Rightarrow> u32 \<Rightarrow> u8 list \<Rightarrow> bool" where
  "answers_during env h d p \<longleftrightarrow> (\<forall>q k t. env_at env q k t = t) \<and> (\<forall>t. env_send env 0 t = (eLOC_CLIENT_SUCCESS, t)) \<and>
     (\<forall>t t'. loc_sync_process_ind h d (Some p) t = Some t' \<longrightarrow> env_wait env 0 t = (0, t'))"

lemma loc_sync_send_req_answered:
  assumes inv: "sync_inv s" and free: "\<exists>j < 8. \<not> slot_in_use s ! j"
    and alone: "\<forall>j < 8. \<not> slot_matches h d s j"
    and buf: "ptr \<noteq> 0" "p \<noteq> []" "length p \<le> length (payload_mem s ptr)"
    and env: "answers_before env h d p \<or> answers_during env h d p"
  shows "\<exists>s'. loc_sync_send_req env h req_id d ptr s = Some (eLOC_CLIENT_SUCCESS, 1, s') \<and> sync_inv s' \<and>
    slot_in_use s' = slot_in_use s \<and>
    payload_mem s' = (payload_mem s)(ptr := p @ drop (length p) (payload_mem s ptr))"
proof (rule quiet_select_cases [OF inv, of h d req_id ptr])
  assume "\<forall>j < 8. slot_in_use s ! j"
  then show ?thesis using free by blast
next
  fix i
  let ?slot = "(slots s ! i)\<lparr>client_handle := h, ind_is_selected := True,
               ind_is_waiting := False, ind_has_arrived := False, recv_ind_id := d,
               slot_req_id := req_id, recv_ind_payload_ptr := ptr\<rparr>"
  let ?s1 = "s\<lparr>slot_in_use := (slot_in_use s)[i := True], arr_in_use := True, slots := (slots s)[i := ?slot]\<rparr>"
  let ?mem = "(payload_mem s)(ptr := p @ drop (length p) (payload_mem s ptr))"
  assume i: "i < 8" "\<not> slot_in_use s ! i" "\<forall>j < i. slot_in_use s ! j"
    and sel: "quiet_select h d req_id ptr s = Some (int i, ?s1)"
  have silent: "env_at env q k t = t" for q k t
    using env unfolding answers_before_def answers_during_def by blast
  note len = sync_invD(1,2) [OF inv]
  have s1: "sync_inv ?s1" using quiet_select_inv [OF inv sel] by simp
  text \<open>Delivery to the slot, whether a thread waits in it or not.\<close>
  have del: "loc_sync_process_ind h d (Some p) (?s1\<lparr>slots := (slots ?s1)[i := slot]\<rparr>) =
      Some (?s1\<lparr>slots := (slots ?s1)[i := told slot], payload_mem := ?mem\<rparr>)"
    if slot: "client_handle slot = h" "recv_ind_id slot = d" "recv_ind_payload_ptr slot = ptr" "\<not> ind_has_arrived slot"
    for slot
  proof -
    let ?t = "?s1\<lparr>slots := (slots ?s1)[i := slot]\<rparr>"
    have "sync_inv ?t" by (rule sync_inv_slot [OF s1 i(1)]) (use slot len i in simp_all)
    moreover have "slot_takes h d (Some p) ?t i"
      using slot len i buf by (simp add: slot_takes_def slot_matches_def)
    moreover have "\<forall>j < 8. j \<noteq> i \<longrightarrow> \<not> slot_matches h d ?t j"
      using alone by (simp add: slot_matches_def)
    moreover have "payload_fits (Some p) ?t i" using slot len i buf by (simp add: payload_fits_def)
    ultimately have "loc_sync_process_ind h d (Some p) ?t = Some (?t\<lparr>slots := (slots ?t)[i := told (slots ?t ! i)],
      payload_mem := (payload_mem ?t)(recv_ind_payload_ptr (slots ?t ! i) :=
        p @ drop (length p) (payload_mem ?t (recv_ind_payload_ptr (slots ?t ! i))))\<rparr>)"
      by (rule deliver_one [OF _ i(1)])
    then show ?thesis using slot len i by simp
  qed
  obtain s' where wait: "(do { (st, t) \<leftarrow> Some (env_send env 0 ?s1); loc_sync_wait_for_ind env 0 (int i) t }) = Some (0, s')"
    and send: "fst (env_send env 0 ?s1) = eLOC_CLIENT_SUCCESS"
    and s': "sync_inv s'" "slot_in_use s' = (slot_in_use s)[i := False]" "payload_mem s' = ?mem"
    using env
  proof
    assume before: "answers_before env h d p"
    let ?s2 = "?s1\<lparr>slots := (slots ?s1)[i := told ?slot], payload_mem := ?mem\<rparr>"
    have ind: "loc_sync_process_ind h d (Some p) ?s1 = Some ?s2" using del [of ?slot] by simp
    then have send: "env_send env 0 ?s1 = (eLOC_CLIENT_SUCCESS, ?s2)"
      using before unfolding answers_before_def by blast
    have s2: "sync_inv ?s2" by (rule loc_sync_process_ind_inv [OF s1 ind])
    obtain s' where free: "loc_free_slot i ?s2 = Some s'" "sync_inv s'"
      using loc_free_slot_inv [OF s2 i(1)] by metis
    have "quiet_begin (int i) ?s2 = Some (WAIT_DONE 0, s')"
      by (rule quiet_begin_arrived [OF s2 i(1) _ _ free(1)]) (use len i in simp_all)
    moreover have "slot_in_use s' = (slot_in_use s)[i := False]" "payload_mem s' = ?mem"
      using free(1) unfolding loc_free_slot_spec [OF sync_invD(1,2) [OF s2] i(1)] by auto
    ultimately show thesis using that [of s'] free(2) send by (simp add: wait_quiet silent)
  next
    assume during: "answers_during env h d p"
    let ?wslot = "?slot\<lparr>ind_is_waiting := True, ind_signalled := False\<rparr>"
    let ?s2 = "?s1\<lparr>slots := (slots ?s1)[i := ?wslot]\<rparr>"
    let ?s3 = "?s1\<lparr>slots := (slots ?s1)[i := told ?wslot], payload_mem := ?mem\<rparr>"
    have send: "env_send env 0 ?s1 = (eLOC_CLIENT_SUCCESS, ?s1)"
      using during unfolding answers_during_def by blast
    have waits: "quiet_begin (int i) ?s1 = Some (WAIT_BLOCKED, ?s2)"
      using len i by (simp add: quiet_begin_spec [OF s1 i(1)])
    have s2: "sync_inv ?s2" by (rule sync_inv_slot [OF s1 i(1)]) (use len i in simp_all)
    have ind: "loc_sync_process_ind h d (Some p) ?s2 = Some ?s3" by (rule del) simp_all
    then have wait: "env_wait env 0 ?s2 = (0, ?s3)" using during unfolding answers_during_def by blast
    have s3: "sync_inv ?s3" by (rule loc_sync_process_ind_inv [OF s2 ind])
    obtain s' where fin: "quiet_end i 0 ?s3 = Some (0, s')" "sync_inv s'" "\<not> slot_in_use s' ! i"
      "payload_mem s' = payload_mem ?s3"
      "\<And>j. j < 8 \<Longrightarrow> j \<noteq> i \<Longrightarrow> slots s' ! j = slots ?s3 ! j \<and> slot_in_use s' ! j = slot_in_use ?s3 ! j"
      using quiet_end_spec [OF s3 i(1), of 0] by auto
    have "slot_in_use s' = (slot_in_use s)[i := False]"
    proof (rule nth_equalityI)
      show "length (slot_in_use s') = length ((slot_in_use s)[i := False])"
        using sync_invD(1) [OF fin(2)] len by simp
      fix j assume "j < length (slot_in_use s')"
      then show "slot_in_use s' ! j = (slot_in_use s)[i := False] ! j"
        using fin(3) fin(5) [of j] sync_invD(1) [OF fin(2)] len i by (cases "j = i") auto
    qed
    then show thesis
      using that [of s'] fin(1,2,4) send wait waits by (simp add: wait_quiet silent)
  qed
  have "send_loop env (int i) 5 0 ?s1 = Some (eLOC_CLIENT_SUCCESS, 1, s')"
    using wait send by (subst send_loop.simps) (auto simp: retry_status_def split: prod.splits)
  then have "loc_sync_send_req env h req_id d ptr s = Some (eLOC_CLIENT_SUCCESS, 1, s')"
    by (simp add: loc_sync_send_req_def select_quiet silent sel)
  moreover have "(slot_in_use s)[i := False] = slot_in_use s"
    using i by (simp add: list_update_same_conv len)
  ultimately show ?thesis using s' by auto
qed

section \<open>The reachable states\<close>

text \<open>
  Any thread may run any of the critical sections, in any order: allocating and freeing a slot and the
  end of an indication's loop under the lock of the array, the rest under the lock of the slot. An
  indication visits the slots one by one. Only what the locks protect is a step of its own, so the
  sections of two calls mix freely. A slot number other than those of the array does not get this far.
\<close>

inductive sync_step :: "loc_sync_state \<Rightarrow> loc_sync_state \<Rightarrow> bool" where
  alloc: "loc_alloc_slot s = Some (k, s') \<Longrightarrow> sync_step s s'"
| store: "i < 8 \<Longrightarrow> loc_sync_select_store h d r p i s = Some s' \<Longrightarrow> sync_step s s'"
| ind_slot: "i < 8 \<Longrightarrow> process_slot h d q i s = Some (b, s') \<Longrightarrow> sync_step s s'"
| ind_end: "\<forall>i < 8. \<not> slot_in_use s ! i \<Longrightarrow> sync_step s (s\<lparr>arr_in_use := False\<rparr>)"
| wait_lock: "i < 8 \<Longrightarrow> loc_sync_wait_lock i s = Some (w, s') \<Longrightarrow> sync_step s s'"
| wait_resume: "i < 8 \<Longrightarrow> loc_sync_wait_resume i rc s = Some (r', s') \<Longrightarrow> sync_step s s'"
| free: "i < 8 \<Longrightarrow> loc_free_slot i s = Some s' \<Longrightarrow> sync_step s s'"
| init_again: "loc_sync_call_initialized s \<Longrightarrow> sync_step s (loc_sync_req_init s)"

inductive sync_steps :: "loc_sync_state \<Rightarrow> loc_sync_state \<Rightarrow> bool" where
  none: "sync_steps s s"
| more: "sync_steps s s' \<Longrightarrow> sync_step s' s'' \<Longrightarrow> sync_steps s s''"

inductive sync_reach :: "loc_sync_state \<Rightarrow> bool" where
  start: "\<not> loc_sync_call_initialized s \<Longrightarrow> sync_reach (loc_sync_req_init s)"
| step: "sync_reach s \<Longrightarrow> sync_step s s' \<Longrightarrow> sync_reach s'"

inductive_cases sync_stepE: "sync_step s s'"

text \<open>
  What no order of the critical sections breaks: the arrays keep their size, the flag of the array
  says whether a slot is in use, and no slot has both a waiting thread and a remembered indication.
\<close>

definition sync_safe :: "loc_sync_state \<Rightarrow> bool" where
  "sync_safe s \<longleftrightarrow>
     length (slot_in_use s) = 8 \<and> length (slots s) = 8 \<and>
     (arr_in_use s \<longleftrightarrow> (\<exists>i < 8. slot_in_use s ! i)) \<and>
     (\<forall>i < 8. \<not> (ind_is_waiting (slots s ! i) \<and> ind_has_arrived (slots s ! i)))"

lemma sync_safeD:
  assumes "sync_safe s"
  shows "length (slot_in_use s) = 8" "length (slots s) = 8" "arr_in_use s \<longleftrightarrow> (\<exists>i < 8. slot_in_use s ! i)"
    "\<And>i. i < 8 \<Longrightarrow> \<not> (ind_is_waiting (slots s ! i) \<and> ind_has_arrived (slots s ! i))"
  using assms by (auto simp: sync_safe_def)

lemma sync_inv_safe: "sync_inv s \<Longrightarrow> sync_safe s"
  by (simp add: sync_inv_def sync_safe_def)

lemma sync_safe_slot:
  assumes "sync_safe s" "i < 8" "\<not> (ind_is_waiting v \<and> ind_has_arrived v)"
  shows "sync_safe (s\<lparr>slots := (slots s)[i := v]\<rparr>)"
  using assms by (auto simp: sync_safe_def nth_list_update)

lemma sync_safe_mem [simp]: "sync_safe (s\<lparr>payload_mem := m\<rparr>) = sync_safe s"
  by (simp add: sync_safe_def)

lemma alloc_safe:
  assumes "sync_safe s"
  obtains (full) "\<forall>j < 8. slot_in_use s ! j" "loc_alloc_slot s = Some (- 1, s)"
    | (slot) i s' where "i < 8" "\<not> slot_in_use s ! i" "\<forall>j < i. slot_in_use s ! j"
        "loc_alloc_slot s = Some (int i, s')" "sync_safe s'" "slot_in_use s' ! i"
proof (rule loc_alloc_slot_cases [OF sync_safeD(1) [OF assms]])
  assume "\<forall>j < 8. slot_in_use s ! j" "loc_alloc_slot s = Some (- 1, s)"
  then show thesis by (rule full)
next
  fix i
  let ?s' = "s\<lparr>slot_in_use := (slot_in_use s)[i := True], arr_in_use := True\<rparr>"
  assume i: "i < 8" "\<not> slot_in_use s ! i" "\<forall>j < i. slot_in_use s ! j" "loc_alloc_slot s = Some (int i, ?s')"
  have "sync_safe ?s'" using sync_safeD [OF assms] i(1) by (auto simp: sync_safe_def nth_list_update)
  then show thesis using slot [OF i] i(1) sync_safeD(1) [OF assms] by simp
qed

lemma free_safe:
  assumes "sync_safe s" "i < 8"
  obtains s' where "loc_free_slot i s = Some s'" "sync_safe s'" "\<not> slot_in_use s' ! i"
proof -
  note inv = sync_safeD [OF assms(1)]
  note free = loc_free_slot_spec [OF inv(1,2) assms(2)]
  have used: "(arr_in_use s \<and> (\<exists>j < 8. j \<noteq> i \<and> slot_in_use s ! j)) \<longleftrightarrow>
      (\<exists>j < 8. (slot_in_use s)[i := False] ! j)"
    using inv(1,3) assms(2) by (metis nth_list_update)
  have "sync_safe (the (loc_free_slot i s))"
    unfolding sync_safe_def free option.sel used
    using inv(1,2,4) assms(2) by (auto simp: nth_list_update)
  then show thesis using that [of "the (loc_free_slot i s)"] free inv(1) assms(2) by simp
qed

lemma store_safe:
  assumes "sync_safe s" "i < 8"
  obtains s' where "loc_sync_select_store h d r p i s = Some s'" "sync_safe s'"
  using that sync_safe_slot [OF assms] sync_safeD(2) [OF assms(1)] assms(2)
  by (simp add: loc_sync_select_store_def)

lemma wait_lock_safe:
  assumes "sync_safe s" "i < 8"
  obtains w s' where "loc_sync_wait_lock i s = Some (w, s')" "sync_safe s'"
  using that assms(1) sync_safe_slot [OF assms] sync_safeD(2) [OF assms(1)] assms(2)
  by (cases "ind_has_arrived (slots s ! i)"; cases "ind_is_waiting (slots s ! i)")
    (simp_all add: loc_sync_wait_lock_def)

lemma wait_resume_safe:
  assumes "sync_safe s" "i < 8"
  obtains s' where "loc_sync_wait_resume i rc s = Some (if rc = ETIMEDOUT then - ETIMEDOUT else 0, s')" "sync_safe s'"
  using that sync_safe_slot [OF assms] sync_safeD(2) [OF assms(1)] assms(2)
  by (simp add: loc_sync_wait_resume_def)

lemma process_slot_safe:
  assumes safe: "sync_safe s" and i: "i < 8" and run: "process_slot h d q i s = Some (b, s')"
  shows "sync_safe s'"
proof (cases "slot_in_use s ! i \<and> client_handle (slots s ! i) = h \<and> d = recv_ind_id (slots s ! i)
    \<and> \<not> ind_has_arrived (slots s ! i)")
  case False
  then show ?thesis using run safe i sync_safeD(1,2) [OF safe] by (auto simp: process_slot_def split: if_splits)
next
  case True
  let ?v = "(slots s ! i)\<lparr>recv_ind_id := recv_ind_id (slots s ! i), ind_signalled := True\<rparr>"
  let ?w = "(slots s ! i)\<lparr>ind_has_arrived := True\<rparr>"
  have "sync_safe (s\<lparr>slots := (slots s)[i := ?v]\<rparr>)"
    by (rule sync_safe_slot [OF safe i]) (use True in simp)
  moreover have "sync_safe (s\<lparr>slots := (slots s)[i := ?w]\<rparr>)" if "\<not> ind_is_waiting (slots s ! i)"
    by (rule sync_safe_slot [OF safe i]) (use that in simp)
  ultimately show ?thesis
    using run True i sync_safeD(1,2) [OF safe]
    by (auto simp: process_slot_def Let_def split: option.splits if_splits Option.bind_splits)
qed

lemma process_slot_defined:
  assumes "sync_safe s" "i < 8" "payload_fits q s i"
  shows "process_slot h d q i s \<noteq> None"
  using assms sync_safeD(1,2) [OF assms(1)]
  by (auto simp: process_slot_def copy_payload_def payload_fits_def Let_def split: option.split)

lemma sync_step_safe:
  assumes "sync_step s s'" "sync_safe s"
  shows "sync_safe s'"
  using assms(1)
proof (rule sync_stepE)
  fix k assume "loc_alloc_slot s = Some (k, s')"
  then show ?thesis by (cases rule: alloc_safe [OF assms(2)]) (use assms(2) in auto)
next
  fix i h d r p assume "i < 8" "loc_sync_select_store h d r p i s = Some s'"
  then show ?thesis using store_safe [OF assms(2)] by (metis option.inject)
next
  fix i h d q b assume "i < 8" "process_slot h d q i s = Some (b, s')"
  then show ?thesis using process_slot_safe [OF assms(2)] by blast
next
  assume "s' = s\<lparr>arr_in_use := False\<rparr>" "\<forall>i < 8. \<not> slot_in_use s ! i"
  then show ?thesis using sync_safeD [OF assms(2)] by (simp add: sync_safe_def)
next
  fix i w assume "i < 8" "loc_sync_wait_lock i s = Some (w, s')"
  then show ?thesis using wait_lock_safe [OF assms(2)] by (metis option.inject prod.inject)
next
  fix i rc r assume "i < 8" "loc_sync_wait_resume i rc s = Some (r, s')"
  then show ?thesis using wait_resume_safe [OF assms(2)] by (metis option.inject prod.inject)
next
  fix i assume "i < 8" "loc_free_slot i s = Some s'"
  then show ?thesis using free_safe [OF assms(2)] by (metis option.inject)
next
  assume "s' = loc_sync_req_init s" "loc_sync_call_initialized s"
  then show ?thesis using assms(2) by (simp add: loc_sync_req_init_def)
qed

lemma sync_steps_safe: "sync_steps s s' \<Longrightarrow> sync_safe s \<Longrightarrow> sync_safe s'"
  by (induction rule: sync_steps.induct) (auto intro: sync_step_safe)

lemma sync_reach_safe:
  assumes "sync_reach s"
  shows "sync_safe s"
  using assms
proof induction
  case (start s)
  then show ?case using loc_sync_req_init_spec(1) sync_inv_safe by blast
next
  case (step s s')
  then show ?case by (blast intro: sync_step_safe)
qed

section \<open>The request among other threads\<close>

text \<open>
  The other threads do what they like: at every point their part of the run is some sequence of
  critical sections.
\<close>

definition env_runs :: "sync_env \<Rightarrow> bool" where
  "env_runs env \<longleftrightarrow>
     (\<forall>q k s. sync_steps s (env_at env q k s)) \<and> (\<forall>k s. sync_steps s (snd (env_send env k s)))
     \<and> (\<forall>k s. sync_steps s (snd (env_wait env k s)))"

lemma env_runsD:
  assumes "env_runs env" "sync_safe s"
  shows "sync_safe (env_at env q k s)" "sync_safe (snd (env_send env k s))" "sync_safe (snd (env_wait env k s))"
  using assms sync_steps_safe unfolding env_runs_def by blast+

lemma wait_for_ind_safe:
  assumes env: "env_runs env" and s: "sync_safe s" and i: "i < 8"
  obtains ret s' where "loc_sync_wait_for_ind env k (int i) s = Some (ret, s')" "sync_safe s'"
    "0 \<le> ret \<Longrightarrow> \<not> slot_in_use s' ! i"
proof (cases "slot_in_use s ! i")
  case False
  then show thesis using that [of "- EINVAL" s] s i sync_safeD(1) [OF s] by (simp add: loc_sync_wait_for_ind_def)
next
  case True
  let ?s1 = "env_at env BEFORE_LOCK k s"
  obtain w s2 where w: "loc_sync_wait_lock i ?s1 = Some (w, s2)" "sync_safe s2"
    using wait_lock_safe [OF env_runsD(1) [OF env s] i] .
  obtain ret s3 where r: "(case w of WAIT_DONE ret \<Rightarrow> Some (ret, s2)
      | WAIT_BLOCKED \<Rightarrow> let (rc, s) = env_wait env k s2 in loc_sync_wait_resume (nat (int i)) rc s) = Some (ret, s3)" "sync_safe s3"
  proof (cases w)
    case (WAIT_DONE ret)
    then show thesis using that w(2) by simp
  next
    case WAIT_BLOCKED
    obtain s3 where "loc_sync_wait_resume i (fst (env_wait env k s2)) (snd (env_wait env k s2))
        = Some (if fst (env_wait env k s2) = ETIMEDOUT then - ETIMEDOUT else 0, s3)" "sync_safe s3"
      using wait_resume_safe [OF env_runsD(3) [OF env w(2), of k] i] .
    then show thesis by (intro that) (simp_all add: WAIT_BLOCKED case_prod_unfold Let_def)
  qed
  obtain s4 where f: "loc_free_slot i (env_at env BEFORE_FREE k s3) = Some s4" "sync_safe s4" "\<not> slot_in_use s4 ! i"
    using free_safe [OF env_runsD(1) [OF env r(2)] i] .
  have "loc_sync_wait_for_ind env k (int i) s = Some (ret, s4)"
    using True i sync_safeD(1) [OF s] by (simp add: loc_sync_wait_for_ind_def w r f)
  then show thesis using that f by blast
qed

text \<open>
  The loop sends at least once and at most once more than it may retry, stays inside the array,
  and leaves the slot free when it reports success.
\<close>

lemma send_loop_spec:
  assumes env: "env_runs env" and "sync_safe s" and i: "i < 8"
  shows "\<exists>st n s'. send_loop env (int i) rem k s = Some (st, n, s') \<and> sync_safe s' \<and>
    k < n \<and> n \<le> Suc (k + rem) \<and> (st = eLOC_CLIENT_SUCCESS \<longrightarrow> \<not> slot_in_use s' ! i) \<and>
    (retry_status st \<longrightarrow> n = Suc (k + rem))"
  using assms(2)
proof (induction rem arbitrary: k s rule: less_induct)
  case (less rem)
  obtain st1 s1 where snd: "env_send env k s = (st1, s1)" by fastforce
  have s1: "sync_safe s1" using env_runsD(2) [OF env less.prems, of k] snd by simp
  obtain st2 s2 where mid: "(if st1 = eLOC_CLIENT_SUCCESS
          then do {
            (rc, s) \<leftarrow> loc_sync_wait_for_ind env k (int i) s1;
            Some (if rc < 0 then if rc = - ETIMEDOUT then eLOC_CLIENT_FAILURE_TIMEOUT
                                 else eLOC_CLIENT_FAILURE_INTERNAL
                  else eLOC_CLIENT_SUCCESS, s)
          }
          else Some (st1, s1)) = Some (st2, s2)"
    and s2: "sync_safe s2" and freed: "st2 = eLOC_CLIENT_SUCCESS \<Longrightarrow> \<not> slot_in_use s2 ! i"
  proof (cases "st1 = eLOC_CLIENT_SUCCESS")
    case False
    then show thesis using that [of st1 s1] s1 by simp
  next
    case True
    obtain ret s3 where "loc_sync_wait_for_ind env k (int i) s1 = Some (ret, s3)" "sync_safe s3"
      "0 \<le> ret \<Longrightarrow> \<not> slot_in_use s3 ! i"
      using wait_for_ind_safe [OF env s1 i, of k] by blast
    then show thesis
      using that [of "if ret < 0 then if ret = - ETIMEDOUT then eLOC_CLIENT_FAILURE_TIMEOUT
        else eLOC_CLIENT_FAILURE_INTERNAL else eLOC_CLIENT_SUCCESS" s3] True
      by (cases "ret < 0"; cases "ret = - ETIMEDOUT") simp_all
  qed
  have unfold: "send_loop env (int i) rem k s =
      (if retry_status st2 \<and> 0 < rem then send_loop env (int i) (rem - 1) (Suc k) s2
       else Some (st2, Suc k, s2))"
    by (subst send_loop.simps) (simp add: snd mid)
  show ?case
  proof (cases "retry_status st2 \<and> 0 < rem")
    case True
    have "\<exists>st n s'. send_loop env (int i) (rem - 1) (Suc k) s2 = Some (st, n, s') \<and> sync_safe s' \<and>
      Suc k < n \<and> n \<le> Suc (Suc k + (rem - 1)) \<and> (st = eLOC_CLIENT_SUCCESS \<longrightarrow> \<not> slot_in_use s' ! i) \<and>
      (retry_status st \<longrightarrow> n = Suc (Suc k + (rem - 1)))"
      by (rule less.IH) (use True s2 in simp_all)
    moreover have "Suc k + (rem - 1) = k + rem" using True by simp
    ultimately show ?thesis unfolding unfold if_P [OF True] by fastforce
  next
    case False
    then show ?thesis unfolding unfold if_not_P [OF False] using s2 freed by simp
  qed
qed

text \<open>The whole request: at most six sends, and the slot it took is free at the end.\<close>

lemma loc_sync_send_req_spec:
  assumes env: "env_runs env" and s: "sync_safe s" and room: "\<exists>j < 8. \<not> slot_in_use s ! j"
  shows "\<exists>st n s' i. loc_sync_send_req env handle req_id ind_id ptr s = Some (st, n, s') \<and> sync_safe s' \<and>
    0 < n \<and> n \<le> 6 \<and> (retry_status st \<longrightarrow> n = 6) \<and> i < 8 \<and> \<not> slot_in_use s ! i \<and> (\<forall>j < i. slot_in_use s ! j) \<and>
    \<not> slot_in_use s' ! i"
proof (rule alloc_safe [OF s])
  assume "\<forall>j < 8. slot_in_use s ! j"
  then show ?thesis using room by blast
next
  fix i s0
  assume i: "i < 8" "\<not> slot_in_use s ! i" "\<forall>j < i. slot_in_use s ! j"
    and alloc: "loc_alloc_slot s = Some (int i, s0)" and s0: "sync_safe s0"
  obtain s1 where store: "loc_sync_select_store handle ind_id req_id ptr i (env_at env AFTER_ALLOC 0 s0) = Some s1" "sync_safe s1"
    using store_safe [OF env_runsD(1) [OF env s0] i(1)] .
  have sel: "loc_sync_select_ind env handle ind_id req_id ptr s = Some (int i, s1)"
    by (simp add: loc_sync_select_ind_def alloc store(1))
  obtain st n s2 where loop: "send_loop env (int i) 5 0 s1 = Some (st, n, s2)" "sync_safe s2"
    "0 < n" "n \<le> 6" "st = eLOC_CLIENT_SUCCESS \<longrightarrow> \<not> slot_in_use s2 ! i" "retry_status st \<longrightarrow> n = 6"
    using send_loop_spec [OF env store(2) i(1), of 5 0] by auto
  show ?thesis
  proof (cases "st = eLOC_CLIENT_SUCCESS")
    case True
    then have "loc_sync_send_req env handle req_id ind_id ptr s = Some (st, n, s2)"
      by (simp add: loc_sync_send_req_def sel loop(1))
    with True loop i show ?thesis by blast
  next
    case False
    obtain s3 where "loc_free_slot i (env_at env BEFORE_LAST_FREE n s2) = Some s3" "sync_safe s3" "\<not> slot_in_use s3 ! i"
      using free_safe [OF env_runsD(1) [OF env loop(2)] i(1)] .
    moreover from this(1) False have "loc_sync_send_req env handle req_id ind_id ptr s = Some (st, n, s3)"
      by (simp add: loc_sync_send_req_def sel loop(1))
    ultimately show ?thesis using loop i by blast
  qed
qed

section \<open>A release too many\<close>

text \<open>
  The environment of a request that times out: the send succeeds, nothing arrives, and between
  the end of the wait, which frees the slot, and the release at the end of
  \<open>loc_sync_send_req\<close> another thread selects an indication.
\<close>

definition timeout_env :: "nat \<Rightarrow> u32 \<Rightarrow> u32 \<Rightarrow> nat \<Rightarrow> sync_env" where
  "timeout_env h d r ptr = \<lparr>env_send = \<lambda>k s. (eLOC_CLIENT_SUCCESS, s), env_wait = \<lambda>k s. (ETIMEDOUT, s),
     env_at = \<lambda>q k s. (if q = BEFORE_LAST_FREE
       then (case quiet_select h d r ptr s of Some (i, s') \<Rightarrow> s' | None \<Rightarrow> s) else s)\<rparr>"

lemma timeout_run:
  assumes inv: "sync_inv s" and i: "i < 8" "slot_in_use s ! i"
    and slot: "\<not> ind_is_waiting (slots s ! i)" "\<not> ind_has_arrived (slots s ! i)"
  obtains t where "send_loop (timeout_env h d r ptr) (int i) 5 0 s = Some (eLOC_CLIENT_FAILURE_TIMEOUT, 1, t)"
    "sync_inv t" "slot_in_use t = (slot_in_use s)[i := False]"
proof -
  let ?w = "s\<lparr>slots := (slots s)[i := (slots s ! i)\<lparr>ind_is_waiting := True, ind_signalled := False\<rparr>]\<rparr>"
  have waits: "quiet_begin (int i) s = Some (WAIT_BLOCKED, ?w)"
    using i slot by (simp add: quiet_begin_spec [OF inv i(1)])
  have w: "sync_inv ?w" by (rule sync_inv_slot [OF inv i(1)]) (use i slot in simp_all)
  obtain t where t: "quiet_end i ETIMEDOUT ?w = Some (- ETIMEDOUT, t)" "sync_inv t" "\<not> slot_in_use t ! i"
    "\<And>j. j < 8 \<Longrightarrow> j \<noteq> i \<Longrightarrow> slots t ! j = slots ?w ! j \<and> slot_in_use t ! j = slot_in_use ?w ! j"
    using quiet_end_spec [OF w i(1), of ETIMEDOUT] by auto
  have "slot_in_use t = (slot_in_use s)[i := False]"
  proof (rule nth_equalityI)
    show "length (slot_in_use t) = length ((slot_in_use s)[i := False])"
      using sync_invD(1) [OF t(2)] sync_invD(1) [OF inv] by simp
    fix j assume "j < length (slot_in_use t)"
    then show "slot_in_use t ! j = (slot_in_use s)[i := False] ! j"
      using t(3) t(4) [of j] sync_invD(1) [OF t(2)] sync_invD(1) [OF inv] i by (cases "j = i") auto
  qed
  moreover have "send_loop (timeout_env h d r ptr) (int i) 5 0 s = Some (eLOC_CLIENT_FAILURE_TIMEOUT, 1, t)"
    using waits t(1)
    by (subst send_loop.simps) (simp add: wait_quiet timeout_env_def retry_status_def)
  ultimately show thesis using that t(2) by blast
qed

lemma timeout_frees_other:
  assumes inv: "sync_inv s" and room: "\<exists>j < 8. \<not> slot_in_use s ! j"
  shows "\<exists>t i t' s'. quiet_select h d r ptr t = Some (int i, t') \<and> slot_in_use t' ! i \<and>
    env_at (timeout_env h d r ptr) BEFORE_LAST_FREE 1 t = t' \<and>
    loc_sync_send_req (timeout_env h d r ptr) h1 r1 d1 ptr1 s = Some (eLOC_CLIENT_FAILURE_TIMEOUT, 1, s') \<and>
    loc_free_slot i t' = Some s' \<and> \<not> slot_in_use s' ! i"
proof (rule quiet_select_cases [OF inv, of h1 d1 r1 ptr1])
  assume "\<forall>j < 8. slot_in_use s ! j"
  then show ?thesis using room by blast
next
  fix i
  let ?s1 = "s\<lparr>slot_in_use := (slot_in_use s)[i := True], arr_in_use := True,
             slots := (slots s)[i := (slots s ! i)\<lparr>client_handle := h1, ind_is_selected := True,
               ind_is_waiting := False, ind_has_arrived := False, recv_ind_id := d1,
               slot_req_id := r1, recv_ind_payload_ptr := ptr1\<rparr>]\<rparr>"
  assume i: "i < 8" "\<not> slot_in_use s ! i" "\<forall>j < i. slot_in_use s ! j"
    and sel: "quiet_select h1 d1 r1 ptr1 s = Some (int i, ?s1)"
  note len = sync_invD(1,2) [OF inv]
  have s1: "sync_inv ?s1" using quiet_select_inv [OF inv sel] by simp
  obtain t where t: "send_loop (timeout_env h d r ptr) (int i) 5 0 ?s1 = Some (eLOC_CLIENT_FAILURE_TIMEOUT, 1, t)"
    "sync_inv t" "slot_in_use t = (slot_in_use ?s1)[i := False]"
    by (rule timeout_run [OF s1 i(1)]) (use i len in simp_all)
  have free: "\<not> slot_in_use t ! i" "\<forall>j < i. slot_in_use t ! j" using t(3) i len by simp_all
  obtain t' where t': "quiet_select h d r ptr t = Some (int i, t')"
  proof (rule quiet_select_cases [OF t(2), of h d r ptr])
    assume "\<forall>j < 8. slot_in_use t ! j"
    then show thesis using free i(1) by blast
  next
    fix i' assume "\<not> slot_in_use t ! i'" "\<forall>j < i'. slot_in_use t ! j" "quiet_select h d r ptr t = Some (int i',
           t\<lparr>slot_in_use := (slot_in_use t)[i' := True], arr_in_use := True,
             slots := (slots t)[i' := (slots t ! i')\<lparr>client_handle := h, ind_is_selected := True,
               ind_is_waiting := False, ind_has_arrived := False, recv_ind_id := d, slot_req_id := r,
               recv_ind_payload_ptr := ptr\<rparr>]\<rparr>)"
    moreover from this free have "i' = i" by (meson linorder_neqE_nat)
    ultimately show thesis using that by blast
  qed
  have inv': "sync_inv t'" "slot_in_use t' ! i" using quiet_select_inv [OF t(2) t'] by simp_all
  obtain s' where s': "loc_free_slot i t' = Some s'" "\<not> slot_in_use s' ! i"
    using loc_free_slot_inv [OF inv'(1) i(1)] by metis
  have silent: "env_at (timeout_env h d r ptr) AFTER_ALLOC 0 u = u" for u by (simp add: timeout_env_def)
  have before: "env_at (timeout_env h d r ptr) BEFORE_LAST_FREE 1 t = t'" by (simp add: timeout_env_def t')
  have "loc_sync_send_req (timeout_env h d r ptr) h1 r1 d1 ptr1 s = Some (eLOC_CLIENT_FAILURE_TIMEOUT, 1, s')"
    using before by (simp add: loc_sync_send_req_def select_quiet [OF silent] sel t(1) s'(1))
  then show ?thesis using t' inv'(2) before s' by blast
qed

end
