(* ===== verification/Loc_Props.thy ===== *)
theory Loc_Props
  imports Msg_Q Sync_Req
begin

text \<open>
  What the linked list, the message queue and the synchronous requests of the GPS code promise
  to their callers, with an instance of each promise on a small concrete state.
\<close>

section \<open>Concrete states\<close>

text \<open>A list at address 1 with the elements 10 and 20, and a message queue at address 5 on it.\<close>

definition two_elems :: ll_heap where
  "two_elems = \<lparr>elems = [10 \<mapsto> \<lparr>el_next = 20, el_prev = 0, el_data_ptr = 100, el_dealloc_func = 7\<rparr>,
                          20 \<mapsto> \<lparr>el_next = 0, el_prev = 10, el_data_ptr = 200, el_dealloc_func = 0\<rparr>],
                lists = [1 \<mapsto> \<lparr>p_head = 10, p_tail = 20\<rparr>], dealloc_calls = []\<rparr>"

definition idle_queue :: msg_q where
  "idle_queue = \<lparr>msg_list = 1, cond_waiting = [], cond_woken = [], unblocked = False\<rparr>"

definition two_messages :: mq_state where
  "two_messages = \<lparr>mq_ll = two_elems, mq_queues = [5 \<mapsto> idle_queue]\<rparr>"

definition two_sent :: mq_sys where
  "two_sent = \<lparr>sys_st = two_messages, sys_sent = [200, 100], sys_out = []\<rparr>"

lemma two_elems_rep: "ll_rep two_elems 1 [10, 20]"
  by (simp add: ll_rep_def two_elems_def get_list_def nx_def pv_def)

lemma two_messages_rep: "mq_rep two_messages 5 idle_queue [10, 20]"
  using two_elems_rep by (simp add: mq_rep_def two_messages_def idle_queue_def)

lemma two_messages_messages: "messages two_messages [10, 20] = [(200, 0), (100, 7)]"
  by (simp add: messages_def two_messages_def two_elems_def item_def)

lemma two_sent_inv: "mq_inv 5 two_sent"
  by (rule mq_invI [of _ _ idle_queue "[10, 20]"])
    (use two_messages_rep two_messages_messages in \<open>simp_all add: two_sent_def threads_ok_def idle_queue_def\<close>)

section \<open>The linked list\<close>

text \<open>
  \<open>linked_list_add\<close> puts a new element at the head: the list afterwards holds the new data
  followed by the old, in the old order, and no deallocation function is called.
\<close>
theorem list_add_head:
  assumes "ll_rep h l ps" "mem \<noteq> 0" "elems h mem = None" "data \<noteq> 0"
  shows "\<exists>h'. linked_list_add mem l data f h = Some (eLINKED_LIST_SUCCESS, h') \<and> ll_rep h' l (mem # ps) \<and>
    map (item h') (mem # ps) = (data, f) # map (item h) ps \<and> dealloc_calls h' = dealloc_calls h"
  using linked_list_add_spec [OF assms, of f] by metis

lemma list_add_head_witness:
  "\<exists>h'. linked_list_add 30 1 300 9 two_elems = Some (eLINKED_LIST_SUCCESS, h') \<and> ll_rep h' 1 [30, 10, 20] \<and>
    map (item h') [30, 10, 20] = [(300, 9), (100, 7), (200, 0)] \<and> dealloc_calls h' = []"
  using list_add_head [OF two_elems_rep, of 30 300 9] by (simp add: two_elems_def item_def)

text \<open>
  \<open>linked_list_remove\<close> takes the oldest element, at the tail: it returns its data, frees it
  and leaves the rest of the list with its data and its order.
\<close>
theorem list_remove_tail:
  assumes "ll_rep h l (ps @ [a])"
  shows "\<exists>h'. linked_list_remove l False h = Some (eLINKED_LIST_SUCCESS, Some (fst (item h a)), h') \<and>
    ll_rep h' l ps \<and> map (item h') ps = map (item h) ps \<and> elems h' a = None \<and> dealloc_calls h' = dealloc_calls h"
  using linked_list_remove_spec [OF assms] by metis

lemma list_remove_tail_witness:
  "\<exists>h'. linked_list_remove 1 False two_elems = Some (eLINKED_LIST_SUCCESS, Some 200, h') \<and>
    ll_rep h' 1 [10] \<and> map (item h') [10] = [(100, 7)] \<and> elems h' 20 = None \<and> dealloc_calls h' = []"
  using list_remove_tail [of two_elems 1 "[10]" 20] two_elems_rep by (simp add: two_elems_def item_def)

text \<open>
  \<open>linked_list_flush\<close> ends on every well-formed list, leaves it empty, frees exactly its
  elements, and calls the deallocation function of each element that has one, head first, once.
\<close>
theorem list_flush_frees:
  assumes "ll_rep h l ps"
  shows "\<exists>h'. linked_list_flush l h = Some (eLINKED_LIST_SUCCESS, h') \<and> ll_rep h' l [] \<and>
    elems h' = (\<lambda>a. if a \<in> set ps then None else elems h a) \<and>
    dealloc_calls h' = dealloc_calls h @
      map (\<lambda>a. (snd (item h a), fst (item h a))) (filter (\<lambda>a. snd (item h a) \<noteq> 0) ps)"
  by (rule linked_list_flush_spec [OF assms]) (auto simp: dealloc_of_def)

lemma list_flush_frees_witness:
  "\<exists>h'. linked_list_flush 1 two_elems = Some (eLINKED_LIST_SUCCESS, h') \<and> ll_rep h' 1 [] \<and>
    elems h' 10 = None \<and> elems h' 20 = None \<and> dealloc_calls h' = [(7, 100)]"
proof -
  obtain h' where "linked_list_flush 1 two_elems = Some (eLINKED_LIST_SUCCESS, h')" "ll_rep h' 1 []"
    "elems h' = (\<lambda>a. if a \<in> set [10, 20] then None else elems two_elems a)"
    "dealloc_calls h' = dealloc_calls two_elems @
      map (\<lambda>a. (snd (item two_elems a), fst (item two_elems a))) (filter (\<lambda>a. snd (item two_elems a) \<noteq> 0) [10, 20])"
    using list_flush_frees [OF two_elems_rep] by blast
  then show ?thesis by (simp add: two_elems_def item_def)
qed

text \<open>
  A search with removal returns the data of the first element from the head that matches,
  unlinks and frees that element alone, keeps the others in order, and calls its deallocation
  function only when the caller does not take the data.
\<close>
theorem list_search_removes_first:
  assumes "ll_rep h l (as @ a # bs)" "equal d (fst (item h a))" "\<forall>b\<in>set as. \<not> equal d (fst (item h b))"
  shows "\<exists>h'. linked_list_search l null (Some equal) d True h =
         Some (eLINKED_LIST_SUCCESS, if null then None else Some (fst (item h a)), h') \<and>
         ll_rep h' l (as @ bs) \<and> map (item h') (as @ bs) = map (item h) (as @ bs) \<and> elems h' a = None \<and>
         dealloc_calls h' = dealloc_calls h @
           (if null \<and> snd (item h a) \<noteq> 0 then [(snd (item h a), fst (item h a))] else [])"
proof -
  have "(if null then dealloc_of h [a] else []) =
      (if null \<and> snd (item h a) \<noteq> 0 then [(snd (item h a), fst (item h a))] else [])"
    by (simp add: dealloc_of_def)
  with search_first(2) [of h l as a bs equal d, OF assms, of null] show ?thesis by (simp only:)
qed

lemma list_search_removes_first_witness:
  "\<exists>h'. linked_list_search 1 True (Some (=)) 100 True two_elems = Some (eLINKED_LIST_SUCCESS, None, h') \<and>
      ll_rep h' 1 [20] \<and> dealloc_calls h' = [(7, 100)]"
proof -
  have "ll_rep two_elems 1 ([] @ 10 # [20])" "100 = fst (item two_elems 10)"
    using two_elems_rep by (simp_all add: two_elems_def item_def)
  from list_search_removes_first [of two_elems 1 "[]" 10 "[20]" "(=)" 100, OF this, of True] show ?thesis
    by (auto simp: two_elems_def item_def)
qed

text \<open>On an empty list the search is an error and writes nothing to the caller's pointer.\<close>

lemma search_empty_list:
  assumes "ll_rep h l []"
  shows "linked_list_search l False (Some equal) d rm h = Some (eLINKED_LIST_UNAVAILABLE_RESOURCE, None, h)"
  using assms by (auto elim!: ll_repE simp: linked_list_search_def)

section \<open>The message queue\<close>

text \<open>
  In every run of successful sends and receives on an open queue that never receives from an
  empty one, the messages received followed by the messages left are the messages that were in
  the queue followed by those sent, in the order of sending.
\<close>
theorem queue_fifo:
  assumes "mq_items q s xs" "ms.never_empty ops xs" "ms.run q tid ops s = Some (ds, s')"
  shows "\<exists>ys. mq_items q s' ys \<and> ds @ map fst ys = map fst (xs @ [x. Some (c, x) \<leftarrow> ops])"
  by (rule ms.run_fifo [OF assms]) blast

text \<open>The run: send message 300 from element 30, then receive twice.\<close>

definition demo_run :: "((nat \<times> nat list) \<times> nat \<times> nat) option list" where
  "demo_run = [Some ((30, []), 300, 0), None, None]"

lemma two_messages_items: "mq_items 5 two_messages [(200, 0), (100, 7)]"
  unfolding mq_items_def using two_messages_rep two_messages_messages by (force simp: idle_queue_def)

lemma demo_run_result: "\<exists>s'. ms.run 5 1 demo_run two_messages = Some ([200, 100], s')"
proof -
  note items = two_messages_items
  have put: "fresh_elem (fst (30, [])) (mq_ll two_messages) \<and> fst (300, 0) \<noteq> (0 :: nat)"
    by (simp add: fresh_elem_def two_messages_def two_elems_def)
  obtain s1 where s1: "mq_put 5 (30, []) (300, 0) two_messages = Some s1" "mq_items 5 s1 ([(200, 0), (100, 7)] @ [(300, 0)])"
    using mq_put_law [OF items, of "(30, [])" "(300, 0)"] put by auto
  obtain s2 where s2: "mq_take 5 1 s1 = Some (200, s2)" "mq_items 5 s2 [(100, 7), (300, 0)]"
    using mq_take_law [OF s1(2) [simplified], of 1] by auto
  obtain s3 where "mq_take 5 1 s2 = Some (100, s3)" "mq_items 5 s3 [(300, 0)]"
    using mq_take_law [OF s2(2), of 1] by auto
  then show ?thesis unfolding demo_run_def ms.run.simps using put s1(1) s2(1) by simp
qed

lemma queue_fifo_witness:
  "\<exists>s' ys. ms.run 5 1 demo_run two_messages = Some ([200, 100], s') \<and> mq_items 5 s' ys \<and>
    [200, 100] @ map fst ys = [200, 100, 300]"
proof -
  obtain s' where run: "ms.run 5 1 demo_run two_messages = Some ([200, 100], s')" using demo_run_result by blast
  have ne: "ms.never_empty demo_run [(200, 0), (100, 7)]" by (simp add: demo_run_def)
  show ?thesis using queue_fifo [OF two_messages_items ne run] run by (auto simp: demo_run_def)
qed

text \<open>
  C12: for any threads that send, receive, wait, wake up, flush and unblock on one queue in any
  order, the messages accepted by send are, in order, those that left the queue, each once to
  one receiver or to a flush, followed by those still in it.
\<close>
theorem queue_conserves_messages:
  assumes "mq_reach q S0 S" "mq_inv q S0"
  shows "\<exists>m ps. mq_rep (sys_st S) q m ps \<and>
    sys_sent S = map out_obj (sys_out S) @ map fst (messages (sys_st S) ps)"
  using mq_reach_inv [OF assms] by (auto simp: mq_inv_def)

definition two_sent_unblocked :: mq_sys where
  "two_sent_unblocked = two_sent\<lparr>sys_st := put_q 5 (cond_broadcast (idle_queue\<lparr>unblocked := True\<rparr>)) two_messages\<rparr>"

lemma two_sent_reach: "mq_reach 5 two_sent two_sent_unblocked"
proof -
  have "msg_q_unblock 5 two_messages =
      Some (eMSG_Q_SUCCESS, put_q 5 (cond_broadcast (idle_queue\<lparr>unblocked := True\<rparr>)) two_messages)"
    by (rule msg_q_unblock_spec(1) [OF two_messages_rep]) (simp add: idle_queue_def)
  then have "mq_step 5 two_sent two_sent_unblocked"
    unfolding two_sent_unblocked_def by (intro mq_step.unblock) (simp add: two_sent_def)
  then show ?thesis by (rule mq_reach.more [OF mq_reach.start])
qed

lemma queue_conserves_messages_witness:
  "\<exists>m ps. mq_rep (sys_st two_sent_unblocked) 5 m ps \<and>
    [200, 100] = map out_obj [] @ map fst (messages (sys_st two_sent_unblocked) ps)"
  using queue_conserves_messages [OF two_sent_reach two_sent_inv]
  by (simp add: two_sent_unblocked_def two_sent_def)

text \<open>
  C26: no wake-up is lost. In every reachable state a thread waits only while the queue is open,
  and while any thread waits there are at least as many woken threads on their way to the queue
  as there are messages in it; no thread is counted twice.
\<close>
theorem queue_no_lost_wakeup:
  assumes "mq_reach q S0 S" "mq_inv q S0"
  shows "\<exists>m ps. mq_rep (sys_st S) q m ps \<and> distinct (cond_waiting m @ cond_woken m) \<and>
    (cond_waiting m = [] \<or> (\<not> unblocked m \<and> length ps \<le> length (cond_woken m)))"
  using mq_reach_inv [OF assms] by (fastforce simp: mq_inv_def threads_ok_def)

lemma queue_no_lost_wakeup_witness:
  "\<exists>m ps. mq_rep (sys_st two_sent_unblocked) 5 m ps \<and> distinct (cond_waiting m @ cond_woken m) \<and>
    (cond_waiting m = [] \<or> (\<not> unblocked m \<and> length ps \<le> length (cond_woken m)))"
  using queue_no_lost_wakeup [OF two_sent_reach two_sent_inv] .

text \<open>
  \<open>msg_q_unblock\<close> wakes every waiting thread; afterwards a send and a receive that starts are
  refused at once, a thread that returns from its wait never waits again: it takes a message or,
  when none is left, ends with the same refusal.
\<close>
theorem queue_unblock:
  assumes "mq_rep s q m ps" "\<not> unblocked m"
  shows "\<exists>s' m'. msg_q_unblock q s = Some (eMSG_Q_SUCCESS, s') \<and> mq_rep s' q m' ps \<and>
    cond_waiting m' = [] \<and> cond_woken m' = cond_woken m @ cond_waiting m \<and>
    (\<forall>tid. msg_q_rcv tid q False s' = Some (RCV_DONE eMSG_Q_UNAVAILABLE_RESOURCE None, s')) \<and>
    (\<forall>mem wake obj f. obj \<noteq> 0 \<longrightarrow> msg_q_snd mem wake q obj f s' = Some (eMSG_Q_UNAVAILABLE_RESOURCE, s')) \<and>
    (\<forall>tid r s''. msg_q_rcv_resume tid q s' = Some (r, s'') \<longrightarrow> r \<noteq> RCV_WAIT \<and>
       (ps = [] \<longrightarrow> r = RCV_DONE eMSG_Q_UNAVAILABLE_RESOURCE None))"
proof (intro exI conjI allI impI)
  let ?m = "cond_broadcast (m\<lparr>unblocked := True\<rparr>)"
  let ?s = "put_q q ?m s"
  show u: "msg_q_unblock q s = Some (eMSG_Q_SUCCESS, ?s)" and rep: "mq_rep ?s q ?m ps"
    using msg_q_unblock_spec [OF assms] by simp_all
  show "cond_waiting ?m = []" "cond_woken ?m = cond_woken m @ cond_waiting m" by simp_all
  show "msg_q_rcv tid q False ?s = Some (RCV_DONE eMSG_Q_UNAVAILABLE_RESOURCE None, ?s)" for tid
    by (rule msg_q_rcv_blocked [OF rep]) simp
  show "obj \<noteq> 0 \<Longrightarrow> msg_q_snd mem wake q obj f ?s = Some (eMSG_Q_UNAVAILABLE_RESOURCE, ?s)" for mem wake obj f
    by (rule msg_q_snd_unblocked [OF rep]) simp_all
  fix tid r s'' assume r: "msg_q_rcv_resume tid q ?s = Some (r, s'')"
  let ?m2 = "?m\<lparr>cond_waiting := removeAll tid (cond_waiting ?m), cond_woken := removeAll tid (cond_woken ?m)\<rparr>"
  have q: "q \<noteq> 0" using rep by (simp add: mq_rep_def)
  have c: "rcv_check tid q (put_q q ?m2 ?s) = Some (r, s'')"
    using r q by (simp add: msg_q_rcv_resume_def)
  have rep2: "mq_rep (put_q q ?m2 ?s) q ?m2 ps" using rep by (simp add: mq_rep_def)
  have un: "unblocked ?m2" by simp
  show "ps = [] \<Longrightarrow> r = RCV_DONE eMSG_Q_UNAVAILABLE_RESOURCE None"
    using c rcv_check_unblocked [OF _ un] rep2 by auto
  show "r \<noteq> RCV_WAIT"
  proof (cases ps rule: rev_cases)
    case Nil
    then show ?thesis using c rcv_check_unblocked [OF _ un] rep2 by auto
  next
    case (snoc qs a)
    then show ?thesis using c rcv_check_message [OF rep2 [unfolded snoc], of tid] by (metis option.inject prod.inject rcv_result.distinct(1))
  qed
qed

lemma queue_unblock_witness:
  "\<exists>s' m'. msg_q_unblock 5 two_messages = Some (eMSG_Q_SUCCESS, s') \<and> mq_rep s' 5 m' [10, 20] \<and> cond_waiting m' = []"
  using queue_unblock [OF two_messages_rep] by (auto simp: idle_queue_def)

section \<open>Synchronous requests\<close>

text \<open>The module after its initialisation; every buffer has four bytes.\<close>

definition sync_start :: loc_sync_state where
  "sync_start = loc_sync_req_init \<lparr>loc_sync_call_initialized = False, arr_in_use = False,
     slot_in_use = replicate 8 False, slots = replicate 8 clear_slot, payload_mem = (\<lambda>_. [0, 0, 0, 0])\<rparr>"

lemma sync_start_reach: "sync_reach sync_start"
  unfolding sync_start_def by (rule sync_reach.start) simp

lemma sync_start_inv: "sync_inv sync_start"
  unfolding sync_start_def by (rule loc_sync_req_init_spec(1)) simp

lemma sync_start_fields:
  "slot_in_use sync_start = replicate 8 False" "payload_mem sync_start = (\<lambda>_. [0, 0, 0, 0])"
  "slots sync_start = replicate 8 clear_slot"
  by (simp_all add: sync_start_def loc_sync_req_init_def)

text \<open>
  C29: whatever order the threads run their critical sections in, those of two calls mixed freely,
  the flag of the array says whether a slot is in use, no slot both waits and holds an early
  indication; and no critical section reads or writes outside the array, an indication's visit to a
  slot included when its payload fits the buffer of that slot.
\<close>
theorem sync_reachable_safe:
  assumes "sync_reach s" "i < 8"
  shows "(arr_in_use s \<longleftrightarrow> (\<exists>i < 8. slot_in_use s ! i)) \<and>
    \<not> (ind_is_waiting (slots s ! i) \<and> ind_has_arrived (slots s ! i)) \<and>
    loc_alloc_slot s \<noteq> None \<and> loc_sync_select_store h d r ptr i s \<noteq> None \<and>
    loc_sync_wait_lock i s \<noteq> None \<and> loc_sync_wait_resume i rc s \<noteq> None \<and> loc_free_slot i s \<noteq> None \<and>
    (payload_fits p s i \<longrightarrow> process_slot h d p i s \<noteq> None)"
proof -
  have safe: "sync_safe s" using sync_reach_safe [OF assms(1)] .
  have "loc_alloc_slot s \<noteq> None" by (rule alloc_safe [OF safe]) simp_all
  moreover have "loc_sync_select_store h d r ptr i s \<noteq> None" by (rule store_safe [OF safe assms(2), where h = h and d = d and r = r and p = ptr]) simp
  moreover have "loc_sync_wait_lock i s \<noteq> None" by (rule wait_lock_safe [OF safe assms(2)]) simp
  moreover have "loc_sync_wait_resume i rc s \<noteq> None" by (rule wait_resume_safe [OF safe assms(2), where rc = rc]) simp
  moreover have "loc_free_slot i s \<noteq> None" by (rule free_safe [OF safe assms(2)]) simp
  ultimately show ?thesis
    using process_slot_defined [OF safe assms(2)] sync_safeD(3,4) [OF safe] assms(2) by blast
qed

lemma sync_reachable_safe_witness:
  "loc_sync_select_store 3 7 8 1 0 sync_start \<noteq> None \<and> process_slot 3 7 (Some [1, 2]) 0 sync_start \<noteq> None"
proof -
  have "payload_fits (Some [1, 2]) sync_start 0" by (simp add: payload_fits_def sync_start_fields)
  then show ?thesis
    using sync_reachable_safe [OF sync_start_reach, of 0 3 7 8 1 0 "Some [1, 2]"] by simp
qed

text \<open>
  C31: the loop of \<open>loc_sync_process_ind\<close> is the delivery \<open>deliver\<close> from slot 0: every slot that waits for
  this indication of this client is told, up to and including the first that has a buffer, whose
  buffer receives the payload; the slots after it are left for the next indication.
\<close>
theorem sync_process_ind_delivers:
  assumes "sync_inv s"
  shows "loc_sync_process_ind h d p s =
    (case find (slot_takes h d p s) [0..<8] of
       None \<Rightarrow> Some (tell h d {0..<8} s)
     | Some k \<Rightarrow> if payload_fits p s k then Some (put_payload p k (tell h d {0..k} s)) else None)"
  using loc_sync_process_ind_spec [OF assms] by (simp add: deliver_def)

lemma sync_process_ind_delivers_witness:
  "loc_sync_process_ind 3 7 (Some [1, 2]) sync_start = Some (tell 3 7 {0..<8} sync_start)"
proof -
  have none: "find (slot_takes 3 7 (Some [1, 2]) sync_start) [0..<8] = None"
    by (auto simp: find_None_iff slot_takes_def slot_matches_def sync_start_fields)
  show ?thesis using sync_process_ind_delivers [OF sync_start_inv, of 3 7 "Some [1, 2]"] by (simp add: none)
qed

text \<open>
  C19: a synchronous request that finds a free slot returns, whatever critical sections the other
  threads run between its own, in whatever number and order, and whatever the engine answers: after one to
  six sends, six of them when the status is still one that is retried. It stays inside the array, and its slot, the lowest
  that was free, is not in use when it returns.
\<close>
theorem sync_send_req_bounded:
  assumes "env_runs env" "sync_reach s" "\<exists>j < 8. \<not> slot_in_use s ! j"
  shows "\<exists>st n s' i. loc_sync_send_req env h req_id ind_id ptr s = Some (st, n, s') \<and> sync_safe s' \<and>
    0 < n \<and> n \<le> 6 \<and> (retry_status st \<longrightarrow> n = 6) \<and> i < 8 \<and> \<not> slot_in_use s ! i \<and> (\<forall>j < i. slot_in_use s ! j) \<and>
    \<not> slot_in_use s' ! i"
  by (rule loc_sync_send_req_spec [OF assms(1) sync_reach_safe [OF assms(2)] assms(3)])

text \<open>A busy engine, while another thread allocates a slot at every point.\<close>

definition crowd :: "loc_sync_state \<Rightarrow> loc_sync_state" where
  "crowd s = (case loc_alloc_slot s of Some (k, s') \<Rightarrow> s' | None \<Rightarrow> s)"

definition busy_env :: sync_env where
  "busy_env = \<lparr>env_send = \<lambda>k s. (eLOC_CLIENT_FAILURE_ENGINE_BUSY, crowd s), env_wait = \<lambda>k s. (0, s),
     env_at = \<lambda>q k s. s\<rparr>"

lemma crowd_runs: "sync_steps s (crowd s)"
  by (auto simp: crowd_def intro: sync_steps.none sync_steps.more [OF sync_steps.none] sync_step.alloc
      split: option.split)

lemma sync_send_req_bounded_witness:
  "\<exists>st n s' i. loc_sync_send_req busy_env 3 8 7 1 sync_start = Some (st, n, s') \<and> 0 < n \<and> n \<le> 6 \<and> \<not> slot_in_use s' ! i"
proof -
  have "env_runs busy_env" by (simp add: env_runs_def busy_env_def crowd_runs sync_steps.none)
  moreover have "\<exists>j < 8. \<not> slot_in_use sync_start ! j" by (intro exI [of _ 0]) (simp add: sync_start_fields)
  ultimately show ?thesis
    using sync_send_req_bounded [OF _ sync_start_reach, of busy_env 3 8 7 1] by blast
qed

text \<open>
  C30: when the engine answers a request, before the wait or during it, the request succeeds
  after one send: the payload is at the start of the caller's buffer, the rest of the memory and the slots in use
  are as before.
\<close>
theorem sync_send_req_answered:
  assumes "sync_inv s" "\<exists>j < 8. \<not> slot_in_use s ! j" "\<forall>j < 8. \<not> slot_matches h d s j"
    "ptr \<noteq> 0" "p \<noteq> []" "length p \<le> length (payload_mem s ptr)"
    "answers_before env h d p \<or> answers_during env h d p"
  shows "\<exists>s'. loc_sync_send_req env h req_id d ptr s = Some (eLOC_CLIENT_SUCCESS, 1, s') \<and> sync_inv s' \<and>
    slot_in_use s' = slot_in_use s \<and>
    payload_mem s' = (payload_mem s)(ptr := p @ drop (length p) (payload_mem s ptr))"
  by (rule loc_sync_send_req_answered [OF assms])

definition answering_env :: "nat \<Rightarrow> u32 \<Rightarrow> u8 list \<Rightarrow> sync_env" where
  "answering_env h d p = \<lparr>env_send = \<lambda>k s. (eLOC_CLIENT_SUCCESS, s),
     env_wait = \<lambda>k s. (0, case loc_sync_process_ind h d (Some p) s of Some s' \<Rightarrow> s' | None \<Rightarrow> s),
     env_at = \<lambda>q k s. s\<rparr>"

lemma sync_send_req_answered_witness:
  "\<exists>s'. loc_sync_send_req (answering_env 3 7 [1, 2]) 3 8 7 1 sync_start = Some (eLOC_CLIENT_SUCCESS, 1, s') \<and>
    payload_mem s' 1 = [1, 2, 0, 0]"
proof -
  have free: "\<exists>j < 8. \<not> slot_in_use sync_start ! j" by (intro exI [of _ 0]) (simp add: sync_start_fields)
  have alone: "\<forall>j < 8. \<not> slot_matches 3 7 sync_start j" by (simp add: slot_matches_def sync_start_fields)
  have len: "length [1, 2 :: u8] \<le> length (payload_mem sync_start 1)" by (simp add: sync_start_fields)
  have env: "answers_before (answering_env 3 7 [1, 2]) 3 7 [1, 2] \<or> answers_during (answering_env 3 7 [1, 2]) 3 7 [1, 2]"
    by (simp add: answers_during_def answering_env_def)
  show ?thesis
    using sync_send_req_answered [OF sync_start_inv free alone _ _ len env, of 8] by (auto simp: sync_start_fields)
qed

text \<open>
  When all eight slots are in use the request is never sent, nothing changes, and the caller
  is told that it succeeded.
\<close>
theorem sync_send_req_full:
  assumes "sync_inv s" "\<forall>j < 8. slot_in_use s ! j"
  shows "loc_sync_send_req env h req_id d ptr s = Some (eLOC_CLIENT_SUCCESS, 0, s)"
proof (rule loc_alloc_slot_cases [OF sync_invD(1) [OF assms(1)]])
  assume "loc_alloc_slot s = Some (- 1, s)"
  then show ?thesis by (simp add: loc_sync_send_req_def loc_sync_select_ind_def)
next
  fix i assume "i < 8" "\<not> slot_in_use s ! i"
  then show ?thesis using assms(2) by blast
qed

definition sync_full :: loc_sync_state where
  "sync_full = sync_start\<lparr>arr_in_use := True, slot_in_use := replicate 8 True\<rparr>"

lemma sync_send_req_full_witness:
  "loc_sync_send_req busy_env 3 8 7 1 sync_full = Some (eLOC_CLIENT_SUCCESS, 0, sync_full)"
proof -
  have "sync_inv sync_full"
    using sync_start_inv by (auto simp: sync_inv_def sync_full_def sync_start_fields intro!: exI [of _ 0])
  then show ?thesis by (rule sync_send_req_full) (simp add: sync_full_def)
qed

text \<open>
  A request that times out frees its slot twice, at the end of the wait and again at its own
  end. A thread that selects an indication in between is given the same slot, and the second release
  takes it away: at the end it is no longer in use.
\<close>
theorem sync_timeout_frees_other:
  assumes "sync_inv s" "\<exists>j < 8. \<not> slot_in_use s ! j"
  shows "\<exists>t i t' s'. quiet_select h d r ptr t = Some (int i, t') \<and> slot_in_use t' ! i \<and>
    env_at (timeout_env h d r ptr) BEFORE_LAST_FREE 1 t = t' \<and>
    loc_sync_send_req (timeout_env h d r ptr) h1 r1 d1 ptr1 s = Some (eLOC_CLIENT_FAILURE_TIMEOUT, 1, s') \<and>
    loc_free_slot i t' = Some s' \<and> \<not> slot_in_use s' ! i"
  by (rule timeout_frees_other [OF assms])

lemma sync_timeout_frees_other_witness:
  "\<exists>t i t' s'. quiet_select 4 9 9 2 t = Some (int i, t') \<and> slot_in_use t' ! i \<and>
    loc_sync_send_req (timeout_env 4 9 9 2) 3 8 7 1 sync_start = Some (eLOC_CLIENT_FAILURE_TIMEOUT, 1, s') \<and>
    \<not> slot_in_use s' ! i"
proof -
  have free: "\<exists>j < 8. \<not> slot_in_use sync_start ! j" by (intro exI [of _ 0]) (simp add: sync_start_fields)
  show ?thesis using sync_timeout_frees_other [OF sync_start_inv free, of 4 9 9 2 3 8 7 1] by blast
qed

end
