(* ===== verification/Ipacm_Events.thy ===== *)
theory Ipacm_Events
  imports Msg_Q
begin

text \<open>
  The event machinery of the IPA connection manager: the command queue (ipacm/src/IPACM_CmdQueue.cpp)
  and the dispatcher with its list of registered listeners (ipacm/src/IPACM_EvtDispatcher.cpp), over
  an explicit heap. An address is a natural number, 0 is NULL; a freed node is not in its map, so
  that reading it is undefined. A listener is its address; what its virtual function
  \<open>event_callback\<close> does to the events is an argument.
\<close>

record ipacm_cmd_q_data =
  event :: nat
  evt_data :: nat

record message =
  m_next :: nat
  m_evt :: ipacm_cmd_q_data

record cmd_evts =
  ce_event :: nat
  ce_obj :: nat
  ce_next :: nat

text \<open>
  The messages with the head and the tail of the queue, the registrations with their head, the
  counters \<open>ipacm_event_stats\<close>, and two records of what happened: the callbacks made and the
  event data freed.
\<close>

record ipacm_events =
  msgs :: "nat \<rightharpoonup> message"
  Head :: nat
  Tail :: nat
  regs :: "nat \<rightharpoonup> cmd_evts"
  reg_head :: nat
  event_stats :: "u32 list"
  called :: "(nat \<times> nat \<times> nat) list"
  freed_data :: "nat list"

type_synonym listener = "nat \<Rightarrow> nat \<Rightarrow> nat \<Rightarrow> ipacm_events \<Rightarrow> ipacm_events option"

section \<open>The command queue\<close>

definition setnext :: "nat \<Rightarrow> nat \<Rightarrow> ipacm_events \<Rightarrow> ipacm_events option" where
  "setnext a itm s = do { m \<leftarrow> msgs s a; Some (s\<lparr>msgs := (msgs s)(a \<mapsto> m\<lparr>m_next := itm\<rparr>)\<rparr>) }"

definition enqueue :: "nat \<Rightarrow> ipacm_events \<Rightarrow> ipacm_events option" where
  "enqueue itm s =
     (if Head s = 0 then Some (s\<lparr>Tail := itm, Head := itm\<rparr>)
      else if Tail s = 0 then map_option (\<lambda>s. s\<lparr>Tail := itm\<rparr>) (setnext (Head s) itm s)
      else map_option (\<lambda>s. s\<lparr>Tail := itm\<rparr>) (setnext (Tail s) itm s))"

text \<open>The tail keeps its value when the last message is taken.\<close>

definition dequeue :: "ipacm_events \<Rightarrow> (nat \<times> ipacm_events) option" where
  "dequeue s =
     (if Head s = 0 then Some (0, s)
      else do { m \<leftarrow> msgs s (Head s); Some (Head s, s\<lparr>Head := m_next m\<rparr>) })"

text \<open>
  \<open>PostEvt\<close>: \<open>itm\<close> is the address of the new message, and the three flags say whether the
  lock, the signal and the unlock succeed.
\<close>

definition PostEvt ::
  "nat \<Rightarrow> bool \<Rightarrow> bool \<Rightarrow> bool \<Rightarrow> ipacm_cmd_q_data \<Rightarrow> ipacm_events \<Rightarrow> (int \<times> ipacm_events) option" where
  "PostEvt itm lock_ok signal_ok unlock_ok data s =
     (if itm = 0 then Some (-1, s)
      else let s = s\<lparr>msgs := (msgs s)(itm \<mapsto> \<lparr>m_next = 0, m_evt = data\<rparr>)\<rparr>
      in if \<not> lock_ok then Some (-1, s)
      else do {
        s \<leftarrow> enqueue itm s;
        Some (if signal_ok \<and> unlock_ok then 0 else -1, s)
      })"

section \<open>Registration\<close>

text \<open>The last node of the list, from \<open>tmp\<close>.\<close>

partial_function (option) last_reg :: "nat \<Rightarrow> ipacm_events \<Rightarrow> nat option" where
  "last_reg tmp s = do { n \<leftarrow> regs s tmp; if ce_next n = 0 then Some tmp else last_reg (ce_next n) s }"

definition registr :: "nat \<Rightarrow> nat \<Rightarrow> nat \<Rightarrow> ipacm_events \<Rightarrow> (int \<times> ipacm_events) option" where
  "registr nw ev obj s =
     (if nw = 0 then Some (-1, s)
      else let s = s\<lparr>regs := (regs s)(nw \<mapsto> \<lparr>ce_event = ev, ce_obj = obj, ce_next = 0\<rparr>)\<rparr>
      in if reg_head s = 0 then Some (0, s\<lparr>reg_head := nw\<rparr>)
      else do {
        l \<leftarrow> last_reg (reg_head s) s;
        n \<leftarrow> regs s l;
        Some (0, s\<lparr>regs := (regs s)(l \<mapsto> n\<lparr>ce_next := nw\<rparr>)\<rparr>)
      })"

text \<open>One pass over the list; \<open>prev\<close> is the last node kept, at first the head.\<close>

definition set_ce_next :: "nat \<Rightarrow> nat \<Rightarrow> ipacm_events \<Rightarrow> ipacm_events option" where
  "set_ce_next a x s = do { n \<leftarrow> regs s a; Some (s\<lparr>regs := (regs s)(a \<mapsto> n\<lparr>ce_next := x\<rparr>)\<rparr>) }"

partial_function (option) dereg_loop :: "nat \<Rightarrow> nat \<Rightarrow> nat \<Rightarrow> ipacm_events \<Rightarrow> ipacm_events option" where
  "dereg_loop param tmp prev s =
     (if tmp = 0 then Some s
      else do {
        n \<leftarrow> regs s tmp;
        if ce_obj n = param
        then do {
          s \<leftarrow> (if tmp = reg_head s then Some (s\<lparr>reg_head := ce_next n\<rparr>)
                else if ce_next n = 0 then set_ce_next prev 0 s
                else set_ce_next prev (ce_next n) s);
          n \<leftarrow> regs s tmp;
          dereg_loop param (ce_next n) prev (s\<lparr>regs := (regs s)(tmp := None)\<rparr>)
        }
        else dereg_loop param (ce_next n) tmp s
      })"

definition deregistr :: "nat \<Rightarrow> ipacm_events \<Rightarrow> (int \<times> ipacm_events) option" where
  "deregistr param s = map_option (\<lambda>s. (0, s)) (dereg_loop param (reg_head s) (reg_head s) s)"

section \<open>Dispatch\<close>

text \<open>
  Each node is copied before its callback, and the copy's link is followed after it: a callback
  may remove its own node but not the next one.
\<close>

partial_function (option) process_loop_evt ::
  "listener \<Rightarrow> ipacm_cmd_q_data \<Rightarrow> nat \<Rightarrow> ipacm_events \<Rightarrow> ipacm_events option" where
  "process_loop_evt cb d tmp s =
     (if tmp = 0 then Some s
      else do {
        tmp1 \<leftarrow> regs s tmp;
        s \<leftarrow> (if event d = ce_event tmp1
              then do {
                k \<leftarrow> rd (event_stats s) (event d);
                let s = s\<lparr>event_stats := (event_stats s)[event d := k + 1],
                          called := called s @ [(ce_obj tmp1, event d, evt_data d)]\<rparr>;
                cb (ce_obj tmp1) (event d) (evt_data d) s
              }
              else Some s);
        process_loop_evt cb d (ce_next tmp1) s
      })"

definition ProcessEvt :: "listener \<Rightarrow> ipacm_cmd_q_data \<Rightarrow> ipacm_events \<Rightarrow> ipacm_events option" where
  "ProcessEvt cb d s =
     do {
       s \<leftarrow> process_loop_evt cb d (reg_head s) s;
       Some (if evt_data d \<noteq> 0 then s\<lparr>freed_data := freed_data s @ [evt_data d]\<rparr> else s)
     }"

text \<open>
  One turn of the loop of \<open>Process\<close> with a message: take it under the lock, run its callback,
  which is always \<open>ProcessEvt\<close>, without it, and delete it. The flag says whether there was one; the
  thread waits on the condition variable when there was not.
\<close>

definition Process_turn :: "listener \<Rightarrow> ipacm_events \<Rightarrow> (bool \<times> ipacm_events) option" where
  "Process_turn cb s =
     do {
       (itm, s) \<leftarrow> dequeue s;
       if itm = 0 then Some (False, s)
       else do {
         m \<leftarrow> msgs s itm;
         s \<leftarrow> ProcessEvt cb (m_evt m) s;
         Some (True, s\<lparr>msgs := (msgs s)(itm := None)\<rparr>)
       }
     }"

end
