(* ===== verification/Nat_Fields.thy ===== *)
theory Nat_Fields
  imports Prelude
begin

text \<open>
  The data of the NAT driver (ipanat/inc/ipa_nat_drvi.h, ipa_nat_drv.h) and its bit-field
  accessors (the first functions of ipanat/src/ipa_nat_drvi.c). Rules are kept as the 32 bit
  and 16 bit units of the hardware structure; the software view has one field per bit-field,
  and \<open>memcpy\<close> from it to a table slot is the packing \<open>nat_rule_of_sw\<close>. The lemmas show
  that the two structures have the same sixteen halfwords, that a 16 bit write at a byte
  offset changes exactly that halfword, and what each accessor reads back.
\<close>

section \<open>Enumerations\<close>

datatype nat_table_type =
    IPA_NAT_BASE_TBL | IPA_NAT_EXPN_TBL | IPA_NAT_INDX_TBL | IPA_NAT_INDEX_EXPN_TBL

datatype ipa_nat_rule_field_type =
    NEXT_INDEX_FIELD | PUBLIC_PORT_FILED | PRIVATE_PORT_FIELD | TARGET_PORT_FIELD
  | IP_CHKSUM_FIELD | ENABLE_FIELD | TIME_STAMP_FIELD | PROTOCOL_FIELD
  | TCP_UDP_CHKSUM_FIELD | SW_SPEC_PARAM_PREV_INDEX_FIELD
  | SW_SPEC_PARAM_INDX_TBL_ENTRY_FIELD | INDX_TBL_TBL_ENTRY_FIELD
  | INDX_TBL_NEXT_INDEX_FILED

datatype del_type =
    IPA_NAT_DEL_TYPE_ONLY_ONE | IPA_NAT_DEL_TYPE_HEAD
  | IPA_NAT_DEL_TYPE_MIDDLE | IPA_NAT_DEL_TYPE_LAST

text \<open>The constants of ipa_nat_drvi.h that the models use.\<close>

abbreviation (input) IPA_NAT_INVALID_NAT_ENTRY :: nat where "IPA_NAT_INVALID_NAT_ENTRY \<equiv> 0"
abbreviation (input) IPA_NAT_FLAG_ENABLE_BIT_MASK :: u16 where "IPA_NAT_FLAG_ENABLE_BIT_MASK \<equiv> 0x8000"
abbreviation (input) IPA_NAT_FLAG_DISABLE_BIT_MASK :: u16 where "IPA_NAT_FLAG_DISABLE_BIT_MASK \<equiv> 0"
abbreviation (input) IPA_NAT_INVALID_PROTO_FIELD_VALUE :: u16
  where "IPA_NAT_INVALID_PROTO_FIELD_VALUE \<equiv> 0xFF00"
abbreviation (input) IPA_NAT_INVALID_PROTO_FIELD_CMP :: u8 where "IPA_NAT_INVALID_PROTO_FIELD_CMP \<equiv> 0xFF"
abbreviation (input) IPA_NAT_RULE_FLAG_FIELD_OFFSET :: nat where "IPA_NAT_RULE_FLAG_FIELD_OFFSET \<equiv> 18"
abbreviation (input) IPA_NAT_RULE_NEXT_FIELD_OFFSET :: nat where "IPA_NAT_RULE_NEXT_FIELD_OFFSET \<equiv> 8"
abbreviation (input) IPA_NAT_RULE_PROTO_FIELD_OFFSET :: nat where "IPA_NAT_RULE_PROTO_FIELD_OFFSET \<equiv> 22"
abbreviation (input) IPA_NAT_INDEX_RULE_NEXT_FIELD_OFFSET :: nat
  where "IPA_NAT_INDEX_RULE_NEXT_FIELD_OFFSET \<equiv> 2"
abbreviation (input) IPA_NAT_INDEX_RULE_NAT_INDEX_FIELD_OFFSET :: nat
  where "IPA_NAT_INDEX_RULE_NAT_INDEX_FIELD_OFFSET \<equiv> 0"
abbreviation (input) IPA_NAT_TABLE_ENTRY_SIZE :: nat where "IPA_NAT_TABLE_ENTRY_SIZE \<equiv> 32"
abbreviation (input) IPA_NAT_INDEX_TABLE_ENTRY_SIZE :: nat where "IPA_NAT_INDEX_TABLE_ENTRY_SIZE \<equiv> 4"
abbreviation (input) IPA_NAT_SW_PARAM_PREV_INDX_BYTE :: u8 where "IPA_NAT_SW_PARAM_PREV_INDX_BYTE \<equiv> 0"
abbreviation (input) IPA_NAT_SW_PARAM_INDX_TBL_ENTRY_BYTE :: u8
  where "IPA_NAT_SW_PARAM_INDX_TBL_ENTRY_BYTE \<equiv> 1"

section \<open>Structures\<close>

record ipa_nat_ipv4_rule =
  clnt_target_ip :: u32
  clnt_private_ip :: u32
  clnt_target_port :: u16
  clnt_private_port :: u16
  clnt_public_port :: u16
  clnt_protocol :: u8

record ipa_nat_rule =
  hw_private_ip :: u32
  hw_target_ip :: u32
  hw_nxt_indx_pub_port :: u32
  hw_private_port :: u16
  hw_target_port :: u16
  hw_ip_cksm_enbl :: u32
  hw_ts_proto :: u32
  hw_sw_spec_params :: u32
  hw_rsvd2 :: u16
  hw_tcp_udp_chksum :: u16

record ipa_nat_sw_rule =
  sw_private_ip :: u32
  sw_target_ip :: u32
  sw_next_index :: u16
  sw_public_port :: u16
  sw_private_port :: u16
  sw_target_port :: u16
  sw_ip_chksum :: u16
  sw_rsvd1 :: "14 word"
  sw_redirect :: "1 word"
  sw_enable :: "1 word"
  sw_time_stamp :: "24 word"
  sw_protocol :: u8
  sw_prev_index :: u16
  sw_indx_tbl_entry :: u16
  sw_rsvd2 :: u16
  sw_tcp_udp_chksum :: u16

record ipa_nat_indx_tbl_sw_rule =
  ix_tbl_entry :: u16
  ix_next_index :: u16
  ix_prev_index :: u16

text \<open>\<open>memset(slot, 0, sizeof(struct ipa_nat_rule))\<close>\<close>

definition zero_rule :: ipa_nat_rule where
  "zero_rule = \<lparr>hw_private_ip = 0, hw_target_ip = 0, hw_nxt_indx_pub_port = 0,
     hw_private_port = 0, hw_target_port = 0, hw_ip_cksm_enbl = 0, hw_ts_proto = 0,
     hw_sw_spec_params = 0, hw_rsvd2 = 0, hw_tcp_udp_chksum = 0\<rparr>"

definition zero_sw_rule :: ipa_nat_sw_rule where
  "zero_sw_rule = \<lparr>sw_private_ip = 0, sw_target_ip = 0, sw_next_index = 0, sw_public_port = 0,
     sw_private_port = 0, sw_target_port = 0, sw_ip_chksum = 0, sw_rsvd1 = 0, sw_redirect = 0,
     sw_enable = 0, sw_time_stamp = 0, sw_protocol = 0, sw_prev_index = 0,
     sw_indx_tbl_entry = 0, sw_rsvd2 = 0, sw_tcp_udp_chksum = 0\<rparr>"

definition zero_indx_sw_rule :: ipa_nat_indx_tbl_sw_rule where
  "zero_indx_sw_rule = \<lparr>ix_tbl_entry = 0, ix_next_index = 0, ix_prev_index = 0\<rparr>"

section \<open>Accessors\<close>

definition UpdateSwSpecParams :: "ipa_nat_rule \<Rightarrow> u8 \<Rightarrow> u32 \<Rightarrow> ipa_nat_rule" where
  "UpdateSwSpecParams rule param_type value =
     (let temp = hw_sw_spec_params rule;
          (value, temp) =
            (if IPA_NAT_SW_PARAM_INDX_TBL_ENTRY_BYTE = param_type
             then (push_bit 16 value, temp AND 0x0000FFFF)
             else (value, temp AND 0xFFFF0000))
      in rule\<lparr>hw_sw_spec_params := temp OR value\<rparr>)"

fun Read8BitFieldValue :: "u32 \<Rightarrow> ipa_nat_rule_field_type \<Rightarrow> u8" where
  "Read8BitFieldValue param PROTOCOL_FIELD = ucast (drop_bit 24 param)"
| "Read8BitFieldValue param _ = 0"

fun Read16BitFieldValue :: "u32 \<Rightarrow> ipa_nat_rule_field_type \<Rightarrow> u16" where
  "Read16BitFieldValue param NEXT_INDEX_FIELD = lo16 param"
| "Read16BitFieldValue param PUBLIC_PORT_FILED = hi16 param"
| "Read16BitFieldValue param ENABLE_FIELD = ucast (drop_bit 31 param)"
| "Read16BitFieldValue param SW_SPEC_PARAM_PREV_INDEX_FIELD = lo16 param"
| "Read16BitFieldValue param SW_SPEC_PARAM_INDX_TBL_ENTRY_FIELD = hi16 param"
| "Read16BitFieldValue param INDX_TBL_TBL_ENTRY_FIELD = lo16 param"
| "Read16BitFieldValue param INDX_TBL_NEXT_INDEX_FILED = hi16 param"
| "Read16BitFieldValue param IP_CHKSUM_FIELD = lo16 param"
| "Read16BitFieldValue param _ = 0"

fun Read32BitFieldValue :: "u32 \<Rightarrow> ipa_nat_rule_field_type \<Rightarrow> u32" where
  "Read32BitFieldValue param TIME_STAMP_FIELD = param AND 0x00FFFFFF"
| "Read32BitFieldValue param _ = 0"

section \<open>Packing the software view into a table slot\<close>

definition nat_rule_of_sw :: "ipa_nat_sw_rule \<Rightarrow> ipa_nat_rule" where
  "nat_rule_of_sw s =
     \<lparr>hw_private_ip = sw_private_ip s,
      hw_target_ip = sw_target_ip s,
      hw_nxt_indx_pub_port = mk32 (sw_public_port s) (sw_next_index s),
      hw_private_port = sw_private_port s,
      hw_target_port = sw_target_port s,
      hw_ip_cksm_enbl =
        ucast (sw_ip_chksum s) OR push_bit 16 (ucast (sw_rsvd1 s))
        OR push_bit 30 (ucast (sw_redirect s)) OR push_bit 31 (ucast (sw_enable s)),
      hw_ts_proto = ucast (sw_time_stamp s) OR push_bit 24 (ucast (sw_protocol s)),
      hw_sw_spec_params = mk32 (sw_indx_tbl_entry s) (sw_prev_index s),
      hw_rsvd2 = sw_rsvd2 s,
      hw_tcp_udp_chksum = sw_tcp_udp_chksum s\<rparr>"

definition nat_indx_rule_of_sw :: "ipa_nat_indx_tbl_sw_rule \<Rightarrow> u32" where
  "nat_indx_rule_of_sw s = mk32 (ix_next_index s) (ix_tbl_entry s)"

text \<open>
  The sixteen little-endian halfwords of each structure, in memory order: the layouts drawn
  in ipa_nat_drvi.h.
\<close>

definition rule_halfwords :: "ipa_nat_rule \<Rightarrow> u16 list" where
  "rule_halfwords r =
     [lo16 (hw_private_ip r), hi16 (hw_private_ip r), lo16 (hw_target_ip r), hi16 (hw_target_ip r),
      lo16 (hw_nxt_indx_pub_port r), hi16 (hw_nxt_indx_pub_port r),
      hw_private_port r, hw_target_port r,
      lo16 (hw_ip_cksm_enbl r), hi16 (hw_ip_cksm_enbl r),
      lo16 (hw_ts_proto r), hi16 (hw_ts_proto r),
      lo16 (hw_sw_spec_params r), hi16 (hw_sw_spec_params r),
      hw_rsvd2 r, hw_tcp_udp_chksum r]"

definition sw_rule_halfwords :: "ipa_nat_sw_rule \<Rightarrow> u16 list" where
  "sw_rule_halfwords s =
     [lo16 (sw_private_ip s), hi16 (sw_private_ip s), lo16 (sw_target_ip s), hi16 (sw_target_ip s),
      sw_next_index s, sw_public_port s, sw_private_port s, sw_target_port s,
      sw_ip_chksum s,
      ucast (sw_rsvd1 s) OR push_bit 14 (ucast (sw_redirect s)) OR push_bit 15 (ucast (sw_enable s)),
      ucast (sw_time_stamp s),
      ucast (drop_bit 16 (sw_time_stamp s)) OR push_bit 8 (ucast (sw_protocol s)),
      sw_prev_index s, sw_indx_tbl_entry s, sw_rsvd2 s, sw_tcp_udp_chksum s]"

lemma memcpy_same_halfwords: "rule_halfwords (nat_rule_of_sw s) = sw_rule_halfwords s"
proof -
  have a: "lo16 (ucast (c :: u16) OR push_bit 16 (ucast (r :: 14 word))
      OR push_bit 30 (ucast (d :: 1 word)) OR push_bit 31 (ucast (e :: 1 word))) = c" for c r d e
    by (rule bit_word_eqI) (auto simp: lo16_def bit_simps)
  have b: "hi16 (ucast (c :: u16) OR push_bit 16 (ucast (r :: 14 word))
      OR push_bit 30 (ucast (d :: 1 word)) OR push_bit 31 (ucast (e :: 1 word)))
      = ucast r OR push_bit 14 (ucast d) OR push_bit 15 (ucast e)" for c r d e
    by (rule bit_word_eqI) (auto simp: hi16_def bit_simps dest: bit_imp_le_length)
  have c: "lo16 (ucast (t :: 24 word) OR push_bit 24 (ucast (p :: u8))) = ucast t" for t p
    by (rule bit_word_eqI) (auto simp: lo16_def bit_simps)
  have d: "hi16 (ucast (t :: 24 word) OR push_bit 24 (ucast (p :: u8)))
      = ucast (drop_bit 16 t) OR push_bit 8 (ucast p)" for t p
    by (rule bit_word_eqI) (auto simp: hi16_def bit_simps dest: bit_imp_le_length)
  show ?thesis
    by (simp add: rule_halfwords_def sw_rule_halfwords_def nat_rule_of_sw_def a b c d)
qed

section \<open>A 16 bit write into a slot\<close>

text \<open>The write of one DMA descriptor at byte \<open>off\<close> of a 32 byte slot.\<close>

definition write16_rule :: "nat \<Rightarrow> u16 \<Rightarrow> ipa_nat_rule \<Rightarrow> ipa_nat_rule" where
  "write16_rule off v r =
     (if off = 0 then r\<lparr>hw_private_ip := mk32 (hi16 (hw_private_ip r)) v\<rparr>
      else if off = 2 then r\<lparr>hw_private_ip := mk32 v (lo16 (hw_private_ip r))\<rparr>
      else if off = 4 then r\<lparr>hw_target_ip := mk32 (hi16 (hw_target_ip r)) v\<rparr>
      else if off = 6 then r\<lparr>hw_target_ip := mk32 v (lo16 (hw_target_ip r))\<rparr>
      else if off = 8 then r\<lparr>hw_nxt_indx_pub_port := mk32 (hi16 (hw_nxt_indx_pub_port r)) v\<rparr>
      else if off = 10 then r\<lparr>hw_nxt_indx_pub_port := mk32 v (lo16 (hw_nxt_indx_pub_port r))\<rparr>
      else if off = 12 then r\<lparr>hw_private_port := v\<rparr>
      else if off = 14 then r\<lparr>hw_target_port := v\<rparr>
      else if off = 16 then r\<lparr>hw_ip_cksm_enbl := mk32 (hi16 (hw_ip_cksm_enbl r)) v\<rparr>
      else if off = 18 then r\<lparr>hw_ip_cksm_enbl := mk32 v (lo16 (hw_ip_cksm_enbl r))\<rparr>
      else if off = 20 then r\<lparr>hw_ts_proto := mk32 (hi16 (hw_ts_proto r)) v\<rparr>
      else if off = 22 then r\<lparr>hw_ts_proto := mk32 v (lo16 (hw_ts_proto r))\<rparr>
      else if off = 24 then r\<lparr>hw_sw_spec_params := mk32 (hi16 (hw_sw_spec_params r)) v\<rparr>
      else if off = 26 then r\<lparr>hw_sw_spec_params := mk32 v (lo16 (hw_sw_spec_params r))\<rparr>
      else if off = 28 then r\<lparr>hw_rsvd2 := v\<rparr>
      else if off = 30 then r\<lparr>hw_tcp_udp_chksum := v\<rparr>
      else r)"

definition write16_indx :: "nat \<Rightarrow> u16 \<Rightarrow> u32 \<Rightarrow> u32" where
  "write16_indx off v w =
     (if off = 0 then mk32 (hi16 w) v else if off = 2 then mk32 v (lo16 w) else w)"

lemma rule_halfwords_write16:
  assumes "i < 16"
  shows "rule_halfwords (write16_rule (2 * i) v r) = (rule_halfwords r)[i := v]"
proof -
  have "i \<in> {0, 1, 2, 3, 4, 5, 6, 7, 8, 9, 10, 11, 12, 13, 14, 15}"
    using assms by (simp only: insert_iff empty_iff simp_thms) arith
  then show ?thesis
    by (elim insertE) (simp_all add: write16_rule_def rule_halfwords_def numeral_eq_Suc)
qed

section \<open>What the accessors read back\<close>

text \<open>Shorthands for the fields the driver reads of a slot.\<close>

definition rule_enabled :: "ipa_nat_rule \<Rightarrow> bool" where
  "rule_enabled r \<longleftrightarrow> Read16BitFieldValue (hw_ip_cksm_enbl r) ENABLE_FIELD \<noteq> 0"

definition rule_next :: "ipa_nat_rule \<Rightarrow> nat" where
  "rule_next r = unat (Read16BitFieldValue (hw_nxt_indx_pub_port r) NEXT_INDEX_FIELD)"

definition rule_prev :: "ipa_nat_rule \<Rightarrow> nat" where
  "rule_prev r = unat (Read16BitFieldValue (hw_sw_spec_params r) SW_SPEC_PARAM_PREV_INDEX_FIELD)"

definition rule_indx :: "ipa_nat_rule \<Rightarrow> nat" where
  "rule_indx r = unat (Read16BitFieldValue (hw_sw_spec_params r) SW_SPEC_PARAM_INDX_TBL_ENTRY_FIELD)"

definition rule_proto :: "ipa_nat_rule \<Rightarrow> u8" where
  "rule_proto r = Read8BitFieldValue (hw_ts_proto r) PROTOCOL_FIELD"

definition indx_tbl_entry_of :: "u32 \<Rightarrow> nat" where
  "indx_tbl_entry_of w = unat (Read16BitFieldValue w INDX_TBL_TBL_ENTRY_FIELD)"

definition indx_next :: "u32 \<Rightarrow> nat" where
  "indx_next w = unat (Read16BitFieldValue w INDX_TBL_NEXT_INDEX_FILED)"

lemmas rule_field_defs = rule_enabled_def rule_next_def rule_prev_def rule_indx_def rule_proto_def
lemmas indx_field_defs = indx_tbl_entry_of_def indx_next_def

lemma enable_bit_mk32: "(ucast (drop_bit 31 (mk32 h l)) :: u16) = drop_bit 15 h"
  by (rule bit_word_eqI) (auto simp: mk32_def bit_simps dest: bit_imp_le_length)

lemma protocol_mk32: "(ucast (drop_bit 24 (mk32 h l)) :: u8) = ucast (drop_bit 8 h)"
  by (rule bit_word_eqI) (auto simp: mk32_def bit_simps dest: bit_imp_le_length)

lemma low_mask: "(0xFFFF :: u32) = mask 16" and high_mask: "(0xFFFF0000 :: u32) = push_bit 16 (mask 16)"
  by (simp_all add: mask_eq_exp_minus_1)

lemma UpdateSwSpecParams_prev:
  "UpdateSwSpecParams r IPA_NAT_SW_PARAM_PREV_INDX_BYTE (ucast (v :: u16)) =
     r\<lparr>hw_sw_spec_params := mk32 (hi16 (hw_sw_spec_params r)) v\<rparr>"
proof -
  have "(w AND 0xFFFF0000) OR ucast v = mk32 (hi16 w) v" for w :: u32
    unfolding high_mask
    by (rule bit_word_eqI) (auto simp: mk32_def hi16_def bit_simps dest: bit_imp_le_length)
  then show ?thesis by (simp add: UpdateSwSpecParams_def)
qed

lemma UpdateSwSpecParams_indx:
  "UpdateSwSpecParams r IPA_NAT_SW_PARAM_INDX_TBL_ENTRY_BYTE (ucast (v :: u16)) =
     r\<lparr>hw_sw_spec_params := mk32 v (lo16 (hw_sw_spec_params r))\<rparr>"
proof -
  have "(w AND 0xFFFF) OR push_bit 16 (ucast v) = mk32 v (lo16 w)" for w :: u32
    unfolding low_mask
    by (rule bit_word_eqI) (auto simp: mk32_def lo16_def bit_simps dest: bit_imp_le_length)
  then show ?thesis by (simp add: UpdateSwSpecParams_def)
qed

lemma of_sw_fields [simp]:
  "rule_next (nat_rule_of_sw s) = unat (sw_next_index s)"
  "rule_prev (nat_rule_of_sw s) = unat (sw_prev_index s)"
  "rule_indx (nat_rule_of_sw s) = unat (sw_indx_tbl_entry s)"
  by (simp_all add: rule_field_defs nat_rule_of_sw_def)

lemma of_sw_proto [simp]: "rule_proto (nat_rule_of_sw s) = sw_protocol s"
proof -
  have "(ucast (drop_bit 24 (ucast (t :: 24 word) OR push_bit 24 (ucast p) :: u32)) :: u8) = p" for t p
    by (rule bit_word_eqI) (auto simp: bit_simps dest: bit_imp_le_length)
  then show ?thesis
    by (simp only: rule_proto_def nat_rule_of_sw_def ipa_nat_rule.select_convs
        Read8BitFieldValue.simps)
qed

lemma of_sw_enabled [simp]: "rule_enabled (nat_rule_of_sw s) \<longleftrightarrow> sw_enable s = 1"
proof -
  have e: "(ucast (drop_bit 31 (ucast (c :: u16) OR push_bit 16 (ucast (r :: 14 word))
      OR push_bit 30 (ucast (d :: 1 word)) OR push_bit 31 (ucast (e :: 1 word)) :: u32)) :: u16)
      = ucast e" for c r d e
    by (rule bit_word_eqI) (auto simp: bit_simps dest: bit_imp_le_length)
  have cases: "e = (if bit e 0 then 1 else 0)" for e :: "1 word"
    by (rule bit_word_eqI) (auto simp: bit_simps)
  have "(ucast e :: u16) \<noteq> 0 \<longleftrightarrow> e = 1" for e :: "1 word"
    by (subst (1 2) cases) simp
  then show ?thesis
    by (simp only: rule_enabled_def nat_rule_of_sw_def ipa_nat_rule.select_convs
        Read16BitFieldValue.simps e)
qed

lemma write_flag_enabled [simp]:
  "rule_enabled (write16_rule 18 0x8000 r)" "\<not> rule_enabled (write16_rule 18 0 r)"
  by (simp_all add: rule_enabled_def write16_rule_def enable_bit_mk32)

lemma write_flag_frame [simp]:
  "rule_next (write16_rule 18 v r) = rule_next r" "rule_prev (write16_rule 18 v r) = rule_prev r"
  "rule_indx (write16_rule 18 v r) = rule_indx r" "rule_proto (write16_rule 18 v r) = rule_proto r"
  by (simp_all add: rule_field_defs write16_rule_def)

lemma write_next_fields [simp]:
  "rule_next (write16_rule 8 v r) = unat v" "rule_enabled (write16_rule 8 v r) = rule_enabled r"
  "rule_prev (write16_rule 8 v r) = rule_prev r" "rule_indx (write16_rule 8 v r) = rule_indx r"
  "rule_proto (write16_rule 8 v r) = rule_proto r"
  by (simp_all add: rule_field_defs write16_rule_def)

lemma write_proto_fields [simp]:
  "rule_proto (write16_rule 22 0xFF00 r) = 0xFF"
  "rule_next (write16_rule 22 v r) = rule_next r" "rule_enabled (write16_rule 22 v r) = rule_enabled r"
  "rule_prev (write16_rule 22 v r) = rule_prev r" "rule_indx (write16_rule 22 v r) = rule_indx r"
  by (simp_all add: rule_field_defs write16_rule_def protocol_mk32)

lemma write_sw_params_fields [simp]:
  "rule_next (r\<lparr>hw_sw_spec_params := w\<rparr>) = rule_next r"
  "rule_enabled (r\<lparr>hw_sw_spec_params := w\<rparr>) = rule_enabled r"
  "rule_proto (r\<lparr>hw_sw_spec_params := w\<rparr>) = rule_proto r"
  "rule_prev (r\<lparr>hw_sw_spec_params := mk32 h l\<rparr>) = unat l"
  "rule_indx (r\<lparr>hw_sw_spec_params := mk32 h l\<rparr>) = unat h"
  by (simp_all add: rule_field_defs)

lemma zero_rule_fields [simp]:
  "\<not> rule_enabled zero_rule" "rule_next zero_rule = 0" "rule_prev zero_rule = 0"
  "rule_indx zero_rule = 0" "rule_proto zero_rule = 0"
  by (simp_all add: rule_field_defs zero_rule_def)

lemma indx_fields [simp]:
  "indx_tbl_entry_of (mk32 h l) = unat l" "indx_next (mk32 h l) = unat h"
  "indx_tbl_entry_of 0 = 0" "indx_next 0 = 0"
  "indx_tbl_entry_of (nat_indx_rule_of_sw s) = unat (ix_tbl_entry s)"
  "indx_next (nat_indx_rule_of_sw s) = unat (ix_next_index s)"
  by (simp_all add: indx_field_defs nat_indx_rule_of_sw_def)

lemma write_indx_fields [simp]:
  "indx_tbl_entry_of (write16_indx 0 v w) = unat v" "indx_next (write16_indx 0 v w) = indx_next w"
  "indx_tbl_entry_of (write16_indx 2 v w) = indx_tbl_entry_of w" "indx_next (write16_indx 2 v w) = unat v"
  by (simp_all add: indx_field_defs write16_indx_def)

lemma field_bounds [simp]:
  "rule_next r < 65536" "rule_prev r < 65536" "rule_indx r < 65536"
  "indx_next w < 65536" "indx_tbl_entry_of w < 65536"
  by (simp_all add: rule_field_defs indx_field_defs)

end
