(* ===== verification/Nat_Util.thy ===== *)
theory Nat_Util
  imports Nat_Fields
begin

text \<open>
  The utility functions of ipanat/src/ipa_nat_drvi.c that compute sizes, hash indices and
  checksum differences. Table sizes and indices are naturals below 65536 with the 16 bit
  truncation written out; addresses, ports and sums are words.
\<close>

section \<open>Table sizes\<close>

text \<open>
  The endless loop of \<open>GetNearest2Power\<close>; \<open>None\<close> would be a run that never returns.
\<close>

partial_function (option) nearest2_loop :: "nat \<Rightarrow> nat \<Rightarrow> nat \<Rightarrow> nat option" where
  "nearest2_loop number num tmp =
     (if num = 1
      then Some (if number \<noteq> tmp then trunc16 (tmp * 2) else tmp)
      else nearest2_loop number (num div 2) (trunc16 (tmp * 2)))"

definition GetNearest2Power :: "nat \<Rightarrow> (int \<times> nat) option" where
  "GetNearest2Power num =
     (if num = 0 then Some (- EINVAL, 0)
      else if num = 1 then Some (0, 2)
      else do { r \<leftarrow> nearest2_loop num num 1; Some (0, r) })"

partial_function (option) nearest_even_loop :: "nat \<Rightarrow> nat option" where
  "nearest_even_loop num =
     (if num mod 2 \<noteq> 0 then nearest_even_loop (trunc16 (num + 1)) else Some num)"

definition GetNearestEven :: "nat \<Rightarrow> nat option" where
  "GetNearestEven num = (if num < 2 then Some 2 else nearest_even_loop num)"

lemma nearest2_loop_result:
  assumes "1 \<le> m" "m * 2 ^ i \<le> number" "number < (m + 1) * 2 ^ i" "number < 65536"
  shows "\<exists>k. 2 ^ k \<le> number \<and> number < 2 ^ (k + 1) \<and>
     nearest2_loop number m (2 ^ i) = Some (if number = 2 ^ k then number else trunc16 (2 ^ (k + 1)))"
  using assms
proof (induction m arbitrary: i rule: less_induct)
  case (less m)
  show ?case
  proof (cases "m = 1")
    case True
    with less.prems show ?thesis
      by (intro exI [of _ i]) (auto simp: nearest2_loop.simps mult.commute)
  next
    case False
    then have m: "1 \<le> m div 2" "m div 2 < m" using less.prems(1) by auto
    have lo: "(m div 2) * 2 ^ (i + 1) \<le> m * 2 ^ i"
    proof -
      have "(m div 2 * 2) * 2 ^ i \<le> m * 2 ^ i" by (intro mult_le_mono1) simp
      then show ?thesis by (simp add: ac_simps)
    qed
    have hi: "(m + 1) * 2 ^ i \<le> (m div 2 + 1) * 2 ^ (i + 1)"
    proof -
      have "(m + 1) * 2 ^ i \<le> ((m div 2 + 1) * 2) * 2 ^ i" by (intro mult_le_mono1) simp
      then show ?thesis by (simp add: ac_simps)
    qed
    have "1 * 2 ^ (i + 1) \<le> (m div 2) * 2 ^ (i + 1)" using m(1) by (rule mult_le_mono1)
    with lo less.prems have "2 ^ (i + 1) < (65536 :: nat)" by linarith
    then have t: "trunc16 (2 ^ i * 2) = 2 ^ (i + 1)" by (simp add: mult.commute)
    obtain k where "2 ^ k \<le> number" "number < 2 ^ (k + 1)"
      "nearest2_loop number (m div 2) (2 ^ (i + 1)) =
         Some (if number = 2 ^ k then number else trunc16 (2 ^ (k + 1)))"
      using less.IH [OF m(2) m(1) le_trans [OF lo less.prems(2)]
          less_le_trans [OF less.prems(3) hi] less.prems(4)] by blast
    moreover have "nearest2_loop number m (2 ^ i) = nearest2_loop number (m div 2) (2 ^ (i + 1))"
      using False t by (subst nearest2_loop.simps) simp
    ultimately show ?thesis by auto
  qed
qed

lemma GetNearest2Power_big:
  assumes "2 \<le> num" "num < 65536"
  shows "\<exists>k. 2 ^ k \<le> num \<and> num < 2 ^ (k + 1) \<and>
     GetNearest2Power num = Some (0, if num = 2 ^ k then num else trunc16 (2 ^ (k + 1)))"
proof -
  obtain k where k: "2 ^ k \<le> num" "num < 2 ^ (k + 1)"
    "nearest2_loop num num 1 = Some (if num = 2 ^ k then num else trunc16 (2 ^ (k + 1)))"
    using nearest2_loop_result [of num 0 num] assms by auto
  moreover have "num \<noteq> 0" "num \<noteq> 1" using assms by auto
  ultimately show ?thesis by (intro exI [of _ k]) (simp only: GetNearest2Power_def, simp)
qed

lemma power2_16_cases: "(2::nat) ^ k < 65536 \<longleftrightarrow> k < 16"
proof -
  have "(2::nat) ^ k < 2 ^ 16 \<longleftrightarrow> k < 16" by (rule power_strict_increasing_iff) simp
  then show ?thesis by simp
qed

lemma GetNearest2Power_correct:
  assumes "0 < num" "num \<le> 32768"
  obtains k where "GetNearest2Power num = Some (0, 2 ^ k)" "1 \<le> k" "k \<le> 15" "num \<le> 2 ^ k"
    "\<And>j. 1 \<le> j \<Longrightarrow> num \<le> 2 ^ j \<Longrightarrow> k \<le> j"
proof (cases "num = 1")
  case True
  show ?thesis by (rule that [of 1]) (use True in \<open>auto simp: GetNearest2Power_def\<close>)
next
  case False
  with assms obtain k where k: "2 ^ k \<le> num" "num < 2 ^ (k + 1)"
    and eq: "GetNearest2Power num = Some (0, if num = 2 ^ k then num else trunc16 (2 ^ (k + 1)))"
    using GetNearest2Power_big [of num] by auto
  have p15: "(2::nat) ^ 15 = 32768" by simp
  show ?thesis
  proof (cases "num = 2 ^ k")
    case True
    have "k \<le> 15"
    proof (rule ccontr)
      assume "\<not> k \<le> 15"
      then have "(2::nat) ^ 16 \<le> 2 ^ k" by (intro power_increasing) auto
      with assms True show False by simp
    qed
    moreover have "k \<noteq> 0" using True False by auto
    moreover have "k \<le> j" if "num \<le> 2 ^ j" for j
    proof -
      from that True have "(2::nat) ^ k \<le> 2 ^ j" by simp
      then show ?thesis using power_le_imp_le_exp [of "2::nat" k j] by simp
    qed
    ultimately show ?thesis using True eq by (intro that [of k]) auto
  next
    case ne: False
    with k have lt: "2 ^ k < num" by simp
    have "k < 15"
    proof (rule ccontr)
      assume "\<not> k < 15"
      then have "(2::nat) ^ 15 \<le> 2 ^ k" by (intro power_increasing) auto
      with assms lt show False by (simp only: p15)
    qed
    then have "(2::nat) ^ (k + 1) < 65536" by (simp only: power2_16_cases)
    then have res: "GetNearest2Power num = Some (0, 2 ^ (k + 1))" using eq ne by simp
    have least: "k + 1 \<le> j" if "num \<le> 2 ^ j" for j
    proof -
      from lt that have "(2::nat) ^ k < 2 ^ j" by (rule less_le_trans)
      then have "k < j" using power_less_imp_less_exp [of "2::nat" k j] by simp
      then show ?thesis by simp
    qed
    show ?thesis
      by (rule that [of "k + 1"]) (use res \<open>k < 15\<close> k least in auto)
  qed
qed

lemma GetNearest2Power_overflow:
  assumes "32768 < num" "num < 65536"
  shows "GetNearest2Power num = Some (0, 0)"
proof -
  obtain k where k: "2 ^ k \<le> num" "num < 2 ^ (k + 1)"
    and eq: "GetNearest2Power num = Some (0, if num = 2 ^ k then num else trunc16 (2 ^ (k + 1)))"
    using GetNearest2Power_big [of num] assms by auto
  have "k = 15"
  proof (rule antisym)
    show "k \<le> 15"
      using k(1) assms(2) power2_16_cases [of k] by linarith
    show "15 \<le> k"
    proof (rule ccontr)
      assume "\<not> 15 \<le> k"
      then have "(2::nat) ^ (k + 1) \<le> 2 ^ 15" by (intro power_increasing) auto
      with k assms show False by simp
    qed
  qed
  with eq assms show ?thesis by (auto simp: trunc16_def)
qed

lemma GetNearestEven_value:
  assumes "num < 65535"
  shows "GetNearestEven num = Some (if num < 2 then 2 else num + num mod 2)"
proof (cases "even num")
  case True
  then show ?thesis by (simp add: GetNearestEven_def nearest_even_loop.simps)
next
  case False
  then have "nearest_even_loop num = nearest_even_loop (num + 1)"
    using assms by (subst nearest_even_loop.simps) (simp add: odd_iff_mod_2_eq_one)
  also have "\<dots> = Some (num + 1)"
    using False by (subst nearest_even_loop.simps) simp
  finally show ?thesis using False by (simp add: GetNearestEven_def odd_iff_mod_2_eq_one)
qed

lemma GetNearestEven_wraps: "GetNearestEven 65535 = Some 0"
  by (simp add: GetNearestEven_def nearest_even_loop.simps trunc16_def)

section \<open>Hash indices\<close>

definition dst_hash :: "u32 \<Rightarrow> u16 \<Rightarrow> u16 \<Rightarrow> u8 \<Rightarrow> u16 \<Rightarrow> u16" where
  "dst_hash trgt_ip trgt_port public_port proto tbl_size =
     (let hash = ucast trgt_ip XOR ucast (drop_bit 16 trgt_ip) XOR trgt_port XOR public_port
                 XOR ucast proto;
          hash = hash AND tbl_size
      in if hash = 0 then tbl_size else hash)"

definition src_hash :: "u32 \<Rightarrow> u16 \<Rightarrow> u32 \<Rightarrow> u16 \<Rightarrow> u8 \<Rightarrow> u16 \<Rightarrow> u16" where
  "src_hash priv_ip priv_port trgt_ip trgt_port proto tbl_size =
     (let hash = ucast priv_ip XOR ucast (drop_bit 16 priv_ip) XOR priv_port XOR ucast trgt_ip
                 XOR ucast (drop_bit 16 trgt_ip) XOR trgt_port XOR ucast proto;
          hash = hash AND tbl_size
      in if hash = 0 then tbl_size else hash)"

lemma and_size_bound: "unat ((x :: u16) AND s) \<le> unat s"
  using word_and_le1 [of x s] by (simp add: word_le_nat_alt)

lemma hash_bounds:
  assumes "tbl_size \<noteq> 0"
  shows "0 < unat (dst_hash ti tp pp pr tbl_size) \<and> unat (dst_hash ti tp pp pr tbl_size) \<le> unat tbl_size"
    and "0 < unat (src_hash pi sp ti tp pr tbl_size) \<and> unat (src_hash pi sp ti tp pr tbl_size) \<le> unat tbl_size"
  using assms and_size_bound [of _ tbl_size]
  by (auto simp: dst_hash_def src_hash_def Let_def unat_gt_0)

section \<open>Checksum differences\<close>

text \<open>One addition with its end-around carry: \<open>cksum += x\<close> and the test of the carry.\<close>

definition csum_add :: "u32 \<Rightarrow> u32 \<Rightarrow> u32" where
  "csum_add cksum x =
     (let c = cksum + x in if drop_bit 16 c \<noteq> 0 then (c AND 0x0000FFFF) + 1 else c)"

definition ipa_nati_calc_ip_cksum :: "u32 \<Rightarrow> u32 \<Rightarrow> u16" where
  "ipa_nati_calc_ip_cksum pub_ip_addr priv_ip_addr =
     (let cksum = 0 + (pub_ip_addr AND 0xFFFF);
          cksum = csum_add cksum (drop_bit 16 pub_ip_addr);
          priv_ip_addr = NOT priv_ip_addr;
          cksum = csum_add cksum (priv_ip_addr AND 0xFFFF);
          cksum = csum_add cksum (drop_bit 16 priv_ip_addr)
      in ucast cksum)"

definition ipa_nati_calc_tcp_udp_cksum :: "u32 \<Rightarrow> u16 \<Rightarrow> u32 \<Rightarrow> u16 \<Rightarrow> u16" where
  "ipa_nati_calc_tcp_udp_cksum pub_ip_addr pub_port priv_ip_addr priv_port =
     (let cksum = 0 + (pub_ip_addr AND 0xFFFF);
          cksum = csum_add cksum (drop_bit 16 pub_ip_addr);
          cksum = csum_add cksum (ucast pub_port);
          priv_ip_addr = NOT priv_ip_addr;
          cksum = csum_add cksum (priv_ip_addr AND 0xFFFF);
          cksum = csum_add cksum (drop_bit 16 priv_ip_addr);
          priv_port = NOT priv_port;
          cksum = csum_add cksum (ucast priv_port)
      in ucast cksum)"

lemma low_half_ucast: "(x :: u32) AND 0xFFFF = ucast (lo16 x)"
  unfolding low_mask lo16_def
  by (rule bit_word_eqI) (auto simp: bit_simps dest: bit_imp_le_length)

lemma high_half_ucast: "drop_bit 16 (x :: u32) = ucast (hi16 x)"
  unfolding hi16_def
  by (rule bit_word_eqI) (auto simp: bit_simps dest: bit_imp_le_length)

lemma halves_NOT: "lo16 (NOT x) = NOT (lo16 x)" "hi16 (NOT x) = NOT (hi16 x)"
  unfolding lo16_def hi16_def
  by (rule bit_word_eqI, auto simp: bit_simps)+

lemma unat_NOT16: "unat (NOT (x :: u16)) = 65535 - unat x"
proof -
  have "NOT x = - 1 - x" by (simp add: not_eq_complement)
  also have "- 1 = (65535 :: u16)" by simp
  finally have "NOT x = 65535 - x" .
  moreover have "x \<le> 65535" by (simp add: word_le_nat_alt)
  ultimately show ?thesis by (simp add: unat_sub)
qed

lemma unat_lo32: "unat ((c :: u32) AND 0xFFFF) = unat c mod 65536"
  unfolding low_mask by (simp only: take_bit_eq_mask [symmetric] unsigned_take_bit_eq) (simp add: take_bit_eq_mod)

lemma unat_ucast32: "unat (ucast (x :: u16) :: u32) = unat x"
  using less_trans [OF u16_bound [of x], of "2 ^ 32"]
  by (simp add: unsigned_ucast_eq take_bit_nat_eq_self)

lemma csum_add_spec:
  assumes "unat c \<le> 65535"
  shows "unat (csum_add c (ucast (x :: u16))) \<le> 65535"
    and "unat (csum_add c (ucast x)) mod 65535 = (unat c + unat x) mod 65535"
proof -
  note ux = unat_ucast32 [of x]
  have sum: "unat (c + ucast x) = unat c + unat x"
  proof -
    have "unat c + unat x < 4294967296" using assms u16_le [of x] by linarith
    then show ?thesis by (simp add: unat_word_ariths ux)
  qed
  have hi: "drop_bit 16 (c + ucast x) \<noteq> 0 \<longleftrightarrow> 65536 \<le> unat c + unat x"
  proof -
    have "unat (drop_bit 16 (c + ucast x)) = (unat c + unat x) div 65536"
      by (simp only: unat_drop_bit_eq sum) (simp add: drop_bit_eq_div)
    then have "0 < unat (drop_bit 16 (c + ucast x)) \<longleftrightarrow> 65536 \<le> unat c + unat x"
      by (simp only: div_greater_zero_iff) simp
    then show ?thesis by (simp only: unat_gt_0)
  qed
  have val: "unat (csum_add c (ucast x)) =
      (if 65536 \<le> unat c + unat x then unat c + unat x - 65535 else unat c + unat x)"
  proof (cases "65536 \<le> unat c + unat x")
    case True
    have small: "unat c + unat x - 65536 < 65536" using assms u16_le [of x] by linarith
    have lo: "unat ((c + ucast x) AND 0xFFFF) = unat c + unat x - 65536"
    proof -
      have "(unat c + unat x) mod 65536 = (unat c + unat x - 65536) mod 65536"
        by (rule le_mod_geq [OF True])
      with small show ?thesis by (simp only: unat_lo32 sum mod_less)
    qed
    moreover have "unat (((c + ucast x) AND 0xFFFF) + 1) = unat ((c + ucast x) AND 0xFFFF) + unat (1 :: u32)"
      by (rule unat_add_lem [THEN iffD1]) (use small in \<open>simp add: lo\<close>)
    ultimately have "unat (((c + ucast x) AND 0xFFFF) + 1) = unat c + unat x - 65535"
      using True by (simp only:) simp
    with True hi show ?thesis by (simp add: csum_add_def)
  next
    case False
    with hi show ?thesis by (simp add: csum_add_def sum)
  qed
  show "unat (csum_add c (ucast x)) \<le> 65535"
    using assms u16_bound [of x] unfolding val by (auto; linarith)
  show "unat (csum_add c (ucast x)) mod 65535 = (unat c + unat x) mod 65535"
    unfolding val by (auto simp: le_mod_geq)
qed

lemma csum_start: "unat (0 + (x AND 0xFFFF) :: u32) \<le> 65535"
    "unat (0 + (x AND 0xFFFF) :: u32) = unat (lo16 x)"
  by (simp_all add: low_half_ucast unat_ucast32)

end
