(* ===== verification/Nat_Chain.thy ===== *)
theory Nat_Chain
  imports Paths
begin

text \<open>
  The shape the two NAT tables share: \<open>te\<close> base slots reached by hashing, numbered from 0,
  and \<open>ee\<close> expansion slots numbered from \<open>te\<close>, which continue the chain of a base slot
  through next indices that end in 0. \<open>chains\<close> states that the links form disjoint lists
  that hold exactly the used expansion slots and that the recorded previous slots match.
  The lemmas give its preservation by the four link updates the driver makes. The locale
  \<open>chained_table\<close> is the interface a table offers to the two searches of the driver: the
  walk to the end of a chain and the first free expansion slot.
\<close>

section \<open>The chain invariant\<close>

definition chains ::
  "nat \<Rightarrow> nat \<Rightarrow> (nat \<Rightarrow> bool) \<Rightarrow> (nat \<Rightarrow> nat) \<Rightarrow> (nat \<Rightarrow> nat) \<Rightarrow> (nat \<Rightarrow> nat list) \<Rightarrow> bool" where
  "chains te ee used nxt prv C \<longleftrightarrow>
     (\<forall>h<te. path nxt (nxt h) (C h)) \<and>
     (\<forall>h<te. backs prv h (C h)) \<and>
     (\<forall>h<te. distinct (C h)) \<and>
     (\<forall>h<te. \<forall>e\<in>set (C h). te < e \<and> e < te + ee \<and> used e) \<and>
     (\<forall>h<te. \<forall>g<te. h \<noteq> g \<longrightarrow> set (C h) \<inter> set (C g) = {}) \<and>
     (\<forall>e. te < e \<and> e < te + ee \<and> used e \<longrightarrow> (\<exists>h<te. e \<in> set (C h))) \<and>
     (\<forall>h<te. \<not> used h \<longrightarrow> nxt h = 0) \<and>
     \<not> used 0 \<and> \<not> used te"

lemma chainsI:
  assumes "\<And>h. h < te \<Longrightarrow> path nxt (nxt h) (C h)"
    and "\<And>h. h < te \<Longrightarrow> backs prv h (C h)"
    and "\<And>h. h < te \<Longrightarrow> distinct (C h)"
    and "\<And>h e. h < te \<Longrightarrow> e \<in> set (C h) \<Longrightarrow> te < e \<and> e < te + ee \<and> used e"
    and "\<And>h g. h < te \<Longrightarrow> g < te \<Longrightarrow> h \<noteq> g \<Longrightarrow> set (C h) \<inter> set (C g) = {}"
    and "\<And>e. te < e \<Longrightarrow> e < te + ee \<Longrightarrow> used e \<Longrightarrow> \<exists>h<te. e \<in> set (C h)"
    and "\<And>h. h < te \<Longrightarrow> \<not> used h \<Longrightarrow> nxt h = 0"
    and "\<not> used 0" "\<not> used te"
  shows "chains te ee used nxt prv C"
  unfolding chains_def using assms by blast

lemma chainsD:
  assumes "chains te ee used nxt prv C" "h < te"
  shows chains_path: "path nxt (nxt h) (C h)" and chains_backs: "backs prv h (C h)"
    and chains_distinct: "distinct (C h)"
    and chains_mem: "e \<in> set (C h) \<Longrightarrow> te < e \<and> e < te + ee \<and> used e"
    and chains_base_end: "\<not> used h \<Longrightarrow> nxt h = 0"
    and chains_disjoint: "g < te \<Longrightarrow> h \<noteq> g \<Longrightarrow> set (C h) \<inter> set (C g) = {}"
  using assms by (simp_all add: chains_def)

lemma chains_unused: "chains te ee used nxt prv C \<Longrightarrow> \<not> used 0 \<and> \<not> used te"
  by (simp add: chains_def)

lemma chains_cover:
  "chains te ee used nxt prv C \<Longrightarrow> te < e \<Longrightarrow> e < te + ee \<Longrightarrow> used e \<Longrightarrow> \<exists>h<te. e \<in> set (C h)"
  unfolding chains_def by blast

lemma chains_base_notin: "chains te ee used nxt prv C \<Longrightarrow> h < te \<Longrightarrow> g < te \<Longrightarrow> g \<notin> set (C h)"
  using chains_mem by fastforce

lemma chains_Nil: "chains te ee used nxt prv C \<Longrightarrow> h < te \<Longrightarrow> C h = [] \<longleftrightarrow> nxt h = 0"
  using path_hd [OF chains_path] by blast

lemma chains_cong:
  assumes ch: "chains te ee used nxt prv C"
    and u: "\<And>n. n < te + ee \<Longrightarrow> used' n = used n" "\<not> used' te"
    and n: "\<And>n. n < te + ee \<Longrightarrow> nxt' n = nxt n"
    and p: "\<And>n. te < n \<Longrightarrow> n < te + ee \<Longrightarrow> used n \<Longrightarrow> prv' n = prv n"
  shows "chains te ee used' nxt' prv' C"
proof (rule chainsI)
  fix h assume h: "h < te"
  then have hn: "nxt' h = nxt h" "used' h = used h" using n u by simp_all
  have "path nxt' x (C h) = path nxt x (C h)" for x
    using chains_mem [OF ch h] n by (intro path_cong) blast
  then show "path nxt' (nxt' h) (C h)" using chains_path [OF ch h] hn by simp
  have "backs prv' h (C h) = backs prv h (C h)"
    using chains_mem [OF ch h] p by (intro backs_cong) blast
  then show "backs prv' h (C h)" using chains_backs [OF ch h] by simp
  show "distinct (C h)" by (rule chains_distinct [OF ch h])
  show "nxt' h = 0" if "\<not> used' h" using chains_base_end [OF ch h] hn that by simp
  show "te < e \<and> e < te + ee \<and> used' e" if "e \<in> set (C h)" for e
    using chains_mem [OF ch h that] u by simp
  show "set (C h) \<inter> set (C g) = {}" if "g < te" "h \<noteq> g" for g
    by (rule chains_disjoint [OF ch h that])
next
  show "\<exists>h<te. e \<in> set (C h)" if "te < e" "e < te + ee" "used' e" for e
    using chains_cover [OF ch that(1,2)] u(1) [OF that(2)] that(3) by simp
  show "\<not> used' 0"
    by (cases "te = 0") (use u(1) [of 0] u(2) chains_unused [OF ch] in auto)
qed (rule u(2))

text \<open>A base slot that no rule occupies is taken.\<close>

lemma chains_take_base:
  assumes ch: "chains te ee used nxt prv C" and h: "h < te" "h \<noteq> 0" "\<not> used h"
  shows "chains te ee (used(h := True)) (nxt(h := 0)) prv C"
proof -
  have "nxt(h := 0) = nxt" using chains_base_end [OF ch h(1,3)] by auto
  moreover have "chains te ee (used(h := True)) nxt prv C"
  proof (rule chainsI)
    fix g assume g: "g < te"
    show "te < e \<and> e < te + ee \<and> (used(h := True)) e" if "e \<in> set (C g)" for e
      using chains_mem [OF ch g that] by simp
    show "nxt g = 0" if "\<not> (used(h := True)) g"
      using chains_base_end [OF ch g] that by (simp split: if_splits)
  next
    show "\<exists>h<te. e \<in> set (C h)" if "te < e" "e < te + ee" "(used(h := True)) e" for e
      using chains_cover [OF ch that(1,2)] that h by (simp split: if_splits)
  qed (use chainsD [OF ch] chains_unused [OF ch] h in simp_all)
  ultimately show ?thesis by simp
qed

text \<open>Base slots without continuation are given up.\<close>

lemma chains_free_base:
  assumes ch: "chains te ee used nxt prv C" and S: "\<And>h. h \<in> S \<Longrightarrow> h < te \<and> nxt h = 0"
  shows "chains te ee (\<lambda>n. used n \<and> n \<notin> S) nxt prv C"
proof (rule chainsI)
  fix g assume g: "g < te"
  show "te < e \<and> e < te + ee \<and> used e \<and> e \<notin> S" if "e \<in> set (C g)" for e
    using chains_mem [OF ch g that] S [of e] by auto
  show "nxt g = 0" if "\<not> (used g \<and> g \<notin> S)"
    using chains_base_end [OF ch g] S that by blast
next
  show "\<exists>h<te. e \<in> set (C h)" if "te < e" "e < te + ee" "used e \<and> e \<notin> S" for e
    using chains_cover [OF ch that(1,2)] that by blast
qed (use chainsD [OF ch] chains_unused [OF ch] in simp_all)

text \<open>A free expansion slot is appended to the chain of a used base slot.\<close>

lemma chains_last:
  assumes ch: "chains te ee used nxt prv C" and h: "h < te"
  shows "last (h # C h) = h \<and> C h = [] \<or> last (h # C h) \<in> set (C h)"
    "g < te \<Longrightarrow> g \<noteq> h \<Longrightarrow> last (h # C h) \<noteq> g \<and> last (h # C h) \<notin> set (C g)"
proof -
  show c: "last (h # C h) = h \<and> C h = [] \<or> last (h # C h) \<in> set (C h)"
    by (cases "C h = []") auto
  show "last (h # C h) \<noteq> g \<and> last (h # C h) \<notin> set (C g)" if "g < te" "g \<noteq> h"
    using c chains_disjoint [OF ch h that(1)] chains_base_notin [OF ch h that(1)]
      chains_base_notin [OF ch that(1) h] that(2) by auto
qed

lemma chains_append:
  assumes ch: "chains te ee used nxt prv C" and h: "h < te" "used h"
    and e: "te < e" "e < te + ee" "\<not> used e" and p: "p = last (h # C h)"
  shows "chains te ee (used(e := True)) (nxt(e := 0, p := e)) (prv(e := p)) (C(h := C h @ [e]))"
    (is "chains te ee _ ?n ?p ?C")
proof (rule chainsI)
  have eC: "g < te \<Longrightarrow> e \<notin> set (C g)" for g using chains_mem [OF ch] e(3) by blast
  fix g assume g: "g < te"
  have pg: "p \<noteq> g" "p \<notin> set (C g)" if "g \<noteq> h"
    using chains_last(2) [OF ch h(1) g that] p by simp_all
  show "path ?n (?n g) (?C g)"
  proof (cases "g = h")
    case False
    with g pg eC chains_path [OF ch g] e show ?thesis by simp
  next
    case True
    show ?thesis
    proof (cases "C h = []")
      case True
      moreover have "e \<noteq> h" using e h by simp
      ultimately show ?thesis using \<open>g = h\<close> p e by simp
    next
      case False
      then have "p = last (C h)" "p \<noteq> h"
        using p chains_base_notin [OF ch h(1) h(1)] last_in_set by fastforce+
      moreover have "?n h = nxt h" using \<open>p \<noteq> h\<close> h e by auto
      ultimately show ?thesis
        using \<open>g = h\<close> path_snoc [OF chains_path [OF ch h(1)] False chains_distinct [OF ch h(1)]
            eC [OF h(1)]] e by (simp del: fun_upd_apply add: fun_upd_same)
    qed
  qed
  show "backs ?p g (?C g)"
    using backs_snoc [OF chains_backs [OF ch h(1)] eC [OF h(1)]] chains_backs [OF ch g] eC [OF g] p
    by simp
  show "distinct (?C g)"
    using chains_distinct [OF ch g] eC [OF g] by auto
  show "?n g = 0" if "\<not> (used(e := True)) g"
  proof -
    have "\<not> used g" using that by (simp split: if_splits)
    then have "g \<noteq> h" using h by auto
    then show ?thesis using pg chains_base_end [OF ch g \<open>\<not> used g\<close>] by simp
  qed
  show "te < x \<and> x < te + ee \<and> (used(e := True)) x" if "x \<in> set (?C g)" for x
    using that chains_mem [OF ch g, of x] chains_mem [OF ch h(1), of x] e
    by (auto split: if_splits)
  show "set (?C g) \<inter> set (?C k) = {}" if "k < te" "g \<noteq> k" for k
    using chains_disjoint [OF ch g that] eC that g by auto
next
  show "\<exists>g<te. x \<in> set (?C g)" if "te < x" "x < te + ee" "(used(e := True)) x" for x
  proof (cases "x = e")
    case True
    with h show ?thesis by auto
  next
    case False
    with that obtain g where "g < te" "x \<in> set (C g)" using chains_cover [OF ch] by auto
    then show ?thesis by (intro exI [of _ g]) auto
  qed
qed (use chains_unused [OF ch] e in simp_all)

text \<open>An expansion slot is unlinked from its chain.\<close>

lemma chains_remove:
  assumes ch: "chains te ee used nxt prv C" and h: "h < te" and e: "e \<in> set (C h)"
  shows "chains te ee (used(e := False)) (nxt(prv e := nxt e, e := 0))
           (if nxt e = 0 then prv else prv(nxt e := prv e)) (C(h := remove1 e (C h)))"
    (is "chains te ee _ ?n ?p ?C")
proof -
  obtain as bs where ab: "C h = as @ e # bs" using split_list [OF e] by blast
  have dist: "distinct (as @ e # bs)" using chains_distinct [OF ch h] ab by simp
  have rem: "remove1 e (C h) = as @ bs" using ab dist by (simp add: remove1_append)
  have pth: "path nxt (nxt h) (as @ e # bs)" using chains_path [OF ch h] ab by simp
  have pe: "prv e = last (h # as)"
    by (rule backs_mid [of prv h as e bs]) (use chains_backs [OF ch h] ab in simp)
  have ne: "nxt e = 0 \<and> bs = [] \<or> (\<exists>b cs. bs = b # cs \<and> nxt e = b \<and> b \<noteq> 0)"
    using path_drop [OF pth] by (cases bs) auto
  have has: "h \<notin> set as" "h \<notin> set bs" "h \<noteq> e"
    using chains_base_notin [OF ch h h] ab by auto
  have egt: "te < e" using chains_mem [OF ch h e] by blast
  have disj: "prv e \<noteq> g" "prv e \<notin> set (C g)" "e \<notin> set (C g)" "bs \<noteq> [] \<Longrightarrow> hd bs \<notin> set (C g)"
    if g: "g < te" "g \<noteq> h" for g
  proof -
    have dj: "x \<notin> set (C g)" if "x \<in> set (C h)" for x
      using chains_disjoint [OF ch h g(1)] g(2) that by blast
    have l: "last (h # as) = h \<or> last (h # as) \<in> set (C h)" using ab by auto
    then show "prv e \<noteq> g" using chains_base_notin [OF ch h g(1)] g pe by metis
    show "prv e \<notin> set (C g)" using l dj chains_base_notin [OF ch g(1) h] pe by metis
    show "e \<notin> set (C g)" using dj e by blast
    show "hd bs \<notin> set (C g)" if "bs \<noteq> []" using dj ab that by simp
  qed
  show ?thesis
  proof (rule chainsI)
    fix g assume g: "g < te"
    show "path ?n (?n g) (?C g)"
    proof (cases "g = h")
      case False
      with disj [OF g False] chains_path [OF ch g] egt g show ?thesis by simp
    next
      case gh: True
      show ?thesis
      proof (cases "as = []")
        case True
        with gh pe rem has dist path_drop [OF pth] show ?thesis by simp
      next
        case False
        then have "last as \<noteq> h" using has(1) last_in_set by metis
        then have "?n h = nxt h" using pe False has by simp
        with False gh pe rem path_remove [OF pth False dist, of 0]
        show ?thesis by (simp del: fun_upd_apply add: fun_upd_same)
      qed
    qed
    show "backs ?p g (?C g)"
    proof (cases "g = h")
      case False
      with disj [OF g False] chains_backs [OF ch g] ne show ?thesis by auto
    next
      case True
      have "backs prv h (as @ e # bs)" using chains_backs [OF ch h] ab by simp
      with ne True rem dist pe show ?thesis
        by (auto dest: backs_remove_last backs_remove_mid)
    qed
    show "distinct (?C g)" using chains_distinct [OF ch g] dist rem by auto
    have mem: "x \<in> set (?C k) \<longleftrightarrow> x \<in> set (C k) \<and> x \<noteq> e" if "k < te" for k x
      using disj(3) [OF that] dist rem ab by (cases "k = h") auto
    show "set (?C g) \<inter> set (?C k) = {}" if "k < te" "g \<noteq> k" for k
      using mem g that(1) chains_disjoint [OF ch g that] by blast
    show "te < x \<and> x < te + ee \<and> (used(e := False)) x" if "x \<in> set (?C g)" for x
      using mem [OF g] that chains_mem [OF ch g, of x] by simp
    show "?n g = 0" if "\<not> (used(e := False)) g"
    proof -
      have "nxt g = 0" using chains_base_end [OF ch g] that egt g by (simp split: if_splits)
      moreover have "g \<noteq> prv e"
      proof
        assume "g = prv e"
        with disj(1) [OF g] have "g = h" by blast
        with \<open>nxt g = 0\<close> chains_Nil [OF ch h] e show False by auto
      qed
      ultimately show ?thesis by simp
    qed
  next
    show "\<exists>g<te. x \<in> set (?C g)" if x: "te < x" "x < te + ee" "(used(e := False)) x" for x
    proof -
      have "x \<noteq> e" "used x" using x(3) by (auto split: if_splits)
      with chains_cover [OF ch x(1,2)] obtain g where g: "g < te" "x \<in> set (C g)" by blast
      with \<open>x \<noteq> e\<close> show ?thesis by (intro exI [of _ g]) auto
    qed
  qed (use chains_unused [OF ch] in simp_all)
qed

text \<open>The neighbours of a used slot.\<close>

lemma chains_next_base:
  assumes ch: "chains te ee used nxt prv C" and h: "h < te" and n: "nxt h \<noteq> 0"
  shows "te < nxt h \<and> nxt h < te + ee \<and> used (nxt h) \<and> nxt h \<in> set (C h)"
proof -
  have "nxt h \<in> set (C h)" using chains_path [OF ch h] n by (cases "C h") auto
  then show ?thesis using chains_mem [OF ch h] by blast
qed

lemma chains_neighbours:
  assumes ch: "chains te ee used nxt prv C" and e: "te < e" "e < te + ee" "used e"
  shows "nxt e \<noteq> 0 \<Longrightarrow> te < nxt e \<and> nxt e < te + ee \<and> used (nxt e) \<and> nxt e \<noteq> e"
    and "prv e < te + ee" and "prv e \<noteq> e"
proof -
  obtain h where h: "h < te" "e \<in> set (C h)" using chains_cover [OF ch e] by blast
  obtain as bs where ab: "C h = as @ e # bs" using split_list [OF h(2)] by blast
  have d: "distinct (as @ e # bs)" using chains_distinct [OF ch h(1)] ab by simp
  have m: "te < x \<and> x < te + ee \<and> used x" if "x \<in> set (as @ e # bs)" for x
    using chains_mem [OF ch h(1), of x] that ab by simp
  have pe: "prv e = last (h # as)"
    by (rule backs_mid [of prv h as e bs]) (use chains_backs [OF ch h(1)] ab in simp)
  have "nxt e = 0 \<or> nxt e \<in> set bs"
    using path_drop [of nxt "nxt h" as e bs] chains_path [OF ch h(1)] ab by (cases bs) auto
  then show "nxt e \<noteq> 0 \<Longrightarrow> te < nxt e \<and> nxt e < te + ee \<and> used (nxt e) \<and> nxt e \<noteq> e"
    using m [of "nxt e"] d by auto
  have l: "prv e = h \<or> prv e \<in> set as" using pe by auto
  then show "prv e < te + ee" using m [of "prv e"] h(1) by auto
  show "prv e \<noteq> e" using l d e(1) h(1) by auto
qed

section \<open>The walk to the end of a chain\<close>

text \<open>
  \<open>while (nxt_indx != 0) { prev = nxt_indx; nxt_indx -= table_entries; nxt_indx = next of the
  expansion slot; if (prev == nxt_indx) error; }\<close>. The result is \<open>Some None\<close> for the error
  return and \<open>Some (Some prev)\<close> when the end is reached; \<open>None\<close> stands for a read outside
  the table or a walk that never ends.
\<close>

partial_function (option) find_chain_end ::
  "(nat \<Rightarrow> nat option) \<Rightarrow> nat \<Rightarrow> nat \<Rightarrow> nat \<Rightarrow> nat option option" where
  "find_chain_end rd_next te prev nxt_indx =
     (if nxt_indx = 0 then Some (Some prev)
      else do {
        nxt \<leftarrow> rd_next (sub16 nxt_indx te);
        if nxt_indx = nxt then Some None else find_chain_end rd_next te nxt_indx nxt
      })"

lemma find_chain_end_path:
  assumes "path nxt x as" "distinct as" "\<And>a. a \<in> set as \<Longrightarrow> te < a \<and> a < te + ee"
    and "te + ee \<le> 65536" "\<And>j. j < ee \<Longrightarrow> rdn j = Some (nxt (te + j))"
  shows "find_chain_end rdn te p x = Some (Some (last (p # as)))"
  using assms(1-3)
proof (induction as arbitrary: p x)
  case Nil
  then show ?case by (simp add: find_chain_end.simps)
next
  case (Cons a as)
  then have a: "te < a" "a < te + ee" "x = a" "a \<noteq> 0" by auto
  then have "sub16 a te = a - te" using assms(4) by (intro sub16_exact) auto
  then have rd: "rdn (sub16 a te) = Some (nxt a)" using assms(5) [of "a - te"] a by auto
  have "nxt a \<noteq> a" using Cons.prems by (cases as) auto
  moreover have "find_chain_end rdn te a (nxt a) = Some (Some (last (a # as)))"
    using Cons.prems by (intro Cons.IH) auto
  ultimately show ?case
    using rd a by (subst find_chain_end.simps) simp
qed

text \<open>A slot linked to itself is the case the error test recognises.\<close>

lemma find_chain_end_self_loop:
  assumes "x \<noteq> 0" "rdn (sub16 x te) = Some x"
  shows "find_chain_end rdn te p x = Some None"
  using assms by (subst find_chain_end.simps) simp

section \<open>The interface of a chained table\<close>

text \<open>
  What the two searches rely on: the reads they make of expansion slots agree with the
  table's next links and use marks, and slot numbers fit in 16 bits.
\<close>

locale chained_table =
  fixes base_len expn_len :: "'t \<Rightarrow> nat"
    and used :: "'t \<Rightarrow> nat \<Rightarrow> bool" and nxt prv :: "'t \<Rightarrow> nat \<Rightarrow> nat"
    and rd_next :: "'t \<Rightarrow> nat \<Rightarrow> nat option" and rd_free :: "'t \<Rightarrow> nat \<Rightarrow> bool option"
    and shape :: "'t \<Rightarrow> bool"
  assumes shape_bound: "shape t \<Longrightarrow> base_len t + expn_len t \<le> 65536"
    and rd_next_law: "shape t \<Longrightarrow> j < expn_len t \<Longrightarrow> rd_next t j = Some (nxt t (base_len t + j))"
    and rd_free_law: "shape t \<Longrightarrow> j < expn_len t \<Longrightarrow> rd_free t j = Some (\<not> used t (base_len t + j))"
begin

definition linked :: "'t \<Rightarrow> (nat \<Rightarrow> nat list) \<Rightarrow> bool" where
  "linked t C \<longleftrightarrow> shape t \<and> chains (base_len t) (expn_len t) (used t) (nxt t) (prv t) C"

lemma walk_reaches_end:
  assumes "linked t C" "h < base_len t"
  shows "find_chain_end (rd_next t) (base_len t) p (nxt t h) = Some (Some (last (p # C h)))"
proof -
  have sh: "shape t" and ch: "chains (base_len t) (expn_len t) (used t) (nxt t) (prv t) C"
    using assms by (simp_all add: linked_def)
  show ?thesis
    by (rule find_chain_end_path [OF chains_path [OF ch assms(2)] chains_distinct [OF ch assms(2)]
          _ shape_bound [OF sh] rd_next_law [OF sh]])
      (use chains_mem [OF ch assms(2)] in auto)
qed

lemma free_slot_found:
  assumes "shape t" "scan_first (rd_free t) (expn_len t) 1 = Some (Some j)"
  shows "0 < j \<and> j < expn_len t \<and> \<not> used t (base_len t + j)"
  using scan_first_found [OF rd_free_law [OF assms(1)] assms(2)] by simp

lemma free_slot_total:
  assumes "shape t"
  obtains r where "scan_first (rd_free t) (expn_len t) 1 = Some r"
  using scan_first_total [of 1 "expn_len t" "rd_free t", OF rd_free_law [OF assms]] by blast

lemma no_free_slot:
  assumes "shape t" "scan_first (rd_free t) (expn_len t) 1 = Some None"
  shows "0 < j \<Longrightarrow> j < expn_len t \<Longrightarrow> used t (base_len t + j)"
  using scan_first_none [OF rd_free_law [OF assms(1)] assms(2)] by simp

end

end
