(* ===== verification/Nat_State.thy ===== *)
theory Nat_State
  imports Nat_Util Nat_Chain
begin

text \<open>
  The state of the NAT driver (\<open>struct ipa_nat_cache\<close> of ipanat/inc/ipa_nat_drvi.h), the
  device memory of a table, and the operating system as an argument.

  The mapped device memory is one region that holds four arrays one after the other: base
  rules, expansion rules, index table, index expansion table. It is kept as these four arrays;
  a pointer into it is an array and a slot, and a null pointer is \<open>None\<close>. The kernel side
  (ioctl, open, mmap, close) and malloc are the record \<open>nat_env\<close>, an argument of every
  function that calls them; what the IPA kernel driver does on a DMA request is the named
  hypothesis \<open>dma_ok\<close>: each descriptor stores its 16 bits of data at its byte offset in the
  table its \<open>base_addr\<close> names, in order.
\<close>

section \<open>Device memory and caches\<close>

record nat_mem =
  ipv4_rules :: "ipa_nat_rule list"
  ipv4_expn_rules :: "ipa_nat_rule list"
  index_table :: "u32 list"
  index_table_expn :: "u32 list"

record ipa_nat_ip4_table_cache =
  valid :: bool
  public_addr :: u32
  nat_fd :: int
  tbl_size :: nat
  tbl_addr_offset :: nat
  table_name :: string
  tbl_mem :: "nat_mem option"
  table_entries :: nat
  expn_table_entries :: nat
  index_expn_table_meta :: "nat list option"
  rule_id_array :: "nat list option"
  cur_tbl_cnt :: nat
  cur_expn_tbl_cnt :: nat

record ipa_nat_cache =
  ip4_tbl :: "ipa_nat_ip4_table_cache list"
  ipa_fd :: int
  table_cnt :: nat

abbreviation (input) IPA_NAT_MAX_IP4_TBLS :: nat where "IPA_NAT_MAX_IP4_TBLS \<equiv> 1"

text \<open>The zeroed table cache, as \<open>memset\<close> leaves it and as the global starts.\<close>

definition zero_table_cache :: ipa_nat_ip4_table_cache where
  "zero_table_cache = \<lparr>valid = False, public_addr = 0, nat_fd = 0, tbl_size = 0,
     tbl_addr_offset = 0, table_name = [], tbl_mem = None, table_entries = 0,
     expn_table_entries = 0, index_expn_table_meta = None, rule_id_array = None,
     cur_tbl_cnt = 0, cur_expn_tbl_cnt = 0\<rparr>"

definition ipv4_nat_cache_init :: ipa_nat_cache where
  "ipv4_nat_cache_init = \<lparr>ip4_tbl = replicate IPA_NAT_MAX_IP4_TBLS zero_table_cache,
     ipa_fd = 0, table_cnt = 0\<rparr>"

section \<open>The operating system\<close>

record ipa_ioc_nat_dma_one =
  dma_table_index :: nat
  dma_base_addr :: nat_table_type
  dma_offset :: nat
  dma_data :: u16

record ipa_ioc_v4_nat_init =
  init_tbl_index :: nat
  init_ipv4_rules_offset :: nat
  init_expn_rules_offset :: nat
  init_index_offset :: nat
  init_index_expn_offset :: nat
  init_table_entries :: nat
  init_expn_table_entries :: nat
  init_ip_addr :: u32

datatype malloc_site =
    ALLOC_INDEX_META | ALLOC_RULE_IDS | ALLOC_WRITE_NEXT nat_table_type
  | ALLOC_ENABLE | ALLOC_DELETE | ALLOC_REORDER

text \<open>
  \<open>malloc_ok\<close> says whether the allocation at a place of the code succeeds, the other fields
  are the results of the calls the driver makes: \<open>open(IPA_DEV_NAME)\<close>,
  \<open>IPA_IOC_ALLOC_NAT_MEM\<close> (return value and the offset it fills in), \<open>open\<close> and
  \<open>mmap\<close> of the table device, \<open>IPA_IOC_V4_INIT_NAT\<close>, \<open>close\<close>,
  \<open>IPA_IOC_V4_DEL_NAT\<close>, and \<open>IPA_IOC_NAT_DMA\<close> (return value and device memory).
\<close>

record nat_env =
  malloc_ok :: "malloc_site \<Rightarrow> bool"
  open_ipa :: int
  ioctl_alloc_nat_mem :: "nat \<Rightarrow> int \<times> nat"
  open_nat :: int
  mmap_nat :: "nat \<Rightarrow> nat \<Rightarrow> nat_mem option"
  ioctl_v4_init_nat :: "ipa_ioc_v4_nat_init \<Rightarrow> int"
  close_nat :: int
  ioctl_v4_del_nat :: "nat \<Rightarrow> u32 \<Rightarrow> int"
  ioctl_nat_dma :: "ipa_ioc_nat_dma_one list \<Rightarrow> nat_mem \<Rightarrow> int \<times> nat_mem"

text \<open>The store one DMA descriptor asks for, and when it lies inside its table.\<close>

definition dma_write :: "ipa_ioc_nat_dma_one \<Rightarrow> nat_mem \<Rightarrow> nat_mem" where
  "dma_write c m =
     (let e = dma_offset c div 32; r = dma_offset c mod 32;
          i = dma_offset c div 4; q = dma_offset c mod 4; v = dma_data c
      in case dma_base_addr c of
           IPA_NAT_BASE_TBL \<Rightarrow> m\<lparr>ipv4_rules := (ipv4_rules m)[e := write16_rule r v (ipv4_rules m ! e)]\<rparr>
         | IPA_NAT_EXPN_TBL \<Rightarrow>
             m\<lparr>ipv4_expn_rules := (ipv4_expn_rules m)[e := write16_rule r v (ipv4_expn_rules m ! e)]\<rparr>
         | IPA_NAT_INDX_TBL \<Rightarrow> m\<lparr>index_table := (index_table m)[i := write16_indx q v (index_table m ! i)]\<rparr>
         | IPA_NAT_INDEX_EXPN_TBL \<Rightarrow>
             m\<lparr>index_table_expn := (index_table_expn m)[i := write16_indx q v (index_table_expn m ! i)]\<rparr>)"

definition dma_in_range :: "nat_mem \<Rightarrow> ipa_ioc_nat_dma_one \<Rightarrow> bool" where
  "dma_in_range m c \<longleftrightarrow> even (dma_offset c) \<and>
     (case dma_base_addr c of
        IPA_NAT_BASE_TBL \<Rightarrow> dma_offset c div 32 < length (ipv4_rules m)
      | IPA_NAT_EXPN_TBL \<Rightarrow> dma_offset c div 32 < length (ipv4_expn_rules m)
      | IPA_NAT_INDX_TBL \<Rightarrow> dma_offset c div 4 < length (index_table m)
      | IPA_NAT_INDEX_EXPN_TBL \<Rightarrow> dma_offset c div 4 < length (index_table_expn m))"

text \<open>
  The documented effect of the DMA ioctl, for requests inside the tables; nothing is said of
  others.
\<close>

definition dma_ok :: "nat_env \<Rightarrow> bool" where
  "dma_ok env \<longleftrightarrow>
     (\<forall>cmds m. (\<forall>c\<in>set cmds. dma_in_range m c) \<longrightarrow> ioctl_nat_dma env cmds m = (0, fold dma_write cmds m))"

lemma dma_okD:
  "dma_ok env \<Longrightarrow> (\<And>c. c \<in> set cmds \<Longrightarrow> dma_in_range m c) \<Longrightarrow>
   ioctl_nat_dma env cmds m = (0, fold dma_write cmds m)"
  by (simp add: dma_ok_def)

section \<open>Byte offsets\<close>

definition ipa_nati_get_entry_offset :: "ipa_nat_ip4_table_cache \<Rightarrow> nat_table_type \<Rightarrow> nat \<Rightarrow> nat" where
  "ipa_nati_get_entry_offset cache_ptr tbl_type tbl_entry =
     (IPA_NAT_TABLE_ENTRY_SIZE * tbl_entry + tbl_addr_offset cache_ptr) mod 2 ^ 32"

definition ipa_nati_get_index_entry_offset ::
  "ipa_nat_ip4_table_cache \<Rightarrow> nat_table_type \<Rightarrow> nat \<Rightarrow> nat" where
  "ipa_nati_get_index_entry_offset cache_ptr tbl_type indx_tbl_entry =
     (IPA_NAT_INDEX_TABLE_ENTRY_SIZE * indx_tbl_entry + tbl_addr_offset cache_ptr) mod 2 ^ 32"

section \<open>Rule handles\<close>

text \<open>
  \<open>ipa_nati_make_rule_hdl\<close> stores the rule id (slot and table bit) in the first free cell of
  \<open>rule_id_array\<close>; the handle is the number of the cell plus one, 0 when there is none.
\<close>

definition ipa_nati_make_rule_hdl ::
  "ipa_nat_ip4_table_cache \<Rightarrow> nat \<Rightarrow> (nat \<times> ipa_nat_ip4_table_cache) option" where
  "ipa_nati_make_rule_hdl t tbl_entry =
     (let (t, rule_hdl) =
        (if table_entries t \<le> tbl_entry
         then (t\<lparr>cur_expn_tbl_cnt := trunc16 (cur_expn_tbl_cnt t + 1)\<rparr>,
               trunc16 (2 * sub16 tbl_entry (table_entries t)) + 1)
         else (t\<lparr>cur_tbl_cnt := trunc16 (cur_tbl_cnt t + 1)\<rparr>, trunc16 (2 * tbl_entry)))
      in do {
        ids \<leftarrow> rule_id_array t;
        cnt \<leftarrow> scan_first (\<lambda>i. map_option (\<lambda>x. x = IPA_NAT_INVALID_NAT_ENTRY) (rd ids i))
                 (table_entries t + expn_table_entries t) 0;
        case cnt of
          None \<Rightarrow> Some (0, t)
        | Some i \<Rightarrow> Some (trunc16 (i + 1), t\<lparr>rule_id_array := Some (ids[i := rule_hdl])\<rparr>)
      })"

text \<open>
  The result is the pair (expansion table?, slot); a handle at or past the number of entries
  gives slot 0, and handle 0 reads the cell before the array.
\<close>

definition ipa_nati_parse_ipv4_rule_hdl ::
  "ipa_nat_ip4_table_cache \<Rightarrow> nat \<Rightarrow> (bool \<times> nat) option" where
  "ipa_nati_parse_ipv4_rule_hdl t rule_hdl =
     (if table_entries t + expn_table_entries t \<le> rule_hdl then Some (False, IPA_NAT_INVALID_NAT_ENTRY)
      else if rule_hdl = 0 then None
      else do {
        ids \<leftarrow> rule_id_array t;
        rule_id \<leftarrow> rd ids (rule_hdl - 1);
        Some (odd rule_id, rule_id div 2)
      })"

section \<open>Clearing and describing a table\<close>

text \<open>
  \<open>ipa_nati_reset_tbl\<close> clears \<open>table_entries\<close> or \<open>expn_table_entries\<close> slots of each
  array, which is undefined when an array is shorter.
\<close>

definition clear_slots :: "'a \<Rightarrow> nat \<Rightarrow> 'a list \<Rightarrow> 'a list option" where
  "clear_slots z n xs = (if n \<le> length xs then Some (replicate n z @ drop n xs) else None)"

definition ipa_nati_reset_tbl :: "ipa_nat_ip4_table_cache \<Rightarrow> ipa_nat_ip4_table_cache option" where
  "ipa_nati_reset_tbl t =
     do {
       m \<leftarrow> tbl_mem t;
       r \<leftarrow> clear_slots zero_rule (table_entries t) (ipv4_rules m);
       e \<leftarrow> clear_slots zero_rule (expn_table_entries t) (ipv4_expn_rules m);
       i \<leftarrow> clear_slots 0 (table_entries t) (index_table m);
       x \<leftarrow> clear_slots 0 (expn_table_entries t) (index_table_expn m);
       Some (t\<lparr>tbl_mem := Some (m\<lparr>ipv4_rules := r, ipv4_expn_rules := e,
                                    index_table := i, index_table_expn := x\<rparr>)\<rparr>)
     }"

definition v4_init_cmd :: "nat \<Rightarrow> ipa_nat_ip4_table_cache \<Rightarrow> ipa_ioc_v4_nat_init" where
  "v4_init_cmd tbl_index t =
     (let rules_offset = tbl_addr_offset t;
          expn_offset = (rules_offset + table_entries t * IPA_NAT_TABLE_ENTRY_SIZE) mod 2 ^ 32;
          indx_offset = (expn_offset + expn_table_entries t * IPA_NAT_TABLE_ENTRY_SIZE) mod 2 ^ 32;
          indx_expn_offset = (indx_offset + table_entries t * IPA_NAT_INDEX_TABLE_ENTRY_SIZE) mod 2 ^ 32
      in \<lparr>init_tbl_index = tbl_index, init_ipv4_rules_offset = rules_offset,
          init_expn_rules_offset = expn_offset, init_index_offset = indx_offset,
          init_index_expn_offset = indx_expn_offset,
          init_table_entries = sub16 (table_entries t) 1,
          init_expn_table_entries = expn_table_entries t,
          init_ip_addr = public_addr t\<rparr>)"

definition ipa_nati_post_ipv4_init_cmd :: "nat_env \<Rightarrow> nat \<Rightarrow> ipa_nat_ip4_table_cache \<Rightarrow> int" where
  "ipa_nati_post_ipv4_init_cmd env tbl_index t =
     (if ioctl_v4_init_nat env (v4_init_cmd tbl_index t) \<noteq> 0 then - EINVAL else 0)"

end
