(* ===== verification/Nat_Table.thy ===== *)
theory Nat_Table
  imports Nat_State
begin

text \<open>
  Life cycle of a NAT table (ipanat/src/ipa_nat_drvi.c): sizing and allocation, mapping,
  clearing and announcing it to the hardware, and deleting it. The debug dump that the code
  makes after an operation writes nothing and is left out here; it is modelled in \<open>Nat_Query\<close>.
\<close>

section \<open>Creation\<close>

definition CreateNatDevice :: "nat_env \<Rightarrow> nat \<Rightarrow> int \<times> nat" where
  "CreateNatDevice env mem_size =
     (let (ret, off) = ioctl_alloc_nat_mem env mem_size
      in if ret \<noteq> 0 then (- EINVAL, off) else (0, off))"

text \<open>
  \<open>(uint16_t)(n * .8)\<close> and \<open>(uint16_t)(n * .2)\<close> in double arithmetic: for a 16 bit \<open>n\<close>
  the products round to the exact value when that is an integer and lie at least 0.2 away
  from the next integer otherwise, so truncation gives \<open>4 n div 5\<close> and \<open>n div 5\<close>.
\<close>

definition base_share :: "nat \<Rightarrow> nat" where
  "base_share n = 4 * n div 5"

definition expn_share :: "nat \<Rightarrow> nat" where
  "expn_share n = n div 5"

text \<open>The result: return code, memory size and offset, the two table sizes, and the cache.\<close>

definition ipa_nati_alloc_table ::
  "nat_env \<Rightarrow> nat \<Rightarrow> ipa_nat_cache \<Rightarrow> (int \<times> nat \<times> nat \<times> nat \<times> nat \<times> ipa_nat_cache) option" where
  "ipa_nati_alloc_table env number_of_entries c =
     do {
       (r, te) \<leftarrow> GetNearest2Power (if base_share number_of_entries = 0 then 1
                                    else base_share number_of_entries);
       if r \<noteq> 0 then Some (- EINVAL, 0, 0, te, 0, c)
       else do {
         ee \<leftarrow> GetNearestEven (expn_share number_of_entries);
         let total_entries = trunc16 (te + ee);
             mem_size = IPA_NAT_TABLE_ENTRY_SIZE * total_entries
                        + IPA_NAT_INDEX_TABLE_ENTRY_SIZE * total_entries
         in if ipa_fd c = 0 \<and> open_ipa env < 0 then Some (- EIO, mem_size, 0, te, ee, c)
            else let c = (if ipa_fd c = 0 then c\<lparr>ipa_fd := open_ipa env\<rparr> else c);
                     (ret, off) = CreateNatDevice env mem_size
                 in Some (ret, mem_size, off, te, ee, c)
       }
     }"

definition NAT_DEV_FULL_NAME :: string where
  "NAT_DEV_FULL_NAME = ''/dev/ipaNatTable''"

definition put_tbl :: "ipa_nat_cache \<Rightarrow> nat \<Rightarrow> ipa_nat_ip4_table_cache \<Rightarrow> ipa_nat_cache" where
  "put_tbl c i t = c\<lparr>ip4_tbl := (ip4_tbl c)[i := t]\<rparr>"

text \<open>
  \<open>ipa_nati_update_cache\<close> in the order of the code: identity and sizes, the two arrays
  (a failed malloc returns 0 at once), the device, the mapping.
\<close>

definition ipa_nati_update_cache ::
  "nat_env \<Rightarrow> nat \<Rightarrow> nat \<Rightarrow> u32 \<Rightarrow> nat \<Rightarrow> nat \<Rightarrow> ipa_nat_cache \<Rightarrow> (int \<times> ipa_nat_cache) option" where
  "ipa_nati_update_cache env mem_size mem_off pub_addr tbl_entries expn_tbl_entries c =
     do {
       let index = table_cnt c;
       t \<leftarrow> rd (ip4_tbl c) index;
       let t = t\<lparr>valid := True, public_addr := pub_addr, tbl_size := mem_size,
                 tbl_addr_offset := mem_off, table_entries := tbl_entries,
                 expn_table_entries := expn_tbl_entries\<rparr>;
       if index_expn_table_meta t = None \<and> \<not> malloc_ok env ALLOC_INDEX_META
       then Some (0, put_tbl c index t)
       else let t = (if index_expn_table_meta t = None
                     then t\<lparr>index_expn_table_meta := Some (replicate expn_tbl_entries 0)\<rparr> else t)
       in if rule_id_array t = None \<and> \<not> malloc_ok env ALLOC_RULE_IDS
       then Some (0, put_tbl c index t)
       else let t = (if rule_id_array t = None
                     then t\<lparr>rule_id_array := Some (replicate (tbl_entries + expn_tbl_entries) 0)\<rparr>
                     else t)
       in if open_nat env < 0 then Some (- EIO, put_tbl c index t)
       else let t = t\<lparr>table_name := NAT_DEV_FULL_NAME, nat_fd := open_nat env\<rparr>
       in (case mmap_nat env tbl_entries expn_tbl_entries of
             None \<Rightarrow> Some (- EINVAL, put_tbl c index t)
           | Some m \<Rightarrow> Some (0, put_tbl c index (t\<lparr>tbl_mem := Some m\<rparr>)))
     }"

text \<open>The result: return code, the table handle written, and the cache.\<close>

definition ipa_nati_add_ipv4_tbl ::
  "nat_env \<Rightarrow> u32 \<Rightarrow> nat \<Rightarrow> ipa_nat_cache \<Rightarrow> (int \<times> nat \<times> ipa_nat_cache) option" where
  "ipa_nati_add_ipv4_tbl env public_ip_addr number_of_entries c =
     do {
       let tbl_indx = table_cnt c;
       (ret, mem_size, mem_off, te, ee, c) \<leftarrow> ipa_nati_alloc_table env number_of_entries c;
       if ret \<noteq> 0 then Some (- ENOMEM, 0, c)
       else do {
         (ret, c) \<leftarrow> ipa_nati_update_cache env mem_size mem_off public_ip_addr te ee c;
         if ret \<noteq> 0 then Some (- EINVAL, 0, c)
         else do {
           t \<leftarrow> rd (ip4_tbl c) tbl_indx;
           t \<leftarrow> ipa_nati_reset_tbl t;
           let c = put_tbl c tbl_indx t;
           if ipa_nati_post_ipv4_init_cmd env tbl_indx t \<noteq> 0 then Some (- EINVAL, 0, c)
           else let cnt = (table_cnt c + 1) mod 256 in Some (0, cnt, c\<lparr>table_cnt := cnt\<rparr>)
         }
       }
     }"

section \<open>Deletion\<close>

definition hdl_index :: "nat \<Rightarrow> nat" where
  "hdl_index tbl_hdl = (tbl_hdl + 255) mod 256"

text \<open>
  \<open>munmap\<close> takes the device memory away at once; a failing \<open>close\<close> or ioctl after it
  returns with the rest of the table cache as it was.
\<close>

definition ipa_nati_del_ipv4_table ::
  "nat_env \<Rightarrow> nat \<Rightarrow> ipa_nat_cache \<Rightarrow> (int \<times> ipa_nat_cache) option" where
  "ipa_nati_del_ipv4_table env tbl_hdl c =
     do {
       let index = hdl_index tbl_hdl;
       t \<leftarrow> rd (ip4_tbl c) index;
       if \<not> valid t then Some (- EINVAL, c)
       else let c = put_tbl c index (t\<lparr>tbl_mem := None\<rparr>)
       in if close_nat env \<noteq> 0 then Some (- EINVAL, c)
       else if ioctl_v4_del_nat env index (public_addr t) \<noteq> 0 then Some (- EINVAL, c)
       else Some (0, (put_tbl c index zero_table_cache)\<lparr>table_cnt := (table_cnt c + 255) mod 256\<rparr>)
     }"

section \<open>The time stamp of a rule\<close>

definition ipa_nati_query_timestamp ::
  "nat \<Rightarrow> nat \<Rightarrow> ipa_nat_cache \<Rightarrow> (int \<times> u32 option) option" where
  "ipa_nati_query_timestamp tbl_hdl rule_hdl c =
     do {
       t \<leftarrow> rd (ip4_tbl c) (hdl_index tbl_hdl);
       if \<not> valid t then Some (- EINVAL, None)
       else do {
         (expn_tbl, tbl_entry) \<leftarrow> ipa_nati_parse_ipv4_rule_hdl t (trunc16 rule_hdl);
         m \<leftarrow> tbl_mem t;
         r \<leftarrow> rd (if expn_tbl then ipv4_expn_rules m else ipv4_rules m) tbl_entry;
         Some (0, Some (Read32BitFieldValue (hw_ts_proto r) TIME_STAMP_FIELD))
       }
     }"

end
