(* ===== verification/Nat_Add.thy ===== *)
theory Nat_Add
  imports Nat_Table
begin

text \<open>
  Adding a rule (ipanat/src/ipa_nat_drvi.c, \<open>ipa_nati_add_ipv4_rule\<close> and the functions it
  calls): the rule and its index entry are generated from the client's rule, copied to their
  slots, linked to the end of their chains by DMA, and the rule is enabled by a last DMA.
\<close>

section \<open>Finding the slots\<close>

abbreviation (input) IPPROTO_TCP :: u8 where "IPPROTO_TCP \<equiv> 6"
abbreviation (input) IPPROTO_UDP :: u8 where "IPPROTO_UDP \<equiv> 17"

definition expn_rule_free :: "ipa_nat_rule list \<Rightarrow> nat \<Rightarrow> bool option" where
  "expn_rule_free expn_tbl cnt =
     map_option (\<lambda>r. Read16BitFieldValue (hw_ip_cksm_enbl r) ENABLE_FIELD = 0) (rd expn_tbl cnt)"

definition ipa_nati_expn_tbl_free_entry :: "ipa_nat_rule list \<Rightarrow> nat \<Rightarrow> nat option" where
  "ipa_nati_expn_tbl_free_entry expn_tbl lim =
     do { r \<leftarrow> scan_first (expn_rule_free expn_tbl) lim 1;
          Some (case r of None \<Rightarrow> 0 | Some cnt \<Rightarrow> cnt) }"

definition indx_expn_free :: "u32 list \<Rightarrow> nat \<Rightarrow> bool option" where
  "indx_expn_free indx_tbl cnt =
     map_option (\<lambda>w. Read16BitFieldValue w INDX_TBL_TBL_ENTRY_FIELD = 0) (rd indx_tbl cnt)"

definition ipa_nati_index_expn_get_free_entry :: "u32 list \<Rightarrow> nat \<Rightarrow> nat option" where
  "ipa_nati_index_expn_get_free_entry indx_tbl lim =
     do { r \<leftarrow> scan_first (indx_expn_free indx_tbl) lim 1;
          Some (case r of None \<Rightarrow> 0 | Some cnt \<Rightarrow> cnt) }"

text \<open>The reads of the two walks: the next index of an expansion slot.\<close>

definition expn_rule_next :: "ipa_nat_rule list \<Rightarrow> nat \<Rightarrow> nat option" where
  "expn_rule_next expn_tbl i =
     map_option (\<lambda>r. unat (Read16BitFieldValue (hw_nxt_indx_pub_port r) NEXT_INDEX_FIELD)) (rd expn_tbl i)"

definition indx_expn_next :: "u32 list \<Rightarrow> nat \<Rightarrow> nat option" where
  "indx_expn_next indx_expn_tbl i =
     map_option (\<lambda>w. unat (Read16BitFieldValue w INDX_TBL_NEXT_INDEX_FILED)) (rd indx_expn_tbl i)"

section \<open>Generating the rule\<close>

text \<open>The part of \<open>ipa_nati_generate_tbl_rule\<close> that fills in the software rule.\<close>

definition fill_sw_rule :: "ipa_nat_ipv4_rule \<Rightarrow> u32 \<Rightarrow> ipa_nat_sw_rule \<Rightarrow> ipa_nat_sw_rule" where
  "fill_sw_rule clnt_rule pub_ip_addr sw_rule =
     (let sw_rule = sw_rule\<lparr>sw_private_ip := clnt_private_ip clnt_rule,
            sw_private_port := clnt_private_port clnt_rule,
            sw_protocol := clnt_protocol clnt_rule,
            sw_public_port := clnt_public_port clnt_rule,
            sw_target_ip := clnt_target_ip clnt_rule,
            sw_target_port := clnt_target_port clnt_rule,
            sw_ip_chksum := ipa_nati_calc_ip_cksum pub_ip_addr (clnt_private_ip clnt_rule)\<rparr>;
          sw_rule = (if sw_protocol sw_rule = IPPROTO_TCP \<or> sw_protocol sw_rule = IPPROTO_UDP
            then sw_rule\<lparr>sw_tcp_udp_chksum :=
                   ipa_nati_calc_tcp_udp_cksum pub_ip_addr (clnt_public_port clnt_rule)
                     (clnt_private_ip clnt_rule) (clnt_private_port clnt_rule)\<rparr>
            else sw_rule)
      in sw_rule\<lparr>sw_rsvd1 := 0, sw_enable := 0, sw_next_index := 0, sw_time_stamp := 0,
                 sw_rsvd2 := 0, sw_prev_index := 0, sw_indx_tbl_entry := 0\<rparr>)"

text \<open>The result: the slot (0 for failure) and the software rule.\<close>

definition ipa_nati_generate_tbl_rule ::
  "ipa_nat_ipv4_rule \<Rightarrow> ipa_nat_sw_rule \<Rightarrow> ipa_nat_ip4_table_cache \<Rightarrow> (nat \<times> ipa_nat_sw_rule) option" where
  "ipa_nati_generate_tbl_rule clnt_rule sw_rule t =
     do {
       m \<leftarrow> tbl_mem t;
       let tbl = ipv4_rules m;
       let expn_tbl = ipv4_expn_rules m;
       let sw_rule = fill_sw_rule clnt_rule (public_addr t) sw_rule;
       let new_entry = unat (dst_hash (clnt_target_ip clnt_rule) (clnt_target_port clnt_rule)
             (clnt_public_port clnt_rule) (clnt_protocol clnt_rule) (of_nat (sub16 (table_entries t) 1)));
       r \<leftarrow> rd tbl new_entry;
       if Read16BitFieldValue (hw_ip_cksm_enbl r) ENABLE_FIELD = 0
       then Some (new_entry, sw_rule\<lparr>sw_prev_index := 0\<rparr>)
       else do {
         let first = unat (Read16BitFieldValue (hw_nxt_indx_pub_port r) NEXT_INDEX_FIELD);
         found \<leftarrow> (if first = IPA_NAT_INVALID_NAT_ENTRY then Some (Some new_entry)
                   else find_chain_end (expn_rule_next expn_tbl) (table_entries t) 0 first);
         case found of
           None \<Rightarrow> Some (IPA_NAT_INVALID_NAT_ENTRY, sw_rule)
         | Some prev \<Rightarrow> do {
             let sw_rule = sw_rule\<lparr>sw_prev_index := of_nat prev\<rparr>;
             new_entry \<leftarrow> ipa_nati_expn_tbl_free_entry expn_tbl (expn_table_entries t);
             if new_entry = IPA_NAT_INVALID_NAT_ENTRY then Some (IPA_NAT_INVALID_NAT_ENTRY, sw_rule)
             else Some (trunc16 (new_entry + table_entries t), sw_rule)
           }
       }
     }"

definition ipa_nati_generate_index_rule ::
  "ipa_nat_ipv4_rule \<Rightarrow> ipa_nat_indx_tbl_sw_rule \<Rightarrow> ipa_nat_ip4_table_cache \<Rightarrow>
   (nat \<times> ipa_nat_indx_tbl_sw_rule) option" where
  "ipa_nati_generate_index_rule clnt_rule sw_rule t =
     do {
       m \<leftarrow> tbl_mem t;
       let indx_tbl = index_table m;
       let indx_expn_tbl = index_table_expn m;
       let new_entry = unat (src_hash (clnt_private_ip clnt_rule) (clnt_private_port clnt_rule)
             (clnt_target_ip clnt_rule) (clnt_target_port clnt_rule) (clnt_protocol clnt_rule)
             (of_nat (sub16 (table_entries t) 1)));
       w \<leftarrow> rd indx_tbl new_entry;
       if Read16BitFieldValue w INDX_TBL_TBL_ENTRY_FIELD = 0
       then Some (new_entry, sw_rule\<lparr>ix_prev_index := 0\<rparr>)
       else do {
         let first = unat (Read16BitFieldValue w INDX_TBL_NEXT_INDEX_FILED);
         found \<leftarrow> (if first = IPA_NAT_INVALID_NAT_ENTRY then Some (Some new_entry)
                   else find_chain_end (indx_expn_next indx_expn_tbl) (table_entries t) 0 first);
         case found of
           None \<Rightarrow> Some (IPA_NAT_INVALID_NAT_ENTRY, sw_rule)
         | Some prev \<Rightarrow> do {
             let sw_rule = sw_rule\<lparr>ix_prev_index := of_nat prev\<rparr>;
             new_entry \<leftarrow> ipa_nati_index_expn_get_free_entry indx_expn_tbl (expn_table_entries t);
             if new_entry = IPA_NAT_INVALID_NAT_ENTRY then Some (IPA_NAT_INVALID_NAT_ENTRY, sw_rule)
             else let new_entry = trunc16 (new_entry + table_entries t)
                  in if unat (ix_prev_index sw_rule) = new_entry
                     then Some (IPA_NAT_INVALID_NAT_ENTRY, sw_rule)
                     else Some (new_entry, sw_rule)
           }
       }
     }"

text \<open>
  The result of \<open>ipa_nati_generate_rule\<close>: the return code, the two software rules, the two
  slots, and the table, whose previous-index record of an index expansion slot is written.
\<close>

definition ipa_nati_generate_rule ::
  "ipa_nat_ipv4_rule \<Rightarrow> ipa_nat_sw_rule \<Rightarrow> ipa_nat_indx_tbl_sw_rule \<Rightarrow> ipa_nat_ip4_table_cache \<Rightarrow>
   (int \<times> ipa_nat_sw_rule \<times> ipa_nat_indx_tbl_sw_rule \<times> nat \<times> nat \<times> ipa_nat_ip4_table_cache) option" where
  "ipa_nati_generate_rule clnt_rule rule index_sw_rule t =
     do {
       (tbl_entry, rule) \<leftarrow> ipa_nati_generate_tbl_rule clnt_rule rule t;
       if tbl_entry = IPA_NAT_INVALID_NAT_ENTRY then Some (- EINVAL, rule, index_sw_rule, tbl_entry, 0, t)
       else do {
         let index_sw_rule = index_sw_rule\<lparr>ix_tbl_entry := of_nat tbl_entry\<rparr>;
         (indx_tbl_entry, index_sw_rule) \<leftarrow> ipa_nati_generate_index_rule clnt_rule index_sw_rule t;
         if indx_tbl_entry = IPA_NAT_INVALID_NAT_ENTRY
         then Some (- EINVAL, rule, index_sw_rule, tbl_entry, indx_tbl_entry, t)
         else do {
           let rule = rule\<lparr>sw_indx_tbl_entry := of_nat indx_tbl_entry\<rparr>;
           t \<leftarrow> (if table_entries t \<le> indx_tbl_entry
                 then do {
                   meta \<leftarrow> index_expn_table_meta t;
                   meta \<leftarrow> wr meta (sub16 indx_tbl_entry (table_entries t)) (unat (ix_prev_index index_sw_rule));
                   Some (t\<lparr>index_expn_table_meta := Some meta\<rparr>)
                 }
                 else Some t);
           Some (0, rule, index_sw_rule, tbl_entry, indx_tbl_entry, t)
         }
       }
     }"

section \<open>Copying to the device\<close>

definition ipa_nati_write_next_index ::
  "nat_env \<Rightarrow> nat \<Rightarrow> nat_table_type \<Rightarrow> nat \<Rightarrow> nat \<Rightarrow> nat_mem \<Rightarrow> nat_mem" where
  "ipa_nati_write_next_index env tbl_indx tbl_type value off m =
     (if \<not> malloc_ok env (ALLOC_WRITE_NEXT tbl_type) then m
      else snd (ioctl_nat_dma env
             [\<lparr>dma_table_index = tbl_indx, dma_base_addr = tbl_type, dma_offset = off,
               dma_data = of_nat value\<rparr>] m))"

definition ipa_nati_copy_ipv4_rule_to_hw ::
  "nat_env \<Rightarrow> ipa_nat_sw_rule \<Rightarrow> nat \<Rightarrow> nat \<Rightarrow> ipa_nat_ip4_table_cache \<Rightarrow> ipa_nat_ip4_table_cache option" where
  "ipa_nati_copy_ipv4_rule_to_hw env rule entry tbl_index t =
     do {
       m \<leftarrow> tbl_mem t;
       let prev_entry = unat (sw_prev_index rule);
       m \<leftarrow> (if entry < table_entries t
             then do { r \<leftarrow> wr (ipv4_rules m) entry (nat_rule_of_sw rule); Some (m\<lparr>ipv4_rules := r\<rparr>) }
             else do { r \<leftarrow> wr (ipv4_expn_rules m) (entry - table_entries t) (nat_rule_of_sw rule);
                       Some (m\<lparr>ipv4_expn_rules := r\<rparr>) });
       if prev_entry = IPA_NAT_INVALID_NAT_ENTRY then Some (t\<lparr>tbl_mem := Some m\<rparr>)
       else let (tbl_type, prev_entry) =
                  (if prev_entry < table_entries t then (IPA_NAT_BASE_TBL, prev_entry)
                   else (IPA_NAT_EXPN_TBL, sub16 prev_entry (table_entries t)));
                off = (ipa_nati_get_entry_offset t tbl_type prev_entry
                       + IPA_NAT_RULE_NEXT_FIELD_OFFSET) mod 2 ^ 32
            in Some (t\<lparr>tbl_mem := Some (ipa_nati_write_next_index env tbl_index tbl_type entry off m)\<rparr>)
     }"

text \<open>The byte offset is kept in a 16 bit variable here.\<close>

definition ipa_nati_copy_ipv4_index_rule_to_hw ::
  "nat_env \<Rightarrow> ipa_nat_indx_tbl_sw_rule \<Rightarrow> nat \<Rightarrow> nat \<Rightarrow> ipa_nat_ip4_table_cache \<Rightarrow>
   ipa_nat_ip4_table_cache option" where
  "ipa_nati_copy_ipv4_index_rule_to_hw env indx_sw_rule entry tbl_index t =
     do {
       m \<leftarrow> tbl_mem t;
       let prev_entry = unat (ix_prev_index indx_sw_rule);
       m \<leftarrow> (if entry < table_entries t
             then do { w \<leftarrow> wr (index_table m) entry (nat_indx_rule_of_sw indx_sw_rule);
                       Some (m\<lparr>index_table := w\<rparr>) }
             else do { w \<leftarrow> wr (index_table_expn m) (entry - table_entries t)
                              (nat_indx_rule_of_sw indx_sw_rule);
                       Some (m\<lparr>index_table_expn := w\<rparr>) });
       if prev_entry = IPA_NAT_INVALID_NAT_ENTRY then Some (t\<lparr>tbl_mem := Some m\<rparr>)
       else let (tbl_type, prev_entry) =
                  (if prev_entry < table_entries t then (IPA_NAT_INDX_TBL, prev_entry)
                   else (IPA_NAT_INDEX_EXPN_TBL, sub16 prev_entry (table_entries t)));
                off = trunc16 (ipa_nati_get_index_entry_offset t tbl_type prev_entry);
                off = trunc16 (off + IPA_NAT_INDEX_RULE_NEXT_FIELD_OFFSET)
            in Some (t\<lparr>tbl_mem := Some (ipa_nati_write_next_index env tbl_index tbl_type entry off m)\<rparr>)
     }"

text \<open>The offset of a base slot does not include \<open>tbl_addr_offset\<close>, that of an expansion slot does.\<close>

definition ipa_nati_post_ipv4_dma_cmd ::
  "nat_env \<Rightarrow> nat \<Rightarrow> nat \<Rightarrow> ipa_nat_ip4_table_cache \<Rightarrow> (int \<times> ipa_nat_ip4_table_cache) option" where
  "ipa_nati_post_ipv4_dma_cmd env tbl_indx entry t =
     (if \<not> malloc_ok env ALLOC_ENABLE then Some (- ENOMEM, t)
      else do {
        m \<leftarrow> tbl_mem t;
        let one = (if entry < table_entries t
              then \<lparr>dma_table_index = tbl_indx, dma_base_addr = IPA_NAT_BASE_TBL,
                    dma_offset = (IPA_NAT_TABLE_ENTRY_SIZE * entry
                                  + IPA_NAT_RULE_FLAG_FIELD_OFFSET) mod 2 ^ 32,
                    dma_data = IPA_NAT_FLAG_ENABLE_BIT_MASK\<rparr>
              else \<lparr>dma_table_index = tbl_indx, dma_base_addr = IPA_NAT_EXPN_TBL,
                    dma_offset = (IPA_NAT_TABLE_ENTRY_SIZE * sub16 entry (table_entries t)
                                  + IPA_NAT_RULE_FLAG_FIELD_OFFSET + tbl_addr_offset t) mod 2 ^ 32,
                    dma_data = IPA_NAT_FLAG_ENABLE_BIT_MASK\<rparr>);
        let (ret, m) = ioctl_nat_dma env [one] m;
        Some (if ret \<noteq> 0 then - EIO else 0, t\<lparr>tbl_mem := Some m\<rparr>)
      })"

section \<open>Adding a rule\<close>

text \<open>
  \<open>ip4_tbl[tbl_hdl-1]\<close> with a 32 bit handle. The result: return code, the rule handle when
  it is written, and the cache.
\<close>

definition ipa_nati_add_ipv4_rule ::
  "nat_env \<Rightarrow> nat \<Rightarrow> ipa_nat_ipv4_rule \<Rightarrow> ipa_nat_cache \<Rightarrow> (int \<times> nat option \<times> ipa_nat_cache) option" where
  "ipa_nati_add_ipv4_rule env tbl_hdl clnt_rule c =
     do {
       let slot = (tbl_hdl + (2 ^ 32 - 1)) mod 2 ^ 32;
       t \<leftarrow> rd (ip4_tbl c) slot;
       (ret, sw_rule, index_sw_rule, new_entry, new_index_tbl_entry, t) \<leftarrow>
         ipa_nati_generate_rule clnt_rule zero_sw_rule zero_indx_sw_rule t;
       if ret \<noteq> 0 then Some (- EINVAL, None, put_tbl c slot t)
       else do {
         t \<leftarrow> ipa_nati_copy_ipv4_rule_to_hw env sw_rule new_entry (hdl_index tbl_hdl) t;
         t \<leftarrow> ipa_nati_copy_ipv4_index_rule_to_hw env index_sw_rule new_index_tbl_entry (hdl_index tbl_hdl) t;
         let c = put_tbl c slot t;
         t \<leftarrow> rd (ip4_tbl c) (hdl_index tbl_hdl);
         (ret, t) \<leftarrow> ipa_nati_post_ipv4_dma_cmd env (hdl_index tbl_hdl) new_entry t;
         let c = put_tbl c (hdl_index tbl_hdl) t;
         if ret \<noteq> 0 then Some (- EIO, None, c)
         else do {
           t \<leftarrow> rd (ip4_tbl c) (sub16 (trunc16 tbl_hdl) 1);
           (rule_hdl, t) \<leftarrow> ipa_nati_make_rule_hdl t new_entry;
           let c = put_tbl c (sub16 (trunc16 tbl_hdl) 1) t;
           if rule_hdl = 0 then Some (- EINVAL, Some rule_hdl, c) else Some (0, Some rule_hdl, c)
         }
       }
     }"

end
