(* ===== verification/Nat_Del.thy ===== *)
theory Nat_Del
  imports Nat_Add
begin

text \<open>
  Deleting a rule (ipanat/src/ipa_nat_drvi.c, \<open>ipa_nati_del_ipv4_rule\<close> and the functions it
  calls). \<open>ipa_nati_post_del_dma_cmd\<close> is split where the code's comments split it: the
  descriptor for the rule, the descriptors for the index entry, the reordering and the ioctl,
  and the two groups of direct writes after it.
\<close>

section \<open>Positions in a chain\<close>

definition ipa_nati_find_rule_pos :: "nat_mem \<Rightarrow> bool \<Rightarrow> nat \<Rightarrow> del_type option" where
  "ipa_nati_find_rule_pos m expn_tbl tbl_entry =
     (if expn_tbl
      then do { r \<leftarrow> rd (ipv4_expn_rules m) tbl_entry;
                Some (if unat (Read16BitFieldValue (hw_nxt_indx_pub_port r) NEXT_INDEX_FIELD)
                           = IPA_NAT_INVALID_NAT_ENTRY
                      then IPA_NAT_DEL_TYPE_LAST else IPA_NAT_DEL_TYPE_MIDDLE) }
      else do { r \<leftarrow> rd (ipv4_rules m) tbl_entry;
                Some (if unat (Read16BitFieldValue (hw_nxt_indx_pub_port r) NEXT_INDEX_FIELD)
                           = IPA_NAT_INVALID_NAT_ENTRY
                      then IPA_NAT_DEL_TYPE_ONLY_ONE else IPA_NAT_DEL_TYPE_HEAD) })"

definition ipa_nati_find_index_rule_pos :: "nat_mem \<Rightarrow> nat \<Rightarrow> nat \<Rightarrow> del_type option" where
  "ipa_nati_find_index_rule_pos m te tbl_entry =
     (if te \<le> tbl_entry
      then do { w \<leftarrow> rd (index_table_expn m) (sub16 tbl_entry te);
                Some (if unat (Read16BitFieldValue w INDX_TBL_NEXT_INDEX_FILED) = IPA_NAT_INVALID_NAT_ENTRY
                      then IPA_NAT_DEL_TYPE_LAST else IPA_NAT_DEL_TYPE_MIDDLE) }
      else do { w \<leftarrow> rd (index_table m) tbl_entry;
                Some (if unat (Read16BitFieldValue w INDX_TBL_NEXT_INDEX_FILED) = IPA_NAT_INVALID_NAT_ENTRY
                      then IPA_NAT_DEL_TYPE_ONLY_ONE else IPA_NAT_DEL_TYPE_HEAD) })"

section \<open>The order of the descriptors\<close>

definition is_indx_cmd :: "ipa_ioc_nat_dma_one \<Rightarrow> bool" where
  "is_indx_cmd c \<longleftrightarrow> dma_base_addr c = IPA_NAT_INDX_TBL \<or> dma_base_addr c = IPA_NAT_INDEX_EXPN_TBL"

text \<open>
  \<open>indx_tbl_start\<close> is the first index-table descriptor, and 0 both when there is none and
  when it is the first of all; in those cases nothing moves. A failed malloc leaves the order.
\<close>

definition ReorderCmds :: "nat_env \<Rightarrow> ipa_ioc_nat_dma_one list \<Rightarrow> ipa_ioc_nat_dma_one list" where
  "ReorderCmds env dma =
     (let rest = dropWhile (\<lambda>c. \<not> is_indx_cmd c) dma;
          indx_tbl_start = (if rest = [] then 0 else length dma - length rest)
      in if indx_tbl_start = 0 then dma
         else if \<not> malloc_ok env ALLOC_REORDER then dma
         else drop indx_tbl_start dma @ take indx_tbl_start dma)"

section \<open>The descriptors of a deletion\<close>

text \<open>The rule: one descriptor, by the position of the rule in its chain.\<close>

definition del_rule_cmd ::
  "ipa_nat_ip4_table_cache \<Rightarrow> nat \<Rightarrow> nat \<Rightarrow> ipa_nat_rule \<Rightarrow> del_type \<Rightarrow> ipa_ioc_nat_dma_one" where
  "del_rule_cmd cache_ptr tbl_indx cur_tbl_entry r rule_pos =
     (let one = (\<lambda>base off data. \<lparr>dma_table_index = tbl_indx, dma_base_addr = base,
                   dma_offset = off mod 2 ^ 32, dma_data = data\<rparr>);
          prev_entry = unat (Read16BitFieldValue (hw_sw_spec_params r) SW_SPEC_PARAM_PREV_INDEX_FIELD);
          prev_base = (if table_entries cache_ptr \<le> prev_entry then IPA_NAT_EXPN_TBL else IPA_NAT_BASE_TBL);
          prev_slot = (if table_entries cache_ptr \<le> prev_entry
                       then sub16 prev_entry (table_entries cache_ptr) else prev_entry)
      in case rule_pos of
           IPA_NAT_DEL_TYPE_ONLY_ONE \<Rightarrow>
             one IPA_NAT_BASE_TBL
               (ipa_nati_get_entry_offset cache_ptr IPA_NAT_BASE_TBL cur_tbl_entry
                + IPA_NAT_RULE_FLAG_FIELD_OFFSET) IPA_NAT_FLAG_DISABLE_BIT_MASK
         | IPA_NAT_DEL_TYPE_HEAD \<Rightarrow>
             one IPA_NAT_BASE_TBL
               (ipa_nati_get_entry_offset cache_ptr IPA_NAT_BASE_TBL cur_tbl_entry
                + IPA_NAT_RULE_PROTO_FIELD_OFFSET) IPA_NAT_INVALID_PROTO_FIELD_VALUE
         | IPA_NAT_DEL_TYPE_MIDDLE \<Rightarrow>
             one prev_base
               (ipa_nati_get_entry_offset cache_ptr prev_base prev_slot + IPA_NAT_RULE_NEXT_FIELD_OFFSET)
               (Read16BitFieldValue (hw_nxt_indx_pub_port r) NEXT_INDEX_FIELD)
         | IPA_NAT_DEL_TYPE_LAST \<Rightarrow>
             one prev_base
               (ipa_nati_get_entry_offset cache_ptr prev_base prev_slot + IPA_NAT_RULE_NEXT_FIELD_OFFSET)
               0)"

text \<open>
  The index entry: one descriptor, two when the entry of the base slot is replaced by the next
  of its chain. \<open>indx_tbl_entry\<close> is the number before the subtraction of the base size.
\<close>

definition del_indx_cmds ::
  "ipa_nat_ip4_table_cache \<Rightarrow> nat_mem \<Rightarrow> nat \<Rightarrow> nat \<Rightarrow> del_type \<Rightarrow> ipa_ioc_nat_dma_one list option" where
  "del_indx_cmds cache_ptr m tbl_indx indx_tbl_entry indx_rule_pos =
     do {
       let te = table_entries cache_ptr;
       let one = (\<lambda>base off data. \<lparr>dma_table_index = tbl_indx, dma_base_addr = base,
                    dma_offset = off mod 2 ^ 32, dma_data = data\<rparr>);
       let indx_tbl = (if te \<le> indx_tbl_entry then index_table_expn m else index_table m);
       let slot = (if te \<le> indx_tbl_entry then sub16 indx_tbl_entry te else indx_tbl_entry);
       (case indx_rule_pos of
          IPA_NAT_DEL_TYPE_ONLY_ONE \<Rightarrow>
            Some [one IPA_NAT_INDX_TBL
                    (ipa_nati_get_index_entry_offset cache_ptr IPA_NAT_INDX_TBL slot
                     + IPA_NAT_INDEX_RULE_NAT_INDEX_FIELD_OFFSET) 0]
        | IPA_NAT_DEL_TYPE_HEAD \<Rightarrow> do {
            w \<leftarrow> rd indx_tbl slot;
            let next_entry = sub16 (unat (Read16BitFieldValue w INDX_TBL_NEXT_INDEX_FILED)) te;
            n \<leftarrow> rd (index_table_expn m) next_entry;
            Some [one IPA_NAT_INDX_TBL
                    (ipa_nati_get_index_entry_offset cache_ptr IPA_NAT_INDX_TBL slot
                     + IPA_NAT_INDEX_RULE_NAT_INDEX_FIELD_OFFSET)
                    (Read16BitFieldValue n INDX_TBL_TBL_ENTRY_FIELD),
                  one IPA_NAT_INDX_TBL
                    (ipa_nati_get_index_entry_offset cache_ptr IPA_NAT_INDX_TBL slot
                     + IPA_NAT_INDEX_RULE_NEXT_FIELD_OFFSET)
                    (Read16BitFieldValue n INDX_TBL_NEXT_INDEX_FILED)]
          }
        | _ \<Rightarrow> do {
            meta \<leftarrow> index_expn_table_meta cache_ptr;
            prev_entry \<leftarrow> rd meta slot;
            w \<leftarrow> rd indx_tbl slot;
            let base = (if te \<le> prev_entry then IPA_NAT_INDEX_EXPN_TBL else IPA_NAT_INDX_TBL);
            let prev_slot = (if te \<le> prev_entry then sub16 prev_entry te else prev_entry);
            Some [one base
                    (ipa_nati_get_index_entry_offset cache_ptr base prev_slot
                     + IPA_NAT_INDEX_RULE_NEXT_FIELD_OFFSET)
                    (if indx_rule_pos = IPA_NAT_DEL_TYPE_MIDDLE
                     then Read16BitFieldValue w INDX_TBL_NEXT_INDEX_FILED else 0)]
          })
     }"

section \<open>The direct writes after the DMA\<close>

text \<open>The rule: its successor's previous slot, then the slot itself is cleared, except a head.\<close>

definition del_rule_fixup ::
  "nat \<Rightarrow> nat \<Rightarrow> bool \<Rightarrow> del_type \<Rightarrow> nat_mem \<Rightarrow> nat_mem option" where
  "del_rule_fixup te cur_tbl_entry expn_tbl rule_pos m =
     do {
       m \<leftarrow> (if rule_pos = IPA_NAT_DEL_TYPE_MIDDLE
             then do {
               r \<leftarrow> rd (if expn_tbl then ipv4_expn_rules m else ipv4_rules m) cur_tbl_entry;
               let prev_entry = Read16BitFieldValue (hw_sw_spec_params r) SW_SPEC_PARAM_PREV_INDEX_FIELD;
               let next_entry = sub16 (unat (Read16BitFieldValue (hw_nxt_indx_pub_port r) NEXT_INDEX_FIELD)) te;
               n \<leftarrow> rd (ipv4_expn_rules m) next_entry;
               e \<leftarrow> wr (ipv4_expn_rules m) next_entry
                     (UpdateSwSpecParams n IPA_NAT_SW_PARAM_PREV_INDX_BYTE (ucast prev_entry));
               Some (m\<lparr>ipv4_expn_rules := e\<rparr>)
             }
             else Some m);
       (if rule_pos = IPA_NAT_DEL_TYPE_HEAD then Some m
        else if expn_tbl \<or> rule_pos = IPA_NAT_DEL_TYPE_MIDDLE
        then do { e \<leftarrow> wr (ipv4_expn_rules m) cur_tbl_entry zero_rule; Some (m\<lparr>ipv4_expn_rules := e\<rparr>) }
        else do { b \<leftarrow> wr (ipv4_rules m) cur_tbl_entry zero_rule; Some (m\<lparr>ipv4_rules := b\<rparr>) })
     }"

text \<open>
  The index entry. \<open>indx_next_entry\<close> is the expansion slot whose entry moved to the base slot
  when the position was a head.
\<close>

definition del_indx_fixup_head ::
  "nat \<Rightarrow> nat \<Rightarrow> nat \<Rightarrow> nat list option \<Rightarrow> nat_mem \<Rightarrow> (nat list option \<times> nat_mem) option" where
  "del_indx_fixup_head te indx_tbl_entry indx_next_entry meta m =
     do {
       w \<leftarrow> rd (index_table_expn m) indx_next_entry;
       let indx_next_next_entry = unat (Read16BitFieldValue w INDX_TBL_NEXT_INDEX_FILED);
       meta \<leftarrow> (if indx_next_next_entry \<noteq> 0 \<and> te \<le> indx_next_next_entry
                then do { a \<leftarrow> meta; a \<leftarrow> wr a (sub16 indx_next_next_entry te) indx_tbl_entry; Some (Some a) }
                else Some meta);
       x \<leftarrow> wr (index_table_expn m) indx_next_entry 0;
       let m = m\<lparr>index_table_expn := x\<rparr>;
       h \<leftarrow> rd (index_table m) indx_tbl_entry;
       let table_entry = unat (Read16BitFieldValue h INDX_TBL_TBL_ENTRY_FIELD);
       (if te \<le> table_entry
        then do {
          r \<leftarrow> rd (ipv4_expn_rules m) (sub16 table_entry te);
          e \<leftarrow> wr (ipv4_expn_rules m) (sub16 table_entry te)
                (UpdateSwSpecParams r IPA_NAT_SW_PARAM_INDX_TBL_ENTRY_BYTE (of_nat indx_tbl_entry));
          Some (meta, m\<lparr>ipv4_expn_rules := e\<rparr>)
        }
        else do {
          r \<leftarrow> rd (ipv4_rules m) table_entry;
          b \<leftarrow> wr (ipv4_rules m) table_entry
                (UpdateSwSpecParams r IPA_NAT_SW_PARAM_INDX_TBL_ENTRY_BYTE (of_nat indx_tbl_entry));
          Some (meta, m\<lparr>ipv4_rules := b\<rparr>)
        })
     }"

definition del_indx_fixup_other ::
  "nat \<Rightarrow> bool \<Rightarrow> nat \<Rightarrow> del_type \<Rightarrow> nat list option \<Rightarrow> nat_mem \<Rightarrow> (nat list option \<times> nat_mem) option" where
  "del_indx_fixup_other te indx_expn slot indx_rule_pos meta m =
     do {
       meta \<leftarrow> (if indx_rule_pos = IPA_NAT_DEL_TYPE_MIDDLE
                then do {
                  w \<leftarrow> rd (if indx_expn then index_table_expn m else index_table m) slot;
                  let nxt = unat (Read16BitFieldValue w INDX_TBL_NEXT_INDEX_FILED);
                  let next_entry = (if te \<le> nxt then sub16 nxt te else nxt);
                  a \<leftarrow> meta;
                  p \<leftarrow> rd a slot;
                  a \<leftarrow> wr a next_entry p;
                  a \<leftarrow> wr a slot IPA_NAT_INVALID_NAT_ENTRY;
                  Some (Some a)
                }
                else Some meta);
       (if indx_expn
        then do { x \<leftarrow> wr (index_table_expn m) slot 0; Some (meta, m\<lparr>index_table_expn := x\<rparr>) }
        else do { x \<leftarrow> wr (index_table m) slot 0; Some (meta, m\<lparr>index_table := x\<rparr>) })
     }"

section \<open>Posting the deletion\<close>

definition ipa_nati_post_del_dma_cmd ::
  "nat_env \<Rightarrow> nat \<Rightarrow> nat \<Rightarrow> bool \<Rightarrow> del_type \<Rightarrow> ipa_nat_ip4_table_cache \<Rightarrow>
   (int \<times> ipa_nat_ip4_table_cache) option" where
  "ipa_nati_post_del_dma_cmd env tbl_indx cur_tbl_entry expn_tbl rule_pos t =
     (if \<not> malloc_ok env ALLOC_DELETE then Some (- ENOMEM, t)
      else do {
        m \<leftarrow> tbl_mem t;
        let te = table_entries t;
        r \<leftarrow> rd (if expn_tbl then ipv4_expn_rules m else ipv4_rules m) cur_tbl_entry;
        if Read16BitFieldValue (hw_ip_cksm_enbl r) ENABLE_FIELD = 0 then Some (- EINVAL, t)
        else do {
          let indx_tbl_entry =
            unat (Read16BitFieldValue (hw_sw_spec_params r) SW_SPEC_PARAM_INDX_TBL_ENTRY_FIELD);
          let rule_cmd = del_rule_cmd t tbl_indx cur_tbl_entry r rule_pos;
          indx_rule_pos \<leftarrow> ipa_nati_find_index_rule_pos m te indx_tbl_entry;
          indx_cmds \<leftarrow> del_indx_cmds t m tbl_indx indx_tbl_entry indx_rule_pos;
          let cmds = rule_cmd # indx_cmds;
          let (ret, m') = ioctl_nat_dma env
                            (if length cmds > 1 then ReorderCmds env cmds else cmds) m;
          if ret \<noteq> 0 then Some (- EIO, t\<lparr>tbl_mem := Some m'\<rparr>)
          else do {
            m' \<leftarrow> del_rule_fixup te cur_tbl_entry expn_tbl rule_pos m';
            let meta = index_expn_table_meta t;
            (meta, m') \<leftarrow>
              (if indx_rule_pos = IPA_NAT_DEL_TYPE_HEAD
               then do {
                 w \<leftarrow> rd (index_table m) indx_tbl_entry;
                 del_indx_fixup_head te indx_tbl_entry
                   (sub16 (unat (Read16BitFieldValue w INDX_TBL_NEXT_INDEX_FILED)) te) meta m'
               }
               else del_indx_fixup_other te (te \<le> indx_tbl_entry)
                      (if te \<le> indx_tbl_entry then sub16 indx_tbl_entry te else indx_tbl_entry)
                      indx_rule_pos meta m');
            Some (0, t\<lparr>tbl_mem := Some m', index_expn_table_meta := meta\<rparr>)
          }
        }
      })"

section \<open>Dead head nodes\<close>

text \<open>
  One slot of the sweep of \<open>ipa_nati_del_dead_ipv4_head_nodes\<close>, and the sweep over the
  first \<open>table_entries\<close> base slots.
\<close>

definition dead_head :: "ipa_nat_rule \<Rightarrow> bool" where
  "dead_head r \<longleftrightarrow>
     Read8BitFieldValue (hw_ts_proto r) PROTOCOL_FIELD = IPA_NAT_INVALID_PROTO_FIELD_CMP \<and>
     unat (Read16BitFieldValue (hw_nxt_indx_pub_port r) NEXT_INDEX_FIELD) = IPA_NAT_INVALID_NAT_ENTRY"

definition del_dead_node :: "ipa_nat_rule \<Rightarrow> ipa_nat_rule" where
  "del_dead_node r = (if dead_head r then zero_rule else r)"

definition ipa_nati_del_dead_ipv4_head_nodes :: "ipa_nat_ip4_table_cache \<Rightarrow> ipa_nat_ip4_table_cache option" where
  "ipa_nati_del_dead_ipv4_head_nodes t =
     do {
       m \<leftarrow> tbl_mem t;
       if table_entries t \<le> length (ipv4_rules m)
       then Some (t\<lparr>tbl_mem := Some (m\<lparr>ipv4_rules :=
              map del_dead_node (take (table_entries t) (ipv4_rules m))
              @ drop (table_entries t) (ipv4_rules m)\<rparr>)\<rparr>)
       else None
     }"

section \<open>Deleting a rule\<close>

definition ipa_nati_del_ipv4_rule ::
  "nat_env \<Rightarrow> nat \<Rightarrow> nat \<Rightarrow> ipa_nat_cache \<Rightarrow> (int \<times> ipa_nat_cache) option" where
  "ipa_nati_del_ipv4_rule env tbl_hdl rule_hdl c =
     do {
       let tbl_indx = hdl_index tbl_hdl;
       t \<leftarrow> rd (ip4_tbl c) tbl_indx;
       (expn_tbl, tbl_entry) \<leftarrow> ipa_nati_parse_ipv4_rule_hdl t (trunc16 rule_hdl);
       if tbl_entry = IPA_NAT_INVALID_NAT_ENTRY then Some (- EINVAL, c)
       else if \<not> valid t then Some (- EINVAL, c)
       else do {
         m \<leftarrow> tbl_mem t;
         rule_pos \<leftarrow> ipa_nati_find_rule_pos m expn_tbl tbl_entry;
         (ret, t) \<leftarrow> ipa_nati_post_del_dma_cmd env tbl_indx tbl_entry expn_tbl rule_pos t;
         if ret \<noteq> 0 then Some (- EINVAL, put_tbl c tbl_indx t)
         else do {
           t \<leftarrow> ipa_nati_del_dead_ipv4_head_nodes t;
           ids \<leftarrow> rule_id_array t;
           ids \<leftarrow> wr ids (rule_hdl - 1) IPA_NAT_INVALID_NAT_ENTRY;
           Some (0, put_tbl c tbl_indx (t\<lparr>rule_id_array := Some ids\<rparr>))
         }
       }
     }"

end
