(* ===== verification/Nat_Inv.thy ===== *)
theory Nat_Inv
  imports Nat_Del
begin

text \<open>
  The invariant of a NAT table, over the slot numbers that base and expansion arrays share.
  Three parts are tied together by the set \<open>L\<close> of slots that hold a rule:
  \<open>rule_part\<close> (the chains of the rule arrays, every rule in the chain of its destination
  hash, dead heads), \<open>indx_part\<close> (the chains of the index arrays, and a one-to-one
  correspondence between rules and index entries, each in the chain of its source hash) and
  \<open>hdl_part\<close> (rule handles). The lemmas say what taking and giving up a slot does to each.
\<close>

section \<open>Parts of the invariant\<close>

text \<open>The base slots of a client's rule in the two tables.\<close>

definition dst_slot :: "nat \<Rightarrow> ipa_nat_ipv4_rule \<Rightarrow> nat" where
  "dst_slot te c = unat (dst_hash (clnt_target_ip c) (clnt_target_port c) (clnt_public_port c)
     (clnt_protocol c) (of_nat (sub16 te 1)))"

definition src_slot :: "nat \<Rightarrow> ipa_nat_ipv4_rule \<Rightarrow> nat" where
  "src_slot te c = unat (src_hash (clnt_private_ip c) (clnt_private_port c) (clnt_target_ip c)
     (clnt_target_port c) (clnt_protocol c) (of_nat (sub16 te 1)))"

lemma hash_slots:
  assumes "2 \<le> te" "te < 65536"
  shows "0 < dst_slot te c" "dst_slot te c < te" "0 < src_slot te c" "src_slot te c < te"
proof -
  have s: "sub16 te 1 = te - 1" using assms by (intro sub16_exact) auto
  have u: "unat (of_nat (te - 1) :: u16) = te - 1" using assms by (intro unat_of_nat16) auto
  have "(of_nat (te - 1) :: u16) \<noteq> 0" using assms of_nat16_eq_0 [of "te - 1"] by simp
  from hash_bounds [OF this] u assms
  show "0 < dst_slot te c" "dst_slot te c < te" "0 < src_slot te c" "src_slot te c < te"
    unfolding dst_slot_def src_slot_def s by (auto simp: Suc_le_eq le_diff_conv2)
qed

definition in_chain :: "nat \<Rightarrow> (nat \<Rightarrow> nat list) \<Rightarrow> nat \<Rightarrow> nat \<Rightarrow> bool" where
  "in_chain te C h n \<longleftrightarrow> h < te \<and> n \<in> set (h # C h)"

abbreviation dead_proto :: "ipa_nat_ipv4_rule \<Rightarrow> bool" where
  "dead_proto c \<equiv> clnt_protocol c = 0xFF"

definition live_slots ::
  "nat \<Rightarrow> nat \<Rightarrow> (nat \<Rightarrow> bool) \<Rightarrow> (nat \<Rightarrow> ipa_nat_ipv4_rule) \<Rightarrow> nat set" where
  "live_slots te ee used key = {n. n < te + ee \<and> used n \<and> \<not> (n < te \<and> dead_proto (key n))}"

definition rule_part ::
  "nat \<Rightarrow> nat \<Rightarrow> (nat \<Rightarrow> bool) \<Rightarrow> (nat \<Rightarrow> nat) \<Rightarrow> (nat \<Rightarrow> nat) \<Rightarrow> (nat \<Rightarrow> ipa_nat_ipv4_rule) \<Rightarrow>
   nat set \<Rightarrow> (nat \<Rightarrow> nat list) \<Rightarrow> bool" where
  "rule_part te ee used nxt prv key L C \<longleftrightarrow>
     chains te ee used nxt prv C \<and>
     L = live_slots te ee used key \<and>
     (\<forall>n\<in>L. in_chain te C (dst_slot te (key n)) n \<and> \<not> dead_proto (key n)) \<and>
     (\<forall>n<te. used n \<and> dead_proto (key n) \<longrightarrow> nxt n \<noteq> 0)"

definition indx_part ::
  "nat \<Rightarrow> nat \<Rightarrow> (nat \<Rightarrow> nat) \<Rightarrow> (nat \<Rightarrow> nat) \<Rightarrow> (nat \<Rightarrow> nat) \<Rightarrow> (nat \<Rightarrow> nat) \<Rightarrow>
   (nat \<Rightarrow> ipa_nat_ipv4_rule) \<Rightarrow> nat set \<Rightarrow> (nat \<Rightarrow> nat list) \<Rightarrow> bool" where
  "indx_part te ee ent inxt iprv idx key L D \<longleftrightarrow>
     chains te ee (\<lambda>i. ent i \<noteq> 0) inxt iprv D \<and>
     (\<forall>n\<in>L. n \<noteq> 0 \<and> idx n < te + ee \<and> ent (idx n) = n \<and> in_chain te D (src_slot te (key n)) (idx n)) \<and>
     (\<forall>i<te + ee. ent i \<noteq> 0 \<longrightarrow> ent i \<in> L \<and> idx (ent i) = i)"

definition slot_of :: "nat \<Rightarrow> nat \<Rightarrow> nat" where
  "slot_of te rule_id = (if odd rule_id then te + rule_id div 2 else rule_id div 2)"

definition hdl_part :: "nat \<Rightarrow> nat \<Rightarrow> nat list \<Rightarrow> nat set \<Rightarrow> bool" where
  "hdl_part te ee ids L \<longleftrightarrow>
     length ids = te + ee \<and>
     (\<forall>k<te + ee. ids ! k \<noteq> 0 \<longrightarrow>
        k + 1 < te + ee \<and> slot_of te (ids ! k) \<in> L \<and> (odd (ids ! k) \<longleftrightarrow> te \<le> slot_of te (ids ! k))) \<and>
     (\<forall>k<te + ee. \<forall>l<te + ee. ids ! k \<noteq> 0 \<longrightarrow> ids ! l \<noteq> 0 \<longrightarrow>
        slot_of te (ids ! k) = slot_of te (ids ! l) \<longrightarrow> k = l) \<and>
     (\<forall>n\<in>L. \<exists>k<te + ee. ids ! k \<noteq> 0 \<and> slot_of te (ids ! k) = n)"

section \<open>Taking a slot\<close>

text \<open>
  How a new entry \<open>n\<close> sits in a chained table: in its free base slot \<open>h\<close>, with previous
  slot 0, or in a free expansion slot behind the last slot \<open>p\<close> of the chain of \<open>h\<close>.
\<close>

definition new_slot ::
  "nat \<Rightarrow> nat \<Rightarrow> (nat \<Rightarrow> bool) \<Rightarrow> (nat \<Rightarrow> nat list) \<Rightarrow> nat \<Rightarrow> nat \<Rightarrow> nat \<Rightarrow> bool" where
  "new_slot te ee used C h n p \<longleftrightarrow> 0 < h \<and> h < te \<and> \<not> used n \<and>
     (n = h \<and> p = 0 \<or> te < n \<and> n < te + ee \<and> used h \<and> p = last (h # C h))"

definition link_new :: "nat \<Rightarrow> nat \<Rightarrow> (nat \<Rightarrow> nat) \<Rightarrow> nat \<Rightarrow> nat" where
  "link_new n p nxt = (if p = 0 then nxt(n := 0) else nxt(n := 0, p := n))"

lemma new_slot_facts:
  assumes "chains te ee used nxt prv C" "new_slot te ee used C h n p"
  shows "0 < n" "n < te + ee" "n \<noteq> te" "p \<noteq> n" "p < te + ee" "p \<noteq> 0 \<longleftrightarrow> te \<le> n"
    "p \<noteq> 0 \<Longrightarrow> used p \<and> (p < te \<longrightarrow> p = h)"
proof -
  have "last (h # C h) = h \<and> C h = [] \<or> last (h # C h) \<in> set (C h)" if "h < te"
    using chains_last(1) [OF assms(1) that] .
  then show "0 < n" "n < te + ee" "n \<noteq> te" "p \<noteq> n" "p < te + ee" "p \<noteq> 0 \<longleftrightarrow> te \<le> n"
    "p \<noteq> 0 \<Longrightarrow> used p \<and> (p < te \<longrightarrow> p = h)"
    using assms(2) chains_mem [OF assms(1), of h "last (h # C h)"] unfolding new_slot_def by force+
qed

lemma chains_new_slot:
  assumes ch: "chains te ee used nxt prv C" and new: "new_slot te ee used C h n p"
    and prv': "\<And>k. te < k \<Longrightarrow> k < te + ee \<Longrightarrow> prv' k = (if k = n then p else prv k)"
  shows "chains te ee (used(n := True)) (link_new n p nxt) prv' (if n = h then C else C(h := C h @ [n]))"
proof (cases "n = h")
  case True
  then have p: "p = 0" and h: "0 < h" "h < te" "\<not> used h" using new by (auto simp: new_slot_def)
  have "chains te ee (used(h := True)) (nxt(h := 0)) prv C"
    by (rule chains_take_base [OF ch h(2) _ h(3)]) (use h in simp)
  then show ?thesis
    using True p prv' h chains_unused [OF ch] by (auto simp: link_new_def elim!: chains_cong)
next
  case False
  then have h: "h < te" "used h" and n: "te < n" "n < te + ee" "\<not> used n" and p: "p = last (h # C h)"
    using new by (auto simp: new_slot_def)
  have "p \<noteq> 0" using new_slot_facts(6) [OF ch new] n by simp
  moreover have "chains te ee (used(n := True)) (nxt(n := 0, p := n)) (prv(n := p)) (C(h := C h @ [n]))"
    by (rule chains_append [OF ch h n p])
  then have "chains te ee (used(n := True)) (nxt(n := 0, p := n)) prv' (C(h := C h @ [n]))"
    by (rule chains_cong) (use prv' n chains_unused [OF ch] in auto)
  ultimately show ?thesis using False by (simp add: link_new_def)
qed

lemma in_chain_grow: "in_chain te C g k \<Longrightarrow> in_chain te (if b then C else C(h := C h @ [n])) g k"
  by (auto simp: in_chain_def)

lemma in_chain_new: "new_slot te ee used C h n p \<Longrightarrow> in_chain te (if n = h then C else C(h := C h @ [n])) h n"
  by (auto simp: in_chain_def new_slot_def)

lemma rule_part_add:
  assumes rp: "rule_part te ee used nxt prv key L C"
    and new: "new_slot te ee used C (dst_slot te c) n p" and c: "\<not> dead_proto c"
    and prv': "\<And>k. te < k \<Longrightarrow> k < te + ee \<Longrightarrow> prv' k = (if k = n then p else prv k)"
  shows "rule_part te ee (used(n := True)) (link_new n p nxt) prv' (key(n := c)) (insert n L)
     (if n = dst_slot te c then C else C(dst_slot te c := C (dst_slot te c) @ [n]))"
proof -
  have ch: "chains te ee used nxt prv C" and L: "L = live_slots te ee used key"
    and chain: "\<And>k. k \<in> L \<Longrightarrow> in_chain te C (dst_slot te (key k)) k \<and> \<not> dead_proto (key k)"
    and dead: "\<And>k. k < te \<Longrightarrow> used k \<Longrightarrow> dead_proto (key k) \<Longrightarrow> nxt k \<noteq> 0"
    using rp by (auto simp: rule_part_def)
  note nf = new_slot_facts [OF ch new]
  have "\<not> used n" using new by (simp add: new_slot_def)
  then have nL: "n \<notin> L" using L by (simp add: live_slots_def)
  show ?thesis
    unfolding rule_part_def
  proof (intro conjI allI impI ballI)
    show "chains te ee (used(n := True)) (link_new n p nxt) prv'
       (if n = dst_slot te c then C else C(dst_slot te c := C (dst_slot te c) @ [n]))"
      by (rule chains_new_slot [OF ch new prv'])
    show "insert n L = live_slots te ee (used(n := True)) (key(n := c))"
      using L nf(2) c by (auto simp: live_slots_def)
  next
    fix k assume "k \<in> insert n L"
    then show "in_chain te (if n = dst_slot te c then C else C(dst_slot te c := C (dst_slot te c) @ [n]))
        (dst_slot te ((key(n := c)) k)) k"
      using in_chain_new [OF new] chain in_chain_grow nL by (cases "k = n") auto
    show "\<not> dead_proto ((key(n := c)) k)" using \<open>k \<in> insert n L\<close> c chain by (cases "k = n") auto
  next
    fix k assume "k < te" "(used(n := True)) k \<and> dead_proto ((key(n := c)) k)"
    then show "link_new n p nxt k \<noteq> 0"
      using dead [of k] c nf(1) by (auto simp: link_new_def split: if_splits)
  qed
qed

lemma indx_part_add:
  assumes ip: "indx_part te ee ent inxt iprv idx key L D"
    and new: "new_slot te ee (\<lambda>i. ent i \<noteq> 0) D (src_slot te c) i q"
    and n: "n \<notin> L" "n \<noteq> 0"
    and iprv': "\<And>k. te < k \<Longrightarrow> k < te + ee \<Longrightarrow> iprv' k = (if k = i then q else iprv k)"
  shows "indx_part te ee (ent(i := n)) (link_new i q inxt) iprv' (idx(n := i)) (key(n := c)) (insert n L)
     (if i = src_slot te c then D else D(src_slot te c := D (src_slot te c) @ [i]))"
proof -
  have ch: "chains te ee (\<lambda>i. ent i \<noteq> 0) inxt iprv D"
    and bij: "\<And>k. k \<in> L \<Longrightarrow> k \<noteq> 0 \<and> idx k < te + ee \<and> ent (idx k) = k \<and> in_chain te D (src_slot te (key k)) (idx k)"
    and ents: "\<And>j. j < te + ee \<Longrightarrow> ent j \<noteq> 0 \<Longrightarrow> ent j \<in> L \<and> idx (ent j) = j"
    using ip by (auto simp: indx_part_def)
  note nf = new_slot_facts [OF ch new]
  have i0: "ent i = 0" using new by (simp add: new_slot_def)
  have u: "(\<lambda>j. (ent(i := n)) j \<noteq> 0) = (\<lambda>j. ent j \<noteq> 0)(i := True)" using n by auto
  show ?thesis
    unfolding indx_part_def
  proof (intro conjI allI impI ballI)
    show "chains te ee (\<lambda>j. (ent(i := n)) j \<noteq> 0) (link_new i q inxt) iprv'
       (if i = src_slot te c then D else D(src_slot te c := D (src_slot te c) @ [i]))"
      unfolding u by (rule chains_new_slot [OF ch new iprv'])
  next
    fix k assume k: "k \<in> insert n L"
    have "idx k \<noteq> i" if "k \<in> L" using bij [OF that] i0 by auto
    with k n(1) show "(idx(n := i)) k < te + ee" "(ent(i := n)) ((idx(n := i)) k) = k" "k \<noteq> 0"
      "in_chain te (if i = src_slot te c then D else D(src_slot te c := D (src_slot te c) @ [i]))
         (src_slot te ((key(n := c)) k)) ((idx(n := i)) k)"
      using bij [of k] nf(2) n(2) in_chain_new [OF new] in_chain_grow by (cases "k = n"; auto)+
  next
    fix j assume j: "j < te + ee" "(ent(i := n)) j \<noteq> 0"
    then show "(ent(i := n)) j \<in> insert n L" "(idx(n := i)) ((ent(i := n)) j) = j"
      using ents [of j] n(1) by (cases "j = i"; auto)+
  qed
qed

section \<open>Giving up a rule\<close>

text \<open>The invariant of the rule arrays but for dead heads that the sweep has still to clear.\<close>

definition rule_part0 ::
  "nat \<Rightarrow> nat \<Rightarrow> (nat \<Rightarrow> bool) \<Rightarrow> (nat \<Rightarrow> nat) \<Rightarrow> (nat \<Rightarrow> nat) \<Rightarrow> (nat \<Rightarrow> ipa_nat_ipv4_rule) \<Rightarrow>
   nat set \<Rightarrow> (nat \<Rightarrow> nat list) \<Rightarrow> bool" where
  "rule_part0 te ee used nxt prv key L C \<longleftrightarrow>
     chains te ee used nxt prv C \<and>
     L = live_slots te ee used key \<and>
     (\<forall>n\<in>L. in_chain te C (dst_slot te (key n)) n \<and> \<not> dead_proto (key n))"

lemma rule_part0I: "rule_part te ee used nxt prv key L C \<Longrightarrow> rule_part0 te ee used nxt prv key L C"
  by (simp add: rule_part_def rule_part0_def)

lemma live_used: "rule_part0 te ee used nxt prv key L C \<Longrightarrow> n \<in> L \<Longrightarrow> n < te + ee \<and> used n \<and> 0 < n \<and> n \<noteq> te"
  using chains_unused unfolding rule_part0_def live_slots_def by (metis (mono_tags) mem_Collect_eq neq0_conv)

lemma rule_part0_del_only:
  assumes rp: "rule_part0 te ee used nxt prv key L C" and n: "n \<in> L" "n < te" "nxt n = 0"
    and used': "\<And>k. k < te + ee \<Longrightarrow> used' k = (used k \<and> k \<noteq> n)" "\<not> used' te"
    and nxt': "\<And>k. k < te + ee \<Longrightarrow> nxt' k = nxt k"
    and prv': "\<And>k. te < k \<Longrightarrow> k < te + ee \<Longrightarrow> prv' k = prv k"
    and key': "\<And>k. k < te + ee \<Longrightarrow> k \<noteq> n \<Longrightarrow> key' k = key k"
  shows "rule_part0 te ee used' nxt' prv' key' (L - {n}) C"
proof -
  have ch: "chains te ee used nxt prv C" and L: "L = live_slots te ee used key"
    using rp by (auto simp: rule_part0_def)
  have "chains te ee (\<lambda>k. used k \<and> k \<notin> {n}) nxt prv C"
    by (rule chains_free_base [OF ch]) (use n in auto)
  then have "chains te ee used' nxt' prv' C"
    by (rule chains_cong) (use used' nxt' prv' in auto)
  moreover have "L - {n} = live_slots te ee used' key'"
    using L used' key' by (auto simp: live_slots_def)
  moreover have "in_chain te C (dst_slot te (key' k)) k \<and> \<not> dead_proto (key' k)" if "k \<in> L - {n}" for k
    using rp that key' [of k] live_used [OF rp, of k] by (auto simp: rule_part0_def)
  ultimately show ?thesis by (simp add: rule_part0_def)
qed

lemma rule_part0_del_head:
  assumes rp: "rule_part0 te ee used nxt prv key L C" and n: "n \<in> L" "n < te"
    and used': "\<And>k. k < te + ee \<Longrightarrow> used' k = used k" "\<not> used' te"
    and nxt': "\<And>k. k < te + ee \<Longrightarrow> nxt' k = nxt k"
    and prv': "\<And>k. te < k \<Longrightarrow> k < te + ee \<Longrightarrow> prv' k = prv k"
    and key': "\<And>k. k < te + ee \<Longrightarrow> k \<noteq> n \<Longrightarrow> key' k = key k" "dead_proto (key' n)"
  shows "rule_part0 te ee used' nxt' prv' key' (L - {n}) C"
proof -
  have ch: "chains te ee used nxt prv C" and L: "L = live_slots te ee used key"
    using rp by (auto simp: rule_part0_def)
  have "chains te ee used' nxt' prv' C"
    by (rule chains_cong [OF ch]) (use used' nxt' prv' in auto)
  moreover have "L - {n} = live_slots te ee used' key'"
  proof (rule set_eqI)
    fix k show "k \<in> L - {n} \<longleftrightarrow> k \<in> live_slots te ee used' key'"
      using L used' key' n(2) by (cases "k = n") (auto simp: live_slots_def)
  qed
  moreover have "in_chain te C (dst_slot te (key' k)) k \<and> \<not> dead_proto (key' k)" if "k \<in> L - {n}" for k
    using rp that key'(1) [of k] live_used [OF rp, of k] by (auto simp: rule_part0_def)
  ultimately show ?thesis by (simp add: rule_part0_def)
qed

lemma rule_part0_del_expn:
  assumes rp: "rule_part0 te ee used nxt prv key L C" and n: "n \<in> L" "te \<le> n"
    and used': "\<And>k. k < te + ee \<Longrightarrow> used' k = (used k \<and> k \<noteq> n)" "\<not> used' te"
    and nxt': "\<And>k. k < te + ee \<Longrightarrow> nxt' k = (nxt(prv n := nxt n, n := 0)) k"
    and prv': "\<And>k. te < k \<Longrightarrow> k < te + ee \<Longrightarrow> k \<noteq> n \<Longrightarrow>
                 prv' k = (if k = nxt n then prv n else prv k)"
    and key': "\<And>k. k < te + ee \<Longrightarrow> k \<noteq> n \<Longrightarrow> key' k = key k"
  shows "\<exists>C'. rule_part0 te ee used' nxt' prv' key' (L - {n}) C'"
proof -
  have ch: "chains te ee used nxt prv C" and L: "L = live_slots te ee used key"
    using rp by (auto simp: rule_part0_def)
  have nb: "te < n" "n < te + ee" "used n" using live_used [OF rp n(1)] n(2) by auto
  obtain h where h: "h < te" "n \<in> set (C h)" using chains_cover [OF ch nb] by blast
  let ?C = "C(h := remove1 n (C h))"
  have "chains te ee (used(n := False)) (nxt(prv n := nxt n, n := 0))
      (if nxt n = 0 then prv else prv(nxt n := prv n)) ?C"
    by (rule chains_remove [OF ch h])
  then have "chains te ee used' nxt' prv' ?C"
    by (rule chains_cong) (use used' nxt' prv' nb in \<open>auto split: if_splits\<close>)
  moreover have "L - {n} = live_slots te ee used' key'"
    using L used' key' by (auto simp: live_slots_def)
  moreover have "in_chain te ?C (dst_slot te (key' k)) k \<and> \<not> dead_proto (key' k)" if k: "k \<in> L - {n}" for k
  proof -
    have "key' k = key k" using k live_used [OF rp, of k] key' by auto
    moreover have "in_chain te C (dst_slot te (key k)) k \<and> \<not> dead_proto (key k)"
      using rp k by (auto simp: rule_part0_def)
    ultimately show ?thesis using k by (auto simp: in_chain_def)
  qed
  ultimately have "rule_part0 te ee used' nxt' prv' key' (L - {n}) ?C" by (simp add: rule_part0_def)
  then show ?thesis by blast
qed

lemma rule_part_sweep:
  assumes rp: "rule_part0 te ee used nxt prv key L C"
    and used': "\<And>k. k < te + ee \<Longrightarrow> used' k = (used k \<and> \<not> (k < te \<and> dead_proto (key k) \<and> nxt k = 0))"
      "\<not> used' te"
    and nxt': "\<And>k. k < te + ee \<Longrightarrow> nxt' k = nxt k"
    and prv': "\<And>k. te < k \<Longrightarrow> k < te + ee \<Longrightarrow> prv' k = prv k"
    and key': "\<And>k. k < te + ee \<Longrightarrow> \<not> (k < te \<and> dead_proto (key k) \<and> nxt k = 0) \<Longrightarrow> key' k = key k"
  shows "rule_part te ee used' nxt' prv' key' L C"
proof -
  let ?S = "{k. k < te \<and> dead_proto (key k) \<and> nxt k = 0}"
  have ch: "chains te ee used nxt prv C" and L: "L = live_slots te ee used key"
    using rp by (auto simp: rule_part0_def)
  have "chains te ee (\<lambda>k. used k \<and> k \<notin> ?S) nxt prv C"
    by (rule chains_free_base [OF ch]) auto
  then have "chains te ee used' nxt' prv' C"
    by (rule chains_cong) (use used' nxt' prv' in auto)
  moreover have L': "L = live_slots te ee used' key'"
  proof (rule set_eqI)
    fix k show "k \<in> L \<longleftrightarrow> k \<in> live_slots te ee used' key'"
    proof (cases "k \<in> ?S")
      case True
      with L used'(1) [of k] show ?thesis by (auto simp: live_slots_def)
    next
      case False
      with L used'(1) [of k] key' [of k] show ?thesis by (auto simp: live_slots_def)
    qed
  qed
  moreover have "in_chain te C (dst_slot te (key' k)) k \<and> \<not> dead_proto (key' k)" if k: "k \<in> L" for k
  proof -
    have "k \<notin> ?S" using k L by (auto simp: live_slots_def)
    then have "key' k = key k" using live_used [OF rp k] key' [of k] by blast
    then show ?thesis using rp k by (auto simp: rule_part0_def)
  qed
  moreover have "nxt' k \<noteq> 0" if k: "k < te" "used' k" "dead_proto (key' k)" for k
    using k used'(1) [of k] nxt' [of k] key' [of k] by auto
  ultimately show ?thesis by (simp add: rule_part_def)
qed

section \<open>Giving up an index entry\<close>

lemma indx_part_del_only:
  assumes ip: "indx_part te ee ent inxt iprv idx key L D" and n: "n \<in> L"
    and i: "i = idx n" "i < te" "inxt i = 0"
    and ent': "\<And>k. k < te + ee \<Longrightarrow> ent' k = (ent(i := 0)) k" "ent' te = 0"
    and inxt': "\<And>k. k < te + ee \<Longrightarrow> inxt' k = inxt k"
    and iprv': "\<And>k. te < k \<Longrightarrow> k < te + ee \<Longrightarrow> iprv' k = iprv k"
    and idx': "\<And>k. k \<in> L \<Longrightarrow> k \<noteq> n \<Longrightarrow> idx' k = idx k \<and> key' k = key k"
  shows "indx_part te ee ent' inxt' iprv' idx' key' (L - {n}) D"
proof -
  have ch: "chains te ee (\<lambda>i. ent i \<noteq> 0) inxt iprv D"
    and bij: "\<And>k. k \<in> L \<Longrightarrow> k \<noteq> 0 \<and> idx k < te + ee \<and> ent (idx k) = k \<and> in_chain te D (src_slot te (key k)) (idx k)"
    and ents: "\<And>j. j < te + ee \<Longrightarrow> ent j \<noteq> 0 \<Longrightarrow> ent j \<in> L \<and> idx (ent j) = j"
    using ip by (auto simp: indx_part_def)
  have "chains te ee (\<lambda>k. ent k \<noteq> 0 \<and> k \<notin> {i}) inxt iprv D"
    by (rule chains_free_base [OF ch]) (use i in auto)
  then have "chains te ee (\<lambda>k. ent' k \<noteq> 0) inxt' iprv' D"
    by (rule chains_cong) (use ent' inxt' iprv' in auto)
  moreover have "k \<noteq> 0 \<and> idx' k < te + ee \<and> ent' (idx' k) = k \<and> in_chain te D (src_slot te (key' k)) (idx' k)"
    if k: "k \<in> L - {n}" for k
  proof -
    have "idx k \<noteq> i" using bij [of k] bij [OF n] i(1) k by auto
    then show ?thesis using bij [of k] idx' [of k] ent'(1) [of "idx k"] k by auto
  qed
  moreover have "ent' j \<in> L - {n} \<and> idx' (ent' j) = j" if j: "j < te + ee" "ent' j \<noteq> 0" for j
  proof -
    have ji: "j \<noteq> i" and e: "ent' j = ent j" using ent'(1) [OF j(1)] j(2) by (auto split: if_splits)
    then have l: "ent j \<in> L" "idx (ent j) = j" using ents [of j] j by auto
    then have "ent j \<noteq> n" using ji i(1) by auto
    then show ?thesis using l e idx' [of "ent j"] by auto
  qed
  ultimately show ?thesis unfolding indx_part_def by blast
qed

text \<open>The entry of an expansion slot is unlinked.\<close>

lemma indx_part_del_expn:
  assumes ip: "indx_part te ee ent inxt iprv idx key L D" and n: "n \<in> L"
    and i: "i = idx n" "te \<le> i"
    and ent': "\<And>k. k < te + ee \<Longrightarrow> ent' k = (ent(i := 0)) k" "ent' te = 0"
    and inxt': "\<And>k. k < te + ee \<Longrightarrow> inxt' k = (inxt(iprv i := inxt i, i := 0)) k"
    and iprv': "\<And>k. te < k \<Longrightarrow> k < te + ee \<Longrightarrow> k \<noteq> i \<Longrightarrow>
                  iprv' k = (if k = inxt i then iprv i else iprv k)"
    and idx': "\<And>k. k \<in> L \<Longrightarrow> k \<noteq> n \<Longrightarrow> idx' k = idx k \<and> key' k = key k"
  shows "\<exists>D'. indx_part te ee ent' inxt' iprv' idx' key' (L - {n}) D'"
proof -
  have ch: "chains te ee (\<lambda>i. ent i \<noteq> 0) inxt iprv D"
    and bij: "\<And>k. k \<in> L \<Longrightarrow> k \<noteq> 0 \<and> idx k < te + ee \<and> ent (idx k) = k \<and> in_chain te D (src_slot te (key k)) (idx k)"
    and ents: "\<And>j. j < te + ee \<Longrightarrow> ent j \<noteq> 0 \<Longrightarrow> ent j \<in> L \<and> idx (ent j) = j"
    using ip by (auto simp: indx_part_def)
  have ib: "te < i" "i < te + ee" "ent i = n" "n \<noteq> 0"
    using bij [OF n] i chains_unused [OF ch] by (auto simp: order_le_less)
  obtain h where h: "h < te" "i \<in> set (D h)" using chains_cover [OF ch ib(1,2)] ib(3,4) by blast
  let ?D = "D(h := remove1 i (D h))"
  have "chains te ee ((\<lambda>k. ent k \<noteq> 0)(i := False)) (inxt(iprv i := inxt i, i := 0))
      (if inxt i = 0 then iprv else iprv(inxt i := iprv i)) ?D"
    by (rule chains_remove [OF ch h])
  then have "chains te ee (\<lambda>k. ent' k \<noteq> 0) inxt' iprv' ?D"
    by (rule chains_cong) (use ent' inxt' iprv' ib in \<open>auto split: if_splits\<close>)
  moreover have "k \<noteq> 0 \<and> idx' k < te + ee \<and> ent' (idx' k) = k \<and> in_chain te ?D (src_slot te (key' k)) (idx' k)"
    if k: "k \<in> L - {n}" for k
  proof -
    have ne: "idx k \<noteq> i" using bij [of k] bij [OF n] i(1) k by auto
    then have "in_chain te ?D (src_slot te (key k)) (idx k)"
      using bij [of k] k by (auto simp: in_chain_def)
    with ne show ?thesis using bij [of k] idx' [of k] ent'(1) [of "idx k"] k by auto
  qed
  moreover have "ent' j \<in> L - {n} \<and> idx' (ent' j) = j" if j: "j < te + ee" "ent' j \<noteq> 0" for j
  proof -
    have ji: "j \<noteq> i" and e: "ent' j = ent j" using ent'(1) [OF j(1)] j(2) by (auto split: if_splits)
    then have l: "ent j \<in> L" "idx (ent j) = j" using ents [of j] j by auto
    then have "ent j \<noteq> n" using ji i(1) by auto
    then show ?thesis using l e idx' [of "ent j"] by auto
  qed
  ultimately have "indx_part te ee ent' inxt' iprv' idx' key' (L - {n}) ?D"
    unfolding indx_part_def by blast
  then show ?thesis by blast
qed

text \<open>
  The entry of a base slot with a continuation is replaced by the next of its chain, whose
  slot \<open>j\<close> is given up.
\<close>

lemma indx_part_del_head:
  assumes ip: "indx_part te ee ent inxt iprv idx key L D" and n: "n \<in> L"
    and i: "i = idx n" "i < te" "inxt i = j" "j \<noteq> 0"
    and ent': "\<And>k. k < te + ee \<Longrightarrow> ent' k = (ent(i := ent j, j := 0)) k" "ent' te = 0"
    and inxt': "\<And>k. k < te + ee \<Longrightarrow> inxt' k = (inxt(i := inxt j, j := 0)) k"
    and iprv': "\<And>k. te < k \<Longrightarrow> k < te + ee \<Longrightarrow> k \<noteq> j \<Longrightarrow>
                  iprv' k = (if k = inxt j then i else iprv k)"
    and idx': "\<And>k. k \<in> L \<Longrightarrow> k \<noteq> n \<Longrightarrow> idx' k = (if k = ent j then i else idx k) \<and> key' k = key k"
  shows "\<exists>D'. indx_part te ee ent' inxt' iprv' idx' key' (L - {n}) D'"
proof -
  have ch: "chains te ee (\<lambda>i. ent i \<noteq> 0) inxt iprv D"
    and bij: "\<And>k. k \<in> L \<Longrightarrow> k \<noteq> 0 \<and> idx k < te + ee \<and> ent (idx k) = k \<and> in_chain te D (src_slot te (key k)) (idx k)"
    and ents: "\<And>j. j < te + ee \<Longrightarrow> ent j \<noteq> 0 \<Longrightarrow> ent j \<in> L \<and> idx (ent j) = j"
    using ip by (auto simp: indx_part_def)
  obtain bs where D: "D i = j # bs"
    using chains_path [OF ch i(2)] i by (cases "D i") auto
  then have jm: "j \<in> set (D i)" by simp
  then have jb: "te < j" "j < te + ee" "ent j \<noteq> 0" using chains_mem [OF ch i(2)] by auto
  have pj: "iprv j = i" using chains_backs [OF ch i(2)] D by simp
  have ei: "ent i = n" "n \<noteq> 0" using bij [OF n] i by auto
  have ej: "ent j \<in> L" "idx (ent j) = j" "ent j \<noteq> n" using ents [OF jb(2,3)] i jb by auto
  let ?D = "D(i := remove1 j (D i))"
  have "chains te ee ((\<lambda>k. ent k \<noteq> 0)(j := False)) (inxt(iprv j := inxt j, j := 0))
      (if inxt j = 0 then iprv else iprv(inxt j := iprv j)) ?D"
    by (rule chains_remove [OF ch i(2) jm])
  then have "chains te ee (\<lambda>k. ent' k \<noteq> 0) inxt' iprv' ?D"
    by (rule chains_cong) (use ent' inxt' iprv' jb pj ei in \<open>auto split: if_splits\<close>)
  moreover have "k \<noteq> 0 \<and> idx' k < te + ee \<and> ent' (idx' k) = k \<and> in_chain te ?D (src_slot te (key' k)) (idx' k)"
    if k: "k \<in> L - {n}" for k
  proof (cases "k = ent j")
    case True
    have "in_chain te D (src_slot te (key k)) j" using bij [OF ej(1)] ej(2) True by simp
    then have s: "src_slot te (key k) < te" "j \<in> set (D (src_slot te (key k)))"
      using jb by (auto simp: in_chain_def)
    then have "src_slot te (key k) = i" using chains_disjoint [OF ch i(2) s(1)] jm by auto
    then show ?thesis using True ej idx' [of k] k i(2) ent'(1) [of i] jb by (auto simp: in_chain_def)
  next
    case False
    have "idx k \<noteq> i" "idx k \<noteq> j" using bij [of k] ei ej(2) False k by auto
    moreover from this have "in_chain te ?D (src_slot te (key k)) (idx k)"
      using bij [of k] k by (auto simp: in_chain_def)
    ultimately show ?thesis using bij [of k] idx' [of k] ent'(1) [of "idx k"] k False by auto
  qed
  moreover have "ent' k \<in> L - {n} \<and> idx' (ent' k) = k" if k: "k < te + ee" "ent' k \<noteq> 0" for k
  proof (cases "k = i")
    case True
    then show ?thesis using ent'(1) [OF k(1)] ej idx' [OF ej(1,3)] jb i(2) by auto
  next
    case False
    then have e: "k \<noteq> j" "ent' k = ent k" using ent'(1) [OF k(1)] k(2) by (auto split: if_splits)
    then have l: "ent k \<in> L" "idx (ent k) = k" using ents [of k] k by auto
    then have "ent k \<noteq> n" "ent k \<noteq> ent j" using False e i(1) ej(2) by auto
    then show ?thesis using l e idx' [of "ent k"] by auto
  qed
  ultimately have "indx_part te ee ent' inxt' iprv' idx' key' (L - {n}) ?D"
    unfolding indx_part_def by blast
  then show ?thesis by blast
qed

section \<open>Handles\<close>

definition id_of :: "nat \<Rightarrow> nat \<Rightarrow> nat" where
  "id_of te n = (if te \<le> n then 2 * (n - te) + 1 else 2 * n)"

lemma slot_of_id: "slot_of te (id_of te n) = n" "odd (id_of te n) \<longleftrightarrow> te \<le> n"
  by (auto simp: slot_of_def id_of_def)

lemma hdl_partD:
  assumes "hdl_part te ee ids L"
  shows hdl_len: "length ids = te + ee"
    and hdl_cell: "k < te + ee \<Longrightarrow> ids ! k \<noteq> 0 \<Longrightarrow>
      k + 1 < te + ee \<and> slot_of te (ids ! k) \<in> L \<and> (odd (ids ! k) \<longleftrightarrow> te \<le> slot_of te (ids ! k))"
    and hdl_inj: "k < te + ee \<Longrightarrow> l < te + ee \<Longrightarrow> ids ! k \<noteq> 0 \<Longrightarrow> ids ! l \<noteq> 0 \<Longrightarrow>
      slot_of te (ids ! k) = slot_of te (ids ! l) \<Longrightarrow> k = l"
    and hdl_onto: "n \<in> L \<Longrightarrow> \<exists>k<te + ee. ids ! k \<noteq> 0 \<and> slot_of te (ids ! k) = n"
  using assms unfolding hdl_part_def by blast+

text \<open>More slots than handles: a free cell is found, and not at the end of the array.\<close>

lemma hdl_free_cell:
  assumes hp: "hdl_part te ee ids L" and L: "insert n L \<subseteq> {1..<te + ee} - {te}" "n \<notin> L" and sz: "0 < te" "0 < ee"
  obtains k where "k + 1 < te + ee" "ids ! k = 0" "\<And>l. l < k \<Longrightarrow> ids ! l \<noteq> 0"
proof -
  have fin: "finite L" using L(1) finite_subset by auto
  have "card (insert n L) \<le> card ({1..<te + ee} - {te})" using L(1) by (intro card_mono) auto
  then have cL: "card L + 1 \<le> te + ee - 2" using L(2) fin sz by simp
  have small: "k \<le> card L" if k: "k \<le> te + ee" "\<And>l. l < k \<Longrightarrow> ids ! l \<noteq> 0" for k
  proof -
    have inj: "inj_on (\<lambda>l. slot_of te (ids ! l)) {..<k}"
    proof (rule inj_onI)
      fix l j assume lj: "l \<in> {..<k}" "j \<in> {..<k}" and eq: "slot_of te (ids ! l) = slot_of te (ids ! j)"
      then have "l < te + ee" "j < te + ee" "ids ! l \<noteq> 0" "ids ! j \<noteq> 0" using k by auto
      then show "l = j" using hdl_inj [OF hp] eq by blast
    qed
    have "(\<lambda>l. slot_of te (ids ! l)) ` {..<k} \<subseteq> L"
    proof
      fix x assume "x \<in> (\<lambda>l. slot_of te (ids ! l)) ` {..<k}"
      then obtain l where l: "l < k" "x = slot_of te (ids ! l)" by auto
      then have "l < te + ee" "ids ! l \<noteq> 0" using k by auto
      then show "x \<in> L" using hdl_cell [OF hp] l(2) by blast
    qed
    then have "card ((\<lambda>l. slot_of te (ids ! l)) ` {..<k}) \<le> card L" by (rule card_mono [OF fin])
    then show ?thesis by (simp add: card_image [OF inj])
  qed
  define k where "k = (LEAST k. ids ! k = 0 \<or> te + ee \<le> k)"
  have "ids ! k = 0 \<or> te + ee \<le> k" unfolding k_def by (rule LeastI [of _ "te + ee"]) simp
  moreover have below: "ids ! l \<noteq> 0 \<and> l < te + ee" if "l < k" for l
    using not_less_Least [of l "\<lambda>k. ids ! k = 0 \<or> te + ee \<le> k"] that by (auto simp: k_def not_le)
  moreover have kte: "k \<le> te + ee" unfolding k_def by (rule Least_le) simp
  moreover have "k \<le> card L" by (rule small [OF kte]) (use below in blast)
  ultimately show ?thesis using cL sz by (intro that [of k]) auto
qed

lemma hdl_part_add:
  assumes hp: "hdl_part te ee ids L" and k: "k + 1 < te + ee" "ids ! k = 0"
    and n: "n \<notin> L" "n \<noteq> 0"
  shows "hdl_part te ee (ids[k := id_of te n]) (insert n L)"
proof -
  have id: "id_of te n \<noteq> 0" using n(2) by (auto simp: id_of_def)
  have k': "k < te + ee" "k < length ids" using k hdl_len [OF hp] by auto
  have at: "ids[k := id_of te n] ! l = (if l = k then id_of te n else ids ! l)" for l
    using k' by auto
  show ?thesis
    unfolding hdl_part_def at
  proof (intro conjI allI impI ballI)
    show "length (ids[k := id_of te n]) = te + ee" using hdl_len [OF hp] by simp
  next
    fix l assume l: "l < te + ee" "(if l = k then id_of te n else ids ! l) \<noteq> 0"
    then show "l + 1 < te + ee" "slot_of te (if l = k then id_of te n else ids ! l) \<in> insert n L"
      "odd (if l = k then id_of te n else ids ! l) = (te \<le> slot_of te (if l = k then id_of te n else ids ! l))"
      using hdl_cell [OF hp, of l] k slot_of_id by (auto split: if_splits)
  next
    fix l j
    assume "l < te + ee" "j < te + ee" "(if l = k then id_of te n else ids ! l) \<noteq> 0"
      "(if j = k then id_of te n else ids ! j) \<noteq> 0"
      "slot_of te (if l = k then id_of te n else ids ! l) = slot_of te (if j = k then id_of te n else ids ! j)"
    then show "l = j"
      using hdl_inj [OF hp, of l j] hdl_cell [OF hp, of l] hdl_cell [OF hp, of j] n(1) slot_of_id(1) [of te n]
      by (cases "l = k"; cases "j = k") auto
  next
    fix j assume j: "j \<in> insert n L"
    show "\<exists>l<te + ee. (if l = k then id_of te n else ids ! l) \<noteq> 0 \<and>
        slot_of te (if l = k then id_of te n else ids ! l) = j"
    proof (cases "j = n")
      case True
      then show ?thesis using k' id slot_of_id(1) [of te n] by (intro exI [of _ k]) simp
    next
      case False
      with j hdl_onto [OF hp, of j] obtain l where l: "l < te + ee" "ids ! l \<noteq> 0" "slot_of te (ids ! l) = j"
        by auto
      then show ?thesis using k(2) by (intro exI [of _ l]) auto
    qed
  qed
qed

lemma hdl_part_del:
  assumes hp: "hdl_part te ee ids L" and k: "k < te + ee" "ids ! k \<noteq> 0"
  shows "hdl_part te ee (ids[k := 0]) (L - {slot_of te (ids ! k)})"
proof -
  have at: "ids[k := 0] ! l = (if l = k then 0 else ids ! l)" for l
    using k hdl_len [OF hp] by (cases "l = k") auto
  show ?thesis
    unfolding hdl_part_def at
  proof (intro conjI allI impI ballI)
    show "length (ids[k := 0]) = te + ee" using hdl_len [OF hp] by simp
  next
    fix l assume l: "l < te + ee" "(if l = k then 0 else ids ! l) \<noteq> 0"
    then show "l + 1 < te + ee" "slot_of te (if l = k then 0 else ids ! l) \<in> L - {slot_of te (ids ! k)}"
      "odd (if l = k then 0 else ids ! l) = (te \<le> slot_of te (if l = k then 0 else ids ! l))"
      using hdl_cell [OF hp, of l] hdl_inj [OF hp l(1) k(1) _ k(2)] by (auto split: if_splits)
  next
    fix l j
    assume "l < te + ee" "j < te + ee" "(if l = k then 0 else ids ! l) \<noteq> 0"
      "(if j = k then 0 else ids ! j) \<noteq> 0"
      "slot_of te (if l = k then 0 else ids ! l) = slot_of te (if j = k then 0 else ids ! j)"
    then show "l = j" using hdl_inj [OF hp, of l j] by (auto split: if_splits)
  next
    fix j assume j: "j \<in> L - {slot_of te (ids ! k)}"
    then obtain l where "l < te + ee" "ids ! l \<noteq> 0" "slot_of te (ids ! l) = j"
      using hdl_onto [OF hp, of j] by blast
    with j show "\<exists>l<te + ee. (if l = k then 0 else ids ! l) \<noteq> 0 \<and> slot_of te (if l = k then 0 else ids ! l) = j"
      by (intro exI [of _ l]) auto
  qed
qed

end
