(* ===== verification/Nat_View.thy ===== *)
theory Nat_View
  imports Nat_Inv
begin

text \<open>
  The concrete table seen through slot numbers: \<open>rule_at\<close> and \<open>indx_at\<close> read a slot of the
  base or expansion array, \<open>upd_rule\<close> and \<open>upd_indx\<close> write one, and every store of the
  driver, direct or by DMA, is one of these. \<open>tbl_inv\<close> is the invariant of a table cache.
  The two interpretations say that the rule arrays and the index arrays are chained tables.
\<close>

section \<open>Slots\<close>

definition rule_at :: "nat_mem \<Rightarrow> nat \<Rightarrow> ipa_nat_rule" where
  "rule_at m n = (if n < length (ipv4_rules m) then ipv4_rules m ! n
                  else ipv4_expn_rules m ! (n - length (ipv4_rules m)))"

definition indx_at :: "nat_mem \<Rightarrow> nat \<Rightarrow> u32" where
  "indx_at m n = (if n < length (index_table m) then index_table m ! n
                  else index_table_expn m ! (n - length (index_table m)))"

definition upd_rule :: "nat \<Rightarrow> (ipa_nat_rule \<Rightarrow> ipa_nat_rule) \<Rightarrow> nat_mem \<Rightarrow> nat_mem" where
  "upd_rule n f m =
     (if n < length (ipv4_rules m) then m\<lparr>ipv4_rules := (ipv4_rules m)[n := f (rule_at m n)]\<rparr>
      else m\<lparr>ipv4_expn_rules := (ipv4_expn_rules m)[n - length (ipv4_rules m) := f (rule_at m n)]\<rparr>)"

definition upd_indx :: "nat \<Rightarrow> (u32 \<Rightarrow> u32) \<Rightarrow> nat_mem \<Rightarrow> nat_mem" where
  "upd_indx n f m =
     (if n < length (index_table m) then m\<lparr>index_table := (index_table m)[n := f (indx_at m n)]\<rparr>
      else m\<lparr>index_table_expn := (index_table_expn m)[n - length (index_table m) := f (indx_at m n)]\<rparr>)"

definition mem_shape :: "nat \<Rightarrow> nat \<Rightarrow> nat_mem \<Rightarrow> bool" where
  "mem_shape te ee m \<longleftrightarrow> length (ipv4_rules m) = te \<and> length (ipv4_expn_rules m) = ee \<and>
     length (index_table m) = te \<and> length (index_table_expn m) = ee"

lemma mem_shapeD [c_mem]:
  "mem_shape te ee m \<Longrightarrow> length (ipv4_rules m) = te" "mem_shape te ee m \<Longrightarrow> length (ipv4_expn_rules m) = ee"
  "mem_shape te ee m \<Longrightarrow> length (index_table m) = te" "mem_shape te ee m \<Longrightarrow> length (index_table_expn m) = ee"
  by (simp_all add: mem_shape_def)

lemma mem_shape_upd [simp]:
  "mem_shape te ee (upd_rule n f m) = mem_shape te ee m"
  "mem_shape te ee (upd_indx n g m) = mem_shape te ee m"
  by (simp_all add: mem_shape_def upd_rule_def upd_indx_def)

lemma rule_at_upd_rule:
  "mem_shape te ee m \<Longrightarrow> n < te + ee \<Longrightarrow> rule_at (upd_rule n f m) = (rule_at m)(n := f (rule_at m n))"
  by (rule ext) (auto simp: rule_at_def upd_rule_def mem_shape_def)

lemma indx_at_upd_indx:
  "mem_shape te ee m \<Longrightarrow> n < te + ee \<Longrightarrow> indx_at (upd_indx n f m) = (indx_at m)(n := f (indx_at m n))"
  by (rule ext) (auto simp: indx_at_def upd_indx_def mem_shape_def)

lemma at_upd_other [simp]:
  "indx_at (upd_rule n f m) = indx_at m" "rule_at (upd_indx n g m) = rule_at m"
  by (simp_all add: fun_eq_iff indx_at_def upd_rule_def rule_at_def upd_indx_def)

text \<open>The reads and writes of the code in terms of slots.\<close>

lemma rd_rule_at [c_mem]:
  assumes "mem_shape te ee m"
  shows "n < te \<Longrightarrow> rd (ipv4_rules m) n = Some (rule_at m n)"
    "n < te \<Longrightarrow> rd (index_table m) n = Some (indx_at m n)"
    "j < ee \<Longrightarrow> rd (ipv4_expn_rules m) j = Some (rule_at m (te + j))"
    "j < ee \<Longrightarrow> rd (index_table_expn m) j = Some (indx_at m (te + j))"
  using assms by (auto simp: rule_at_def indx_at_def mem_shape_def)

lemma wr_rule_at [c_mem]:
  assumes "mem_shape te ee m"
  shows "n < te \<Longrightarrow> map_option (\<lambda>r. m\<lparr>ipv4_rules := r\<rparr>) (wr (ipv4_rules m) n v) = Some (upd_rule n (\<lambda>_. v) m)"
    "n < te \<Longrightarrow> map_option (\<lambda>w. m\<lparr>index_table := w\<rparr>) (wr (index_table m) n u) = Some (upd_indx n (\<lambda>_. u) m)"
    "j < ee \<Longrightarrow> map_option (\<lambda>r. m\<lparr>ipv4_expn_rules := r\<rparr>) (wr (ipv4_expn_rules m) j v) = Some (upd_rule (te + j) (\<lambda>_. v) m)"
    "j < ee \<Longrightarrow> map_option (\<lambda>w. m\<lparr>index_table_expn := w\<rparr>) (wr (index_table_expn m) j u) = Some (upd_indx (te + j) (\<lambda>_. u) m)"
  using assms by (auto simp: upd_rule_def upd_indx_def mem_shape_def)

lemma bind_Some_map: "(do { x \<leftarrow> e; Some (f x) }) = map_option f e"
  by (cases e) auto

lemma dma_write_rule:
  assumes "mem_shape te ee m" "off < 32" "dma_offset c = 32 * s + off"
  shows "dma_base_addr c = IPA_NAT_BASE_TBL \<Longrightarrow> s < te \<Longrightarrow>
      dma_write c m = upd_rule s (write16_rule off (dma_data c)) m"
    "dma_base_addr c = IPA_NAT_EXPN_TBL \<Longrightarrow> s < ee \<Longrightarrow>
      dma_write c m = upd_rule (te + s) (write16_rule off (dma_data c)) m"
proof -
  have "dma_offset c div 32 = s" "dma_offset c mod 32 = off" using assms(2,3) by simp_all
  then show "dma_base_addr c = IPA_NAT_BASE_TBL \<Longrightarrow> s < te \<Longrightarrow>
      dma_write c m = upd_rule s (write16_rule off (dma_data c)) m"
    "dma_base_addr c = IPA_NAT_EXPN_TBL \<Longrightarrow> s < ee \<Longrightarrow>
      dma_write c m = upd_rule (te + s) (write16_rule off (dma_data c)) m"
    using assms(1) by (simp_all add: dma_write_def upd_rule_def rule_at_def mem_shape_def)
qed

lemma dma_write_indx:
  assumes "mem_shape te ee m" "off < 4" "dma_offset c = 4 * s + off"
  shows "dma_base_addr c = IPA_NAT_INDX_TBL \<Longrightarrow> s < te \<Longrightarrow>
      dma_write c m = upd_indx s (write16_indx off (dma_data c)) m"
    "dma_base_addr c = IPA_NAT_INDEX_EXPN_TBL \<Longrightarrow> s < ee \<Longrightarrow>
      dma_write c m = upd_indx (te + s) (write16_indx off (dma_data c)) m"
proof -
  have "dma_offset c div 4 = s" "dma_offset c mod 4 = off" using assms(2,3) by simp_all
  then show "dma_base_addr c = IPA_NAT_INDX_TBL \<Longrightarrow> s < te \<Longrightarrow>
      dma_write c m = upd_indx s (write16_indx off (dma_data c)) m"
    "dma_base_addr c = IPA_NAT_INDEX_EXPN_TBL \<Longrightarrow> s < ee \<Longrightarrow>
      dma_write c m = upd_indx (te + s) (write16_indx off (dma_data c)) m"
    using assms(1) by (simp_all add: dma_write_def upd_indx_def indx_at_def mem_shape_def)
qed

lemma dma_in_range_rule:
  assumes "mem_shape te ee m" "off < 32" "even off" "dma_offset c = 32 * s + off"
  shows "dma_base_addr c = IPA_NAT_BASE_TBL \<Longrightarrow> s < te \<Longrightarrow> dma_in_range m c"
    "dma_base_addr c = IPA_NAT_EXPN_TBL \<Longrightarrow> s < ee \<Longrightarrow> dma_in_range m c"
  using assms by (simp_all add: dma_in_range_def mem_shape_def)

lemma dma_in_range_indx:
  assumes "mem_shape te ee m" "off < 4" "even off" "dma_offset c = 4 * s + off"
  shows "dma_base_addr c = IPA_NAT_INDX_TBL \<Longrightarrow> s < te \<Longrightarrow> dma_in_range m c"
    "dma_base_addr c = IPA_NAT_INDEX_EXPN_TBL \<Longrightarrow> s < ee \<Longrightarrow> dma_in_range m c"
  using assms by (simp_all add: dma_in_range_def mem_shape_def)

section \<open>The client's rule in a slot\<close>

definition clnt_of :: "ipa_nat_rule \<Rightarrow> ipa_nat_ipv4_rule" where
  "clnt_of r = \<lparr>clnt_target_ip = hw_target_ip r, clnt_private_ip = hw_private_ip r,
     clnt_target_port = hw_target_port r, clnt_private_port = hw_private_port r,
     clnt_public_port = Read16BitFieldValue (hw_nxt_indx_pub_port r) PUBLIC_PORT_FILED,
     clnt_protocol = rule_proto r\<rparr>"

lemma clnt_of_write [simp]:
  "clnt_of (write16_rule 8 v r) = clnt_of r" "clnt_of (write16_rule 18 v r) = clnt_of r"
  "clnt_of (r\<lparr>hw_sw_spec_params := w\<rparr>) = clnt_of r"
  "clnt_protocol (clnt_of r) = rule_proto r"
  by (simp_all add: clnt_of_def rule_proto_def) (simp_all add: write16_rule_def)

lemma clnt_of_fill [simp]:
  "clnt_of (nat_rule_of_sw (fill_sw_rule c ip s\<lparr>sw_prev_index := p\<rparr>)) = c"
  "clnt_of (nat_rule_of_sw (fill_sw_rule c ip s\<lparr>sw_prev_index := p, sw_indx_tbl_entry := i\<rparr>)) = c"
  by (simp_all add: clnt_of_def) (simp_all add: fill_sw_rule_def Let_def nat_rule_of_sw_def)

lemma fill_sw_fields [simp]:
  "sw_next_index (fill_sw_rule c ip s) = 0" "sw_enable (fill_sw_rule c ip s) = 0"
  "sw_protocol (fill_sw_rule c ip s) = clnt_protocol c"
  by (simp_all add: fill_sw_rule_def Let_def)

section \<open>The chained tables\<close>

abbreviation "rule_used m n \<equiv> rule_enabled (rule_at m n)"
abbreviation "rule_nxt m n \<equiv> rule_next (rule_at m n)"
abbreviation "rule_prv m n \<equiv> rule_prev (rule_at m n)"
abbreviation "rule_key m n \<equiv> clnt_of (rule_at m n)"
abbreviation "rule_idx m n \<equiv> rule_indx (rule_at m n)"
abbreviation "indx_ent m n \<equiv> indx_tbl_entry_of (indx_at m n)"
abbreviation "indx_nxt m n \<equiv> indx_next (indx_at m n)"

definition indx_prv :: "nat \<Rightarrow> nat list \<Rightarrow> nat \<Rightarrow> nat" where
  "indx_prv te meta n = (if n < te then 0 else meta ! (n - te))"

interpretation rt: chained_table
  "\<lambda>m. length (ipv4_rules m)" "\<lambda>m. length (ipv4_expn_rules m)"
  rule_used rule_nxt rule_prv
  "\<lambda>m. expn_rule_next (ipv4_expn_rules m)" "\<lambda>m. expn_rule_free (ipv4_expn_rules m)"
  "\<lambda>m. length (ipv4_rules m) + length (ipv4_expn_rules m) \<le> 65536"
  by unfold_locales
    (simp_all add: expn_rule_next_def expn_rule_free_def rule_at_def rule_next_def rule_enabled_def)

interpretation it: chained_table
  "\<lambda>x. length (index_table (fst x))" "\<lambda>x. length (index_table_expn (fst x))"
  "\<lambda>x n. indx_ent (fst x) n \<noteq> 0" "\<lambda>x. indx_nxt (fst x)"
  "\<lambda>x. indx_prv (length (index_table (fst x))) (snd x)"
  "\<lambda>x. indx_expn_next (index_table_expn (fst x))" "\<lambda>x. indx_expn_free (index_table_expn (fst x))"
  "\<lambda>x. length (index_table (fst x)) + length (index_table_expn (fst x)) \<le> 65536"
proof (unfold_locales, goal_cases)
  case (3 x j)
  then show ?case
    by (simp add: indx_expn_free_def indx_at_def indx_tbl_entry_of_def unat_eq_0)
qed (simp_all add: indx_expn_next_def indx_at_def indx_next_def)

section \<open>The invariant of a table\<close>

abbreviation "live te ee m \<equiv> live_slots te ee (rule_used m) (rule_key m)"

definition tbl_parts ::
  "ipa_nat_ip4_table_cache \<Rightarrow> nat_mem \<Rightarrow> nat list \<Rightarrow> nat list \<Rightarrow>
   (nat \<Rightarrow> nat list) \<Rightarrow> (nat \<Rightarrow> nat list) \<Rightarrow> bool" where
  "tbl_parts t m meta ids C D \<longleftrightarrow>
     (let te = table_entries t; ee = expn_table_entries t in
      valid t \<and> tbl_addr_offset t = 0 \<and> 2 \<le> te \<and> te \<le> 16384 \<and> 2 \<le> ee \<and> ee \<le> 16384 \<and>
      tbl_mem t = Some m \<and> index_expn_table_meta t = Some meta \<and> rule_id_array t = Some ids \<and>
      mem_shape te ee m \<and> length meta = ee \<and>
      rule_part te ee (rule_used m) (rule_nxt m) (rule_prv m) (rule_key m) (live te ee m) C \<and>
      indx_part te ee (indx_ent m) (indx_nxt m) (indx_prv te meta) (rule_idx m) (rule_key m) (live te ee m) D \<and>
      hdl_part te ee ids (live te ee m))"

definition tbl_inv :: "ipa_nat_ip4_table_cache \<Rightarrow> bool" where
  "tbl_inv t \<longleftrightarrow> (\<exists>m meta ids C D. tbl_parts t m meta ids C D)"

text \<open>What a table promises its client: a map from rule handles to the rules added.\<close>

definition rules_of :: "ipa_nat_ip4_table_cache \<Rightarrow> nat \<Rightarrow> ipa_nat_ipv4_rule option" where
  "rules_of t h =
     (case (tbl_mem t, rule_id_array t) of
        (Some m, Some ids) \<Rightarrow>
          if 0 < h \<and> h \<le> length ids \<and> ids ! (h - 1) \<noteq> 0
          then Some (rule_key m (slot_of (table_entries t) (ids ! (h - 1)))) else None
      | _ \<Rightarrow> None)"

end
