(* ===== verification/Nat_Add_Correct.thy ===== *)
theory Nat_Add_Correct
  imports Nat_View
begin

text \<open>
  Correctness of adding a rule: the slots that the two generation functions pick, the table
  the copies and DMA writes leave, the handle, and the invariant and abstract rule map after
  the whole operation.
\<close>

declare Read16BitFieldValue.simps [simp del] Read8BitFieldValue.simps [simp del]

lemma read_folds:
  "(Read16BitFieldValue (hw_ip_cksm_enbl r) ENABLE_FIELD = 0) = (\<not> rule_enabled r)"
  "unat (Read16BitFieldValue (hw_nxt_indx_pub_port r) NEXT_INDEX_FIELD) = rule_next r"
  "(Read16BitFieldValue w INDX_TBL_TBL_ENTRY_FIELD = 0) = (indx_tbl_entry_of w = 0)"
  "unat (Read16BitFieldValue w INDX_TBL_TBL_ENTRY_FIELD) = indx_tbl_entry_of w"
  "unat (Read16BitFieldValue w INDX_TBL_NEXT_INDEX_FILED) = indx_next w"
  "unat (Read16BitFieldValue (hw_sw_spec_params r) SW_SPEC_PARAM_INDX_TBL_ENTRY_FIELD) = rule_indx r"
  "unat (Read16BitFieldValue (hw_sw_spec_params r) SW_SPEC_PARAM_PREV_INDEX_FIELD) = rule_prev r"
  by (simp_all add: rule_field_defs indx_field_defs unat_eq_0)

section \<open>Facts of the invariant\<close>

lemma tbl_partsD:
  assumes "tbl_parts t m meta ids C D"
  shows tp_sizes: "2 \<le> table_entries t" "table_entries t \<le> 16384"
      "2 \<le> expn_table_entries t" "expn_table_entries t \<le> 16384"
    and tp_state: "valid t" "tbl_addr_offset t = 0" "tbl_mem t = Some m"
      "index_expn_table_meta t = Some meta" "rule_id_array t = Some ids"
    and tp_shape: "mem_shape (table_entries t) (expn_table_entries t) m"
    and tp_meta: "length meta = expn_table_entries t"
    and tp_rules: "rule_part (table_entries t) (expn_table_entries t) (rule_used m) (rule_nxt m) (rule_prv m)
      (rule_key m) (live (table_entries t) (expn_table_entries t) m) C"
    and tp_indx: "indx_part (table_entries t) (expn_table_entries t) (indx_ent m) (indx_nxt m)
      (indx_prv (table_entries t) meta) (rule_idx m) (rule_key m)
      (live (table_entries t) (expn_table_entries t) m) D"
    and tp_hdl: "hdl_part (table_entries t) (expn_table_entries t) ids
      (live (table_entries t) (expn_table_entries t) m)"
  using assms by (simp_all add: tbl_parts_def Let_def)

lemma rule_part_chains: "rule_part te ee used nxt prv key L C \<Longrightarrow> chains te ee used nxt prv C"
  by (simp add: rule_part_def)

lemma indx_part_chains: "indx_part te ee ent inxt iprv idx key L D \<Longrightarrow> chains te ee (\<lambda>i. ent i \<noteq> 0) inxt iprv D"
  by (simp add: indx_part_def)

lemma tp_linked:
  assumes "tbl_parts t m meta ids C D"
  shows "rt.linked m C" "it.linked (m, meta) D"
  using tp_sizes [OF assms] tp_shape [OF assms] rule_part_chains [OF tp_rules [OF assms]]
    indx_part_chains [OF tp_indx [OF assms]]
  unfolding rt.linked_def it.linked_def by (simp_all add: mem_shape_def)

text \<open>No slot is left for a client's rule.\<close>

definition rule_slots_full :: "nat \<Rightarrow> nat \<Rightarrow> nat_mem \<Rightarrow> ipa_nat_ipv4_rule \<Rightarrow> bool" where
  "rule_slots_full te ee m c \<longleftrightarrow>
     rule_used m (dst_slot te c) \<and> (\<forall>n. te < n \<and> n < te + ee \<longrightarrow> rule_used m n)"

definition indx_slots_full :: "nat \<Rightarrow> nat \<Rightarrow> nat_mem \<Rightarrow> ipa_nat_ipv4_rule \<Rightarrow> bool" where
  "indx_slots_full te ee m c \<longleftrightarrow>
     indx_ent m (src_slot te c) \<noteq> 0 \<and> (\<forall>n. te < n \<and> n < te + ee \<longrightarrow> indx_ent m n \<noteq> 0)"

section \<open>The slots found\<close>

lemma last_chain: "as \<noteq> [] \<Longrightarrow> last (x # as) = last (y # as)"
  by simp

lemma expn_free_entry:
  assumes "mem_shape te ee m" "te + ee \<le> 65536"
  shows "(\<exists>j. ipa_nati_expn_tbl_free_entry (ipv4_expn_rules m) ee = Some j \<and> 0 < j \<and> j < ee \<and> \<not> rule_used m (te + j))
    \<or> ipa_nati_expn_tbl_free_entry (ipv4_expn_rules m) ee = Some 0 \<and> (\<forall>n. te < n \<and> n < te + ee \<longrightarrow> rule_used m n)"
proof -
  have sh: "length (ipv4_rules m) + length (ipv4_expn_rules m) \<le> 65536"
    and len: "length (ipv4_rules m) = te" "length (ipv4_expn_rules m) = ee"
    using assms by (simp_all add: mem_shape_def)
  from rt.free_slot_total [OF sh] obtain r
    where r: "scan_first (expn_rule_free (ipv4_expn_rules m)) ee 1 = Some r" unfolding len by blast
  show ?thesis
  proof (cases r)
    case (Some j)
    with r rt.free_slot_found [OF sh, of j] show ?thesis
      by (simp add: len ipa_nati_expn_tbl_free_entry_def)
  next
    case None
    have "rule_used m n" if "te < n" "n < te + ee" for n
      using rt.no_free_slot [OF sh, of "n - te"] r None that by (simp add: len)
    with None r show ?thesis by (simp add: ipa_nati_expn_tbl_free_entry_def)
  qed
qed

lemma indx_free_entry:
  assumes "mem_shape te ee m" "te + ee \<le> 65536"
  shows "(\<exists>j. ipa_nati_index_expn_get_free_entry (index_table_expn m) ee = Some j \<and> 0 < j \<and> j < ee \<and> indx_ent m (te + j) = 0)
    \<or> ipa_nati_index_expn_get_free_entry (index_table_expn m) ee = Some 0 \<and> (\<forall>n. te < n \<and> n < te + ee \<longrightarrow> indx_ent m n \<noteq> 0)"
proof -
  have sh: "length (index_table (fst (m, [] :: nat list))) + length (index_table_expn (fst (m, [] :: nat list))) \<le> 65536"
    using assms by (simp add: mem_shape_def)
  have len: "length (index_table m) = te" "length (index_table_expn m) = ee"
    using assms by (simp_all add: mem_shape_def)
  from it.free_slot_total [OF sh] obtain r
    where r: "scan_first (indx_expn_free (index_table_expn m)) ee 1 = Some r" unfolding fst_conv len by blast
  show ?thesis
  proof (cases r)
    case (Some j)
    with r it.free_slot_found [OF sh, of j] show ?thesis
      by (simp add: len ipa_nati_index_expn_get_free_entry_def)
  next
    case None
    have "indx_ent m n \<noteq> 0" if "te < n" "n < te + ee" for n
      using it.no_free_slot [OF sh, of "n - te"] r None that by (simp add: len)
    with None r show ?thesis by (simp add: ipa_nati_index_expn_get_free_entry_def)
  qed
qed

lemma generate_tbl_rule_spec:
  assumes tp: "tbl_parts t m meta ids C D"
  defines "te \<equiv> table_entries t" and "ee \<equiv> expn_table_entries t"
  shows "(\<exists>s. ipa_nati_generate_tbl_rule c sw t = Some (0, s)) \<and> rule_slots_full te ee m c \<or>
    (\<exists>n p. ipa_nati_generate_tbl_rule c sw t =
        Some (n, fill_sw_rule c (public_addr t) sw\<lparr>sw_prev_index := of_nat p\<rparr>) \<and>
      new_slot te ee (rule_used m) C (dst_slot te c) n p)"
proof -
  note sz = tp_sizes [OF tp, folded te_def ee_def] and sh = tp_shape [OF tp, folded te_def ee_def]
  have ch: "chains te ee (rule_used m) (rule_nxt m) (rule_prv m) C"
    using rule_part_chains [OF tp_rules [OF tp]] by (simp add: te_def ee_def)
  let ?h = "dst_slot te c"
  have h: "0 < ?h" "?h < te" using hash_slots [of te c] sz by simp_all
  have walk: "find_chain_end (expn_rule_next (ipv4_expn_rules m)) te 0 (rule_nxt m ?h)
      = Some (Some (last (0 # C ?h)))"
    using rt.walk_reaches_end [OF tp_linked(1) [OF tp], of ?h 0] h sh by (simp add: mem_shapeD)
  note simps = ipa_nati_generate_tbl_rule_def read_folds tp_state [OF tp] Let_def
    dst_slot_def [symmetric, unfolded One_nat_def] te_def [symmetric] ee_def [symmetric] rd_rule_at [OF sh]
  show ?thesis
  proof (cases "rule_used m ?h")
    case False
    then show ?thesis using h by (simp add: simps new_slot_def)
  next
    case True
    let ?p = "last (?h # C ?h)"
    let ?sw = "fill_sw_rule c (public_addr t) sw"
    let ?f = "ipa_nati_expn_tbl_free_entry (ipv4_expn_rules m) ee"
    have gen: "ipa_nati_generate_tbl_rule c sw t =
        (do { e \<leftarrow> ?f; if e = 0 then Some (0, ?sw\<lparr>sw_prev_index := of_nat ?p\<rparr>)
              else Some (trunc16 (e + te), ?sw\<lparr>sw_prev_index := of_nat ?p\<rparr>) })"
    proof (cases "rule_nxt m ?h = 0")
      case first: True
      then have "?p = ?h" using chains_Nil [OF ch h(2)] by simp
      with first True h show ?thesis by (simp add: simps del: last.simps cong: if_cong)
    next
      case False
      then have "last (0 # C ?h) = ?p" using chains_Nil [OF ch h(2)] by simp
      with False True h walk show ?thesis by (simp add: simps del: last.simps cong: if_cong)
    qed
    from expn_free_entry [OF sh] sz
    consider (full) "ipa_nati_expn_tbl_free_entry (ipv4_expn_rules m) ee = Some 0"
        "\<forall>n. te < n \<and> n < te + ee \<longrightarrow> rule_used m n"
      | (free) j where "ipa_nati_expn_tbl_free_entry (ipv4_expn_rules m) ee = Some j"
        "0 < j" "j < ee" "\<not> rule_used m (te + j)" by fastforce
    then show ?thesis
    proof cases
      case full
      with True gen show ?thesis by (simp add: rule_slots_full_def del: last.simps)
    next
      case free
      then have "ipa_nati_generate_tbl_rule c sw t =
          Some (te + j, fill_sw_rule c (public_addr t) sw\<lparr>sw_prev_index := of_nat ?p\<rparr>)"
        using gen sz by (simp add: add.commute del: last.simps)
      moreover have "new_slot te ee (rule_used m) C ?h (te + j) ?p"
        using free True h by (simp add: new_slot_def)
      ultimately show ?thesis by blast
    qed
  qed
qed

lemma generate_index_rule_spec:
  assumes tp: "tbl_parts t m meta ids C D"
  defines "te \<equiv> table_entries t" and "ee \<equiv> expn_table_entries t"
  shows "(\<exists>s. ipa_nati_generate_index_rule c sw t = Some (0, s)) \<and> indx_slots_full te ee m c \<or>
    (\<exists>i q. ipa_nati_generate_index_rule c sw t = Some (i, sw\<lparr>ix_prev_index := of_nat q\<rparr>) \<and>
      new_slot te ee (\<lambda>i. indx_ent m i \<noteq> 0) D (src_slot te c) i q)"
proof -
  note sz = tp_sizes [OF tp, folded te_def ee_def] and sh = tp_shape [OF tp, folded te_def ee_def]
  have ch: "chains te ee (\<lambda>i. indx_ent m i \<noteq> 0) (indx_nxt m) (indx_prv te meta) D"
    using indx_part_chains [OF tp_indx [OF tp]] by (simp add: te_def ee_def)
  let ?h = "src_slot te c"
  have h: "0 < ?h" "?h < te" using hash_slots [of te c] sz by simp_all
  have walk: "find_chain_end (indx_expn_next (index_table_expn m)) te 0 (indx_nxt m ?h)
      = Some (Some (last (0 # D ?h)))"
    using it.walk_reaches_end [OF tp_linked(2) [OF tp], of ?h 0] h sh by (simp add: mem_shapeD)
  note simps = ipa_nati_generate_index_rule_def read_folds tp_state [OF tp] Let_def
    src_slot_def [symmetric, unfolded One_nat_def] te_def [symmetric] ee_def [symmetric] rd_rule_at [OF sh]
  show ?thesis
  proof (cases "indx_ent m ?h = 0")
    case True
    have "ipa_nati_generate_index_rule c sw t = Some (?h, sw\<lparr>ix_prev_index := of_nat 0\<rparr>)"
      using True h by (simp add: simps)
    moreover have "new_slot te ee (\<lambda>i. indx_ent m i \<noteq> 0) D ?h ?h 0"
      using True h by (simp add: new_slot_def)
    ultimately show ?thesis by blast
  next
    case False
    let ?p = "last (?h # D ?h)"
    let ?f = "ipa_nati_index_expn_get_free_entry (index_table_expn m) ee"
    have gen: "ipa_nati_generate_index_rule c sw t =
        (do { e \<leftarrow> ?f; if e = 0 then Some (0, sw\<lparr>ix_prev_index := of_nat ?p\<rparr>)
              else if unat (of_nat ?p :: u16) = trunc16 (e + te) then Some (0, sw\<lparr>ix_prev_index := of_nat ?p\<rparr>)
              else Some (trunc16 (e + te), sw\<lparr>ix_prev_index := of_nat ?p\<rparr>) })"
    proof (cases "indx_nxt m ?h = 0")
      case first: True
      then have "?p = ?h" using chains_Nil [OF ch h(2)] by simp
      with first False h show ?thesis by (simp add: simps del: last.simps unat_of_nat16 cong: if_cong)
    next
      case next0: False
      then have "last (0 # D ?h) = ?p" using chains_Nil [OF ch h(2)] by simp
      with False next0 h walk show ?thesis by (simp add: simps del: last.simps unat_of_nat16 cong: if_cong)
    qed
    from indx_free_entry [OF sh] sz
    consider (full) "?f = Some 0" "\<forall>n. te < n \<and> n < te + ee \<longrightarrow> indx_ent m n \<noteq> 0"
      | (free) j where "?f = Some j" "0 < j" "j < ee" "indx_ent m (te + j) = 0" by fastforce
    then show ?thesis
    proof cases
      case full
      with False gen show ?thesis by (simp add: indx_slots_full_def del: last.simps)
    next
      case free
      have new: "new_slot te ee (\<lambda>i. indx_ent m i \<noteq> 0) D ?h (te + j) ?p"
        using free False h by (simp add: new_slot_def)
      have "?p < 65536" "?p \<noteq> te + j" using new_slot_facts(4,5) [OF ch new] sz by simp_all
      then have "ipa_nati_generate_index_rule c sw t = Some (te + j, sw\<lparr>ix_prev_index := of_nat ?p\<rparr>)"
        using free(1-3) gen sz by (simp add: add.commute del: last.simps)
      with new show ?thesis by blast
    qed
  qed
qed

section \<open>Generating a rule\<close>

definition set_prev :: "nat \<Rightarrow> nat \<Rightarrow> nat \<Rightarrow> nat list \<Rightarrow> nat list" where
  "set_prev te i q meta = (if te \<le> i then meta[i - te := q] else meta)"

lemma length_set_prev [simp]: "length (set_prev te i q meta) = length meta"
  by (simp add: set_prev_def)

definition new_sw_rule :: "ipa_nat_ipv4_rule \<Rightarrow> u32 \<Rightarrow> nat \<Rightarrow> nat \<Rightarrow> ipa_nat_sw_rule" where
  "new_sw_rule c ip p i =
     fill_sw_rule c ip zero_sw_rule\<lparr>sw_prev_index := of_nat p, sw_indx_tbl_entry := of_nat i\<rparr>"

definition new_indx_rule :: "nat \<Rightarrow> nat \<Rightarrow> ipa_nat_indx_tbl_sw_rule" where
  "new_indx_rule n q = \<lparr>ix_tbl_entry = of_nat n, ix_next_index = 0, ix_prev_index = of_nat q\<rparr>"

lemma generate_rule_spec:
  assumes tp: "tbl_parts t m meta ids C D"
  defines "te \<equiv> table_entries t" and "ee \<equiv> expn_table_entries t"
  shows "(\<exists>s x n i. ipa_nati_generate_rule c zero_sw_rule zero_indx_sw_rule t = Some (- EINVAL, s, x, n, i, t)) \<and>
      (rule_slots_full te ee m c \<or> indx_slots_full te ee m c) \<or>
    (\<exists>n p i q. ipa_nati_generate_rule c zero_sw_rule zero_indx_sw_rule t =
        Some (0, new_sw_rule c (public_addr t) p i, new_indx_rule n q, n, i,
              t\<lparr>index_expn_table_meta := Some (set_prev te i q meta)\<rparr>) \<and>
      new_slot te ee (rule_used m) C (dst_slot te c) n p \<and>
      new_slot te ee (\<lambda>i. indx_ent m i \<noteq> 0) D (src_slot te c) i q)"
proof -
  note sz = tp_sizes [OF tp, folded te_def ee_def] and st = tp_state [OF tp]
  have ch: "chains te ee (rule_used m) (rule_nxt m) (rule_prv m) C"
    "chains te ee (\<lambda>i. indx_ent m i \<noteq> 0) (indx_nxt m) (indx_prv te meta) D"
    using rule_part_chains [OF tp_rules [OF tp]] indx_part_chains [OF tp_indx [OF tp]]
    by (simp_all add: te_def ee_def)
  note defs = ipa_nati_generate_rule_def Let_def
  from generate_tbl_rule_spec [OF tp, of c zero_sw_rule, folded te_def ee_def]
  show ?thesis
  proof (elim disjE exE conjE)
    fix s assume "ipa_nati_generate_tbl_rule c zero_sw_rule t = Some (0, s)" "rule_slots_full te ee m c"
    then show ?thesis by (simp add: defs)
  next
    fix n p
    let ?s = "fill_sw_rule c (public_addr t) zero_sw_rule\<lparr>sw_prev_index := of_nat p\<rparr>"
    let ?x = "zero_indx_sw_rule\<lparr>ix_tbl_entry := of_nat n\<rparr>"
    assume gen: "ipa_nati_generate_tbl_rule c zero_sw_rule t = Some (n, ?s)"
      and new: "new_slot te ee (rule_used m) C (dst_slot te c) n p"
    have n0: "n \<noteq> 0" using new_slot_facts(1) [OF ch(1) new] by simp
    from generate_index_rule_spec [OF tp, of c ?x, folded te_def ee_def]
    show ?thesis
    proof (elim disjE exE conjE)
      fix x assume "ipa_nati_generate_index_rule c ?x t = Some (0, x)" "indx_slots_full te ee m c"
      then show ?thesis using gen n0 by (simp add: defs)
    next
      fix i q
      assume geni: "ipa_nati_generate_index_rule c ?x t = Some (i, ?x\<lparr>ix_prev_index := of_nat q\<rparr>)"
        and newi: "new_slot te ee (\<lambda>i. indx_ent m i \<noteq> 0) D (src_slot te c) i q"
      note nf = new_slot_facts [OF ch(2) newi]
      have "te \<le> i \<Longrightarrow> sub16 i te = i - te" using nf(2) sz by (intro sub16_exact) auto
      then have "ipa_nati_generate_rule c zero_sw_rule zero_indx_sw_rule t =
        Some (0, new_sw_rule c (public_addr t) p i, new_indx_rule n q, n, i,
              t\<lparr>index_expn_table_meta := Some (set_prev te i q meta)\<rparr>)"
        using gen geni n0 nf(1,2,5) st(4) sz tp_meta [OF tp, folded ee_def]
        by (simp add: defs te_def [symmetric] new_sw_rule_def new_indx_rule_def set_prev_def
            zero_indx_sw_rule_def)
      with new newi show ?thesis by blast
    qed
  qed
qed

section \<open>Copies and descriptors\<close>

text \<open>The environment in which allocations succeed and the DMA ioctl has its documented effect.\<close>

definition env_ok :: "nat_env \<Rightarrow> bool" where
  "env_ok env \<longleftrightarrow> dma_ok env \<and> (\<forall>s. malloc_ok env s)"

definition sizes_ok :: "nat \<Rightarrow> nat \<Rightarrow> bool" where
  "sizes_ok te ee \<longleftrightarrow> 2 \<le> te \<and> te \<le> 16384 \<and> 2 \<le> ee \<and> ee \<le> 16384"

text \<open>Storing the entry \<open>v\<close> at \<open>n\<close> and its number in the next index of \<open>p\<close>.\<close>

definition put_rule :: "nat \<Rightarrow> nat \<Rightarrow> ipa_nat_rule \<Rightarrow> nat_mem \<Rightarrow> nat_mem" where
  "put_rule n p v m =
     (let m = upd_rule n (\<lambda>_. v) m in if p = 0 then m else upd_rule p (write16_rule 8 (of_nat n)) m)"

definition put_indx :: "nat \<Rightarrow> nat \<Rightarrow> u32 \<Rightarrow> nat_mem \<Rightarrow> nat_mem" where
  "put_indx i q v m =
     (let m = upd_indx i (\<lambda>_. v) m in if q = 0 then m else upd_indx q (write16_indx 2 (of_nat i)) m)"

lemma mem_shape_put [simp]:
  "mem_shape te ee (put_rule n p v m) = mem_shape te ee m"
  "mem_shape te ee (put_indx n p w m) = mem_shape te ee m"
  by (simp_all add: put_rule_def put_indx_def Let_def)

lemma slot_cases:
  assumes "(n :: nat) < te + ee"
  obtains "n < te" | j where "n = te + j" "j < ee" "\<not> n < te" "n - te = j"
proof (cases "n < te")
  case False
  then have "n = te + (n - te)" by linarith
  moreover have "n - te < ee" using False assms by linarith
  ultimately show ?thesis using that(2) [of "n - te"] False by blast
qed (rule that(1))

lemma one_dma_rule:
  assumes env: "dma_ok env" and sh: "mem_shape te ee m" and sz: "sizes_ok te ee"
    and p: "p < te + ee" and off: "off < 32" "even off"
    and o: "dma_offset cmd = 32 * (if p < te then p else p - te) + off"
    and b: "dma_base_addr cmd = (if p < te then IPA_NAT_BASE_TBL else IPA_NAT_EXPN_TBL)"
  shows "ioctl_nat_dma env [cmd] m = (0, upd_rule p (write16_rule off (dma_data cmd)) m)"
proof (cases rule: slot_cases [OF p])
  case 1
  have "dma_in_range m cmd" using dma_in_range_rule(1) [OF sh off] 1 o b by simp
  then have "ioctl_nat_dma env [cmd] m = (0, dma_write cmd m)" using dma_okD [OF env, of "[cmd]" m] by simp
  also have "dma_write cmd m = upd_rule p (write16_rule off (dma_data cmd)) m"
    using dma_write_rule(1) [OF sh off(1)] 1 o b by simp
  finally show ?thesis .
next
  case (2 j)
  have "dma_in_range m cmd" using dma_in_range_rule(2) [OF sh off] 2 o b by simp
  then have "ioctl_nat_dma env [cmd] m = (0, dma_write cmd m)" using dma_okD [OF env, of "[cmd]" m] by simp
  also have "dma_write cmd m = upd_rule p (write16_rule off (dma_data cmd)) m"
    using dma_write_rule(2) [OF sh off(1), of cmd j] 2 o b by simp
  finally show ?thesis .
qed

lemma one_dma_indx:
  assumes env: "dma_ok env" and sh: "mem_shape te ee m" and sz: "sizes_ok te ee"
    and p: "p < te + ee" and off: "off < 4" "even off"
    and o: "dma_offset cmd = 4 * (if p < te then p else p - te) + off"
    and b: "dma_base_addr cmd = (if p < te then IPA_NAT_INDX_TBL else IPA_NAT_INDEX_EXPN_TBL)"
  shows "ioctl_nat_dma env [cmd] m = (0, upd_indx p (write16_indx off (dma_data cmd)) m)"
proof (cases rule: slot_cases [OF p])
  case 1
  have "dma_in_range m cmd" using dma_in_range_indx(1) [OF sh off] 1 o b by simp
  then have "ioctl_nat_dma env [cmd] m = (0, dma_write cmd m)" using dma_okD [OF env, of "[cmd]" m] by simp
  also have "dma_write cmd m = upd_indx p (write16_indx off (dma_data cmd)) m"
    using dma_write_indx(1) [OF sh off(1)] 1 o b by simp
  finally show ?thesis .
next
  case (2 j)
  have "dma_in_range m cmd" using dma_in_range_indx(2) [OF sh off] 2 o b by simp
  then have "ioctl_nat_dma env [cmd] m = (0, dma_write cmd m)" using dma_okD [OF env, of "[cmd]" m] by simp
  also have "dma_write cmd m = upd_indx p (write16_indx off (dma_data cmd)) m"
    using dma_write_indx(2) [OF sh off(1), of cmd j] 2 o b by simp
  finally show ?thesis .
qed

lemma upd_const:
  assumes "mem_shape te ee m"
  shows "n < te \<Longrightarrow> upd_rule n (\<lambda>_. v) m = m\<lparr>ipv4_rules := (ipv4_rules m)[n := v]\<rparr>"
    "\<not> n < te \<Longrightarrow> upd_rule n (\<lambda>_. v) m = m\<lparr>ipv4_expn_rules := (ipv4_expn_rules m)[n - te := v]\<rparr>"
    "n < te \<Longrightarrow> upd_indx n (\<lambda>_. u) m = m\<lparr>index_table := (index_table m)[n := u]\<rparr>"
    "\<not> n < te \<Longrightarrow> upd_indx n (\<lambda>_. u) m = m\<lparr>index_table_expn := (index_table_expn m)[n - te := u]\<rparr>"
  using assms by (simp_all add: upd_rule_def upd_indx_def mem_shapeD)

lemma copy_rule_spec:
  assumes env: "env_ok env" and sh: "mem_shape te ee m" and sz: "sizes_ok te ee"
    and t: "tbl_mem t = Some m" "table_entries t = te" "tbl_addr_offset t = 0"
    and n: "n < te + ee" and p: "p < te + ee" and s: "sw_prev_index s = of_nat p"
  shows "ipa_nati_copy_ipv4_rule_to_hw env s n idx t =
    Some (t\<lparr>tbl_mem := Some (put_rule n p (nat_rule_of_sw s) m)\<rparr>)"
proof -
  have p16: "p < 65536" using p sz by (simp add: sizes_ok_def)
  have dma: "ioctl_nat_dma env [\<lparr>dma_table_index = idx,
       dma_base_addr = (if p < te then IPA_NAT_BASE_TBL else IPA_NAT_EXPN_TBL),
       dma_offset = 32 * (if p < te then p else p - te) + 8, dma_data = of_nat n\<rparr>] (upd_rule n (\<lambda>_. nat_rule_of_sw s) m)
     = (0, upd_rule p (write16_rule 8 (of_nat n)) (upd_rule n (\<lambda>_. nat_rule_of_sw s) m))"
    using env by (subst one_dma_rule [where te = te and ee = ee and p = p and off = 8]) (use sh sz p in \<open>simp_all add: env_ok_def\<close>)
  have sub: "\<not> p < te \<Longrightarrow> sub16 p te = p - te" using p16 by (intro sub16_exact) auto
  have small: "(32 * (if p < te then p else p - te) + 8) mod 4294967296 = 32 * (if p < te then p else p - te) + 8"
    using p16 by (intro mod_less) auto
  have step: "ipa_nati_copy_ipv4_rule_to_hw env s n idx t =
    (let m = upd_rule n (\<lambda>_. nat_rule_of_sw s) m;
         (base, e) = (if p < te then (IPA_NAT_BASE_TBL, p) else (IPA_NAT_EXPN_TBL, sub16 p te))
     in Some (t\<lparr>tbl_mem := Some (if p = 0 then m
          else ipa_nati_write_next_index env idx base n ((ipa_nati_get_entry_offset t base e + 8) mod 2 ^ 32) m)\<rparr>))"
    using n sh
    by (cases "n < te"; cases "p < te")
      (simp_all add: ipa_nati_copy_ipv4_rule_to_hw_def t s upd_const [OF sh] mem_shapeD Let_def p16)
  show ?thesis
    using dma sub small env p16 p
    unfolding step
    by (simp add: put_rule_def Let_def t
        ipa_nati_get_entry_offset_def ipa_nati_write_next_index_def env_ok_def mod_add_left_eq
        split: if_splits)
qed

lemma copy_index_rule_spec:
  assumes env: "env_ok env" and sh: "mem_shape te ee m" and sz: "sizes_ok te ee"
    and t: "tbl_mem t = Some m" "table_entries t = te" "tbl_addr_offset t = 0"
    and n: "i < te + ee" and p: "q < te + ee" and s: "ix_prev_index s = of_nat q"
  shows "ipa_nati_copy_ipv4_index_rule_to_hw env s i idx t =
    Some (t\<lparr>tbl_mem := Some (put_indx i q (nat_indx_rule_of_sw s) m)\<rparr>)"
proof -
  have p16: "q < 65536" using p sz by (simp add: sizes_ok_def)
  let ?e = "if q < te then q else q - te"
  have dma: "ioctl_nat_dma env [\<lparr>dma_table_index = idx,
       dma_base_addr = (if q < te then IPA_NAT_INDX_TBL else IPA_NAT_INDEX_EXPN_TBL),
       dma_offset = 4 * ?e + 2, dma_data = of_nat i\<rparr>] (upd_indx i (\<lambda>_. nat_indx_rule_of_sw s) m)
     = (0, upd_indx q (write16_indx 2 (of_nat i)) (upd_indx i (\<lambda>_. nat_indx_rule_of_sw s) m))"
    using env by (subst one_dma_indx [where te = te and ee = ee and p = q and off = 2])
      (use sh sz p in \<open>simp_all add: env_ok_def\<close>)
  have sub: "\<not> q < te \<Longrightarrow> sub16 q te = q - te" using p16 by (intro sub16_exact) auto
  have e: "?e < 16384" using p sz by (auto simp: sizes_ok_def)
  then have small: "trunc16 (4 * ?e mod 4294967296) = 4 * ?e" "trunc16 (4 * ?e + 2) = 4 * ?e + 2"
    by (simp_all add: trunc16_def del: if_split)
  have step: "ipa_nati_copy_ipv4_index_rule_to_hw env s i idx t =
    (let m = upd_indx i (\<lambda>_. nat_indx_rule_of_sw s) m;
         (base, e) = (if q < te then (IPA_NAT_INDX_TBL, q) else (IPA_NAT_INDEX_EXPN_TBL, sub16 q te))
     in Some (t\<lparr>tbl_mem := Some (if q = 0 then m
          else ipa_nati_write_next_index env idx base i (trunc16 (trunc16 (4 * e mod 2 ^ 32) + 2)) m)\<rparr>))"
    using n sh
    by (cases "i < te"; cases "q < te")
      (simp_all add: ipa_nati_copy_ipv4_index_rule_to_hw_def t s upd_const [OF sh] mem_shapeD Let_def p16
        ipa_nati_get_index_entry_offset_def)
  show ?thesis
    using dma sub small env p16 p
    unfolding step
    by (simp add: put_indx_def Let_def t ipa_nati_write_next_index_def env_ok_def split: if_splits)
qed

lemma post_dma_spec:
  assumes env: "env_ok env" and sh: "mem_shape te ee m" and sz: "sizes_ok te ee"
    and t: "tbl_mem t = Some m" "table_entries t = te" "tbl_addr_offset t = 0" and n: "n < te + ee"
  shows "ipa_nati_post_ipv4_dma_cmd env idx n t =
    Some (0, t\<lparr>tbl_mem := Some (upd_rule n (write16_rule 18 0x8000) m)\<rparr>)"
proof -
  let ?e = "if n < te then n else n - te"
  have e: "?e < 16384" using n sz by (auto simp: sizes_ok_def)
  have small: "(32 * ?e + 18) mod 4294967296 = 32 * ?e + 18" using e by (intro mod_less) simp
  have "n < 65536" using n sz by (simp add: sizes_ok_def)
  then have sub: "\<not> n < te \<Longrightarrow> sub16 n te = n - te" by (intro sub16_exact) auto
  have "ioctl_nat_dma env [\<lparr>dma_table_index = idx,
       dma_base_addr = (if n < te then IPA_NAT_BASE_TBL else IPA_NAT_EXPN_TBL),
       dma_offset = 32 * ?e + 18, dma_data = 0x8000\<rparr>] m
     = (0, upd_rule n (write16_rule 18 0x8000) m)"
    by (subst one_dma_rule [where te = te and ee = ee and p = n and off = 18])
      (use sh sz n env in \<open>simp_all add: env_ok_def\<close>)
  then show ?thesis
    using small sub env
    by (auto simp: ipa_nati_post_ipv4_dma_cmd_def t env_ok_def Let_def split: if_splits)
qed

section \<open>The table after the writes\<close>

definition added_mem ::
  "nat \<Rightarrow> nat \<Rightarrow> nat \<Rightarrow> nat \<Rightarrow> ipa_nat_ipv4_rule \<Rightarrow> u32 \<Rightarrow> nat_mem \<Rightarrow> nat_mem" where
  "added_mem n p i q c ip m =
     upd_rule n (write16_rule 18 0x8000)
       (put_indx i q (nat_indx_rule_of_sw (new_indx_rule n q))
         (put_rule n p (nat_rule_of_sw (new_sw_rule c ip p i)) m))"

lemma new_sw_rule_fields [simp]:
  "sw_next_index (new_sw_rule c ip p i) = 0" "sw_enable (new_sw_rule c ip p i) = 0"
  "sw_prev_index (new_sw_rule c ip p i) = of_nat p" "sw_indx_tbl_entry (new_sw_rule c ip p i) = of_nat i"
  "ix_tbl_entry (new_indx_rule n q) = of_nat n" "ix_next_index (new_indx_rule n q) = 0"
  "ix_prev_index (new_indx_rule n q) = of_nat q"
  "clnt_of (nat_rule_of_sw (new_sw_rule c ip p i)) = c"
  "rule_proto (nat_rule_of_sw (new_sw_rule c ip p i)) = clnt_protocol c"
  by (simp_all add: new_sw_rule_def new_indx_rule_def del: of_sw_proto) simp

lemma added_view:
  fixes c :: ipa_nat_ipv4_rule and ip :: u32
  assumes sh: "mem_shape te ee m" and sz: "sizes_ok te ee"
    and n: "n < te + ee" "p < te + ee" "p \<noteq> n" and i: "i < te + ee" "q < te + ee" "q \<noteq> i"
    and u: "p \<noteq> 0 \<Longrightarrow> rule_used m p" "q \<noteq> 0 \<Longrightarrow> indx_ent m q \<noteq> 0"
  defines "m' \<equiv> added_mem n p i q c ip m"
  shows "mem_shape te ee m'"
    "rule_used m' = (rule_used m)(n := True)" "rule_nxt m' = link_new n p (rule_nxt m)"
    "rule_prv m' k = (if k = n then p else rule_prv m k)"
    "rule_key m' = (rule_key m)(n := c)" "rule_idx m' = (rule_idx m)(n := i)"
    "indx_ent m' = (indx_ent m)(i := n)" "indx_nxt m' = link_new i q (indx_nxt m)"
proof -
  have lt: "n < 65536" "p < 65536" "i < 65536" "q < 65536" using n i sz by (auto simp: sizes_ok_def)
  show "mem_shape te ee m'" using sh by (simp add: m'_def added_mem_def)
  have r: "rule_at m' = (if p = 0 then rule_at m else (rule_at m)(p := write16_rule 8 (of_nat n) (rule_at m p)))
      (n := write16_rule 18 0x8000 (nat_rule_of_sw (new_sw_rule c ip p i)))"
    using sh n by (auto simp: m'_def added_mem_def put_rule_def put_indx_def Let_def
        rule_at_upd_rule [where te = te and ee = ee] fun_eq_iff)
  have x: "indx_at m' = (if q = 0 then indx_at m else (indx_at m)(q := write16_indx 2 (of_nat i) (indx_at m q)))
      (i := nat_indx_rule_of_sw (new_indx_rule n q))"
    using sh i by (auto simp: m'_def added_mem_def put_rule_def put_indx_def Let_def
        indx_at_upd_indx [where te = te and ee = ee] fun_eq_iff)
  show "rule_used m' = (rule_used m)(n := True)" "rule_nxt m' = link_new n p (rule_nxt m)"
    "rule_prv m' k = (if k = n then p else rule_prv m k)"
    "rule_key m' = (rule_key m)(n := c)" "rule_idx m' = (rule_idx m)(n := i)"
    using n lt by (auto simp: r link_new_def fun_eq_iff)
  show "indx_ent m' = (indx_ent m)(i := n)" "indx_nxt m' = link_new i q (indx_nxt m)"
    using i lt by (auto simp: x link_new_def fun_eq_iff)
qed

lemma live_slots_range:
  assumes "chains te ee used nxt prv C"
  shows "live_slots te ee used key \<subseteq> {1..<te + ee} - {te}"
proof
  fix n assume "n \<in> live_slots te ee used key"
  then have "n < te + ee" "used n" by (auto simp: live_slots_def)
  moreover from this have "n \<noteq> 0" "n \<noteq> te" using chains_unused [OF assms] by metis+
  ultimately show "n \<in> {1..<te + ee} - {te}" by simp
qed

lemma tbl_parts_added:
  assumes tp: "tbl_parts t m meta ids C D" and te: "te = table_entries t" "ee = expn_table_entries t"
    and new: "new_slot te ee (rule_used m) C (dst_slot te c) n p"
    and newi: "new_slot te ee (\<lambda>i. indx_ent m i \<noteq> 0) D (src_slot te c) i q"
    and c: "\<not> dead_proto c" and k: "k + 1 < te + ee" "ids ! k = 0"
    and t': "t' = t\<lparr>tbl_mem := Some (added_mem n p i q c ip m), index_expn_table_meta := Some (set_prev te i q meta),
               rule_id_array := Some (ids[k := id_of te n]), cur_tbl_cnt := x, cur_expn_tbl_cnt := y\<rparr>"
  shows "tbl_inv t'" "live te ee (added_mem n p i q c ip m) = insert n (live te ee m)"
proof -
  note sz = tp_sizes [OF tp, folded te] and sh = tp_shape [OF tp, folded te]
    and rp = tp_rules [OF tp, folded te] and ip = tp_indx [OF tp, folded te]
    and hp = tp_hdl [OF tp, folded te] and lm = tp_meta [OF tp, folded te] and st = tp_state [OF tp]
  note ch = rule_part_chains [OF rp] and chi = indx_part_chains [OF ip]
  note nf = new_slot_facts [OF ch new] and nfi = new_slot_facts [OF chi newi]
  have nL: "n \<notin> live te ee m" using new by (simp add: new_slot_def live_slots_def)
  let ?m = "added_mem n p i q c ip m"
  note v = added_view [OF sh _ nf(2,5,4) nfi(2,5,4), of c ip]
  have vs: "mem_shape te ee ?m"
    "rule_used ?m = (rule_used m)(n := True)" "rule_nxt ?m = link_new n p (rule_nxt m)"
    "rule_prv ?m j = (if j = n then p else rule_prv m j)"
    "rule_key ?m = (rule_key m)(n := c)" "rule_idx ?m = (rule_idx m)(n := i)"
    "indx_ent ?m = (indx_ent m)(i := n)" "indx_nxt ?m = link_new i q (indx_nxt m)" for j
    using sz nf(7) nfi(7) by (intro v; simp add: sizes_ok_def)+
  let ?C = "if n = dst_slot te c then C else C(dst_slot te c := C (dst_slot te c) @ [n])"
  let ?D = "if i = src_slot te c then D else D(src_slot te c := D (src_slot te c) @ [i])"
  have R: "rule_part te ee (rule_used ?m) (rule_nxt ?m) (rule_prv ?m) (rule_key ?m) (insert n (live te ee m)) ?C"
    unfolding vs(2,3,5) by (rule rule_part_add [OF rp new c]) (simp add: vs(4))
  then show L: "live te ee ?m = insert n (live te ee m)" by (simp add: rule_part_def)
  have pv: "indx_prv te (set_prev te i q meta) j = (if j = i then q else indx_prv te meta j)"
    if "te < j" "j < te + ee" for j
    using that nfi(2) lm by (auto simp: indx_prv_def set_prev_def nth_list_update)
  have I: "indx_part te ee (indx_ent ?m) (indx_nxt ?m) (indx_prv te (set_prev te i q meta)) (rule_idx ?m)
      (rule_key ?m) (insert n (live te ee m)) ?D"
    unfolding vs(5-8) using nf(1) by (intro indx_part_add [OF ip newi nL] pv) simp_all
  have H: "hdl_part te ee (ids[k := id_of te n]) (insert n (live te ee m))"
    using nf(1) by (intro hdl_part_add [OF hp k nL]) simp
  have "tbl_parts t' ?m (set_prev te i q meta) (ids[k := id_of te n]) ?C ?D"
    using sz st lm vs(1) R I H by (simp add: tbl_parts_def Let_def t' te [symmetric] L)
  then show "tbl_inv t'" unfolding tbl_inv_def by blast
qed

section \<open>The handle\<close>

lemma make_rule_hdl_spec:
  assumes hp: "hdl_part te ee ids L" and L: "insert n L \<subseteq> {1..<te + ee} - {te}" "n \<notin> L" and sz: "sizes_ok te ee"
    and t: "table_entries t = te" "expn_table_entries t = ee" "rule_id_array t = Some ids"
  obtains k x y where "k + 1 < te + ee" "ids ! k = 0" "\<forall>j<k. ids ! j \<noteq> 0"
    "ipa_nati_make_rule_hdl t n = Some (k + 1, t\<lparr>rule_id_array := Some (ids[k := id_of te n]),
        cur_tbl_cnt := x, cur_expn_tbl_cnt := y\<rparr>)"
proof -
  have "0 < te" "0 < ee" using sz by (auto simp: sizes_ok_def)
  from hdl_free_cell [OF hp L this] obtain k
    where k: "k + 1 < te + ee" "ids ! k = 0" "\<And>l. l < k \<Longrightarrow> ids ! l \<noteq> 0" by blast
  have len: "length ids = te + ee" by (rule hdl_len [OF hp])
  have "scan_first (\<lambda>i. map_option (\<lambda>x. x = 0) (rd ids i)) (te + ee) 0 =
      Some (if \<exists>j. 0 \<le> j \<and> j < te + ee \<and> ids ! j = 0 then Some (LEAST j. 0 \<le> j \<and> ids ! j = 0) else None)"
    by (rule scan_first_total) (simp add: len)
  moreover have "(LEAST j. 0 \<le> j \<and> ids ! j = 0) = k"
  proof (rule Least_equality)
    show "k \<le> j" if "0 \<le> j \<and> ids ! j = 0" for j using k(3) [of j] that by (cases "j < k") auto
  qed (use k(2) in simp)
  moreover have "k < te + ee" using k(1) by simp
  ultimately have scan: "scan_first (\<lambda>i. map_option (\<lambda>x. x = 0) (rd ids i)) (te + ee) 0 = Some (Some k)"
    using k(2) by auto
  have nb: "n < te + ee" using L(1) by auto
  have small: "te + ee \<le> 32768" using sz by (simp add: sizes_ok_def)
  have id: "te \<le> n \<Longrightarrow> trunc16 (2 * sub16 n te) + 1 = id_of te n" "\<not> te \<le> n \<Longrightarrow> trunc16 (2 * n) = id_of te n"
    using nb small by (simp_all add: id_of_def sub16_exact)
  have kt: "trunc16 (k + 1) = k + 1" using k(1) small by simp
  have rec: "t\<lparr>cur_expn_tbl_cnt := x, rule_id_array := i\<rparr>
      = t\<lparr>rule_id_array := i, cur_tbl_cnt := cur_tbl_cnt t, cur_expn_tbl_cnt := x\<rparr>"
    "t\<lparr>cur_tbl_cnt := x, rule_id_array := i\<rparr>
      = t\<lparr>rule_id_array := i, cur_tbl_cnt := x, cur_expn_tbl_cnt := cur_expn_tbl_cnt t\<rparr>" for x i
    by simp_all
  show ?thesis
  proof (cases "te \<le> n")
    case True
    then have "ipa_nati_make_rule_hdl t n = Some (k + 1, t\<lparr>rule_id_array := Some (ids[k := id_of te n]),
        cur_tbl_cnt := cur_tbl_cnt t, cur_expn_tbl_cnt := trunc16 (cur_expn_tbl_cnt t + 1)\<rparr>)"
      using scan id(1) kt by (simp add: ipa_nati_make_rule_hdl_def t)
    then show ?thesis using that [OF k(1,2)] k(3) by blast
  next
    case False
    then have "ipa_nati_make_rule_hdl t n = Some (k + 1, t\<lparr>rule_id_array := Some (ids[k := id_of te n]),
        cur_tbl_cnt := trunc16 (cur_tbl_cnt t + 1), cur_expn_tbl_cnt := cur_expn_tbl_cnt t\<rparr>)"
      using scan id(2) kt by (simp add: ipa_nati_make_rule_hdl_def t)
    then show ?thesis using that [OF k(1,2)] k(3) by blast
  qed
qed

section \<open>The whole operation\<close>

definition rules_full :: "ipa_nat_ip4_table_cache \<Rightarrow> ipa_nat_ipv4_rule \<Rightarrow> bool" where
  "rules_full t c =
     (case tbl_mem t of
        None \<Rightarrow> False
      | Some m \<Rightarrow> rule_slots_full (table_entries t) (expn_table_entries t) m c \<or>
                  indx_slots_full (table_entries t) (expn_table_entries t) m c)"

lemma not_full_new:
  "new_slot te ee (rule_used m) C (dst_slot te c) n p \<Longrightarrow> \<not> rule_slots_full te ee m c"
  "new_slot te ee (\<lambda>i. indx_ent m i \<noteq> 0) D (src_slot te c) i q \<Longrightarrow> \<not> indx_slots_full te ee m c"
  by (auto simp: new_slot_def rule_slots_full_def indx_slots_full_def)

lemma rules_of_added:
  assumes tp: "tbl_parts t m meta ids C D" and te: "te = table_entries t" "ee = expn_table_entries t"
    and key: "rule_key m' = (rule_key m)(n := c)" and n: "n \<notin> live te ee m" "n \<noteq> 0"
    and k: "k + 1 < te + ee" "ids ! k = 0"
    and t': "tbl_mem t' = Some m'" "rule_id_array t' = Some (ids[k := id_of te n])" "table_entries t' = te"
  shows "rules_of t (k + 1) = None" "rules_of t' = (rules_of t)(k + 1 \<mapsto> c)"
proof -
  note hp = tp_hdl [OF tp, folded te] and st = tp_state [OF tp]
  have len: "length ids = te + ee" by (rule hdl_len [OF hp])
  have keys: "rule_key m' j = (if j = n then c else rule_key m j)" for j
    using fun_cong [OF key, of j] by simp
  show "rules_of t (k + 1) = None" using k st by (simp add: rules_of_def)
  show "rules_of t' = (rules_of t)(k + 1 \<mapsto> c)"
  proof
    fix h
    show "rules_of t' h = ((rules_of t)(k + 1 \<mapsto> c)) h"
    proof (cases h)
      case 0
      then show ?thesis by (auto simp: rules_of_def t' st)
    next
      case (Suc j)
      show ?thesis
      proof (cases "j = k")
        case True
        have "id_of te n \<noteq> 0" using n(2) by (auto simp: id_of_def)
        with True Suc k len keys show ?thesis by (simp add: rules_of_def t' slot_of_id)
      next
        case False
        then have at: "ids[k := id_of te n] ! j = ids ! j" by simp
        have "slot_of te (ids ! j) \<noteq> n" if "j < te + ee" "ids ! j \<noteq> 0"
          using hdl_cell [OF hp that] n(1) by auto
        then show ?thesis
          using False Suc at keys by (auto simp: rules_of_def t' st len te [symmetric])
      qed
    qed
  qed
qed

lemma add_rule_spec:
  assumes env: "env_ok env" and inv: "tbl_inv t" and c: "\<not> dead_proto r" and tb: "ip4_tbl c = [t]"
  shows "ipa_nati_add_ipv4_rule env 1 r c = Some (- EINVAL, None, c) \<and> rules_full t r \<or>
    (\<exists>h t'. ipa_nati_add_ipv4_rule env 1 r c = Some (0, Some h, c\<lparr>ip4_tbl := [t']\<rparr>) \<and> \<not> rules_full t r \<and>
       tbl_inv t' \<and> 0 < h \<and> rules_of t h = None \<and> (\<forall>h'. 0 < h' \<and> h' < h \<longrightarrow> rules_of t h' \<noteq> None) \<and>
       rules_of t' = (rules_of t)(h \<mapsto> r) \<and> table_entries t' = table_entries t \<and> expn_table_entries t' = expn_table_entries t \<and>
       public_addr t' = public_addr t)"
proof -
  obtain m meta ids C D where tp: "tbl_parts t m meta ids C D" using inv by (auto simp: tbl_inv_def)
  define te ee where te: "te = table_entries t" "ee = expn_table_entries t"
  note sz = tp_sizes [OF tp, folded te] and sh = tp_shape [OF tp, folded te]
    and st = tp_state [OF tp] and hp = tp_hdl [OF tp, folded te]
  have ok: "sizes_ok te ee" using sz by (simp add: sizes_ok_def)
  note ch = rule_part_chains [OF tp_rules [OF tp, folded te]] and chi = indx_part_chains [OF tp_indx [OF tp, folded te]]
  have hdls: "(1 + (2 ^ 32 - 1)) mod 2 ^ 32 = (0 :: nat)" "hdl_index 1 = 0" "hdl_index (Suc 0) = 0"
    "sub16 (Suc 0) (Suc 0) = 0"
    by (simp_all add: hdl_index_def sub16_def trunc16_def)
  note defs = ipa_nati_add_ipv4_rule_def Let_def tb hdls put_tbl_def
  from generate_rule_spec [OF tp, of r, folded te]
  consider (full) s x n i where
      "ipa_nati_generate_rule r zero_sw_rule zero_indx_sw_rule t = Some (- EINVAL, s, x, n, i, t)"
      "rule_slots_full te ee m r \<or> indx_slots_full te ee m r"
    | (new) n p i q where
      "ipa_nati_generate_rule r zero_sw_rule zero_indx_sw_rule t =
        Some (0, new_sw_rule r (public_addr t) p i, new_indx_rule n q, n, i,
              t\<lparr>index_expn_table_meta := Some (set_prev te i q meta)\<rparr>)"
      "new_slot te ee (rule_used m) C (dst_slot te r) n p"
      "new_slot te ee (\<lambda>i. indx_ent m i \<noteq> 0) D (src_slot te r) i q" by blast
  then show ?thesis
  proof cases
    case full
    then have "ipa_nati_add_ipv4_rule env 1 r c = Some (- EINVAL, None, c\<lparr>ip4_tbl := [t]\<rparr>)"
      by (simp add: defs)
    moreover have "c\<lparr>ip4_tbl := [t]\<rparr> = c" using tb by simp
    ultimately show ?thesis using full(2) st by (simp add: rules_full_def te)
  next
    case (new n p i q)
    let ?s = "new_sw_rule r (public_addr t) p i" and ?x = "new_indx_rule n q"
    let ?t1 = "t\<lparr>index_expn_table_meta := Some (set_prev te i q meta)\<rparr>"
    let ?m = "added_mem n p i q r (public_addr t) m"
    note gen = new(1) and newi = new(3) and new = new(2)
    note nf = new_slot_facts [OF ch new] and nfi = new_slot_facts [OF chi newi]
    let ?t4 = "?t1\<lparr>tbl_mem := Some ?m\<rparr>"
    have c1: "ipa_nati_copy_ipv4_rule_to_hw env ?s n 0 ?t1 = Some (?t1\<lparr>tbl_mem := Some (put_rule n p (nat_rule_of_sw ?s) m)\<rparr>)"
      by (rule copy_rule_spec [OF env sh ok]) (use st te nf in simp_all)
    have c2: "ipa_nati_copy_ipv4_index_rule_to_hw env ?x i 0 (?t1\<lparr>tbl_mem := Some (put_rule n p (nat_rule_of_sw ?s) m)\<rparr>)
       = Some (?t1\<lparr>tbl_mem := Some (put_indx i q (nat_indx_rule_of_sw ?x) (put_rule n p (nat_rule_of_sw ?s) m))\<rparr>)"
      by (subst copy_index_rule_spec [OF env _ ok, of "put_rule n p (nat_rule_of_sw ?s) m"])
        (use sh st te nfi in simp_all)
    have c3: "ipa_nati_post_ipv4_dma_cmd env 0 n
        (?t1\<lparr>tbl_mem := Some (put_indx i q (nat_indx_rule_of_sw ?x) (put_rule n p (nat_rule_of_sw ?s) m))\<rparr>) = Some (0, ?t4)"
      by (subst post_dma_spec [OF env _ ok, of "put_indx i q (nat_indx_rule_of_sw ?x) (put_rule n p (nat_rule_of_sw ?s) m)"])
        (use sh st te nf in \<open>simp_all add: added_mem_def\<close>)
    have nL: "n \<notin> live te ee m" using new by (simp add: new_slot_def live_slots_def)
    have Lr: "insert n (live te ee m) \<subseteq> {1..<te + ee} - {te}" using live_slots_range [OF ch] nf(1-3) by auto
    have "table_entries ?t4 = te" "expn_table_entries ?t4 = ee" "rule_id_array ?t4 = Some ids"
      using st te by simp_all
    from make_rule_hdl_spec [OF hp Lr nL ok this] obtain k x y where
      k: "k + 1 < te + ee" "ids ! k = 0" and least: "\<forall>j<k. ids ! j \<noteq> 0" and mk: "ipa_nati_make_rule_hdl ?t4 n =
        Some (k + 1, ?t4\<lparr>rule_id_array := Some (ids[k := id_of te n]), cur_tbl_cnt := x, cur_expn_tbl_cnt := y\<rparr>)"
      by metis
    let ?t5 = "?t4\<lparr>rule_id_array := Some (ids[k := id_of te n]), cur_tbl_cnt := x, cur_expn_tbl_cnt := y\<rparr>"
    have "ipa_nati_add_ipv4_rule env 1 r c = Some (0, Some (k + 1), c\<lparr>ip4_tbl := [?t5]\<rparr>)"
      using gen c1 c2 c3 mk by (simp add: defs)
    moreover have "tbl_inv ?t5"
      by (rule tbl_parts_added(1) [OF tp te new newi c k, where ip = "public_addr t" and x = x and y = y]) simp
    moreover have "rule_key ?m = (rule_key m)(n := r)"
      using added_view(5) [OF sh ok nf(2,5,4) nfi(2,5,4)] nf(7) nfi(7) by blast
    note rules_of_added [OF tp te this nL _ k, of ?t5]
    then have "rules_of t (k + 1) = None" "rules_of ?t5 = (rules_of t)(k + 1 \<mapsto> r)"
      using nf(1) te by simp_all
    moreover have "rules_of t h' \<noteq> None" if "0 < h'" "h' < k + 1" for h'
    proof -
      have "h' - 1 < k" "k < length ids" using that k(1) hdl_len [OF hp] by simp_all
      then show ?thesis using least st that by (simp add: rules_of_def)
    qed
    moreover have "\<not> rules_full t r"
      using st not_full_new(1) [OF new] not_full_new(2) [OF newi] by (simp add: rules_full_def te [symmetric])
    ultimately show ?thesis by (intro disjI2 exI [of _ "k + 1"] exI [of _ ?t5]) simp
  qed
qed

end
