(* ===== verification/Nat_Del_Correct.thy ===== *)
theory Nat_Del_Correct
  imports Nat_Add_Correct
begin

text \<open>
  Correctness of deleting a rule: what the descriptors of a deletion store, what the direct
  writes and the sweep of dead heads make of the table, and the invariant and abstract rule map
  after the whole operation.
\<close>

section \<open>Positions\<close>

definition pos_of :: "nat \<Rightarrow> nat \<Rightarrow> nat \<Rightarrow> del_type" where
  "pos_of te n nx = (if te \<le> n then (if nx = 0 then IPA_NAT_DEL_TYPE_LAST else IPA_NAT_DEL_TYPE_MIDDLE)
     else (if nx = 0 then IPA_NAT_DEL_TYPE_ONLY_ONE else IPA_NAT_DEL_TYPE_HEAD))"

definition entry_of :: "nat \<Rightarrow> nat \<Rightarrow> nat" where
  "entry_of te n = (if te \<le> n then n - te else n)"

lemma rd_slot:
  assumes "mem_shape te ee m" "n < te + ee"
  shows "rd (if te \<le> n then ipv4_expn_rules m else ipv4_rules m) (entry_of te n) = Some (rule_at m n)"
    "rd (if te \<le> n then index_table_expn m else index_table m) (entry_of te n) = Some (indx_at m n)"
  using assms by (auto simp: entry_of_def rule_at_def indx_at_def mem_shape_def)

lemma sub16_entry: "sizes_ok te ee \<Longrightarrow> n < te + ee \<Longrightarrow> te \<le> n \<Longrightarrow> sub16 n te = entry_of te n"
  by (simp add: sizes_ok_def entry_of_def sub16_exact)

lemma find_rule_pos_spec:
  assumes "mem_shape te ee m" "n < te + ee"
  shows "ipa_nati_find_rule_pos m (te \<le> n) (entry_of te n) = Some (pos_of te n (rule_nxt m n))"
  using rd_slot(1) [OF assms] by (simp add: ipa_nati_find_rule_pos_def pos_of_def read_folds split: if_splits)

lemma find_index_rule_pos_spec:
  assumes "mem_shape te ee m" "i < te + ee" "sizes_ok te ee"
  shows "ipa_nati_find_index_rule_pos m te i = Some (pos_of te i (indx_nxt m i))"
  using rd_slot(2) [OF assms(1,2)] sub16_entry [OF assms(3,2)]
  by (simp add: ipa_nati_find_index_rule_pos_def pos_of_def read_folds entry_of_def split: if_splits)

section \<open>What the descriptors store\<close>

definition rule_dma :: "nat \<Rightarrow> nat \<Rightarrow> nat_mem \<Rightarrow> nat_mem" where
  "rule_dma te n m =
     (if te \<le> n then upd_rule (rule_prv m n) (write16_rule 8 (of_nat (rule_nxt m n))) m
      else if rule_nxt m n = 0 then upd_rule n (write16_rule 18 0) m
      else upd_rule n (write16_rule 22 0xFF00) m)"

definition indx_dma :: "nat \<Rightarrow> nat \<Rightarrow> nat \<Rightarrow> nat_mem \<Rightarrow> nat_mem" where
  "indx_dma te i pv m =
     (if te \<le> i then upd_indx pv (write16_indx 2 (of_nat (indx_nxt m i))) m
      else if indx_nxt m i = 0 then upd_indx i (write16_indx 0 0) m
      else upd_indx i (\<lambda>w. write16_indx 2 (of_nat (indx_nxt m (indx_nxt m i)))
             (write16_indx 0 (of_nat (indx_ent m (indx_nxt m i))) w)) m)"

lemma mem_shape_dma [simp]:
  "mem_shape te ee (rule_dma k n m) = mem_shape te ee m"
  "mem_shape te ee (indx_dma k i pv m) = mem_shape te ee m"
  by (simp_all add: rule_dma_def indx_dma_def)

lemma at_dma_other [simp]: "indx_at (rule_dma te n m) = indx_at m" "rule_at (indx_dma te i pv m) = rule_at m"
  by (simp_all add: rule_dma_def indx_dma_def)

lemma word_of_next: "Read16BitFieldValue (hw_nxt_indx_pub_port r) NEXT_INDEX_FIELD = of_nat (rule_next r)"
  by (simp add: rule_next_def)

lemma word_of_indx:
  "Read16BitFieldValue w INDX_TBL_NEXT_INDEX_FILED = of_nat (indx_next w)"
  "Read16BitFieldValue w INDX_TBL_TBL_ENTRY_FIELD = of_nat (indx_tbl_entry_of w)"
  by (simp_all add: indx_field_defs)

lemma del_rule_cmd_spec:
  fixes idx :: nat
  assumes sh: "mem_shape te ee m" and sz: "sizes_ok te ee" and t: "table_entries t = te" "tbl_addr_offset t = 0"
    and n: "n < te + ee" "te \<le> n \<Longrightarrow> rule_prv m n < te + ee"
  defines "cmd \<equiv> del_rule_cmd t idx (entry_of te n) (rule_at m n) (pos_of te n (rule_nxt m n))"
  shows "dma_in_range m cmd" "\<not> is_indx_cmd cmd"
    "mem_shape te ee m' \<Longrightarrow> rule_at m' = rule_at m \<Longrightarrow> dma_write cmd m' = rule_dma te n m'"
proof -
  let ?p = "if te \<le> n then rule_prv m n else n"
  let ?off = "if te \<le> n then 8 else if rule_nxt m n = 0 then 18 else (22 :: nat)"
  let ?w = "if te \<le> n then of_nat (rule_nxt m n) else if rule_nxt m n = 0 then 0 else (0xFF00 :: u16)"
  have p: "?p < te + ee" using n by auto
  have e: "entry_of te ?p < 16384" using p sz by (auto simp: entry_of_def sizes_ok_def)
  have modn: "(32 * x mod 4294967296 + k) mod 4294967296 = 32 * x + k" if "x < 16384" "k < 32" for x k :: nat
    using that by simp
  have cmd: "cmd = \<lparr>dma_table_index = idx,
      dma_base_addr = (if te \<le> ?p then IPA_NAT_EXPN_TBL else IPA_NAT_BASE_TBL),
      dma_offset = 32 * entry_of te ?p + ?off, dma_data = ?w\<rparr>"
    using e sub16_entry [OF sz p] n
    by (cases "te \<le> n"; cases "te \<le> ?p"; cases "rule_nxt m n = 0")
      (simp_all add: cmd_def del_rule_cmd_def pos_of_def Let_def read_folds word_of_next t modn
        ipa_nati_get_entry_offset_def entry_of_def)
  have off: "?off < 32" "even ?off" by simp_all
  show "\<not> is_indx_cmd cmd" by (simp add: cmd is_indx_cmd_def)
  show "dma_in_range m cmd"
  proof (cases "te \<le> ?p")
    case True
    then show ?thesis using p
      by (intro dma_in_range_rule(2) [OF sh off, of _ "entry_of te ?p"]) (auto simp: cmd entry_of_def)
  next
    case False
    then show ?thesis
      by (intro dma_in_range_rule(1) [OF sh off, of _ "entry_of te ?p"]) (auto simp: cmd entry_of_def)
  qed
  assume m': "mem_shape te ee m'" "rule_at m' = rule_at m"
  have "dma_write cmd m' = upd_rule ?p (write16_rule ?off ?w) m'"
  proof (cases "te \<le> ?p")
    case True
    then show ?thesis using p
      by (subst dma_write_rule(2) [OF m'(1) off(1), of cmd "entry_of te ?p"]) (auto simp: cmd entry_of_def)
  next
    case False
    then show ?thesis
      by (subst dma_write_rule(1) [OF m'(1) off(1), of cmd "entry_of te ?p"]) (auto simp: cmd entry_of_def)
  qed
  then show "dma_write cmd m' = rule_dma te n m'" by (simp add: rule_dma_def m'(2))
qed

lemma upd_indx_twice:
  "mem_shape te ee m \<Longrightarrow> i < te \<Longrightarrow> upd_indx i g (upd_indx i f m) = upd_indx i (\<lambda>w. g (f w)) m"
  by (simp add: upd_indx_def indx_at_def mem_shape_def)

lemma one_indx_cmd:
  assumes sh: "mem_shape te ee m" and p: "p < te + ee" and off: "off < 4" "even off"
    and cmd: "dma_offset cmd = 4 * entry_of te p + off"
      "dma_base_addr cmd = (if te \<le> p then IPA_NAT_INDEX_EXPN_TBL else IPA_NAT_INDX_TBL)"
  shows "dma_in_range m cmd" "is_indx_cmd cmd" "dma_write cmd m = upd_indx p (write16_indx off (dma_data cmd)) m"
proof -
  show "is_indx_cmd cmd" using cmd(2) by (simp add: is_indx_cmd_def)
  have "dma_in_range m cmd \<and> dma_write cmd m = upd_indx p (write16_indx off (dma_data cmd)) m"
  proof (cases "te \<le> p")
    case True
    then show ?thesis
      using dma_in_range_indx(2) [OF sh off cmd(1)] dma_write_indx(2) [OF sh off(1) cmd(1)] p cmd(2)
      by (simp add: entry_of_def)
  next
    case False
    then show ?thesis
      using dma_in_range_indx(1) [OF sh off cmd(1)] dma_write_indx(1) [OF sh off(1) cmd(1)] p cmd(2)
      by (simp add: entry_of_def)
  qed
  then show "dma_in_range m cmd" "dma_write cmd m = upd_indx p (write16_indx off (dma_data cmd)) m" by auto
qed

lemma del_indx_cmds_spec:
  assumes sh: "mem_shape te ee m" and sz: "sizes_ok te ee" and t: "table_entries t = te" "tbl_addr_offset t = 0"
    "index_expn_table_meta t = Some meta" "length meta = ee"
    and i: "i < te + ee" "te \<le> i \<Longrightarrow> indx_prv te meta i < te + ee"
      "indx_nxt m i \<noteq> 0 \<Longrightarrow> te < indx_nxt m i \<and> indx_nxt m i < te + ee"
  obtains cs where "del_indx_cmds t m idx i (pos_of te i (indx_nxt m i)) = Some cs" "cs \<noteq> []"
    "\<And>c. c \<in> set cs \<Longrightarrow> dma_in_range m c \<and> is_indx_cmd c"
    "\<And>m'. mem_shape te ee m' \<Longrightarrow> indx_at m' = indx_at m \<Longrightarrow>
       fold dma_write cs m' = indx_dma te i (indx_prv te meta i) m'"
proof -
  let ?nx = "indx_nxt m i" and ?pv = "indx_prv te meta i"
  have ij: "entry_of te x < 16384" if "x < te + ee" for x
    using that sz by (auto simp: entry_of_def sizes_ok_def)
  have modn: "4 * x mod 4294967296 = 4 * x" "Suc (Suc (4 * x)) mod 4294967296 = Suc (Suc (4 * x))"
    if "x < 16384" for x :: nat
    using that by simp_all
  define one where one_def: "one = (\<lambda>p off w. \<lparr>dma_table_index = idx,
      dma_base_addr = (if te \<le> p then IPA_NAT_INDEX_EXPN_TBL else IPA_NAT_INDX_TBL),
      dma_offset = 4 * entry_of te p + off, dma_data = w\<rparr>)"
  have one: "dma_in_range m (one p off w)" "is_indx_cmd (one p off w)"
    "mem_shape te ee m' \<Longrightarrow> dma_write (one p off w) m' = upd_indx p (write16_indx off w) m'"
    if "p < te + ee" "off < 4" "even off" for p off w m'
    using one_indx_cmd [OF sh that, of "one p off w"] one_indx_cmd [OF _ that, of m' "one p off w"]
    by (simp_all add: one_def)
  note defs = del_indx_cmds_def Let_def t pos_of_def read_folds word_of_indx ipa_nati_get_index_entry_offset_def
  consider (expn) "te \<le> i" | (only) "\<not> te \<le> i" "?nx = 0" | (head) "\<not> te \<le> i" "?nx \<noteq> 0" by blast
  then show ?thesis
  proof cases
    case expn
    have m: "rd meta (entry_of te i) = Some ?pv" using expn i(1) t(4) by (simp add: entry_of_def indx_prv_def)
    have pv: "?pv < te + ee" by (rule i(2) [OF expn])
    have "del_indx_cmds t m idx i (pos_of te i ?nx) = Some [one ?pv 2 (of_nat ?nx)]"
      using expn m rd_slot(2) [OF sh i(1)] sub16_entry [OF sz i(1)] sub16_entry [OF sz pv] modn [OF ij [OF pv]]
      by (cases "te \<le> ?pv"; cases "?nx = 0") (simp_all add: defs one_def entry_of_def [of te ?pv])
    then show ?thesis
      by (rule that) (use one [OF pv] expn in \<open>auto simp: indx_dma_def\<close>)
  next
    case only
    have e: "entry_of te i = i" using only by (simp add: entry_of_def)
    have "del_indx_cmds t m idx i (pos_of te i ?nx) = Some [one i 0 0]"
      using only modn [OF ij [OF i(1)]] e by (simp add: defs one_def)
    then show ?thesis
      by (rule that) (use one [OF i(1)] only in \<open>auto simp: indx_dma_def\<close>)
  next
    case head
    then have j: "te \<le> ?nx" "?nx < te + ee" using i(3) by auto
    have e: "entry_of te i = i" using head by (simp add: entry_of_def)
    have nj: "rd (index_table_expn m) (entry_of te ?nx) = Some (indx_at m ?nx)"
      using rd_slot(2) [OF sh j(2)] j(1) by simp
    have ri: "rd (index_table m) i = Some (indx_at m i)" using rd_slot(2) [OF sh i(1)] head e by simp
    let ?cs = "[one i 0 (of_nat (indx_ent m ?nx)), one i 2 (of_nat (indx_nxt m ?nx))]"
    have "del_indx_cmds t m idx i (pos_of te i ?nx) = Some ?cs"
      using head modn [OF ij [OF i(1)]] e nj ri sub16_entry [OF sz j(2,1)] by (simp add: defs one_def)
    then show ?thesis
    proof (rule that)
      fix m' assume m': "mem_shape te ee m'" "indx_at m' = indx_at m"
      show "fold dma_write ?cs m' = indx_dma te i ?pv m'"
        using one(3) [OF i(1)] m' head by (simp add: indx_dma_def upd_indx_twice)
    qed (use one(1,2) [OF i(1)] in auto)
  qed
qed

text \<open>The ioctl of a deletion, after the reordering.\<close>

lemma del_dma:
  assumes env: "env_ok env" and sh: "mem_shape te ee m"
    and rc: "dma_in_range m rc" "\<not> is_indx_cmd rc"
      "\<And>m'. mem_shape te ee m' \<Longrightarrow> rule_at m' = rule_at m \<Longrightarrow> dma_write rc m' = rule_dma te n m'"
    and cs: "cs \<noteq> []" "\<And>c. c \<in> set cs \<Longrightarrow> dma_in_range m c \<and> is_indx_cmd c"
      "\<And>m'. mem_shape te ee m' \<Longrightarrow> indx_at m' = indx_at m \<Longrightarrow> fold dma_write cs m' = indx_dma te i pv m'"
  shows "ioctl_nat_dma env (if length (rc # cs) > 1 then ReorderCmds env (rc # cs) else rc # cs) m =
    (0, rule_dma te n (indx_dma te i pv m))"
proof -
  have "dropWhile (\<lambda>c. \<not> is_indx_cmd c) (rc # cs) = cs"
    using rc(2) cs(1,2) by (cases cs) auto
  then have re: "ReorderCmds env (rc # cs) = cs @ [rc]"
    using cs(1) env by (simp add: ReorderCmds_def Let_def env_ok_def)
  have "ioctl_nat_dma env (cs @ [rc]) m = (0, fold dma_write (cs @ [rc]) m)"
    by (rule dma_okD) (use env rc(1) cs(2) in \<open>auto simp: env_ok_def\<close>)
  also have "fold dma_write (cs @ [rc]) m = rule_dma te n (indx_dma te i pv m)"
    using cs(3) [OF sh] rc(3) sh by simp
  finally show ?thesis using re cs(1) by simp
qed

section \<open>The direct writes\<close>

definition set_rule_prev :: "nat \<Rightarrow> ipa_nat_rule \<Rightarrow> ipa_nat_rule" where
  "set_rule_prev p r = r\<lparr>hw_sw_spec_params := mk32 (hi16 (hw_sw_spec_params r)) (of_nat p)\<rparr>"

definition set_rule_indx :: "nat \<Rightarrow> ipa_nat_rule \<Rightarrow> ipa_nat_rule" where
  "set_rule_indx i r = r\<lparr>hw_sw_spec_params := mk32 (of_nat i) (lo16 (hw_sw_spec_params r))\<rparr>"

lemma UpdateSwSpecParams_of:
  "UpdateSwSpecParams r 0 (ucast (Read16BitFieldValue (hw_sw_spec_params s) SW_SPEC_PARAM_PREV_INDEX_FIELD))
     = set_rule_prev (rule_prev s) r"
  "i < 65536 \<Longrightarrow> UpdateSwSpecParams r 1 (of_nat i) = set_rule_indx i r"
proof -
  show "UpdateSwSpecParams r 0 (ucast (Read16BitFieldValue (hw_sw_spec_params s) SW_SPEC_PARAM_PREV_INDEX_FIELD))
     = set_rule_prev (rule_prev s) r"
    by (simp add: UpdateSwSpecParams_prev set_rule_prev_def rule_prev_def)
  assume i: "i < 65536"
  have "(of_nat i :: u32) = ucast (of_nat i :: u16)"
    by (rule word_unat_eq_iff [THEN iffD2]) (use i in \<open>simp add: unat_ucast32 unsigned_of_nat take_bit_nat_eq_self\<close>)
  then show "UpdateSwSpecParams r 1 (of_nat i) = set_rule_indx i r"
    using UpdateSwSpecParams_indx [of r "of_nat i"] by (simp add: set_rule_indx_def)
qed

lemma set_rule_fields [simp]:
  "rule_next (set_rule_prev p r) = rule_next r" "rule_enabled (set_rule_prev p r) = rule_enabled r"
  "rule_indx (set_rule_prev p r) = rule_indx r" "clnt_of (set_rule_prev p r) = clnt_of r"
  "p < 65536 \<Longrightarrow> rule_prev (set_rule_prev p r) = p"
  "rule_next (set_rule_indx i r) = rule_next r" "rule_enabled (set_rule_indx i r) = rule_enabled r"
  "rule_prev (set_rule_indx i r) = rule_prev r" "clnt_of (set_rule_indx i r) = clnt_of r"
  "i < 65536 \<Longrightarrow> rule_indx (set_rule_indx i r) = i"
  "rule_proto (set_rule_prev p r) = rule_proto r" "rule_proto (set_rule_indx i r) = rule_proto r"
  unfolding set_rule_prev_def set_rule_indx_def
  by simp_all (simp_all add: rule_field_defs Read16BitFieldValue.simps)

definition rule_fix :: "nat \<Rightarrow> nat \<Rightarrow> nat_mem \<Rightarrow> nat_mem" where
  "rule_fix te n m =
     (if te \<le> n then upd_rule n (\<lambda>_. zero_rule)
        (if rule_nxt m n = 0 then m else upd_rule (rule_nxt m n) (set_rule_prev (rule_prv m n)) m)
      else if rule_nxt m n = 0 then upd_rule n (\<lambda>_. zero_rule) m else m)"

lemma upd_rule_concrete:
  assumes "mem_shape te ee m"
  shows "te \<le> n \<Longrightarrow> upd_rule n f m = m\<lparr>ipv4_expn_rules := (ipv4_expn_rules m)[n - te := f (rule_at m n)]\<rparr>"
    "\<not> te \<le> n \<Longrightarrow> upd_rule n f m = m\<lparr>ipv4_rules := (ipv4_rules m)[n := f (rule_at m n)]\<rparr>"
    "te \<le> n \<Longrightarrow> upd_indx n g m = m\<lparr>index_table_expn := (index_table_expn m)[n - te := g (indx_at m n)]\<rparr>"
    "\<not> te \<le> n \<Longrightarrow> upd_indx n g m = m\<lparr>index_table := (index_table m)[n := g (indx_at m n)]\<rparr>"
  using assms by (simp_all add: upd_rule_def upd_indx_def mem_shape_def)

lemma del_rule_fixup_spec:
  assumes sh: "mem_shape te ee m" and sz: "sizes_ok te ee" and n: "n < te + ee"
    "te \<le> n \<Longrightarrow> rule_nxt m n \<noteq> 0 \<Longrightarrow> te < rule_nxt m n \<and> rule_nxt m n < te + ee"
  shows "del_rule_fixup te (entry_of te n) (te \<le> n) (pos_of te n (rule_nxt m n)) m = Some (rule_fix te n m)"
proof (cases "te \<le> n")
  case False
  then show ?thesis
    using sh n by (cases "rule_nxt m n = 0")
      (simp_all add: del_rule_fixup_def pos_of_def rule_fix_def entry_of_def upd_rule_concrete mem_shapeD)
next
  case True
  let ?nx = "rule_nxt m n"
  have rn: "rd (ipv4_expn_rules m) (n - te) = Some (rule_at m n)" "n - te < ee"
    using rd_slot(1) [OF sh n(1)] True n(1) by (simp_all add: entry_of_def)
  show ?thesis
  proof (cases "?nx = 0")
    case nx0: True
    with True rn sh show ?thesis
      by (simp add: del_rule_fixup_def pos_of_def rule_fix_def entry_of_def upd_rule_concrete mem_shapeD)
  next
    case False
    then have nx: "te \<le> ?nx" "?nx < te + ee" using n(2) True by auto
    then have s: "sub16 ?nx te = ?nx - te" "?nx - te < ee" using sub16_entry [OF sz nx(2,1)] by (auto simp: entry_of_def)
    have rx: "rd (ipv4_expn_rules m) (?nx - te) = Some (rule_at m ?nx)"
      using rd_slot(1) [OF sh nx(2)] nx(1) by (simp add: entry_of_def)
    have sh1: "mem_shape te ee (m\<lparr>ipv4_expn_rules := (ipv4_expn_rules m)[j := v]\<rparr>)" for j v
      using sh by (simp add: mem_shape_def)
    show ?thesis
      using False True rn rx s nx sh upd_rule_concrete(1) [OF sh1 True]
      by (simp add: del_rule_fixup_def pos_of_def rule_fix_def entry_of_def upd_rule_concrete mem_shapeD
          read_folds UpdateSwSpecParams_of)
  qed
qed

definition indx_fix :: "nat \<Rightarrow> nat \<Rightarrow> nat \<Rightarrow> nat \<Rightarrow> nat list \<Rightarrow> nat_mem \<Rightarrow> nat list \<times> nat_mem" where
  "indx_fix te i nx pv meta m =
     (if te \<le> i then (if nx = 0 then meta else meta[nx - te := pv, i - te := 0], upd_indx i (\<lambda>_. 0) m)
      else if nx = 0 then (meta, upd_indx i (\<lambda>_. 0) m)
      else (if indx_nxt m nx = 0 then meta else meta[indx_nxt m nx - te := i],
            upd_rule (indx_ent m i) (set_rule_indx i) (upd_indx nx (\<lambda>_. 0) m)))"

lemma del_indx_fixup_other_spec:
  assumes sh: "mem_shape te ee m" and sz: "sizes_ok te ee" and i: "i < te + ee" and lm: "length meta = ee"
    and other: "te \<le> i \<or> nx = 0" and nx: "te \<le> i \<Longrightarrow> indx_nxt m i = nx" "nx \<noteq> 0 \<Longrightarrow> te < nx \<and> nx < te + ee"
  shows "del_indx_fixup_other te (te \<le> i) (if te \<le> i then sub16 i te else i) (pos_of te i nx) (Some meta) m =
    Some (apfst Some (indx_fix te i nx (indx_prv te meta i) meta m))"
proof (cases "te \<le> i")
  case False
  then show ?thesis
    using sh other by (simp add: del_indx_fixup_other_def pos_of_def indx_fix_def upd_rule_concrete mem_shapeD)
next
  case True
  then have e: "sub16 i te = i - te" "i - te < ee" "rd (index_table_expn m) (i - te) = Some (indx_at m i)"
    using sub16_entry [OF sz i] rd_slot(2) [OF sh i] i by (auto simp: entry_of_def)
  show ?thesis
  proof (cases "nx = 0")
    case nx0: True
    with True e sh show ?thesis
      by (simp add: del_indx_fixup_other_def pos_of_def indx_fix_def upd_rule_concrete mem_shapeD)
  next
    case False
    then have n: "te \<le> nx" "sub16 nx te = nx - te" "nx - te < ee"
      using nx(2) sub16_entry [OF sz] by (auto simp: entry_of_def)
    show ?thesis
      using True False e n sh lm nx(1)
      by (simp add: del_indx_fixup_other_def pos_of_def indx_fix_def upd_rule_concrete mem_shapeD read_folds
          indx_prv_def)
  qed
qed

lemma del_indx_fixup_head_spec:
  assumes sh: "mem_shape te ee m" and sz: "sizes_ok te ee" and i: "i < te" and lm: "length meta = ee"
    and nx: "te < nx" "nx < te + ee" and nn: "indx_nxt m nx \<noteq> 0 \<Longrightarrow> te < indx_nxt m nx \<and> indx_nxt m nx < te + ee"
    and e: "indx_ent m i < te + ee"
  shows "del_indx_fixup_head te i (sub16 nx te) (Some meta) m =
    Some (apfst Some (indx_fix te i nx pv meta m))"
proof -
  have x: "sub16 nx te = nx - te" "nx - te < ee" "rd (index_table_expn m) (nx - te) = Some (indx_at m nx)"
    using sub16_entry [OF sz nx(2)] rd_slot(2) [OF sh nx(2)] nx by (auto simp: entry_of_def)
  have i16: "i < 65536" using i sz by (simp add: sizes_ok_def)
  have meta: "(if indx_nxt m nx \<noteq> 0 \<and> te \<le> indx_nxt m nx
       then do { a \<leftarrow> Some meta; a \<leftarrow> wr a (sub16 (indx_nxt m nx) te) i; Some (Some a) } else Some (Some meta))
     = Some (Some (if indx_nxt m nx = 0 then meta else meta[indx_nxt m nx - te := i]))"
    using nn sub16_entry [OF sz, of "indx_nxt m nx"] lm by (auto simp: entry_of_def)
  let ?m = "m\<lparr>index_table_expn := (index_table_expn m)[nx - te := 0]\<rparr>"
  have m: "upd_indx nx (\<lambda>_. 0) m = ?m" using sh nx by (simp add: upd_rule_concrete)
  have sh': "mem_shape te ee ?m" using sh by (simp add: mem_shape_def)
  have hd: "rd (index_table ?m) i = Some (indx_at m i)" using rd_rule_at(2) [OF sh i] by simp
  have re: "rd (ipv4_expn_rules m) (sub16 (indx_ent m i) te) = Some (rule_at m (indx_ent m i))"
    "sub16 (indx_ent m i) te = indx_ent m i - te" "indx_ent m i - te < ee" if "te \<le> indx_ent m i"
    using rd_slot(1) [OF sh e] sub16_entry [OF sz e] that e by (auto simp: entry_of_def)
  have rb: "rd (ipv4_rules m) (indx_ent m i) = Some (rule_at m (indx_ent m i))" if "\<not> te \<le> indx_ent m i"
    using rd_slot(1) [OF sh e] that by (simp add: entry_of_def)
  have ra: "rule_at ?m = rule_at m" by (rule ext) (simp add: rule_at_def)
  have fix_eq: "indx_fix te i nx pv meta m =
     (if indx_nxt m nx = 0 then meta else meta[indx_nxt m nx - te := i],
      upd_rule (indx_ent m i) (set_rule_indx i) ?m)"
    using i nx(1) by (simp add: indx_fix_def m)
  show ?thesis
  proof (cases "te \<le> indx_ent m i")
    case True
    then show ?thesis
      unfolding fix_eq upd_rule_concrete(1) [OF sh' True]
      using x hd re [OF True] meta sh sh' i16
      by (simp add: del_indx_fixup_head_def read_folds UpdateSwSpecParams_of ra mem_shapeD Let_def cong: if_cong)
  next
    case False
    then show ?thesis
      unfolding fix_eq upd_rule_concrete(2) [OF sh' False]
      using x hd rb [OF False] meta sh sh' i16
      by (simp add: del_indx_fixup_head_def read_folds UpdateSwSpecParams_of ra mem_shapeD Let_def cong: if_cong)
  qed
qed

section \<open>The table after the deletion\<close>

text \<open>The slots around a live rule \<open>n\<close> and its index entry \<open>i\<close>.\<close>

lemma live_facts:
  assumes tp: "tbl_parts t m meta ids C D" and te: "te = table_entries t" "ee = expn_table_entries t"
    and n: "n \<in> live te ee m" and i: "i = rule_idx m n"
  shows lf_slot: "n < te + ee" "rule_used m n" "0 < n" "n \<noteq> te"
    and lf_idx: "i < te + ee" "indx_ent m i = n" "i \<noteq> te"
    and lf_nbr: "te \<le> n \<Longrightarrow> rule_prv m n < te + ee \<and> rule_prv m n \<noteq> n"
      "te \<le> n \<Longrightarrow> rule_nxt m n \<noteq> 0 \<Longrightarrow> te < rule_nxt m n \<and> rule_nxt m n < te + ee \<and> rule_nxt m n \<noteq> n"
    and lf_inbr: "te \<le> i \<Longrightarrow> indx_prv te meta i < te + ee \<and> indx_prv te meta i \<noteq> i"
      "indx_nxt m i \<noteq> 0 \<Longrightarrow> te < indx_nxt m i \<and> indx_nxt m i < te + ee \<and> indx_nxt m i \<noteq> i"
    and lf_ihead: "indx_nxt m i \<noteq> 0 \<Longrightarrow> indx_ent m (indx_nxt m i) \<in> live te ee m \<and>
        indx_ent m (indx_nxt m i) < te + ee \<and> rule_idx m (indx_ent m (indx_nxt m i)) = indx_nxt m i"
      "indx_nxt m i \<noteq> 0 \<Longrightarrow> indx_nxt m (indx_nxt m i) \<noteq> 0 \<Longrightarrow>
        te < indx_nxt m (indx_nxt m i) \<and> indx_nxt m (indx_nxt m i) < te + ee"
proof -
  note rp = tp_rules [OF tp, folded te] and ip = tp_indx [OF tp, folded te]
  note ch = rule_part_chains [OF rp] and chi = indx_part_chains [OF ip]
  show sl: "n < te + ee" "rule_used m n" "0 < n" "n \<noteq> te"
    using live_used [OF rule_part0I [OF rp] n] by auto
  have bij: "n \<noteq> 0" "i < te + ee" "indx_ent m i = n" using ip n i by (auto simp: indx_part_def)
  then show "i < te + ee" "indx_ent m i = n" by simp_all
  show "i \<noteq> te" using chains_unused [OF chi] bij by metis
  show "te \<le> n \<Longrightarrow> rule_prv m n < te + ee \<and> rule_prv m n \<noteq> n"
    "te \<le> n \<Longrightarrow> rule_nxt m n \<noteq> 0 \<Longrightarrow> te < rule_nxt m n \<and> rule_nxt m n < te + ee \<and> rule_nxt m n \<noteq> n"
    using chains_neighbours [OF ch _ sl(1,2)] sl(4) by simp_all
  have it: "te \<le> i \<Longrightarrow> te < i" using \<open>i \<noteq> te\<close> by simp
  show "te \<le> i \<Longrightarrow> indx_prv te meta i < te + ee \<and> indx_prv te meta i \<noteq> i"
    using chains_neighbours(2,3) [OF chi it bij(2)] bij(1,3) by simp
  have j: "te < indx_nxt m i \<and> indx_nxt m i < te + ee \<and> indx_nxt m i \<noteq> i \<and> indx_ent m (indx_nxt m i) \<noteq> 0"
    if "indx_nxt m i \<noteq> 0"
  proof (cases "te \<le> i")
    case True
    then show ?thesis using chains_neighbours(1) [OF chi it bij(2)] bij(1,3) that by simp
  next
    case False
    then show ?thesis using chains_next_base [OF chi _ that] by simp
  qed
  then show "indx_nxt m i \<noteq> 0 \<Longrightarrow> te < indx_nxt m i \<and> indx_nxt m i < te + ee \<and> indx_nxt m i \<noteq> i" by blast
  show "indx_ent m (indx_nxt m i) \<in> live te ee m \<and> indx_ent m (indx_nxt m i) < te + ee \<and>
      rule_idx m (indx_ent m (indx_nxt m i)) = indx_nxt m i" if nz: "indx_nxt m i \<noteq> 0"
  proof -
    have "indx_ent m (indx_nxt m i) \<in> live te ee m" "rule_idx m (indx_ent m (indx_nxt m i)) = indx_nxt m i"
      using ip j [OF nz] by (auto simp: indx_part_def)
    then show ?thesis using live_used [OF rule_part0I [OF rp]] by blast
  qed
  show "indx_nxt m i \<noteq> 0 \<Longrightarrow> indx_nxt m (indx_nxt m i) \<noteq> 0 \<Longrightarrow>
        te < indx_nxt m (indx_nxt m i) \<and> indx_nxt m (indx_nxt m i) < te + ee"
    using chains_neighbours(1) [OF chi] j by blast
qed

definition del_result :: "nat \<Rightarrow> nat \<Rightarrow> nat list \<Rightarrow> nat_mem \<Rightarrow> nat list \<times> nat_mem" where
  "del_result te n meta m =
     (let i = rule_idx m n; pv = indx_prv te meta i
      in indx_fix te i (indx_nxt m i) pv meta (rule_fix te n (rule_dma te n (indx_dma te i pv m))))"

lemma at_rule_fix [simp]: "indx_at (rule_fix te n m) = indx_at m"
  by (simp add: rule_fix_def)

lemma mem_shape_rule_fix [simp]: "mem_shape te ee (rule_fix k n m) = mem_shape te ee m"
  by (simp add: rule_fix_def)

text \<open>What the fixups read after the DMA writes.\<close>

lemma indx_dma_reads:
  assumes sh: "mem_shape te ee m" and i: "i < te + ee" and pv: "te \<le> i \<Longrightarrow> pv < te + ee \<and> pv \<noteq> i"
    and nx: "indx_nxt m i \<noteq> 0 \<Longrightarrow> indx_nxt m i \<noteq> i"
  shows "te \<le> i \<Longrightarrow> indx_nxt (indx_dma te i pv m) i = indx_nxt m i"
    "\<not> te \<le> i \<Longrightarrow> indx_nxt m i \<noteq> 0 \<Longrightarrow> indx_ent (indx_dma te i pv m) i = indx_ent m (indx_nxt m i)"
    "\<not> te \<le> i \<Longrightarrow> indx_nxt m i \<noteq> 0 \<Longrightarrow> indx_at (indx_dma te i pv m) (indx_nxt m i) = indx_at m (indx_nxt m i)"
  using assms by (simp_all add: indx_dma_def indx_at_upd_indx [where te = te and ee = ee])

lemma rule_dma_reads:
  assumes sh: "mem_shape te ee m" and n: "n < te + ee" and pv: "te \<le> n \<Longrightarrow> rule_prv m n < te + ee \<and> rule_prv m n \<noteq> n"
  shows "rule_nxt (rule_dma te n m) n = rule_nxt m n" "rule_prv (rule_dma te n m) n = rule_prv m n"
  using assms by (auto simp: rule_dma_def rule_at_upd_rule [where te = te and ee = ee])

lemma post_del_spec:
  assumes env: "env_ok env" and tp: "tbl_parts t m meta ids C D" and te: "te = table_entries t" "ee = expn_table_entries t"
    and n: "n \<in> live te ee m"
  shows "ipa_nati_post_del_dma_cmd env idx (entry_of te n) (te \<le> n) (pos_of te n (rule_nxt m n)) t =
    Some (0, t\<lparr>tbl_mem := Some (snd (del_result te n meta m)),
               index_expn_table_meta := Some (fst (del_result te n meta m))\<rparr>)"
proof -
  define i where i: "i = rule_idx m n"
  note lf = live_facts [OF tp te n i] and sz = tp_sizes [OF tp, folded te] and sh = tp_shape [OF tp, folded te]
    and st = tp_state [OF tp] and lm = tp_meta [OF tp, folded te]
  have ok: "sizes_ok te ee" using sz by (simp add: sizes_ok_def)
  define pv where pv: "pv = indx_prv te meta i"
  let ?rc = "del_rule_cmd t idx (entry_of te n) (rule_at m n) (pos_of te n (rule_nxt m n))"
  obtain cs where cs: "del_indx_cmds t m idx i (pos_of te i (indx_nxt m i)) = Some cs" "cs \<noteq> []"
    "\<And>c. c \<in> set cs \<Longrightarrow> dma_in_range m c \<and> is_indx_cmd c"
    "\<And>m'. mem_shape te ee m' \<Longrightarrow> indx_at m' = indx_at m \<Longrightarrow> fold dma_write cs m' = indx_dma te i pv m'"
    using del_indx_cmds_spec [OF sh ok te(1) [symmetric] st(2,4) lm, of i idx] lf pv by blast
  have rc: "dma_in_range m ?rc" "\<not> is_indx_cmd ?rc"
    "\<And>m'. mem_shape te ee m' \<Longrightarrow> rule_at m' = rule_at m \<Longrightarrow> dma_write ?rc m' = rule_dma te n m'"
    using del_rule_cmd_spec [OF sh ok te(1) [symmetric] st(2) lf(1)] lf(8) by simp_all
  let ?m1 = "indx_dma te i pv m"
  let ?m2 = "rule_dma te n ?m1"
  let ?m3 = "rule_fix te n ?m2"
  note dma = del_dma [OF env sh rc cs(2-4)]
  have n1: "rule_nxt ?m1 n = rule_nxt m n" "rule_prv ?m1 n = rule_prv m n" by simp_all
  have n2: "rule_nxt ?m2 n = rule_nxt m n"
    using rule_dma_reads(1) [of te ee ?m1 n] sh lf(1,8) by simp
  have sh2: "mem_shape te ee ?m2" and sh3: "mem_shape te ee ?m3" using sh by simp_all
  have fix1: "del_rule_fixup te (entry_of te n) (te \<le> n) (pos_of te n (rule_nxt m n)) ?m2 = Some ?m3"
    using del_rule_fixup_spec [OF sh2 ok lf(1)] lf(9) n2 by simp
  have i3: "indx_at ?m3 = indx_at ?m1" by simp
  note reads = indx_dma_reads [OF sh lf(5), of pv]
  have fix2: "(if pos_of te i (indx_nxt m i) = IPA_NAT_DEL_TYPE_HEAD
      then do { w \<leftarrow> rd (index_table m) i;
                del_indx_fixup_head te i (sub16 (unat (Read16BitFieldValue w INDX_TBL_NEXT_INDEX_FILED)) te) (Some meta) ?m3 }
      else del_indx_fixup_other te (te \<le> i) (if te \<le> i then sub16 i te else i) (pos_of te i (indx_nxt m i)) (Some meta) ?m3)
    = Some (apfst Some (indx_fix te i (indx_nxt m i) pv meta ?m3))"
  proof (cases "te \<le> i \<or> indx_nxt m i = 0")
    case True
    have "del_indx_fixup_other te (te \<le> i) (if te \<le> i then sub16 i te else i) (pos_of te i (indx_nxt m i)) (Some meta) ?m3
        = Some (apfst Some (indx_fix te i (indx_nxt m i) pv meta ?m3))"
      using del_indx_fixup_other_spec [OF sh3 ok lf(5) lm True, folded pv] reads(1) lf(10,11)
      by (simp add: i3 pv [symmetric])
    moreover have "pos_of te i (indx_nxt m i) \<noteq> IPA_NAT_DEL_TYPE_HEAD" using True by (auto simp: pos_of_def)
    ultimately show ?thesis by simp
  next
    case False
    then have ib: "i < te" "indx_nxt m i \<noteq> 0" by auto
    have r: "indx_ent ?m3 i = indx_ent m (indx_nxt m i)" "indx_nxt ?m3 (indx_nxt m i) = indx_nxt m (indx_nxt m i)"
      using reads(2,3) lf(11) ib by (simp_all add: i3)
    have "del_indx_fixup_head te i (sub16 (indx_nxt m i) te) (Some meta) ?m3
        = Some (apfst Some (indx_fix te i (indx_nxt m i) pv meta ?m3))"
      using lf(11,12,13) ib r by (intro del_indx_fixup_head_spec [OF sh3 ok ib(1) lm]) simp_all
    then show ?thesis using ib rd_rule_at(2) [OF sh ib(1)] by (simp add: pos_of_def read_folds)
  qed
  have r: "rd (if te \<le> n then ipv4_expn_rules m else ipv4_rules m) (entry_of te n) = Some (rule_at m n)"
    by (rule rd_slot(1) [OF sh lf(1)])
  have mal: "malloc_ok env ALLOC_DELETE" using env by (simp add: env_ok_def)
  have res: "del_result te n meta m = indx_fix te i (indx_nxt m i) pv meta ?m3"
    by (simp add: del_result_def Let_def i pv)
  show ?thesis
    unfolding res
    by (simp only: ipa_nati_post_del_dma_cmd_def mal not_True_eq_False if_False st(3) te(1) [symmetric] Let_def
        bind.bind_lunit r read_folds lf(2) i [symmetric] find_index_rule_pos_spec [OF sh lf(5) ok] cs(1) dma
        prod.case simp_thms if_False if_True fix1 fix2 [unfolded read_folds] st(4) apfst_def map_prod_def case_prod_beta fst_conv snd_conv id_apply)
qed

text \<open>The rule arrays and the index arrays after the direct writes, slot by slot.\<close>

lemma rule_at_fixed:
  assumes sh: "mem_shape te ee m" and n: "n < te + ee" "te \<le> n \<Longrightarrow> rule_prv m n < te + ee \<and> rule_prv m n \<noteq> n"
    "te \<le> n \<Longrightarrow> rule_nxt m n \<noteq> 0 \<Longrightarrow> te < rule_nxt m n \<and> rule_nxt m n < te + ee \<and> rule_nxt m n \<noteq> n"
  shows "rule_at (rule_fix te n (rule_dma te n m)) =
    (if te \<le> n then
       (let R = (rule_at m)(rule_prv m n := write16_rule 8 (of_nat (rule_nxt m n)) (rule_at m (rule_prv m n)))
        in (if rule_nxt m n = 0 then R else R(rule_nxt m n := set_rule_prev (rule_prv m n) (R (rule_nxt m n))))(n := zero_rule))
     else if rule_nxt m n = 0 then (rule_at m)(n := zero_rule)
     else (rule_at m)(n := write16_rule 22 0xFF00 (rule_at m n)))"
proof (cases "te \<le> n")
  case False
  then show ?thesis
    using sh n(1) by (auto simp: rule_fix_def rule_dma_def rule_at_upd_rule [where te = te and ee = ee] fun_eq_iff)
next
  case True
  note p = n(2) [OF True] and x = n(3) [OF True]
  note r = rule_dma_reads [OF sh n(1,2)]
  have d: "rule_at (rule_dma te n m) =
      (rule_at m)(rule_prv m n := write16_rule 8 (of_nat (rule_nxt m n)) (rule_at m (rule_prv m n)))"
    using True p sh by (simp add: rule_dma_def rule_at_upd_rule [where te = te and ee = ee])
  have f: "rule_fix te n (rule_dma te n m) = upd_rule n (\<lambda>_. zero_rule)
      (if rule_nxt m n = 0 then rule_dma te n m else upd_rule (rule_nxt m n) (set_rule_prev (rule_prv m n)) (rule_dma te n m))"
    using True by (simp add: rule_fix_def r)
  show ?thesis
    using True sh x n(1)
    by (simp add: f rule_at_upd_rule [where te = te and ee = ee] d Let_def del: fun_upd_apply)
qed

lemma rule_after_del:
  assumes sh: "mem_shape te ee m" and sz: "sizes_ok te ee"
    and n: "n < te + ee" "te \<le> n \<longrightarrow> rule_prv m n < te + ee \<and> rule_prv m n \<noteq> n"
    "te \<le> n \<and> rule_nxt m n \<noteq> 0 \<longrightarrow> te < rule_nxt m n \<and> rule_nxt m n < te + ee \<and> rule_nxt m n \<noteq> n"
  defines "m' \<equiv> rule_fix te n (rule_dma te n m)"
  shows "rule_used m' k = (rule_used m k \<and> \<not> (k = n \<and> (te \<le> n \<or> rule_nxt m n = 0)))"
    "rule_nxt m' k = (if te \<le> n then ((rule_nxt m)(rule_prv m n := rule_nxt m n, n := 0)) k else rule_nxt m k)"
    "te < k \<Longrightarrow> k \<noteq> n \<Longrightarrow> rule_prv m' k =
       (if te \<le> n \<and> k = rule_nxt m n then rule_prv m n else rule_prv m k)"
    "k \<noteq> n \<Longrightarrow> rule_key m' k = rule_key m k" "k \<noteq> n \<Longrightarrow> rule_idx m' k = rule_idx m k"
    "\<not> te \<le> n \<Longrightarrow> rule_nxt m n \<noteq> 0 \<Longrightarrow> dead_proto (rule_key m' n)"
proof -
  have r: "rule_at m' =
    (if te \<le> n then
       (let R = (rule_at m)(rule_prv m n := write16_rule 8 (of_nat (rule_nxt m n)) (rule_at m (rule_prv m n)))
        in (if rule_nxt m n = 0 then R else R(rule_nxt m n := set_rule_prev (rule_prv m n) (R (rule_nxt m n))))(n := zero_rule))
     else if rule_nxt m n = 0 then (rule_at m)(n := zero_rule)
     else (rule_at m)(n := write16_rule 22 0xFF00 (rule_at m n)))"
    unfolding m'_def by (rule rule_at_fixed [OF sh n(1)]) (use n in blast)+
  show "rule_used m' k = (rule_used m k \<and> \<not> (k = n \<and> (te \<le> n \<or> rule_nxt m n = 0)))"
    using n by (auto simp: r Let_def)
  show "rule_nxt m' k = (if te \<le> n then ((rule_nxt m)(rule_prv m n := rule_nxt m n, n := 0)) k else rule_nxt m k)"
    using n by (auto simp: r Let_def)
  show "te < k \<Longrightarrow> k \<noteq> n \<Longrightarrow> rule_prv m' k =
       (if te \<le> n \<and> k = rule_nxt m n then rule_prv m n else rule_prv m k)"
    using n by (auto simp: r Let_def)
  show "k \<noteq> n \<Longrightarrow> rule_key m' k = rule_key m k" "k \<noteq> n \<Longrightarrow> rule_idx m' k = rule_idx m k"
    using n by (auto simp: r Let_def)
  show "\<not> te \<le> n \<Longrightarrow> rule_nxt m n \<noteq> 0 \<Longrightarrow> dead_proto (rule_key m' n)"
    by (simp add: r)
qed

lemma indx_after_del:
  fixes meta :: "nat list"
  assumes sh: "mem_shape te ee m" and i: "i < te + ee" "i \<noteq> te"
    "te \<le> i \<longrightarrow> pv < te + ee \<and> pv \<noteq> i"
    "indx_nxt m i \<noteq> 0 \<longrightarrow> te < indx_nxt m i \<and> indx_nxt m i < te + ee \<and> indx_nxt m i \<noteq> i"
  assumes m3: "mem_shape te ee m3" "indx_at m3 = indx_at (indx_dma te i pv m)"
  defines "m' \<equiv> snd (indx_fix te i (indx_nxt m i) pv meta m3)"
  shows "mem_shape te ee m'"
    "te \<le> i \<or> indx_nxt m i = 0 \<Longrightarrow> rule_at m' = rule_at m3"
    "te \<le> i \<or> indx_nxt m i = 0 \<Longrightarrow> indx_ent m' k = ((indx_ent m)(i := 0)) k"
    "te \<le> i \<Longrightarrow> indx_nxt m' k = ((indx_nxt m)(pv := indx_nxt m i, i := 0)) k"
    "\<not> te \<le> i \<Longrightarrow> indx_nxt m i = 0 \<Longrightarrow> indx_nxt m' k = indx_nxt m k"
    "\<not> te \<le> i \<Longrightarrow> indx_nxt m i \<noteq> 0 \<Longrightarrow>
       indx_ent m' k = ((indx_ent m)(i := indx_ent m (indx_nxt m i), indx_nxt m i := 0)) k"
    "\<not> te \<le> i \<Longrightarrow> indx_nxt m i \<noteq> 0 \<Longrightarrow>
       indx_nxt m' k = ((indx_nxt m)(i := indx_nxt m (indx_nxt m i), indx_nxt m i := 0)) k"
    "\<not> te \<le> i \<Longrightarrow> indx_nxt m i \<noteq> 0 \<Longrightarrow> indx_ent m (indx_nxt m i) < te + ee \<Longrightarrow>
       rule_at m' = (rule_at m3)(indx_ent m (indx_nxt m i) := set_rule_indx i (rule_at m3 (indx_ent m (indx_nxt m i))))"
proof -
  have x: "indx_at m3 = (if te \<le> i then (indx_at m)(pv := write16_indx 2 (of_nat (indx_nxt m i)) (indx_at m pv))
      else if indx_nxt m i = 0 then (indx_at m)(i := write16_indx 0 0 (indx_at m i))
      else (indx_at m)(i := write16_indx 2 (of_nat (indx_nxt m (indx_nxt m i)))
             (write16_indx 0 (of_nat (indx_ent m (indx_nxt m i))) (indx_at m i))))"
    unfolding m3(2) using sh i by (simp add: indx_dma_def indx_at_upd_indx [where te = te and ee = ee])
  note u = m'_def indx_fix_def indx_at_upd_indx [OF m3(1)] x
  show "mem_shape te ee m'" using m3(1) by (simp add: u)
  show "te \<le> i \<or> indx_nxt m i = 0 \<Longrightarrow> rule_at m' = rule_at m3" by (auto simp: u)
  show "te \<le> i \<or> indx_nxt m i = 0 \<Longrightarrow> indx_ent m' k = ((indx_ent m)(i := 0)) k"
    using i by (auto simp: u)
  show "te \<le> i \<Longrightarrow> indx_nxt m' k = ((indx_nxt m)(pv := indx_nxt m i, i := 0)) k"
    using i by (auto simp: u)
  show "\<not> te \<le> i \<Longrightarrow> indx_nxt m i = 0 \<Longrightarrow> indx_nxt m' k = indx_nxt m k"
    using i by (auto simp: u)
  show "\<not> te \<le> i \<Longrightarrow> indx_nxt m i \<noteq> 0 \<Longrightarrow>
       indx_ent m' k = ((indx_ent m)(i := indx_ent m (indx_nxt m i), indx_nxt m i := 0)) k"
    "\<not> te \<le> i \<Longrightarrow> indx_nxt m i \<noteq> 0 \<Longrightarrow>
       indx_nxt m' k = ((indx_nxt m)(i := indx_nxt m (indx_nxt m i), indx_nxt m i := 0)) k"
    using i by (auto simp: u)
  show "\<not> te \<le> i \<Longrightarrow> indx_nxt m i \<noteq> 0 \<Longrightarrow> indx_ent m (indx_nxt m i) < te + ee \<Longrightarrow>
       rule_at m' = (rule_at m3)(indx_ent m (indx_nxt m i) := set_rule_indx i (rule_at m3 (indx_ent m (indx_nxt m i))))"
    using i m3(1) by (simp add: u rule_at_upd_rule [where te = te and ee = ee])
qed

lemma del_keeps_parts:
  assumes tp: "tbl_parts t m meta ids C D" and te: "te = table_entries t" "ee = expn_table_entries t"
    and n: "n \<in> live te ee m"
  defines "M \<equiv> snd (del_result te n meta m)" and "meta' \<equiv> fst (del_result te n meta m)"
  shows "mem_shape te ee M" "length meta' = ee"
    "k \<noteq> n \<Longrightarrow> rule_key M k = rule_key m k"
    "\<exists>C'. rule_part0 te ee (rule_used M) (rule_nxt M) (rule_prv M) (rule_key M) (live te ee m - {n}) C'"
    "\<exists>D'. indx_part te ee (indx_ent M) (indx_nxt M) (indx_prv te meta') (rule_idx M) (rule_key M) (live te ee m - {n}) D'"
proof -
  define i where i: "i = rule_idx m n"
  note lf = live_facts [OF tp te n i] and sz = tp_sizes [OF tp, folded te] and sh = tp_shape [OF tp, folded te]
    and lm = tp_meta [OF tp, folded te] and rp = tp_rules [OF tp, folded te] and ip = tp_indx [OF tp, folded te]
  have ok: "sizes_ok te ee" using sz by (simp add: sizes_ok_def)
  define pv where pv: "pv = indx_prv te meta i"
  define m1 where m1: "m1 = indx_dma te i pv m"
  define m3 where m3: "m3 = rule_fix te n (rule_dma te n m1)"
  let ?nx = "indx_nxt m i"
  have sh1: "mem_shape te ee m1" and sh3: "mem_shape te ee m3" and r1: "rule_at m1 = rule_at m"
    and x3: "indx_at m3 = indx_at (indx_dma te i pv m)"
    using sh by (simp_all add: m1 m3)
  have M: "M = snd (indx_fix te i ?nx pv meta m3)" and meta': "meta' = fst (indx_fix te i ?nx pv meta m3)"
    by (simp_all add: M_def meta'_def del_result_def Let_def i pv m1 m3)
  have nbr: "te \<le> n \<longrightarrow> rule_prv m n < te + ee \<and> rule_prv m n \<noteq> n"
    "te \<le> n \<and> rule_nxt m n \<noteq> 0 \<longrightarrow> te < rule_nxt m n \<and> rule_nxt m n < te + ee \<and> rule_nxt m n \<noteq> n"
    "te \<le> i \<longrightarrow> pv < te + ee \<and> pv \<noteq> i" "?nx \<noteq> 0 \<longrightarrow> te < ?nx \<and> ?nx < te + ee \<and> ?nx \<noteq> i"
    using lf(8-11) by (simp_all add: pv)
  note RA = rule_after_del [OF sh1 ok lf(1), unfolded r1, OF nbr(1,2), folded m3]
  note IA = indx_after_del [OF sh lf(5,7) nbr(3,4) sh3 x3, of meta, folded M]
  have nn: "indx_nxt m3 ?nx = indx_nxt m ?nx" if "\<not> te \<le> i" "?nx \<noteq> 0"
    using indx_dma_reads(3) [of te ee m i pv, OF sh lf(5) _ _ that] nbr(3,4) by (simp add: x3)
  have nn': "indx_nxt m3 ?nx \<noteq> 0 \<Longrightarrow> te < indx_nxt m3 ?nx \<and> indx_nxt m3 ?nx < te + ee"
    if "\<not> te \<le> i" "?nx \<noteq> 0" using nn [OF that] lf(13) that by simp
  show "mem_shape te ee M" by (rule IA(1))
  show len: "length meta' = ee" using lm by (simp add: meta' indx_fix_def)
  have moved: "rule_used M k = rule_used m3 k" "rule_nxt M k = rule_nxt m3 k" "rule_prv M k = rule_prv m3 k"
    "rule_key M k = rule_key m3 k"
    "rule_idx M k = (if \<not> te \<le> i \<and> ?nx \<noteq> 0 \<and> k = indx_ent m ?nx then i else rule_idx m3 k)" for k
    using IA(2,8) lf(12) lf(5) ok by (cases "te \<le> i \<or> ?nx = 0"; auto simp: sizes_ok_def)+
  show key: "k \<noteq> n \<Longrightarrow> rule_key M k = rule_key m k" for k by (simp add: moved RA(4))
  have un: "\<not> rule_used M te"
    using chains_unused [OF rule_part_chains [OF rp]] by (simp add: moved RA(1))
  have unx: "indx_ent M te = 0"
  proof -
    have "indx_ent m te = 0" "te \<noteq> i" using chains_unused [OF indx_part_chains [OF ip]] lf(7) by auto
    then show ?thesis using IA(3,6) [of te] lf(11) by (cases "te \<le> i \<or> ?nx = 0") auto
  qed
  show "\<exists>C'. rule_part0 te ee (rule_used M) (rule_nxt M) (rule_prv M) (rule_key M) (live te ee m - {n}) C'"
  proof -
    note rp0 = rule_part0I [OF rp]
    consider (expn) "te \<le> n" | (only) "n < te" "rule_nxt m n = 0" | (head) "n < te" "rule_nxt m n \<noteq> 0"
      by linarith
    then show ?thesis
    proof cases
      case expn
      then show ?thesis
        by (intro rule_part0_del_expn [OF rp0 n]) (use un in \<open>auto simp: moved RA(1-4)\<close>)
    next
      case only
      then have "rule_part0 te ee (rule_used M) (rule_nxt M) (rule_prv M) (rule_key M) (live te ee m - {n}) C"
        by (intro rule_part0_del_only [OF rp0 n]) (use un in \<open>auto simp: moved RA(1-4)\<close>)
      then show ?thesis by blast
    next
      case head
      then have "rule_part0 te ee (rule_used M) (rule_nxt M) (rule_prv M) (rule_key M) (live te ee m - {n}) C"
        using RA(6) by (intro rule_part0_del_head [OF rp0 n]) (use un in \<open>auto simp: moved RA(1-4)\<close>)
      then show ?thesis by blast
    qed
  qed
  have e_ne: "indx_ent m ?nx \<noteq> n" if "?nx \<noteq> 0" using lf(12) lf(11) that i by metis
  show "\<exists>D'. indx_part te ee (indx_ent M) (indx_nxt M) (indx_prv te meta') (rule_idx M) (rule_key M) (live te ee m - {n}) D'"
  proof -
    have idx: "rule_idx M k = (if \<not> te \<le> i \<and> ?nx \<noteq> 0 \<and> k = indx_ent m ?nx then i else rule_idx m k)" if "k \<noteq> n" for k
      using RA(5) [OF that] by (simp add: moved(5))
    consider (expn) "te \<le> i" | (only) "i < te" "?nx = 0" | (head) "i < te" "?nx \<noteq> 0" by linarith
    then show ?thesis
    proof cases
      case expn
      have "indx_prv te meta' k = (if k = ?nx then indx_prv te meta i else indx_prv te meta k)"
        if "te < k" "k < te + ee" "k \<noteq> i" for k
        using that expn lm lf(5) lf(11) by (auto simp: meta' indx_fix_def indx_prv_def nth_list_update pv)
      then show ?thesis
        by (intro indx_part_del_expn [OF ip n i expn])
          (use expn unx idx key IA(3,4) in \<open>auto simp: pv\<close>)
    next
      case only
      then have "indx_part te ee (indx_ent M) (indx_nxt M) (indx_prv te meta') (rule_idx M) (rule_key M) (live te ee m - {n}) D"
        by (intro indx_part_del_only [OF ip n i])
          (use unx idx key IA(3,5) in \<open>auto simp: meta' indx_fix_def\<close>)
      then show ?thesis by blast
    next
      case head
      then have nt: "\<not> te \<le> i" by simp
      have "indx_prv te meta' k = (if k = indx_nxt m ?nx then i else indx_prv te meta k)"
        if "te < k" "k < te + ee" for k
        using that head nn [OF nt head(2)] nn' [OF nt head(2)] lm
        by (auto simp: meta' indx_fix_def indx_prv_def nth_list_update)
      then show ?thesis
        using nt by (intro indx_part_del_head [OF ip n i head(1) refl head(2)])
          (use head unx idx key IA(6,7) in auto)
    qed
  qed
qed

section \<open>The sweep of dead heads\<close>

definition swept :: "nat \<Rightarrow> nat_mem \<Rightarrow> nat_mem" where
  "swept te m = m\<lparr>ipv4_rules := map del_dead_node (take te (ipv4_rules m)) @ drop te (ipv4_rules m)\<rparr>"

lemma sweep_spec:
  assumes "tbl_mem t = Some m" "table_entries t = te" "mem_shape te ee m"
  shows "ipa_nati_del_dead_ipv4_head_nodes t = Some (t\<lparr>tbl_mem := Some (swept te m)\<rparr>)"
    "mem_shape te ee (swept te m)" "indx_at (swept te m) = indx_at m"
    "rule_at (swept te m) k = (if k < te then del_dead_node (rule_at m k) else rule_at m k)"
  using assms
  by (auto simp: ipa_nati_del_dead_ipv4_head_nodes_def swept_def mem_shape_def indx_at_def rule_at_def fun_eq_iff)

lemma dead_head_iff: "dead_head r \<longleftrightarrow> rule_proto r = 0xFF \<and> rule_next r = 0"
  by (simp add: dead_head_def read_folds rule_proto_def)

lemma indx_part_cong:
  assumes ip: "indx_part te ee ent inxt iprv idx key L D" and "\<And>k. k \<in> L \<Longrightarrow> idx' k = idx k \<and> key' k = key k"
  shows "indx_part te ee ent inxt iprv idx' key' L D"
  using assms unfolding indx_part_def by (metis (no_types, lifting))

lemma sweep_keeps_parts:
  assumes rp: "rule_part0 te ee (rule_used m) (rule_nxt m) (rule_prv m) (rule_key m) L C"
    and ip: "indx_part te ee (indx_ent m) (indx_nxt m) iprv (rule_idx m) (rule_key m) L D"
    and sh: "mem_shape te ee m"
  shows "rule_part te ee (rule_used (swept te m)) (rule_nxt (swept te m)) (rule_prv (swept te m)) (rule_key (swept te m)) L C"
    "indx_part te ee (indx_ent (swept te m)) (indx_nxt (swept te m)) iprv (rule_idx (swept te m)) (rule_key (swept te m)) L D"
    "k \<in> L \<Longrightarrow> rule_key (swept te m) k = rule_key m k"
proof -
  have s: "rule_at (swept te m) k = (if k < te then del_dead_node (rule_at m k) else rule_at m k)" for k
    using sh by (auto simp: swept_def mem_shape_def rule_at_def)
  have x: "indx_at (swept te m) = indx_at m" by (simp add: fun_eq_iff indx_at_def swept_def)
  have live: "rule_at (swept te m) k = rule_at m k" if "k \<in> L" for k
    using rp that by (auto simp: rule_part0_def s del_dead_node_def dead_head_iff)
  then show "k \<in> L \<Longrightarrow> rule_key (swept te m) k = rule_key m k" for k by simp
  have "chains te ee (rule_used m) (rule_nxt m) (rule_prv m) C" using rp by (simp add: rule_part0_def)
  then have u: "\<not> rule_used m te" using chains_unused by blast
  show "rule_part te ee (rule_used (swept te m)) (rule_nxt (swept te m)) (rule_prv (swept te m)) (rule_key (swept te m)) L C"
    by (rule rule_part_sweep [OF rp]) (use u in \<open>auto simp: s del_dead_node_def dead_head_iff\<close>)
  show "indx_part te ee (indx_ent (swept te m)) (indx_nxt (swept te m)) iprv (rule_idx (swept te m)) (rule_key (swept te m)) L D"
    using indx_part_cong [OF ip] live by (simp add: x)
qed

section \<open>The whole operation\<close>

lemma rules_of_Some:
  assumes tp: "tbl_parts t m meta ids C D" and te: "te = table_entries t" "ee = expn_table_entries t"
    and r: "rules_of t h = Some r"
  shows "0 < h" "h < te + ee" "ids ! (h - 1) \<noteq> 0" "slot_of te (ids ! (h - 1)) \<in> live te ee m"
    "odd (ids ! (h - 1)) \<longleftrightarrow> te \<le> slot_of te (ids ! (h - 1))" "r = rule_key m (slot_of te (ids ! (h - 1)))"
proof -
  note hp = tp_hdl [OF tp, folded te] and st = tp_state [OF tp]
  show h: "0 < h" "ids ! (h - 1) \<noteq> 0" "r = rule_key m (slot_of te (ids ! (h - 1)))"
    using r by (auto simp: rules_of_def st te split: if_splits)
  have "h \<le> te + ee" using r hdl_len [OF hp] by (auto simp: rules_of_def st te split: if_splits)
  then have "h - 1 < te + ee" using h(1) by linarith
  from hdl_cell [OF hp this h(2)] h(1)
  show "h < te + ee" "slot_of te (ids ! (h - 1)) \<in> live te ee m"
    "odd (ids ! (h - 1)) \<longleftrightarrow> te \<le> slot_of te (ids ! (h - 1))" by auto
qed

lemma parse_hdl_spec:
  assumes tp: "tbl_parts t m meta ids C D" and te: "te = table_entries t" "ee = expn_table_entries t"
    and r: "rules_of t h = Some r"
  defines "n \<equiv> slot_of te (ids ! (h - 1))"
  shows "ipa_nati_parse_ipv4_rule_hdl t h = Some (te \<le> n, entry_of te n)"
proof -
  note ro = rules_of_Some [OF tp te r, folded n_def]
  have len: "length ids = te + ee" using hdl_len [OF tp_hdl [OF tp, folded te]] .
  have "entry_of te n = ids ! (h - 1) div 2"
    using ro(5) by (auto simp: n_def entry_of_def slot_of_def)
  then show ?thesis
    using ro(1,2,5) len tp_state(5) [OF tp] by (simp add: ipa_nati_parse_ipv4_rule_hdl_def te [symmetric])
qed

lemma rules_of_deleted:
  assumes tp: "tbl_parts t m meta ids C D" and te: "te = table_entries t" "ee = expn_table_entries t"
    and r: "rules_of t h = Some r" and n: "n = slot_of te (ids ! (h - 1))"
    and key: "\<And>k. k \<in> live te ee m - {n} \<Longrightarrow> rule_key m' k = rule_key m k"
    and t': "tbl_mem t' = Some m'" "rule_id_array t' = Some (ids[h - 1 := 0])" "table_entries t' = te"
  shows "rules_of t' = (rules_of t)(h := None)"
proof
  fix k
  note hp = tp_hdl [OF tp, folded te] and ro = rules_of_Some [OF tp te r, folded n] and st = tp_state [OF tp]
  have len: "length ids = te + ee" by (rule hdl_len [OF hp])
  show "rules_of t' k = ((rules_of t)(h := None)) k"
  proof (cases "0 < k \<and> k \<le> te + ee")
    case False
    then show ?thesis by (auto simp: rules_of_def t' st len)
  next
    case True
    then have k: "0 < k" "k - 1 < te + ee" by linarith+
    show ?thesis
    proof (cases "k = h")
      case True
      then show ?thesis using ro(1,2) len by (simp add: rules_of_def t')
    next
      case False
      then have ne: "k - 1 \<noteq> h - 1" using k(1) ro(1) by linarith
      then have at: "ids[h - 1 := 0] ! (k - 1) = ids ! (k - 1)" by simp
      have "h - 1 < te + ee" using ro(1,2) by linarith
      then have "slot_of te (ids ! (k - 1)) \<in> live te ee m - {n}" if "ids ! (k - 1) \<noteq> 0"
        using hdl_cell [OF hp k(2) that] hdl_inj [OF hp k(2) _ that ro(3)] n ne by blast
      then show ?thesis
        using False at key True by (auto simp: rules_of_def t' st len te [symmetric])
    qed
  qed
qed

lemma del_rule_spec:
  assumes env: "env_ok env" and inv: "tbl_inv t" and tb: "ip4_tbl c = [t]" and r: "rules_of t h = Some r"
  shows "\<exists>t'. ipa_nati_del_ipv4_rule env 1 h c = Some (0, c\<lparr>ip4_tbl := [t']\<rparr>) \<and> tbl_inv t' \<and>
    rules_of t' = (rules_of t)(h := None) \<and> table_entries t' = table_entries t \<and>
    expn_table_entries t' = expn_table_entries t \<and> public_addr t' = public_addr t"
proof -
  obtain m meta ids C D where tp: "tbl_parts t m meta ids C D" using inv by (auto simp: tbl_inv_def)
  define te ee where te: "te = table_entries t" "ee = expn_table_entries t"
  note sz = tp_sizes [OF tp, folded te] and sh = tp_shape [OF tp, folded te] and st = tp_state [OF tp]
    and hp = tp_hdl [OF tp, folded te]
  define n where n: "n = slot_of te (ids ! (h - 1))"
  note ro = rules_of_Some [OF tp te r, folded n]
  note lf = live_facts [OF tp te ro(4) refl]
  define M meta' where M: "M = snd (del_result te n meta m)" and meta': "meta' = fst (del_result te n meta m)"
  note kp = del_keeps_parts [OF tp te ro(4), folded M meta']
  obtain C' where C': "rule_part0 te ee (rule_used M) (rule_nxt M) (rule_prv M) (rule_key M) (live te ee m - {n}) C'"
    using kp(4) by blast
  obtain D' where D': "indx_part te ee (indx_ent M) (indx_nxt M) (indx_prv te meta') (rule_idx M) (rule_key M) (live te ee m - {n}) D'"
    using kp(5) by blast
  let ?S = "swept te M"
  note sw = sweep_keeps_parts [OF C' D' kp(1)]
  let ?t1 = "t\<lparr>tbl_mem := Some M, index_expn_table_meta := Some meta'\<rparr>"
  let ?t3 = "?t1\<lparr>tbl_mem := Some ?S, rule_id_array := Some (ids[h - 1 := 0])\<rparr>"
  have len: "length ids = te + ee" by (rule hdl_len [OF hp])
  have h16: "trunc16 h = h" using ro(2) sz by simp
  have e0: "entry_of te n \<noteq> 0" using lf(3,4) by (auto simp: entry_of_def)
  have pos: "ipa_nati_find_rule_pos m (te \<le> n) (entry_of te n) = Some (pos_of te n (rule_nxt m n))"
    by (rule find_rule_pos_spec [OF sh lf(1)])
  have post: "ipa_nati_post_del_dma_cmd env 0 (entry_of te n) (te \<le> n) (pos_of te n (rule_nxt m n)) t = Some (0, ?t1)"
    unfolding M meta' by (rule post_del_spec [OF env tp te ro(4)])
  have sweep: "ipa_nati_del_dead_ipv4_head_nodes ?t1 = Some (?t1\<lparr>tbl_mem := Some ?S\<rparr>)"
    by (rule sweep_spec(1) [OF _ _ kp(1)]) (simp_all add: te)
  have h0: "hdl_index (Suc 0) = 0" by (simp add: hdl_index_def)
  have "ipa_nati_del_ipv4_rule env 1 h c = Some (0, c\<lparr>ip4_tbl := [?t3]\<rparr>)"
    using parse_hdl_spec [OF tp te r, folded n] e0 pos post sweep st ro(1,2) len h16
    by (simp add: ipa_nati_del_ipv4_rule_def Let_def tb h0 put_tbl_def)
  note result = this
  have "live te ee ?S = live te ee m - {n}" using sw(1) by (simp add: rule_part_def)
  moreover have "h - 1 < te + ee" using ro(1,2) by linarith
  note hdl_part_del [OF hp this ro(3), folded n]
  ultimately have "tbl_parts ?t3 ?S meta' (ids[h - 1 := 0]) C' D'"
    using sz st kp(2) sw(1,2) sweep_spec(2) [OF _ _ kp(1), of ?t1]
    by (simp add: tbl_parts_def te [symmetric])
  then have "tbl_inv ?t3" unfolding tbl_inv_def by blast
  moreover have "rules_of ?t3 = (rules_of t)(h := None)"
    by (rule rules_of_deleted [OF tp te r n, of ?S]) (use sw(3) kp(3) te in auto)
  ultimately show ?thesis using result by (intro exI [of _ ?t3]) simp
qed

lemma del_unknown_spec:
  assumes inv: "tbl_inv t" and tb: "ip4_tbl c = [t]" and r: "rules_of t h = None" and h: "0 < h" "h < 65536"
  shows "ipa_nati_del_ipv4_rule env 1 h c = Some (- EINVAL, c)"
proof -
  obtain m meta ids C D where tp: "tbl_parts t m meta ids C D" using inv by (auto simp: tbl_inv_def)
  note st = tp_state [OF tp]
  have len: "length ids = table_entries t + expn_table_entries t" by (rule hdl_len [OF tp_hdl [OF tp]])
  have h0: "hdl_index (Suc 0) = 0" by (simp add: hdl_index_def)
  show ?thesis
  proof (cases "table_entries t + expn_table_entries t \<le> h")
    case True
    then show ?thesis using h by (simp add: ipa_nati_del_ipv4_rule_def Let_def tb h0 ipa_nati_parse_ipv4_rule_hdl_def)
  next
    case False
    then have l: "h - 1 < length ids" using h len by linarith
    then have "ids ! (h - 1) = 0" using r h False len by (auto simp: rules_of_def st split: if_splits)
    then show ?thesis
      using h False l by (simp add: ipa_nati_del_ipv4_rule_def Let_def tb h0 ipa_nati_parse_ipv4_rule_hdl_def st)
  qed
qed

end
