(* ===== verification/Nat_Life.thy ===== *)
theory Nat_Life
  imports Nat_Del_Correct
begin

text \<open>
  The life of a table: a fresh table satisfies the invariant and holds no rules, and the
  operations of a client, as steps on the cache, never leave it.
\<close>

section \<open>A fresh table\<close>

lemma chains_empty: "chains te ee (\<lambda>_. False) (\<lambda>_. 0) prv (\<lambda>_. [])"
  by (rule chainsI) simp_all

lemma chains_all_free:
  assumes "\<And>k. k < te + ee \<Longrightarrow> \<not> used k \<and> nxt k = 0" "\<not> used te"
  shows "chains te ee used nxt prv (\<lambda>_. [])"
  by (rule chains_cong [OF chains_empty [of te ee prv]]) (use assms in auto)

lemma fresh_tbl_parts:
  assumes m: "mem_shape te ee m" "\<And>k. k < te + ee \<Longrightarrow> rule_at m k = zero_rule" "\<And>k. k < te + ee \<Longrightarrow> indx_at m k = 0"
    and sz: "sizes_ok te ee"
    and t: "valid t" "tbl_addr_offset t = 0" "table_entries t = te" "expn_table_entries t = ee" "tbl_mem t = Some m"
      "index_expn_table_meta t = Some (replicate ee 0)" "rule_id_array t = Some (replicate (te + ee) 0)"
  shows "tbl_parts t m (replicate ee 0) (replicate (te + ee) 0) (\<lambda>_. []) (\<lambda>_. [])" "rules_of t = Map.empty"
proof -
  have ee: "0 < ee" using sz by (simp add: sizes_ok_def)
  have L: "live te ee m = {}" using m(2) by (auto simp: live_slots_def)
  have "rule_part te ee (rule_used m) (rule_nxt m) (rule_prv m) (rule_key m) (live te ee m) (\<lambda>_. [])"
    using L m(2) ee by (auto simp: rule_part_def intro!: chains_all_free)
  moreover have "indx_part te ee (indx_ent m) (indx_nxt m) (indx_prv te (replicate ee 0)) (rule_idx m) (rule_key m)
      (live te ee m) (\<lambda>_. [])"
    using L m(3) ee by (auto simp: indx_part_def intro!: chains_all_free)
  moreover have "hdl_part te ee (replicate (te + ee) 0) (live te ee m)" by (simp add: hdl_part_def L)
  ultimately show "tbl_parts t m (replicate ee 0) (replicate (te + ee) 0) (\<lambda>_. []) (\<lambda>_. [])"
    using t m(1) sz by (simp add: tbl_parts_def sizes_ok_def)
  show "rules_of t = Map.empty"
  proof
    fix h show "rules_of t h = None" using t by (cases h) (auto simp: rules_of_def)
  qed
qed

text \<open>
  The kernel that grants what the driver asks for: descriptors, memory at offset 0 and a
  mapping of the two table sizes.
\<close>

definition kernel_ok :: "nat_env \<Rightarrow> bool" where
  "kernel_ok env \<longleftrightarrow>
     (\<forall>s. malloc_ok env s) \<and> 0 \<le> open_ipa env \<and> 0 \<le> open_nat env \<and>
     (\<forall>n. ioctl_alloc_nat_mem env n = (0, 0)) \<and> (\<forall>cmd. ioctl_v4_init_nat env cmd = 0) \<and>
     (\<forall>te ee. \<exists>m. mmap_nat env te ee = Some m \<and> mem_shape te ee m)"

lemma reset_tbl_spec:
  assumes "mem_shape te ee m" "tbl_mem t = Some m" "table_entries t = te" "expn_table_entries t = ee"
  obtains m' where "ipa_nati_reset_tbl t = Some (t\<lparr>tbl_mem := Some m'\<rparr>)" "mem_shape te ee m'"
    "\<And>k. k < te + ee \<Longrightarrow> rule_at m' k = zero_rule" "\<And>k. k < te + ee \<Longrightarrow> indx_at m' k = 0"
proof -
  let ?m = "m\<lparr>ipv4_rules := replicate te zero_rule, ipv4_expn_rules := replicate ee zero_rule,
      index_table := replicate te 0, index_table_expn := replicate ee 0\<rparr>"
  show ?thesis
    by (rule that [of ?m])
      (use assms in \<open>auto simp: ipa_nati_reset_tbl_def clear_slots_def mem_shape_def rule_at_def indx_at_def\<close>)
qed

lemma share_sizes:
  assumes "n \<le> 20480"
  obtains te ee where "GetNearest2Power (if base_share n = 0 then 1 else base_share n) = Some (0, te)"
    "GetNearestEven (expn_share n) = Some ee" "sizes_ok te ee" "base_share n \<le> te" "expn_share n \<le> ee"
proof -
  have b: "base_share n \<le> 16384" "expn_share n \<le> 4096" using assms by (auto simp: base_share_def expn_share_def)
  let ?b = "if base_share n = 0 then 1 else base_share n"
  have "0 < ?b" "?b \<le> 32768" using b by auto
  from GetNearest2Power_correct [OF this] obtain k where
    k: "GetNearest2Power ?b = Some (0, 2 ^ k)" "1 \<le> k" "?b \<le> 2 ^ k" "\<And>j. 1 \<le> j \<Longrightarrow> ?b \<le> 2 ^ j \<Longrightarrow> k \<le> j" by metis
  have "k \<le> 14" by (rule k(4)) (use b in auto)
  then have "(2::nat) ^ k \<le> 2 ^ 14" by (intro power_increasing) auto
  moreover have "(2::nat) ^ 1 \<le> 2 ^ k" using k(2) by (intro power_increasing) auto
  moreover have "GetNearestEven (expn_share n) = Some (if expn_share n < 2 then 2 else expn_share n + expn_share n mod 2)"
    by (rule GetNearestEven_value) (use b in simp)
  ultimately show ?thesis
    using k(1,3) b by (intro that [of "2 ^ k" "if expn_share n < 2 then 2 else expn_share n + expn_share n mod 2"])
      (auto simp: sizes_ok_def split: if_splits)
qed

text \<open>No table: the global cache at the start, and after the deletion of a table.\<close>

definition fresh_cache :: "ipa_nat_cache \<Rightarrow> bool" where
  "fresh_cache c \<longleftrightarrow> ip4_tbl c = [zero_table_cache] \<and> table_cnt c = 0"

lemma fresh_cache_init: "fresh_cache ipv4_nat_cache_init"
  by (simp add: fresh_cache_def ipv4_nat_cache_init_def)

lemma add_tbl_spec:
  assumes env: "kernel_ok env" and n: "n \<le> 20480" and fresh: "fresh_cache c0"
  obtains t c where "ipa_nati_add_ipv4_tbl env ip n c0 = Some (0, 1, c)" "ip4_tbl c = [t]"
    "table_cnt c = 1" "tbl_inv t" "rules_of t = Map.empty" "public_addr t = ip"
    "base_share n \<le> table_entries t" "expn_share n \<le> expn_table_entries t" "\<And>r. \<not> rules_full t r"
proof -
  from share_sizes [OF n] obtain te ee where s:
    "GetNearest2Power (if base_share n = 0 then 1 else base_share n) = Some (0, te)"
    "GetNearestEven (expn_share n) = Some ee" and ok: "sizes_ok te ee" and le: "base_share n \<le> te" "expn_share n \<le> ee"
    by metis
  obtain m where m: "mmap_nat env te ee = Some m" "mem_shape te ee m" using env unfolding kernel_ok_def by blast
  have te: "trunc16 (te + ee) = te + ee" using ok by (simp add: sizes_ok_def)
  have c0: "ip4_tbl c0 = [zero_table_cache]" "table_cnt c0 = 0" using fresh by (simp_all add: fresh_cache_def)
  let ?c = "if ipa_fd c0 = 0 then c0\<lparr>ipa_fd := open_ipa env\<rparr> else c0"
  have c: "ip4_tbl ?c = [zero_table_cache]" "table_cnt ?c = 0" using c0 by simp_all
  have al: "ipa_nati_alloc_table env n c0 =
      Some (0, 32 * (te + ee) + 4 * (te + ee), 0, te, ee, ?c)"
    using env s te by (simp add: ipa_nati_alloc_table_def kernel_ok_def CreateNatDevice_def Let_def)
  let ?t = "zero_table_cache\<lparr>valid := True, public_addr := ip, tbl_size := 32 * (te + ee) + 4 * (te + ee),
      table_entries := te, expn_table_entries := ee, index_expn_table_meta := Some (replicate ee 0),
      rule_id_array := Some (replicate (te + ee) 0), table_name := NAT_DEV_FULL_NAME, nat_fd := open_nat env,
      tbl_mem := Some m\<rparr>"
  have up: "ipa_nati_update_cache env (32 * (te + ee) + 4 * (te + ee)) 0 ip te ee ?c = Some (0, ?c\<lparr>ip4_tbl := [?t]\<rparr>)"
    using env m(1) c
    by (simp add: ipa_nati_update_cache_def kernel_ok_def zero_table_cache_def put_tbl_def Let_def)
  obtain m' where m': "ipa_nati_reset_tbl ?t = Some (?t\<lparr>tbl_mem := Some m'\<rparr>)" "mem_shape te ee m'"
    "\<And>k. k < te + ee \<Longrightarrow> rule_at m' k = zero_rule" "\<And>k. k < te + ee \<Longrightarrow> indx_at m' k = 0"
    by (rule reset_tbl_spec [OF m(2), of ?t]) simp_all
  let ?t' = "?t\<lparr>tbl_mem := Some m'\<rparr>"
  have "ipa_nati_add_ipv4_tbl env ip n c0 = Some (0, 1, ?c\<lparr>ip4_tbl := [?t'], table_cnt := 1\<rparr>)"
    using al up m'(1) env c0
    by (simp add: ipa_nati_add_ipv4_tbl_def ipa_nati_post_ipv4_init_cmd_def kernel_ok_def put_tbl_def Let_def)
  moreover have "tbl_parts ?t' m' (replicate ee 0) (replicate (te + ee) 0) (\<lambda>_. []) (\<lambda>_. [])" "rules_of ?t' = Map.empty"
    by (rule fresh_tbl_parts [OF m'(2-4) ok]; simp add: zero_table_cache_def)+
  moreover from calculation(2) have "tbl_inv ?t'" unfolding tbl_inv_def by blast
  moreover have "\<not> rules_full ?t' r" for r
  proof -
    have te2: "2 \<le> te" "te < 65536" using ok by (simp_all add: sizes_ok_def)
    have "dst_slot te r < te" "src_slot te r < te" using hash_slots [of te r] te2 by simp_all
    then show ?thesis using m'(3,4) by (simp add: rules_full_def rule_slots_full_def indx_slots_full_def)
  qed
  ultimately show ?thesis using le by (intro that [of "?c\<lparr>ip4_tbl := [?t'], table_cnt := 1\<rparr>" ?t']) auto
qed

section \<open>Steps of a client\<close>

text \<open>
  One call on table handle 1. The client never adds a rule of protocol 255, which the driver
  uses to mark dead heads, and passes handles that fit in 16 bits.
\<close>

inductive nat_step :: "nat_env \<Rightarrow> ipa_nat_cache \<Rightarrow> ipa_nat_cache \<Rightarrow> bool" for env where
  add: "ipa_nati_add_ipv4_rule env 1 r c = Some (ret, h, c') \<Longrightarrow> \<not> dead_proto r \<Longrightarrow> nat_step env c c'"
| del: "ipa_nati_del_ipv4_rule env 1 h c = Some (ret, c') \<Longrightarrow> 0 < h \<Longrightarrow> h < 65536 \<Longrightarrow> nat_step env c c'"

inductive nat_reach :: "nat_env \<Rightarrow> ipa_nat_cache \<Rightarrow> ipa_nat_cache \<Rightarrow> bool" for env c0 where
  start: "nat_reach env c0 c0"
| more: "nat_reach env c0 c \<Longrightarrow> nat_step env c c' \<Longrightarrow> nat_reach env c0 c'"

definition cache_inv :: "ipa_nat_cache \<Rightarrow> bool" where
  "cache_inv c \<longleftrightarrow> (\<exists>t. ip4_tbl c = [t] \<and> tbl_inv t)"

lemma nat_step_inv:
  assumes env: "env_ok env" and inv: "cache_inv c" and step: "nat_step env c c'"
  shows "cache_inv c'"
proof -
  obtain t where t: "ip4_tbl c = [t]" "tbl_inv t" using inv by (auto simp: cache_inv_def)
  from step show ?thesis
  proof (cases rule: nat_step.cases)
    case (add r ret h)
    with add_rule_spec [OF env t(2) _ t(1), of r] t show ?thesis by (auto simp: cache_inv_def)
  next
    case (del h ret)
    show ?thesis
    proof (cases "rules_of t h")
      case None
      with del_unknown_spec [OF t(2,1) None del(2,3)] del(1) t show ?thesis by (auto simp: cache_inv_def)
    next
      case (Some r)
      with del_rule_spec [OF env t(2,1) Some] del(1) show ?thesis by (auto simp: cache_inv_def)
    qed
  qed
qed

lemma nat_reach_inv:
  assumes "env_ok env" "nat_reach env c0 c" "cache_inv c0"
  shows "cache_inv c"
  using assms(2,3) by (induction rule: nat_reach.induct) (auto intro: nat_step_inv [OF assms(1)])

text \<open>No call from an invariant state is undefined.\<close>

lemma calls_defined:
  assumes env: "env_ok env" and inv: "cache_inv c"
  shows "\<not> dead_proto r \<Longrightarrow> ipa_nati_add_ipv4_rule env 1 r c \<noteq> None"
    and "0 < h \<Longrightarrow> h < 65536 \<Longrightarrow> ipa_nati_del_ipv4_rule env 1 h c \<noteq> None"
proof -
  obtain t where t: "ip4_tbl c = [t]" "tbl_inv t" using inv by (auto simp: cache_inv_def)
  show "\<not> dead_proto r \<Longrightarrow> ipa_nati_add_ipv4_rule env 1 r c \<noteq> None"
    using add_rule_spec [OF env t(2) _ t(1), of r] by auto
  assume h: "0 < h" "h < 65536"
  show "ipa_nati_del_ipv4_rule env 1 h c \<noteq> None"
  proof (cases "rules_of t h")
    case None
    then show ?thesis using del_unknown_spec [OF t(2,1) _ h] by simp
  next
    case (Some r)
    then show ?thesis using del_rule_spec [OF env t(2,1)] by fastforce
  qed
qed

end
