(* ===== verification/Nat_Query.thy ===== *)
theory Nat_Query
  imports Nat_Life
begin

text \<open>
  The debug functions at the end of ipanat/src/ipa_nat_drvi.c (compiled with
  \<open>NAT_DUMP\<close>): counting the active entries of one array, printing an entry, and dumping a
  whole table. What is printed is kept as a list of lines. The lemmas relate the counts to the
  rules a table holds.
\<close>

section \<open>Counting\<close>

text \<open>\<open>for (cnt = from; cnt < lim; cnt++) if (p(cnt)) ret++;\<close>\<close>

function count_active :: "(nat \<Rightarrow> bool option) \<Rightarrow> nat \<Rightarrow> nat \<Rightarrow> nat \<Rightarrow> nat option" where
  "count_active p lim cnt ret =
     (if cnt < lim
      then do { b \<leftarrow> p cnt; count_active p lim (Suc cnt) (if b then ret + 1 else ret) }
      else Some ret)"
  by pat_completeness auto
termination
  by (relation "measure (\<lambda>(p, lim, cnt, ret). lim - cnt)") auto

declare count_active.simps [simp del]

definition rule_active :: "ipa_nat_rule list \<Rightarrow> nat \<Rightarrow> bool option" where
  "rule_active tbl cnt =
     map_option (\<lambda>r. Read16BitFieldValue (hw_ip_cksm_enbl r) ENABLE_FIELD \<noteq> 0) (rd tbl cnt)"

definition indx_active :: "u32 list \<Rightarrow> nat \<Rightarrow> bool option" where
  "indx_active tbl cnt =
     map_option (\<lambda>w. Read16BitFieldValue w INDX_TBL_TBL_ENTRY_FIELD \<noteq> 0) (rd tbl cnt)"

definition ipa_nati_query_nat_rules :: "nat \<Rightarrow> nat_table_type \<Rightarrow> ipa_nat_cache \<Rightarrow> nat option" where
  "ipa_nati_query_nat_rules tbl_hdl tbl_type c =
     (if tbl_hdl = IPA_NAT_INVALID_NAT_ENTRY \<or> IPA_NAT_MAX_IP4_TBLS < tbl_hdl then Some 0
      else do {
        t \<leftarrow> rd (ip4_tbl c) (tbl_hdl - 1);
        m \<leftarrow> tbl_mem t;
        case tbl_type of
          IPA_NAT_BASE_TBL \<Rightarrow> count_active (rule_active (ipv4_rules m)) (table_entries t) 0 0
        | IPA_NAT_EXPN_TBL \<Rightarrow> count_active (rule_active (ipv4_expn_rules m)) (expn_table_entries t) 0 0
        | IPA_NAT_INDX_TBL \<Rightarrow> count_active (indx_active (index_table m)) (table_entries t) 0 0
        | IPA_NAT_INDEX_EXPN_TBL \<Rightarrow> count_active (indx_active (index_table_expn m)) (expn_table_entries t) 0 0
      })"

section \<open>Printing\<close>

text \<open>The \<open>memcpy\<close> from a table slot to the software view, which prints by fields.\<close>

definition sw_of_rule :: "ipa_nat_rule \<Rightarrow> ipa_nat_sw_rule" where
  "sw_of_rule r =
     \<lparr>sw_private_ip = hw_private_ip r, sw_target_ip = hw_target_ip r,
      sw_next_index = lo16 (hw_nxt_indx_pub_port r), sw_public_port = hi16 (hw_nxt_indx_pub_port r),
      sw_private_port = hw_private_port r, sw_target_port = hw_target_port r,
      sw_ip_chksum = lo16 (hw_ip_cksm_enbl r), sw_rsvd1 = ucast (drop_bit 16 (hw_ip_cksm_enbl r)),
      sw_redirect = ucast (drop_bit 30 (hw_ip_cksm_enbl r)), sw_enable = ucast (drop_bit 31 (hw_ip_cksm_enbl r)),
      sw_time_stamp = ucast (hw_ts_proto r), sw_protocol = ucast (drop_bit 24 (hw_ts_proto r)),
      sw_prev_index = lo16 (hw_sw_spec_params r), sw_indx_tbl_entry = hi16 (hw_sw_spec_params r),
      sw_rsvd2 = hw_rsvd2 r, sw_tcp_udp_chksum = hw_tcp_udp_chksum r\<rparr>"

datatype dump_line =
    RULE_LINE (line_id: nat) (line_values: "nat list")
  | INDEX_LINE nat nat nat nat
  | NO_ACTIVE nat_table_type nat

definition octets :: "u32 \<Rightarrow> nat list" where
  "octets ip_addr =
     [unat (drop_bit 24 (ip_addr AND 0xFF000000)), unat (drop_bit 16 (ip_addr AND 0x00FF0000)),
      unat (drop_bit 8 (ip_addr AND 0x0000FF00)), unat (ip_addr AND 0x000000FF)]"

definition ipa_nati_print_rule :: "ipa_nat_rule \<Rightarrow> nat \<Rightarrow> dump_line" where
  "ipa_nati_print_rule param rule_id =
     (let s = sw_of_rule param
      in RULE_LINE rule_id
           (octets (sw_target_ip s) @ [unat (sw_target_port s), unat (sw_private_port s)] @
            octets (sw_private_ip s) @ [unat (sw_public_port s), unat (sw_next_index s),
            unat (sw_ip_chksum s), unat (sw_enable s), unat (sw_time_stamp s), unat (sw_protocol s),
            unat (sw_prev_index s), unat (sw_indx_tbl_entry s), unat (sw_tcp_udp_chksum s)]))"

definition ipa_nati_print_index_rule :: "u32 \<Rightarrow> nat \<Rightarrow> nat \<Rightarrow> dump_line" where
  "ipa_nati_print_index_rule param rule_id prev_indx =
     INDEX_LINE rule_id (unat (lo16 param)) (unat (hi16 param)) prev_indx"

section \<open>Dumping a table\<close>

text \<open>One loop of the dump, for the first \<open>lim\<close> slots: the lines of the active ones.\<close>

fun dump_loop :: "(nat \<Rightarrow> bool option) \<Rightarrow> (nat \<Rightarrow> dump_line option) \<Rightarrow> nat \<Rightarrow> dump_line list option" where
  "dump_loop act line 0 = Some []"
| "dump_loop act line (Suc n) =
     do {
       out \<leftarrow> dump_loop act line n;
       b \<leftarrow> act n;
       if b then do { l \<leftarrow> line n; Some (out @ [l]) } else Some out
     }"

definition or_none :: "nat_table_type \<Rightarrow> nat \<Rightarrow> dump_line list \<Rightarrow> dump_line list" where
  "or_none ty cnt out = (if out = [] then [NO_ACTIVE ty cnt] else out)"

text \<open>
  The loops over the expansion arrays run while \<open>cnt <= expn_table_entries\<close>; the read of the
  slot behind the array is the outcome \<open>None\<close>.
\<close>

definition ipa_nat_dump_ipv4_table :: "nat \<Rightarrow> ipa_nat_cache \<Rightarrow> dump_line list option" where
  "ipa_nat_dump_ipv4_table tbl_hdl c =
     (if tbl_hdl = IPA_NAT_INVALID_NAT_ENTRY \<or> IPA_NAT_MAX_IP4_TBLS < tbl_hdl then Some []
      else do {
        t \<leftarrow> rd (ip4_tbl c) (tbl_hdl - 1);
        m \<leftarrow> tbl_mem t;
        let te = table_entries t;
        let ee = expn_table_entries t;
        base \<leftarrow> dump_loop (rule_active (ipv4_rules m))
                  (\<lambda>cnt. map_option (\<lambda>r. ipa_nati_print_rule r cnt) (rd (ipv4_rules m) cnt)) te;
        expn \<leftarrow> dump_loop (rule_active (ipv4_expn_rules m))
                  (\<lambda>cnt. map_option (\<lambda>r. ipa_nati_print_rule r (cnt + te)) (rd (ipv4_expn_rules m) cnt)) (ee + 1);
        indx \<leftarrow> dump_loop (indx_active (index_table m))
                  (\<lambda>cnt. map_option (\<lambda>w. ipa_nati_print_index_rule w cnt 0) (rd (index_table m) cnt)) te;
        indx_expn \<leftarrow> dump_loop (indx_active (index_table_expn m))
                  (\<lambda>cnt. do { w \<leftarrow> rd (index_table_expn m) cnt; meta \<leftarrow> index_expn_table_meta t;
                              p \<leftarrow> rd meta cnt; Some (ipa_nati_print_index_rule w (cnt + te) p) }) (ee + 1);
        Some (or_none IPA_NAT_BASE_TBL te base @ or_none IPA_NAT_EXPN_TBL ee expn @
              or_none IPA_NAT_INDX_TBL te indx @ or_none IPA_NAT_INDEX_EXPN_TBL ee indx_expn)
      })"

section \<open>Facts\<close>

lemma count_active_card:
  assumes "\<And>j. i \<le> j \<Longrightarrow> j < lim \<Longrightarrow> p j = Some (q j)"
  shows "count_active p lim i r = Some (r + card {j. i \<le> j \<and> j < lim \<and> q j})"
  using assms
proof (induction p lim i r rule: count_active.induct)
  case (1 p lim i r)
  show ?case
  proof (cases "i < lim")
    case False
    then have "{j. i \<le> j \<and> j < lim \<and> q j} = {}" by auto
    then show ?thesis using False by (subst count_active.simps) simp
  next
    case True
    let ?S = "{j. Suc i \<le> j \<and> j < lim \<and> q j}"
    have S: "{j. i \<le> j \<and> j < lim \<and> q j} = (if q i then insert i ?S else ?S)"
      using True by (auto simp: Suc_le_eq order_le_less)
    have "finite ?S" "i \<notin> ?S" by auto
    then have "card {j. i \<le> j \<and> j < lim \<and> q j} = (if q i then Suc (card ?S) else card ?S)"
      unfolding S by simp
    moreover have "count_active p lim (Suc i) (if q i then r + 1 else r) = Some ((if q i then r + 1 else r) + card ?S)"
      by (rule "1.IH" [OF True]) (use "1.prems" True in simp_all)
    ultimately show ?thesis
      using True "1.prems" [OF order_refl True] by (subst count_active.simps) simp
  qed
qed

lemma sw_of_packed: "sw_of_rule (nat_rule_of_sw s) = s"
proof -
  have a: "lo16 (ucast (c :: u16) OR push_bit 16 (ucast (r :: 14 word))
      OR push_bit 30 (ucast (d :: 1 word)) OR push_bit 31 (ucast (e :: 1 word))) = c" for c r d e
    by (rule bit_word_eqI) (auto simp: lo16_def bit_simps)
  have b: "(ucast (drop_bit 16 (ucast (c :: u16) OR push_bit 16 (ucast (r :: 14 word))
      OR push_bit 30 (ucast (d :: 1 word)) OR push_bit 31 (ucast (e :: 1 word)) :: u32)) :: 14 word) = r" for c r d e
    by (rule bit_word_eqI) (auto simp: bit_simps dest: bit_imp_le_length)
  have d: "(ucast (drop_bit 30 (ucast (c :: u16) OR push_bit 16 (ucast (r :: 14 word))
      OR push_bit 30 (ucast (d :: 1 word)) OR push_bit 31 (ucast (e :: 1 word)) :: u32)) :: 1 word) = d" for c r d e
    by (rule bit_word_eqI) (auto simp: bit_simps dest: bit_imp_le_length)
  have e: "(ucast (drop_bit 31 (ucast (c :: u16) OR push_bit 16 (ucast (r :: 14 word))
      OR push_bit 30 (ucast (d :: 1 word)) OR push_bit 31 (ucast (e :: 1 word)) :: u32)) :: 1 word) = e" for c r d e
    by (rule bit_word_eqI) (auto simp: bit_simps dest: bit_imp_le_length)
  have f: "(ucast (ucast (t :: 24 word) OR push_bit 24 (ucast (p :: u8)) :: u32) :: 24 word) = t" for t p
    by (rule bit_word_eqI) (auto simp: bit_simps)
  have g: "(ucast (drop_bit 24 (ucast (t :: 24 word) OR push_bit 24 (ucast p) :: u32)) :: u8) = p" for t p
    by (rule bit_word_eqI) (auto simp: bit_simps dest: bit_imp_le_length)
  show ?thesis
    by (simp only: sw_of_rule_def nat_rule_of_sw_def ipa_nat_rule.select_convs lo16_mk32 hi16_mk32 a b d e f g)
      (simp add: ipa_nat_sw_rule.defs)
qed

text \<open>The index entries, the live rules and the handles correspond one to one.\<close>

lemma handles_live:
  assumes tp: "tbl_parts t m meta ids C D" and te: "te = table_entries t" "ee = expn_table_entries t"
  shows "card (dom (rules_of t)) = card (live te ee m)"
proof -
  note hp = tp_hdl [OF tp, folded te] and st = tp_state [OF tp]
  have len: "length ids = te + ee" by (rule hdl_len [OF hp])
  have dom: "h \<in> dom (rules_of t) \<longleftrightarrow> 0 < h \<and> h \<le> te + ee \<and> ids ! (h - 1) \<noteq> 0" for h
    by (auto simp: rules_of_def st len split: if_splits)
  have "bij_betw (\<lambda>h. slot_of te (ids ! (h - 1))) (dom (rules_of t)) (live te ee m)"
  proof (rule bij_betwI')
    fix h g assume "h \<in> dom (rules_of t)" "g \<in> dom (rules_of t)"
    then have h: "0 < h" "h - 1 < te + ee" "ids ! (h - 1) \<noteq> 0" and g: "0 < g" "g - 1 < te + ee" "ids ! (g - 1) \<noteq> 0"
      by (auto simp only: dom; linarith)+
    show "(slot_of te (ids ! (h - 1)) = slot_of te (ids ! (g - 1))) = (h = g)"
      using hdl_inj [OF hp h(2) g(2) h(3) g(3)] h(1) g(1) by auto
  next
    fix h assume "h \<in> dom (rules_of t)"
    then have h: "h - 1 < te + ee" "ids ! (h - 1) \<noteq> 0" by (auto simp only: dom; linarith)+
    then show "slot_of te (ids ! (h - 1)) \<in> live te ee m" using hdl_cell [OF hp] by blast
  next
    fix n assume "n \<in> live te ee m"
    then obtain k where "k < te + ee" "ids ! k \<noteq> 0" "slot_of te (ids ! k) = n" using hdl_onto [OF hp] by blast
    then show "\<exists>h\<in>dom (rules_of t). n = slot_of te (ids ! (h - 1))"
      by (intro bexI [of _ "k + 1"]) (auto simp: dom)
  qed
  then show ?thesis by (rule bij_betw_same_card)
qed

lemma indx_live:
  assumes tp: "tbl_parts t m meta ids C D" and te: "te = table_entries t" "ee = expn_table_entries t"
  shows "card {i. i < te + ee \<and> indx_ent m i \<noteq> 0} = card (live te ee m)"
proof -
  note ip = tp_indx [OF tp, folded te]
  have "bij_betw (indx_ent m) {i. i < te + ee \<and> indx_ent m i \<noteq> 0} (live te ee m)"
    by (rule bij_betw_byWitness [where f' = "rule_idx m"]) (use ip in \<open>auto simp: indx_part_def\<close>)
  then show ?thesis by (rule bij_betw_same_card)
qed

lemma query_counts:
  assumes tp: "tbl_parts t m meta ids C D" and te: "te = table_entries t" "ee = expn_table_entries t"
    and tb: "ip4_tbl c = [t]"
  shows "ipa_nati_query_nat_rules 1 IPA_NAT_INDX_TBL c = Some (card {i. i < te \<and> indx_ent m i \<noteq> 0})"
    "ipa_nati_query_nat_rules 1 IPA_NAT_INDEX_EXPN_TBL c = Some (card {j. j < ee \<and> indx_ent m (te + j) \<noteq> 0})"
    "ipa_nati_query_nat_rules 1 IPA_NAT_BASE_TBL c = Some (card {n. n < te \<and> rule_used m n})"
    "ipa_nati_query_nat_rules 1 IPA_NAT_EXPN_TBL c = Some (card {j. j < ee \<and> rule_used m (te + j)})"
proof -
  note sh = tp_shape [OF tp, folded te] and st = tp_state [OF tp]
  note defs = ipa_nati_query_nat_rules_def tb st te [symmetric] indx_active_def rule_active_def
  have "count_active (indx_active (index_table m)) te 0 0 = Some (0 + card {j. 0 \<le> j \<and> j < te \<and> indx_ent m j \<noteq> 0})"
    by (rule count_active_card) (simp add: indx_active_def rd_rule_at [OF sh] read_folds)
  then show "ipa_nati_query_nat_rules 1 IPA_NAT_INDX_TBL c = Some (card {i. i < te \<and> indx_ent m i \<noteq> 0})"
    by (simp add: defs)
  have "count_active (indx_active (index_table_expn m)) ee 0 0 =
      Some (0 + card {j. 0 \<le> j \<and> j < ee \<and> indx_ent m (te + j) \<noteq> 0})"
    by (rule count_active_card) (simp add: indx_active_def rd_rule_at [OF sh] read_folds)
  then show "ipa_nati_query_nat_rules 1 IPA_NAT_INDEX_EXPN_TBL c = Some (card {j. j < ee \<and> indx_ent m (te + j) \<noteq> 0})"
    by (simp add: defs)
  have "count_active (rule_active (ipv4_rules m)) te 0 0 = Some (0 + card {j. 0 \<le> j \<and> j < te \<and> rule_used m j})"
    by (rule count_active_card) (simp add: rule_active_def rd_rule_at [OF sh] read_folds)
  then show "ipa_nati_query_nat_rules 1 IPA_NAT_BASE_TBL c = Some (card {n. n < te \<and> rule_used m n})"
    by (simp add: defs)
  have "count_active (rule_active (ipv4_expn_rules m)) ee 0 0 =
      Some (0 + card {j. 0 \<le> j \<and> j < ee \<and> rule_used m (te + j)})"
    by (rule count_active_card) (simp add: rule_active_def rd_rule_at [OF sh] read_folds)
  then show "ipa_nati_query_nat_rules 1 IPA_NAT_EXPN_TBL c = Some (card {j. j < ee \<and> rule_used m (te + j)})"
    by (simp add: defs)
qed

lemma card_split_slots:
  "card {i. i < te + ee \<and> P i} = card {i. i < (te :: nat) \<and> P i} + card {j. j < ee \<and> P (te + j)}"
proof -
  have "{i. i < te + ee \<and> P i} = {i. i < te \<and> P i} \<union> (\<lambda>j. te + j) ` {j. j < ee \<and> P (te + j)}"
  proof (intro set_eqI iffI)
    fix i assume "i \<in> {i. i < te + ee \<and> P i}"
    then show "i \<in> {i. i < te \<and> P i} \<union> (\<lambda>j. te + j) ` {j. j < ee \<and> P (te + j)}"
      by (cases "i < te") (auto simp: image_iff intro!: exI [of _ "i - te"])
  qed auto
  moreover have "card ((\<lambda>j. te + j) ` {j. j < ee \<and> P (te + j)}) = card {j. j < ee \<and> P (te + j)}"
    by (intro card_image) (simp add: inj_on_def)
  ultimately show ?thesis
    by (simp add: card_Un_disjoint disjoint_iff image_iff)
qed

lemma indx_counts_rules:
  assumes inv: "tbl_inv t" and tb: "ip4_tbl c = [t]"
  obtains a b where "ipa_nati_query_nat_rules 1 IPA_NAT_INDX_TBL c = Some a"
    "ipa_nati_query_nat_rules 1 IPA_NAT_INDEX_EXPN_TBL c = Some b" "a + b = card (dom (rules_of t))"
proof -
  obtain m meta ids C D where tp: "tbl_parts t m meta ids C D" using inv by (auto simp: tbl_inv_def)
  show ?thesis
    by (rule that [OF query_counts(1,2) [OF tp refl refl tb]])
      (simp only: card_split_slots [symmetric, where P = "\<lambda>i. indx_ent m i \<noteq> 0"] indx_live [OF tp refl refl]
        handles_live [OF tp refl refl])
qed

lemma dump_overrun:
  assumes "mem_shape te ee m"
  shows "dump_loop (rule_active (ipv4_expn_rules m)) l (ee + 1) = None"
  using assms by (cases "dump_loop (rule_active (ipv4_expn_rules m)) l ee")
    (auto simp: rule_active_def mem_shape_def rd_def)

end
