(* ===== verification/Nat_Api.thy ===== *)
theory Nat_Api
  imports Nat_Query
begin

text \<open>
  The public functions (ipanat/src/ipa_nat_drv.c): parameter checks around the functions of
  ipa_nat_drvi.c. A pointer argument is a flag that says whether it is null, or an option for
  the rule. An out parameter is the second component of the result, \<open>None\<close> when it is not
  written.
\<close>

definition ipa_nat_add_ipv4_tbl ::
  "nat_env \<Rightarrow> u32 \<Rightarrow> nat \<Rightarrow> bool \<Rightarrow> ipa_nat_cache \<Rightarrow> (int \<times> nat option \<times> ipa_nat_cache) option" where
  "ipa_nat_add_ipv4_tbl env public_ip_addr number_of_entries tbl_hdl_null c =
     (if tbl_hdl_null \<or> number_of_entries = 0 then Some (- EINVAL, None, c)
      else do {
        (ret, tbl_hdl, c) \<leftarrow> ipa_nati_add_ipv4_tbl env public_ip_addr number_of_entries c;
        if ret \<noteq> 0 then Some (- EINVAL, Some tbl_hdl, c) else Some (ret, Some tbl_hdl, c)
      })"

definition ipa_nat_del_ipv4_tbl :: "nat_env \<Rightarrow> nat \<Rightarrow> ipa_nat_cache \<Rightarrow> (int \<times> ipa_nat_cache) option" where
  "ipa_nat_del_ipv4_tbl env tbl_hdl c =
     (if IPA_NAT_INVALID_NAT_ENTRY = tbl_hdl \<or> IPA_NAT_MAX_IP4_TBLS < tbl_hdl then Some (- EINVAL, c)
      else ipa_nati_del_ipv4_table env tbl_hdl c)"

definition ipa_nat_add_ipv4_rule ::
  "nat_env \<Rightarrow> nat \<Rightarrow> ipa_nat_ipv4_rule option \<Rightarrow> bool \<Rightarrow> ipa_nat_cache \<Rightarrow>
   (int \<times> nat option \<times> ipa_nat_cache) option" where
  "ipa_nat_add_ipv4_rule env tbl_hdl clnt_rule rule_hdl_null c =
     (case clnt_rule of
        None \<Rightarrow> Some (- EINVAL, None, c)
      | Some clnt_rule \<Rightarrow>
          if IPA_NAT_INVALID_NAT_ENTRY = tbl_hdl \<or> IPA_NAT_MAX_IP4_TBLS < tbl_hdl \<or> rule_hdl_null
          then Some (- EINVAL, None, c)
          else do {
            (ret, rule_hdl, c) \<leftarrow> ipa_nati_add_ipv4_rule env tbl_hdl clnt_rule c;
            if ret \<noteq> 0 then Some (- EINVAL, rule_hdl, c) else Some (0, rule_hdl, c)
          })"

text \<open>There is no upper bound on the table handle here.\<close>

definition ipa_nat_del_ipv4_rule :: "nat_env \<Rightarrow> nat \<Rightarrow> nat \<Rightarrow> ipa_nat_cache \<Rightarrow> (int \<times> ipa_nat_cache) option" where
  "ipa_nat_del_ipv4_rule env tbl_hdl rule_hdl c =
     (if IPA_NAT_INVALID_NAT_ENTRY = tbl_hdl \<or> IPA_NAT_INVALID_NAT_ENTRY = rule_hdl then Some (- EINVAL, c)
      else do {
        (result, c) \<leftarrow> ipa_nati_del_ipv4_rule env tbl_hdl rule_hdl c;
        if result \<noteq> 0 then Some (result, c) else Some (0, c)
      })"

definition ipa_nat_query_timestamp :: "nat \<Rightarrow> nat \<Rightarrow> bool \<Rightarrow> ipa_nat_cache \<Rightarrow> (int \<times> u32 option) option" where
  "ipa_nat_query_timestamp tbl_hdl rule_hdl time_stamp_null c =
     (if tbl_hdl = 0 \<or> IPA_NAT_MAX_IP4_TBLS < tbl_hdl \<or> time_stamp_null then Some (- EINVAL, None)
      else ipa_nati_query_timestamp tbl_hdl rule_hdl c)"

section \<open>The calls on a table that satisfies the invariant\<close>

lemma api_add_del_spec:
  assumes "env_ok env" "tbl_inv t" "ip4_tbl c = [t]" "\<not> dead_proto r" "\<not> rules_full t r"
  obtains h t1 t2 where
    "ipa_nat_add_ipv4_rule env 1 (Some r) False c = Some (0, Some h, c\<lparr>ip4_tbl := [t1]\<rparr>)"
    "rules_of t1 = (rules_of t)(h \<mapsto> r)" "tbl_inv t1" "0 < h"
    "ipa_nat_del_ipv4_rule env 1 h (c\<lparr>ip4_tbl := [t1]\<rparr>) = Some (0, c\<lparr>ip4_tbl := [t2]\<rparr>)"
    "rules_of t2 = rules_of t" "tbl_inv t2"
proof -
  from add_rule_spec [OF assms(1,2,4,3)] assms(5) obtain h t1 where
    a: "ipa_nati_add_ipv4_rule env 1 r c = Some (0, Some h, c\<lparr>ip4_tbl := [t1]\<rparr>)" "tbl_inv t1" "0 < h"
      "rules_of t h = None" "rules_of t1 = (rules_of t)(h \<mapsto> r)" by blast
  have "ip4_tbl (c\<lparr>ip4_tbl := [t1]\<rparr>) = [t1]" "rules_of t1 h = Some r" using a(5) by simp_all
  from del_rule_spec [OF assms(1) a(2) this] obtain t2 where
    d: "ipa_nati_del_ipv4_rule env 1 h (c\<lparr>ip4_tbl := [t1]\<rparr>) = Some (0, c\<lparr>ip4_tbl := [t2]\<rparr>)"
      "tbl_inv t2" "rules_of t2 = (rules_of t1)(h := None)" by auto
  have "rules_of t2 = rules_of t" using d(3) a(4,5) by auto
  with a d show ?thesis
    by (intro that [of h t1 t2]) (simp_all add: ipa_nat_add_ipv4_rule_def ipa_nat_del_ipv4_rule_def)
qed

text \<open>The time stamp returned is the 24 bit field of the slot of the rule.\<close>

lemma query_timestamp_spec:
  assumes inv: "tbl_inv t" and tb: "ip4_tbl c = [t]" and r: "rules_of t h = Some r"
  obtains m n where "tbl_mem t = Some m" "rule_key m n = r" "rule_used m n"
    "ipa_nat_query_timestamp 1 h False c = Some (0, Some (hw_ts_proto (rule_at m n) AND 0x00FFFFFF))"
proof -
  obtain m meta ids C D where tp: "tbl_parts t m meta ids C D" using inv by (auto simp: tbl_inv_def)
  define te ee where te: "te = table_entries t" "ee = expn_table_entries t"
  note sz = tp_sizes [OF tp, folded te] and sh = tp_shape [OF tp, folded te] and st = tp_state [OF tp]
  define n where n: "n = slot_of te (ids ! (h - 1))"
  note ro = rules_of_Some [OF tp te r, folded n]
  note lf = live_facts [OF tp te ro(4) refl]
  have h: "trunc16 h = h" "hdl_index (Suc 0) = 0" using ro(2) sz by (simp_all add: hdl_index_def)
  have "ipa_nat_query_timestamp 1 h False c = Some (0, Some (hw_ts_proto (rule_at m n) AND 0x00FFFFFF))"
    using parse_hdl_spec [OF tp te r, folded n] rd_slot(1) [OF sh lf(1)] st h tb
    by (simp add: ipa_nat_query_timestamp_def ipa_nati_query_timestamp_def Let_def)
  with st ro(6) lf(2) show ?thesis by (intro that [of m n]) simp_all
qed

end
