(* ===== verification/Ipacm_Config.thy ===== *)
theory Ipacm_Config
  imports Prelude
begin

text \<open>
  The configuration of the IPA connection manager (ipacm/src/IPACM_Config.cpp and the inline
  functions of ipacm/inc/IPACM_Config.h): the ALG ports, the list of NAT interfaces, the private
  subnets, the counts of filter rules, the extended properties, and the dependencies between the
  resources of the resource manager. The members are one record; the dependency requests sent to
  the kernel are a list in it, in order, and the events posted are another. Their results are
  only printed by the code. The XML file is read elsewhere (IPACM_Xml.cpp); its content is
  the record \<open>IPACM_conf\<close>.
\<close>

section \<open>Data\<close>

text \<open>The resource names of linux/msm_ipa.h this file uses; the others are numbered.\<close>

datatype ipa_rm_resource_name =
    IPA_RM_RESOURCE_Q6_PROD | IPA_RM_RESOURCE_USB_PROD | IPA_RM_RESOURCE_HSIC_PROD
  | IPA_RM_RESOURCE_WLAN_PROD | IPA_RM_RESOURCE_ODU_ADAPT_PROD
  | IPA_RM_RESOURCE_Q6_CONS | IPA_RM_RESOURCE_USB_CONS | IPA_RM_RESOURCE_HSIC_CONS
  | IPA_RM_RESOURCE_WLAN_CONS | IPA_RM_RESOURCE_ODU_ADAPT_CONS | IPA_RM_RESOURCE_OTHER nat

record ipa_rm_client =
  producer_rm1 :: ipa_rm_resource_name
  consumer_rm1 :: ipa_rm_resource_name
  producer_rm2 :: ipa_rm_resource_name
  consumer_rm2 :: ipa_rm_resource_name
  producer1_up :: bool
  consumer1_up :: bool
  rm_set :: bool
  rx_bypass_ipa :: bool

datatype rm_ioctl =
    IPA_IOC_RM_ADD_DEPENDENCY ipa_rm_resource_name ipa_rm_resource_name
  | IPA_IOC_RM_DEL_DEPENDENCY ipa_rm_resource_name ipa_rm_resource_name

record ipacm_alg =
  alg_protocol :: u8
  alg_port :: u16

record ipa_private_subnet =
  subnet_addr :: u32
  subnet_mask :: u32

datatype ipa_ip_type = IPA_IP_v4 | IPA_IP_v6 | IPA_IP_MAX

text \<open>The data of the events about addresses and neighbours (ipacm/inc/IPACM_Defs.h).\<close>

record ipacm_event_data_all =
  ev_iptype :: ipa_ip_type
  ev_if_index :: int
  ev_ipv4_addr :: u32
  ev_ipv6_addr :: "u32 list"
  ev_mac_addr :: "u8 list"

text \<open>An extended property: its address family and the rest of its fields, not looked at here.\<close>

record ipa_ioc_ext_intf_prop =
  ext_ip :: ipa_ip_type
  ext_fields :: nat

datatype ipacm_iface_type = LAN_IF | WLAN_IF | WAN_IF | VIRTUAL_IF | ETH_IF | EMBMS_IF | ODU_IF | UNKNOWN_IF
datatype ipacm_cradle_iface_mode = ROUTER | BRIDGE
datatype ipacm_wlan_access_mode = FULL | INTERNET

record ipa_ifi_dev_name =
  iface_name :: string
  if_cat :: ipacm_iface_type
  if_mode :: ipacm_cradle_iface_mode
  wlan_mode :: ipacm_wlan_access_mode
  netlink_interface_index :: int

text \<open>The XML configuration: each array with its count is the list of its entries.\<close>

record IPACM_conf =
  iface_config :: "ipa_ifi_dev_name list"
  private_subnet_config :: "ipa_private_subnet list"
  alg_config :: "ipacm_alg list"
  nat_max_entries :: nat
  odu_enable :: bool
  router_mode_enable :: bool
  odu_embms_enable :: bool
  num_wlan_guest_ap :: int

text \<open>
  The endpoints with a resource of their own, and the routing tables with their family and name.
\<close>

datatype ipa_client =
    IPA_CLIENT_WLAN1_PROD | IPA_CLIENT_USB_PROD | IPA_CLIENT_A5_WLAN_AMPDU_PROD | IPA_CLIENT_A2_EMBEDDED_PROD
  | IPA_CLIENT_A2_TETHERED_PROD | IPA_CLIENT_APPS_LAN_WAN_PROD | IPA_CLIENT_WLAN1_CONS | IPA_CLIENT_WLAN2_CONS
  | IPA_CLIENT_WLAN3_CONS | IPA_CLIENT_WLAN4_CONS | IPA_CLIENT_USB_CONS | IPA_CLIENT_A2_EMBEDDED_CONS
  | IPA_CLIENT_A2_TETHERED_CONS | IPA_CLIENT_APPS_WAN_CONS | IPA_CLIENT_ODU_PROD | IPA_CLIENT_ODU_EMB_CONS
  | IPA_CLIENT_ODU_TETH_CONS

datatype rt_tbl_id =
    rt_tbl_default_v4 | rt_tbl_lan_v4 | rt_tbl_wan_v4 | rt_tbl_v6 | rt_tbl_wan_v6 | rt_tbl_odu_v4 | rt_tbl_odu_v6
  | rt_tbl_wan_dl | rt_tbl_lan2lan_v4 | rt_tbl_lan2lan_v6
  | rt_tbl_eth_bridge_lan_lan_v4 | rt_tbl_eth_bridge_lan_wlan_v4 | rt_tbl_eth_bridge_wlan_wlan_v4
  | rt_tbl_eth_bridge_lan_lan_v6 | rt_tbl_eth_bridge_lan_wlan_v6 | rt_tbl_eth_bridge_wlan_wlan_v6

record ipa_rt_tbl =
  rt_ip :: ipa_ip_type
  rt_name :: string

text \<open>
  \<open>ipa_client_rm_map_tbl\<close> and \<open>rt_tbls\<close> are \<open>None\<close> at what is still zero. \<open>pNatIfaces\<close> holds the cells
  of its array.
\<close>

record ipacm_config =
  ipa_client_rm_map_tbl :: "ipa_client \<Rightarrow> ipa_rm_resource_name option"
  rt_tbls :: "rt_tbl_id \<Rightarrow> ipa_rt_tbl option"
  ipa_rm_tbl :: "ipa_rm_client list"
  ipa_rm_a2_check :: int
  rm_ioctls :: "rm_ioctl list"
  iface_table :: "ipa_ifi_dev_name list"
  ipa_virtual_iface_name :: string
  alg_table :: "ipacm_alg list"
  ipa_num_alg_ports :: nat
  private_subnet_table :: "ipa_private_subnet list"
  ipa_num_private_subnet :: nat
  subnet_events :: "int list"
  pNatIfaces :: "string list"
  ipa_nat_iface_entries :: nat
  ipa_num_ipa_interfaces :: nat
  ipa_nat_max_entries :: nat
  ipacm_odu_enable :: bool
  ipacm_odu_router_mode :: bool
  ipacm_odu_embms_enable :: bool
  ipa_num_wlan_guest_ap :: int
  flt_rule_count_v4 :: "int list"
  flt_rule_count_v6 :: "int list"
  ext_prop_v4 :: "ipa_ioc_ext_intf_prop list"
  ext_prop_v6 :: "ipa_ioc_ext_intf_prop list"

abbreviation (input) IPA_MAX_PRIVATE_SUBNET_ENTRIES :: nat where "IPA_MAX_PRIVATE_SUBNET_ENTRIES \<equiv> 3"
abbreviation (input) MAX_NUM_EXT_PROPS :: nat where "MAX_NUM_EXT_PROPS \<equiv> 15"

section \<open>Construction\<close>

definition zero_subnet :: ipa_private_subnet where
  "zero_subnet = \<lparr>subnet_addr = 0, subnet_mask = 0\<rparr>"

definition rm_entry ::
  "ipa_rm_resource_name \<Rightarrow> ipa_rm_resource_name \<Rightarrow> ipa_rm_resource_name \<Rightarrow> ipa_rm_resource_name \<Rightarrow> ipa_rm_client" where
  "rm_entry p1 c1 p2 c2 = \<lparr>producer_rm1 = p1, consumer_rm1 = c1, producer_rm2 = p2, consumer_rm2 = c2,
     producer1_up = False, consumer1_up = False, rm_set = False, rx_bypass_ipa = False\<rparr>"

text \<open>The entries that IPACM adds dependencies on, as \<open>Init\<close> fills them in.\<close>

definition rm_tbl_init :: "ipa_rm_client list" where
  "rm_tbl_init =
    [rm_entry IPA_RM_RESOURCE_WLAN_PROD IPA_RM_RESOURCE_Q6_CONS IPA_RM_RESOURCE_Q6_PROD IPA_RM_RESOURCE_WLAN_CONS,
     rm_entry IPA_RM_RESOURCE_USB_PROD IPA_RM_RESOURCE_Q6_CONS IPA_RM_RESOURCE_Q6_PROD IPA_RM_RESOURCE_USB_CONS,
     rm_entry IPA_RM_RESOURCE_WLAN_PROD IPA_RM_RESOURCE_USB_CONS IPA_RM_RESOURCE_USB_PROD IPA_RM_RESOURCE_WLAN_CONS,
     rm_entry IPA_RM_RESOURCE_ODU_ADAPT_PROD IPA_RM_RESOURCE_Q6_CONS IPA_RM_RESOURCE_Q6_PROD IPA_RM_RESOURCE_ODU_ADAPT_CONS,
     rm_entry IPA_RM_RESOURCE_WLAN_PROD IPA_RM_RESOURCE_ODU_ADAPT_CONS IPA_RM_RESOURCE_ODU_ADAPT_PROD IPA_RM_RESOURCE_WLAN_CONS,
     rm_entry IPA_RM_RESOURCE_ODU_ADAPT_PROD IPA_RM_RESOURCE_USB_CONS IPA_RM_RESOURCE_USB_PROD IPA_RM_RESOURCE_ODU_ADAPT_CONS]"

fun client_rm :: "ipa_client \<Rightarrow> ipa_rm_resource_name" where
  "client_rm IPA_CLIENT_WLAN1_PROD = IPA_RM_RESOURCE_WLAN_PROD"
| "client_rm IPA_CLIENT_USB_PROD = IPA_RM_RESOURCE_USB_PROD"
| "client_rm IPA_CLIENT_A5_WLAN_AMPDU_PROD = IPA_RM_RESOURCE_HSIC_PROD"
| "client_rm IPA_CLIENT_A2_EMBEDDED_PROD = IPA_RM_RESOURCE_Q6_PROD"
| "client_rm IPA_CLIENT_A2_TETHERED_PROD = IPA_RM_RESOURCE_Q6_PROD"
| "client_rm IPA_CLIENT_APPS_LAN_WAN_PROD = IPA_RM_RESOURCE_Q6_PROD"
| "client_rm IPA_CLIENT_WLAN1_CONS = IPA_RM_RESOURCE_WLAN_CONS"
| "client_rm IPA_CLIENT_WLAN2_CONS = IPA_RM_RESOURCE_WLAN_CONS"
| "client_rm IPA_CLIENT_WLAN3_CONS = IPA_RM_RESOURCE_WLAN_CONS"
| "client_rm IPA_CLIENT_WLAN4_CONS = IPA_RM_RESOURCE_WLAN_CONS"
| "client_rm IPA_CLIENT_USB_CONS = IPA_RM_RESOURCE_USB_CONS"
| "client_rm IPA_CLIENT_A2_EMBEDDED_CONS = IPA_RM_RESOURCE_Q6_CONS"
| "client_rm IPA_CLIENT_A2_TETHERED_CONS = IPA_RM_RESOURCE_Q6_CONS"
| "client_rm IPA_CLIENT_APPS_WAN_CONS = IPA_RM_RESOURCE_Q6_CONS"
| "client_rm IPA_CLIENT_ODU_PROD = IPA_RM_RESOURCE_ODU_ADAPT_PROD"
| "client_rm IPA_CLIENT_ODU_EMB_CONS = IPA_RM_RESOURCE_ODU_ADAPT_CONS"
| "client_rm IPA_CLIENT_ODU_TETH_CONS = IPA_RM_RESOURCE_ODU_ADAPT_CONS"

fun rt_tbl_of :: "rt_tbl_id \<Rightarrow> ipa_rt_tbl" where
  "rt_tbl_of rt_tbl_default_v4 = \<lparr>rt_ip = IPA_IP_v4, rt_name = ''ipa_dflt_rt''\<rparr>"
| "rt_tbl_of rt_tbl_lan_v4 = \<lparr>rt_ip = IPA_IP_v4, rt_name = ''COMRTBLLANv4''\<rparr>"
| "rt_tbl_of rt_tbl_wan_v4 = \<lparr>rt_ip = IPA_IP_v4, rt_name = ''WANRTBLv4''\<rparr>"
| "rt_tbl_of rt_tbl_v6 = \<lparr>rt_ip = IPA_IP_v6, rt_name = ''COMRTBLv6''\<rparr>"
| "rt_tbl_of rt_tbl_wan_v6 = \<lparr>rt_ip = IPA_IP_v6, rt_name = ''WANRTBLv6''\<rparr>"
| "rt_tbl_of rt_tbl_odu_v4 = \<lparr>rt_ip = IPA_IP_v4, rt_name = ''ODURTBLv4''\<rparr>"
| "rt_tbl_of rt_tbl_odu_v6 = \<lparr>rt_ip = IPA_IP_v6, rt_name = ''ODURTBLv6''\<rparr>"
| "rt_tbl_of rt_tbl_wan_dl = \<lparr>rt_ip = IPA_IP_MAX, rt_name = ''ipa_dflt_wan_rt''\<rparr>"
| "rt_tbl_of rt_tbl_lan2lan_v4 = \<lparr>rt_ip = IPA_IP_v4, rt_name = ''LANTOLANRTBLv4''\<rparr>"
| "rt_tbl_of rt_tbl_lan2lan_v6 = \<lparr>rt_ip = IPA_IP_v6, rt_name = ''LANTOLANRTBLv6''\<rparr>"
| "rt_tbl_of rt_tbl_eth_bridge_lan_lan_v4 = \<lparr>rt_ip = IPA_IP_v4, rt_name = ''ETH_BRIDGE_LAN_LAN_RTBLv4''\<rparr>"
| "rt_tbl_of rt_tbl_eth_bridge_lan_wlan_v4 = \<lparr>rt_ip = IPA_IP_v4, rt_name = ''ETH_BRIDGE_LAN_WLAN_RTBLv4''\<rparr>"
| "rt_tbl_of rt_tbl_eth_bridge_wlan_wlan_v4 = \<lparr>rt_ip = IPA_IP_v4, rt_name = ''ETH_BRIDGE_WLAN_WLAN_RTBLv4''\<rparr>"
| "rt_tbl_of rt_tbl_eth_bridge_lan_lan_v6 = \<lparr>rt_ip = IPA_IP_v6, rt_name = ''ETH_BRIDGE_LAN_LAN_RTBLv6''\<rparr>"
| "rt_tbl_of rt_tbl_eth_bridge_lan_wlan_v6 = \<lparr>rt_ip = IPA_IP_v6, rt_name = ''ETH_BRIDGE_LAN_WLAN_RTBLv6''\<rparr>"
| "rt_tbl_of rt_tbl_eth_bridge_wlan_wlan_v6 = \<lparr>rt_ip = IPA_IP_v6, rt_name = ''ETH_BRIDGE_WLAN_WLAN_RTBLv6''\<rparr>"

text \<open>
  The constructor; \<open>embms\<close> is the content of a member it does not set, and \<open>n_pipes\<close> is
  \<open>IPA_CLIENT_CONS - IPA_CLIENT_PROD\<close> of the kernel header.
\<close>

definition IPACM_Config_new :: "nat \<Rightarrow> bool \<Rightarrow> string \<Rightarrow> ipa_private_subnet list \<Rightarrow> ipacm_config" where
  "IPACM_Config_new n_pipes embms virt subnets = \<lparr>ipa_client_rm_map_tbl = Map.empty, rt_tbls = Map.empty, ipa_rm_tbl = [],
     ipa_rm_a2_check = 0, rm_ioctls = [], iface_table = [], ipa_virtual_iface_name = virt, alg_table = [], ipa_num_alg_ports = 0,
     private_subnet_table = subnets, ipa_num_private_subnet = 0, subnet_events = [], pNatIfaces = [],
     ipa_nat_iface_entries = 0, ipa_num_ipa_interfaces = 0, ipa_nat_max_entries = 0, ipacm_odu_enable = False,
     ipacm_odu_router_mode = False, ipacm_odu_embms_enable = embms, ipa_num_wlan_guest_ap = 0,
     flt_rule_count_v4 = replicate n_pipes 0, flt_rule_count_v6 = replicate n_pipes 0, ext_prop_v4 = [], ext_prop_v6 = []\<rparr>"

text \<open>
  What \<open>Init\<close> meets: the allocations, and the XML file. \<open>nat_ptr_null\<close> is whether the pointer \<open>pNatIfaces\<close>,
  which the constructor leaves uninitialised, happens to be null: \<open>Init\<close> frees it otherwise.
\<close>

record config_env =
  cfg_malloc_ok :: bool
  cfg_xml :: "IPACM_conf option"
  iface_calloc_ok :: bool
  alg_calloc_ok :: bool
  nat_ptr_null :: bool
  nat_calloc_ok :: bool

text \<open>The last virtual interface gives the bridge its name; more than three subnets pass the end of their table.\<close>

fun virtual_name :: "ipa_ifi_dev_name list \<Rightarrow> string \<Rightarrow> string" where
  "virtual_name [] v = v"
| "virtual_name (e # es) v = virtual_name es (if if_cat e = VIRTUAL_IF then iface_name e else v)"

definition IPACM_Config_Init :: "config_env \<Rightarrow> ipacm_config \<Rightarrow> (int \<times> ipacm_config) option" where
  "IPACM_Config_Init env c =
     (if \<not> cfg_malloc_ok env then Some (-1, c)
      else case cfg_xml env of
        None \<Rightarrow> Some (-1, c)
      | Some cfg \<Rightarrow>
          if num_wlan_guest_ap cfg = 2 then Some (-1, c)
          else let c = c\<lparr>ipa_num_ipa_interfaces := length (iface_config cfg)\<rparr> in
          if \<not> iface_calloc_ok env then Some (-1, c)
          else let ifaces = map (\<lambda>e. e\<lparr>netlink_interface_index := 0\<rparr>) (iface_config cfg); subnets = private_subnet_config cfg;
                 c = c\<lparr>iface_table := ifaces, ipa_virtual_iface_name := virtual_name ifaces (ipa_virtual_iface_name c)\<rparr> in
          if IPA_MAX_PRIVATE_SUBNET_ENTRIES < length subnets then None
          else let c = c\<lparr>private_subnet_table := subnets @ replicate (IPA_MAX_PRIVATE_SUBNET_ENTRIES - length subnets) zero_subnet,
                 ipa_num_private_subnet := length subnets, ipa_num_alg_ports := length (alg_config cfg)\<rparr> in
          if \<not> alg_calloc_ok env then Some (-1, c\<lparr>iface_table := []\<rparr>)
          else let c = c\<lparr>alg_table := alg_config cfg, ipa_nat_max_entries := nat_max_entries cfg,
                 ipacm_odu_enable := odu_enable cfg, ipacm_odu_router_mode := router_mode_enable cfg,
                 ipacm_odu_embms_enable := odu_embms_enable cfg, ipa_num_wlan_guest_ap := num_wlan_guest_ap cfg\<rparr> in
          if \<not> nat_ptr_null env then None
          else let c = c\<lparr>ipa_nat_iface_entries := 0\<rparr> in
          if \<not> nat_calloc_ok env then Some (-1, c\<lparr>iface_table := [], alg_table := []\<rparr>)
          else Some (0, c\<lparr>pNatIfaces := replicate (length ifaces) [], rt_tbls := \<lambda>t. Some (rt_tbl_of t),
                 ipa_client_rm_map_tbl := \<lambda>p. Some (client_rm p), ipa_rm_tbl := rm_tbl_init\<rparr>))"

section \<open>ALG ports and NAT interfaces\<close>

text \<open>The first \<open>nPorts\<close> entries are copied; the result is the return code and the ports written.\<close>

definition GetAlgPorts :: "ipacm_config \<Rightarrow> int \<Rightarrow> bool \<Rightarrow> (int \<times> ipacm_alg list) option" where
  "GetAlgPorts c nPorts pAlgPorts_null =
     (if nPorts \<le> 0 \<or> pAlgPorts_null then Some (-1, [])
      else if nat nPorts \<le> length (alg_table c) then Some (0, take (nat nPorts) (alg_table c)) else None)"

definition GetNatIfaces :: "ipacm_config \<Rightarrow> int \<Rightarrow> bool \<Rightarrow> (int \<times> string list) option" where
  "GetNatIfaces c nIfaces pIfaces_null =
     (if nIfaces \<le> 0 \<or> pIfaces_null then Some (-1, [])
      else if nat nIfaces \<le> length (pNatIfaces c) then Some (0, take (nat nIfaces) (pNatIfaces c)) else None)"

text \<open>
  The count goes up before the comparison with the size of the array, so the last cell is never
  written and the count can pass the size.
\<close>

definition AddNatIfaces :: "string \<Rightarrow> ipacm_config \<Rightarrow> (int \<times> ipacm_config) option" where
  "AddNatIfaces dev_name c =
     do {
       found \<leftarrow> scan_first (\<lambda>i. map_option (\<lambda>n. dev_name = n) (rd (pNatIfaces c) i)) (ipa_nat_iface_entries c) 0;
       case found of
         Some i \<Rightarrow> Some (0, c)
       | None \<Rightarrow>
           let c = c\<lparr>ipa_nat_iface_entries := ipa_nat_iface_entries c + 1\<rparr> in
           if ipa_nat_iface_entries c < ipa_num_ipa_interfaces c
           then do { ns \<leftarrow> wr (pNatIfaces c) (ipa_nat_iface_entries c - 1) dev_name; Some (0, c\<lparr>pNatIfaces := ns\<rparr>) }
           else Some (0, c)
     }"

text \<open>The names behind the one found move down by one cell; the last one is cleared.\<close>

definition DelNatIfaces :: "string \<Rightarrow> ipacm_config \<Rightarrow> (int \<times> ipacm_config) option" where
  "DelNatIfaces dev_name c =
     do {
       found \<leftarrow> scan_first (\<lambda>i. map_option (\<lambda>n. dev_name = n) (rd (pNatIfaces c) i)) (ipa_nat_iface_entries c) 0;
       case found of
         None \<Rightarrow> Some (0, c)
       | Some i \<Rightarrow> do {
           ns \<leftarrow> wr (pNatIfaces c) i [];
           ns \<leftarrow> for_range (\<lambda>i ns. do {
                   x \<leftarrow> rd ns (i + 1);
                   ns \<leftarrow> wr ns i x;
                   wr ns (i + 1) [] }) (ipa_nat_iface_entries c - 1) i ns;
           Some (0, c\<lparr>pNatIfaces := ns, ipa_nat_iface_entries := ipa_nat_iface_entries c - 1\<rparr>)
         }
     }"

section \<open>Private subnets\<close>

definition isPrivateSubnet :: "ipacm_config \<Rightarrow> u32 \<Rightarrow> bool option" where
  "isPrivateSubnet c ip_addr =
     map_option (\<lambda>r. r \<noteq> None)
       (scan_first (\<lambda>i. map_option (\<lambda>s. subnet_addr s = (subnet_mask s AND ip_addr)) (rd (private_subnet_table c) i))
          (ipa_num_private_subnet c) 0)"

definition find_subnet :: "ipacm_config \<Rightarrow> u32 \<Rightarrow> nat option option" where
  "find_subnet c ip_addr =
     scan_first (\<lambda>i. map_option (\<lambda>s. subnet_addr s = ip_addr) (rd (private_subnet_table c) i))
       (ipa_num_private_subnet c) 0"

text \<open>
  \<open>data_ok\<close> is whether the event data can be allocated; when not, the functions return
  \<open>IPACM_FAILURE\<close> (-1), which is true as a \<open>bool\<close>.
\<close>

definition AddPrivateSubnet :: "bool \<Rightarrow> u32 \<Rightarrow> int \<Rightarrow> ipacm_config \<Rightarrow> (bool \<times> ipacm_config) option" where
  "AddPrivateSubnet data_ok ip_addr ipa_if_index c =
     do {
       found \<leftarrow> find_subnet c ip_addr;
       case found of
         Some i \<Rightarrow> Some (True, c)
       | None \<Rightarrow>
           if ipa_num_private_subnet c < IPA_MAX_PRIVATE_SUBNET_ENTRIES
           then do {
             t \<leftarrow> wr (private_subnet_table c) (ipa_num_private_subnet c)
                   \<lparr>subnet_addr = ip_addr, subnet_mask = push_bit 8 (drop_bit 8 (NOT 0))\<rparr>;
             let c = c\<lparr>private_subnet_table := t, ipa_num_private_subnet := ipa_num_private_subnet c + 1\<rparr>;
             if \<not> data_ok then Some (True, c)
             else Some (True, c\<lparr>subnet_events := subnet_events c @ [ipa_if_index]\<rparr>)
           }
           else Some (False, c)
     }"

text \<open>The addresses move down over the deleted one; their masks stay where they are.\<close>

definition DelPrivateSubnet :: "bool \<Rightarrow> u32 \<Rightarrow> int \<Rightarrow> ipacm_config \<Rightarrow> (bool \<times> ipacm_config) option" where
  "DelPrivateSubnet data_ok ip_addr ipa_if_index c =
     do {
       found \<leftarrow> find_subnet c ip_addr;
       case found of
         None \<Rightarrow> Some (False, c)
       | Some cnt \<Rightarrow> do {
           t \<leftarrow> for_range (\<lambda>i t. do {
                  s \<leftarrow> rd t i;
                  n \<leftarrow> rd t (i + 1);
                  wr t i (s\<lparr>subnet_addr := subnet_addr n\<rparr>) })
                (ipa_num_private_subnet c - 1) cnt (private_subnet_table c);
           let c = c\<lparr>private_subnet_table := t, ipa_num_private_subnet := ipa_num_private_subnet c - 1\<rparr>;
           if \<not> data_ok then Some (True, c)
           else Some (True, c\<lparr>subnet_events := subnet_events c @ [ipa_if_index]\<rparr>)
         }
     }"

section \<open>Counts of filter rules\<close>

text \<open>\<open>increaseFltRuleCount\<close>, \<open>decreaseFltRuleCount\<close> and \<open>getFltRuleCount\<close>: an index out of range is refused.\<close>

definition increaseFltRuleCount :: "int \<Rightarrow> ipa_ip_type \<Rightarrow> int \<Rightarrow> ipacm_config \<Rightarrow> ipacm_config" where
  "increaseFltRuleCount index iptype increment c =
     (if int (length (flt_rule_count_v4 c)) \<le> index \<or> index < 0 then c
      else if iptype = IPA_IP_v4
      then c\<lparr>flt_rule_count_v4 := (flt_rule_count_v4 c)[nat index := flt_rule_count_v4 c ! nat index + increment]\<rparr>
      else c\<lparr>flt_rule_count_v6 := (flt_rule_count_v6 c)[nat index := flt_rule_count_v6 c ! nat index + increment]\<rparr>)"

definition decreaseFltRuleCount :: "int \<Rightarrow> ipa_ip_type \<Rightarrow> int \<Rightarrow> ipacm_config \<Rightarrow> ipacm_config" where
  "decreaseFltRuleCount index iptype decrement c =
     (if int (length (flt_rule_count_v4 c)) \<le> index \<or> index < 0 then c
      else if iptype = IPA_IP_v4
      then c\<lparr>flt_rule_count_v4 := (flt_rule_count_v4 c)[nat index := flt_rule_count_v4 c ! nat index - decrement]\<rparr>
      else c\<lparr>flt_rule_count_v6 := (flt_rule_count_v6 c)[nat index := flt_rule_count_v6 c ! nat index - decrement]\<rparr>)"

definition getFltRuleCount :: "int \<Rightarrow> ipa_ip_type \<Rightarrow> ipacm_config \<Rightarrow> int" where
  "getFltRuleCount index iptype c =
     (if int (length (flt_rule_count_v4 c)) \<le> index \<or> index < 0 then -1
      else if iptype = IPA_IP_v4 then flt_rule_count_v4 c ! nat index else flt_rule_count_v6 c ! nat index)"

section \<open>Extended properties\<close>

text \<open>
  The tables are the lists of the properties stored, so \<open>num_ext_props\<close> is the length. The loop
  stops at a property of no address family with what it stored before.
\<close>

fun set_ext_loop :: "ipa_ioc_ext_intf_prop list \<Rightarrow> ipacm_config \<Rightarrow> int \<times> ipacm_config" where
  "set_ext_loop [] c = (0, c)"
| "set_ext_loop (p # ps) c =
     (case ext_ip p of
        IPA_IP_v4 \<Rightarrow>
          if MAX_NUM_EXT_PROPS \<le> length (ext_prop_v4 c) then set_ext_loop ps c
          else set_ext_loop ps (c\<lparr>ext_prop_v4 := ext_prop_v4 c @ [p]\<rparr>)
      | IPA_IP_v6 \<Rightarrow>
          if MAX_NUM_EXT_PROPS \<le> length (ext_prop_v6 c) then set_ext_loop ps c
          else set_ext_loop ps (c\<lparr>ext_prop_v6 := ext_prop_v6 c @ [p]\<rparr>)
      | IPA_IP_MAX \<Rightarrow> (-1, c))"

definition SetExtProp :: "ipa_ioc_ext_intf_prop list option \<Rightarrow> ipacm_config \<Rightarrow> int \<times> ipacm_config" where
  "SetExtProp prop c =
     (case prop of None \<Rightarrow> (-1, c) | Some ps \<Rightarrow> if ps = [] then (-1, c) else set_ext_loop ps c)"

definition GetExtProp :: "ipa_ip_type \<Rightarrow> ipacm_config \<Rightarrow> ipa_ioc_ext_intf_prop list option" where
  "GetExtProp ip_type c =
     (case ip_type of IPA_IP_v4 \<Rightarrow> Some (ext_prop_v4 c) | IPA_IP_v6 \<Rightarrow> Some (ext_prop_v6 c) | IPA_IP_MAX \<Rightarrow> None)"

definition DelExtProp :: "ipa_ip_type \<Rightarrow> ipacm_config \<Rightarrow> int \<times> ipacm_config" where
  "DelExtProp ip_type c =
     (0, let c = (if ip_type \<noteq> IPA_IP_v6 then c\<lparr>ext_prop_v4 := []\<rparr> else c)
         in if ip_type \<noteq> IPA_IP_v4 then c\<lparr>ext_prop_v6 := []\<rparr> else c)"

section \<open>Resource dependencies\<close>

text \<open>
  The two requests of an entry, without the first when its producer has no receive properties;
  what \<open>AddRmDepend\<close> does with one entry, first as the producer and then as the consumer; and
  the loop over the table.
\<close>

definition dep_requests :: "(ipa_rm_resource_name \<Rightarrow> ipa_rm_resource_name \<Rightarrow> rm_ioctl) \<Rightarrow> ipa_rm_client \<Rightarrow> rm_ioctl list" where
  "dep_requests req e =
     (if rx_bypass_ipa e then [] else [req (producer_rm1 e) (consumer_rm1 e)])
     @ [req (producer_rm2 e) (consumer_rm2 e)]"

definition add_rm_entry :: "ipa_rm_resource_name \<Rightarrow> bool \<Rightarrow> ipa_rm_client \<Rightarrow> ipa_rm_client \<times> rm_ioctl list" where
  "add_rm_entry rm1 bypass e =
     (let (e, out1) =
        (if rm1 = producer_rm1 e
         then let e = e\<lparr>producer1_up := True, rx_bypass_ipa := bypass\<rparr>
              in if consumer1_up e \<and> \<not> rm_set e
                 then (e\<lparr>rm_set := True\<rparr>, dep_requests IPA_IOC_RM_ADD_DEPENDENCY e) else (e, [])
         else (e, []));
          (e, out2) =
        (if rm1 = consumer_rm1 e
         then let e = e\<lparr>consumer1_up := True\<rparr>
              in if producer1_up e \<and> \<not> rm_set e
                 then (e\<lparr>rm_set := True\<rparr>, dep_requests IPA_IOC_RM_ADD_DEPENDENCY e) else (e, [])
         else (e, []))
      in (e, out1 @ out2))"

definition AddRmDepend :: "ipa_rm_resource_name \<Rightarrow> bool \<Rightarrow> ipacm_config \<Rightarrow> ipacm_config" where
  "AddRmDepend rm1 bypass c =
     (let c = (if rm1 = IPA_RM_RESOURCE_Q6_CONS then c\<lparr>ipa_rm_a2_check := ipa_rm_a2_check c + 1\<rparr> else c);
          rs = map (add_rm_entry rm1 bypass) (ipa_rm_tbl c)
      in c\<lparr>ipa_rm_tbl := map fst rs, rm_ioctls := rm_ioctls c @ concat (map snd rs)\<rparr>)"

definition del_rm_entry :: "ipa_rm_resource_name \<Rightarrow> int \<Rightarrow> ipa_rm_client \<Rightarrow> ipa_rm_client \<times> rm_ioctl list" where
  "del_rm_entry rm1 a2_check e =
     (let (e, out1) =
        (if rm1 = producer_rm1 e
         then let (e, out) = (if rm_set e
                then (e\<lparr>rm_set := False\<rparr>, dep_requests IPA_IOC_RM_DEL_DEPENDENCY e) else (e, []))
              in (e\<lparr>producer1_up := False, rx_bypass_ipa := False\<rparr>, out)
         else (e, []));
          (e, out2) =
        (if rm1 = consumer_rm1 e
         then if consumer_rm1 e = IPA_RM_RESOURCE_Q6_CONS \<and> a2_check = 1 then (e, [])
              else let (e, out) = (if rm_set e
                then (e\<lparr>rm_set := False\<rparr>, dep_requests IPA_IOC_RM_DEL_DEPENDENCY e) else (e, []))
              in (e\<lparr>consumer1_up := False\<rparr>, out)
         else (e, []))
      in (e, out1 @ out2))"

definition DelRmDepend :: "ipa_rm_resource_name \<Rightarrow> ipacm_config \<Rightarrow> ipacm_config" where
  "DelRmDepend rm1 c =
     (let c = (if rm1 = IPA_RM_RESOURCE_Q6_CONS then c\<lparr>ipa_rm_a2_check := ipa_rm_a2_check c - 1\<rparr> else c);
          rs = map (del_rm_entry rm1 (ipa_rm_a2_check c)) (ipa_rm_tbl c)
      in c\<lparr>ipa_rm_tbl := map fst rs, rm_ioctls := rm_ioctls c @ concat (map snd rs)\<rparr>)"

end
