(* ===== verification/Nat_App.thy ===== *)
theory Nat_App
  imports Nat_Api Ipacm_Config
begin

text \<open>
  The NAT application of the IPA connection manager (class \<open>NatApp\<close> of
  ipacm/src/IPACM_Conntrack_NATApp.cpp), the client of the NAT driver: it caches the connections
  that connection tracking reports, inserts them into the NAT table, takes them out while their
  client sleeps, and puts them back when the table is created again.

  The members are one record. The driver's global cache is part of it, so that a method calls the
  functions of ipanat as the code does. A loop over the arrays is \<open>for_range\<close>. What the C++
  constructor leaves uninitialised is an argument of \<open>NatApp_new\<close>. \<open>IPACM_Config\<close> is the record
  of its own theory. Connection tracking (libnetfilter_conntrack), the files under /proc and malloc
  are the record \<open>app_env\<close>; the requests made to connection tracking are a list in the state.
\<close>

section \<open>Data\<close>

record nat_table_entry =
  private_ip :: u32
  private_port :: u16
  target_ip :: u32
  target_port :: u16
  public_ip :: u32
  public_port :: u16
  protocol :: u8
  timestamp :: u32
  dst_nat :: bool
  enabled :: bool
  rule_hdl :: nat

abbreviation (input) MAX_TEMP_ENTRIES :: nat where "MAX_TEMP_ENTRIES \<equiv> 25"
abbreviation (input) IPA_MAX_NUM_WIFI_CLIENTS :: nat where "IPA_MAX_NUM_WIFI_CLIENTS \<equiv> 32"
abbreviation (input) INVALID_IP_ADDR :: u32 where "INVALID_IP_ADDR \<equiv> 0"
abbreviation (input) IPPROTO_UDP :: u8 where "IPPROTO_UDP \<equiv> 17"

text \<open>A request to connection tracking: the attributes set before \<open>nfct_query(NFCT_Q_UPDATE)\<close>.\<close>

record ct_update =
  ct_l4proto :: u8
  ct_timeout :: u32
  ct_ipv4_src :: u32
  ct_port_src :: u16
  ct_ipv4_dst :: u32
  ct_port_dst :: u16

text \<open>
  \<open>udp_file\<close> and \<open>tcp_file\<close>: \<open>None\<close> when the file does not open, \<open>Some None\<close> when it holds no
  number.
\<close>

record app_env =
  drv_env :: nat_env
  cache_malloc_ok :: bool
  alg_malloc_ok :: bool
  nfct_open_ok :: bool
  nfct_new_ok :: bool
  nfct_query :: "ct_update \<Rightarrow> int"
  udp_file :: "u32 option option"
  tcp_file :: "u32 option option"

record natapp =
  cache :: "nat_table_entry list"
  temp :: "nat_table_entry list"
  pub_ip_addr :: u32
  pub_ip_addr_pre :: u32
  nat_table_hdl :: nat
  curCnt :: int
  max_entries :: nat
  pALGPorts :: "ipacm_alg list"
  tcp_timeout :: u32
  udp_timeout :: u32
  PwrSaveIfs :: "u32 list"
  ct :: bool
  ct_hdl :: bool
  ct_updates :: "ct_update list"
  drv :: ipa_nat_cache

definition zero_entry :: nat_table_entry where
  "zero_entry = \<lparr>private_ip = 0, private_port = 0, target_ip = 0, target_port = 0, public_ip = 0,
     public_port = 0, protocol = 0, timestamp = 0, dst_nat = False, enabled = False, rule_hdl = 0\<rparr>"

section \<open>Construction\<close>

text \<open>
  The constructor: \<open>pre\<close>, \<open>tcp\<close>, \<open>udp\<close> and \<open>pwr\<close> are the contents of the members it
  does not set.
\<close>

definition NatApp_new :: "u32 \<Rightarrow> u32 \<Rightarrow> u32 \<Rightarrow> u32 list \<Rightarrow> ipa_nat_cache \<Rightarrow> natapp" where
  "NatApp_new pre tcp udp pwr d = \<lparr>cache = [], temp = replicate MAX_TEMP_ENTRIES zero_entry, pub_ip_addr = 0,
     pub_ip_addr_pre = pre, nat_table_hdl = 0, curCnt = 0, max_entries = 0, pALGPorts = [], tcp_timeout = tcp,
     udp_timeout = udp, PwrSaveIfs = pwr, ct = False, ct_hdl = False, ct_updates = [], drv = d\<rparr>"

definition NatApp_Init :: "app_env \<Rightarrow> ipacm_config option \<Rightarrow> natapp \<Rightarrow> (int \<times> natapp) option" where
  "NatApp_Init env pConfig a =
     (case pConfig of
        None \<Rightarrow> Some (-1, a)
      | Some cfg \<Rightarrow>
          let a = a\<lparr>max_entries := ipa_nat_max_entries cfg\<rparr> in
          if \<not> cache_malloc_ok env then Some (-1, a)
          else let a = a\<lparr>cache := replicate (max_entries a) zero_entry\<rparr>; nALGPort = ipa_num_alg_ports cfg in
          if 0 < nALGPort
          then if \<not> alg_malloc_ok env then Some (-1, a)
               else do {
                 (r, ports) \<leftarrow> GetAlgPorts cfg (int nALGPort) False;
                 if r \<noteq> 0 then Some (-1, a) else Some (0, a\<lparr>pALGPorts := ports\<rparr>)
               }
          else Some (0, a))"

text \<open>
  The instance pointer: none, an object, or the address of an object that was deleted because
  \<open>Init\<close> failed, which \<open>GetInstance\<close> does not reset.
\<close>

datatype 'a instance_ptr = NO_INSTANCE | INSTANCE 'a | DELETED_INSTANCE

text \<open>The pointer returned, as the same type, and the new \<open>pInstance\<close>.\<close>

definition NatApp_GetInstance ::
  "app_env \<Rightarrow> ipacm_config option \<Rightarrow> natapp \<Rightarrow> natapp instance_ptr \<Rightarrow> (natapp instance_ptr \<times> natapp instance_ptr) option" where
  "NatApp_GetInstance env pConfig fresh pInstance =
     (if pInstance = NO_INSTANCE
      then do {
        (r, a) \<leftarrow> NatApp_Init env pConfig fresh;
        if r \<noteq> 0 then Some (NO_INSTANCE, DELETED_INSTANCE) else Some (INSTANCE a, INSTANCE a)
      }
      else Some (pInstance, pInstance))"

section \<open>Tests\<close>

definition isAlgPort :: "natapp \<Rightarrow> u8 \<Rightarrow> u16 \<Rightarrow> bool" where
  "isAlgPort a proto port = list_ex (\<lambda>g. proto = alg_protocol g \<and> port = alg_port g) (pALGPorts a)"

definition isPwrSaveIf :: "natapp \<Rightarrow> u32 \<Rightarrow> bool" where
  "isPwrSaveIf a ip_addr = list_ex (\<lambda>p. 0 \<noteq> p \<and> ip_addr = p) (PwrSaveIfs a)"

definition same_conn :: "nat_table_entry \<Rightarrow> nat_table_entry \<Rightarrow> bool" where
  "same_conn e r \<longleftrightarrow> private_ip e = private_ip r \<and> target_ip e = target_ip r \<and> private_port e = private_port r \<and>
     target_port e = target_port r \<and> protocol e = protocol r"

definition blank_entry :: "nat_table_entry \<Rightarrow> bool" where
  "blank_entry e \<longleftrightarrow> private_ip e = 0 \<and> target_ip e = 0 \<and> private_port e = 0 \<and> target_port e = 0 \<and> protocol e = 0"

definition invalid_conn :: "nat_table_entry \<Rightarrow> bool" where
  "invalid_conn r \<longleftrightarrow> private_ip r = 0 \<or> target_ip r = 0 \<or> private_port r = 0 \<or> target_port r = 0 \<or> protocol r = 0"

text \<open>The first entry of the cache with a property, from \<open>cnt\<close> on.\<close>

definition find_entry :: "(nat_table_entry \<Rightarrow> bool) \<Rightarrow> natapp \<Rightarrow> nat \<Rightarrow> nat option option" where
  "find_entry p a cnt = scan_first (\<lambda>i. map_option p (rd (cache a) i)) (max_entries a) cnt"

definition ChkForDup :: "nat_table_entry \<Rightarrow> natapp \<Rightarrow> bool option" where
  "ChkForDup rule a = map_option (\<lambda>r. r \<noteq> None) (find_entry (\<lambda>e. same_conn e rule) a 0)"

section \<open>Calls of the driver\<close>

text \<open>The rule of an entry, and the two calls with the handle kept in the entry at \<open>i\<close>.\<close>

definition nat_rule_of :: "nat_table_entry \<Rightarrow> ipa_nat_ipv4_rule" where
  "nat_rule_of e = \<lparr>clnt_target_ip = target_ip e, clnt_private_ip = private_ip e, clnt_target_port = target_port e,
     clnt_private_port = private_port e, clnt_public_port = public_port e, clnt_protocol = protocol e\<rparr>"

definition put_entry :: "nat \<Rightarrow> nat_table_entry \<Rightarrow> natapp \<Rightarrow> natapp option" where
  "put_entry i e a = map_option (\<lambda>es. a\<lparr>cache := es\<rparr>) (wr (cache a) i e)"

definition hw_add :: "app_env \<Rightarrow> ipa_nat_ipv4_rule \<Rightarrow> nat \<Rightarrow> natapp \<Rightarrow> (int \<times> natapp) option" where
  "hw_add env r i a =
     do {
       (ret, h, d) \<leftarrow> ipa_nat_add_ipv4_rule (drv_env env) (nat_table_hdl a) (Some r) False (drv a);
       e \<leftarrow> rd (cache a) i;
       a \<leftarrow> (case h of None \<Rightarrow> Some a | Some h \<Rightarrow> put_entry i (e\<lparr>rule_hdl := h\<rparr>) a);
       Some (ret, a\<lparr>drv := d\<rparr>)
     }"

definition hw_del :: "app_env \<Rightarrow> nat \<Rightarrow> natapp \<Rightarrow> (int \<times> natapp) option" where
  "hw_del env i a =
     do {
       e \<leftarrow> rd (cache a) i;
       (ret, d) \<leftarrow> ipa_nat_del_ipv4_rule (drv_env env) (nat_table_hdl a) (rule_hdl e) (drv a);
       Some (ret, a\<lparr>drv := d\<rparr>)
     }"

section \<open>The table\<close>

text \<open>
  One entry of the restore loop of \<open>AddTable\<close> and of the loop of \<open>ResetPwrSaveIf\<close>: back into
  the table, or out of the cache when the driver refuses it.
\<close>

definition readd_entry :: "app_env \<Rightarrow> nat \<Rightarrow> natapp \<Rightarrow> natapp option" where
  "readd_entry env cnt a =
     do {
       e \<leftarrow> rd (cache a) cnt;
       (ret, a) \<leftarrow> hw_add env (nat_rule_of e) cnt a;
       if ret < 0
       then do { a \<leftarrow> put_entry cnt zero_entry a; Some (a\<lparr>curCnt := curCnt a - 1\<rparr>) }
       else do { e \<leftarrow> rd (cache a) cnt; put_entry cnt (e\<lparr>enabled := True\<rparr>) a }
     }"

definition AddTable :: "app_env \<Rightarrow> u32 \<Rightarrow> natapp \<Rightarrow> (int \<times> natapp) option" where
  "AddTable env pub_ip a =
     do {
       (ret, h, d) \<leftarrow> ipa_nat_add_ipv4_tbl (drv_env env) pub_ip (max_entries a) False (drv a);
       let a = a\<lparr>drv := d, nat_table_hdl := (case h of None \<Rightarrow> nat_table_hdl a | Some h \<Rightarrow> h)\<rparr>;
       if ret \<noteq> 0 then Some (ret, a)
       else do {
         a \<leftarrow> (if pub_ip = pub_ip_addr_pre a
               then for_range (\<lambda>cnt a. do {
                      e \<leftarrow> rd (cache a) cnt;
                      if private_ip e \<noteq> 0 then readd_entry env cnt a else Some a }) (max_entries a) 0 a
               else Some a);
         Some (0, a\<lparr>pub_ip_addr := pub_ip\<rparr>)
       }
     }"

text \<open>
  \<open>cache[cnt].enabled ==false;\<close> in the loop of \<open>Reset\<close> is a comparison: the entries are read
  and keep their flag.
\<close>

definition NatApp_Reset :: "natapp \<Rightarrow> natapp option" where
  "NatApp_Reset a =
     for_range (\<lambda>cnt a. do { e \<leftarrow> rd (cache a) cnt; Some a }) (max_entries a) 0
       (a\<lparr>nat_table_hdl := 0, pub_ip_addr := 0\<rparr>)"

definition DeleteTable :: "app_env \<Rightarrow> u32 \<Rightarrow> natapp \<Rightarrow> (int \<times> natapp) option" where
  "DeleteTable env pub_ip a =
     (if nat_table_hdl a = 0 then Some (-1, a)
      else if pub_ip_addr a \<noteq> pub_ip then Some (-1, a)
      else do {
        (ret, d) \<leftarrow> ipa_nat_del_ipv4_tbl (drv_env env) (nat_table_hdl a) (drv a);
        let a = a\<lparr>drv := d\<rparr>;
        if ret \<noteq> 0 then Some (ret, a)
        else do {
          a \<leftarrow> NatApp_Reset (a\<lparr>pub_ip_addr_pre := pub_ip_addr a\<rparr>);
          Some (0, a)
        }
      })"

definition GetTableHdl :: "u32 \<Rightarrow> natapp \<Rightarrow> nat" where
  "GetTableHdl in_ip_addr a = (if in_ip_addr = pub_ip_addr a then nat_table_hdl a else 2 ^ 32 - 1)"

section \<open>Entries\<close>

definition DeleteEntry :: "app_env \<Rightarrow> nat_table_entry \<Rightarrow> natapp \<Rightarrow> (int \<times> natapp) option" where
  "DeleteEntry env rule a =
     do {
       found \<leftarrow> find_entry (\<lambda>e. same_conn e rule) a 0;
       case found of
         None \<Rightarrow> Some (0, a)
       | Some cnt \<Rightarrow> do {
           e \<leftarrow> rd (cache a) cnt;
           (r, a) \<leftarrow> (if enabled e then hw_del env cnt a else Some (0, a));
           a \<leftarrow> put_entry cnt zero_entry a;
           Some (0, a\<lparr>curCnt := curCnt a - 1\<rparr>)
         }
     }"

text \<open>The members that \<open>AddEntry\<close> copies; it does not touch the public address.\<close>

definition fill_entry :: "nat_table_entry \<Rightarrow> nat_table_entry \<Rightarrow> nat_table_entry" where
  "fill_entry rule e = e\<lparr>private_ip := private_ip rule, target_ip := target_ip rule, target_port := target_port rule,
     private_port := private_port rule, protocol := protocol rule, timestamp := 0, public_port := public_port rule,
     dst_nat := dst_nat rule\<rparr>"

definition AddEntry :: "app_env \<Rightarrow> nat_table_entry \<Rightarrow> natapp \<Rightarrow> (int \<times> natapp) option" where
  "AddEntry env rule a =
     (if nat_table_hdl a = 0 then Some (-1, a)
      else if isAlgPort a (protocol rule) (private_port rule) \<or> isAlgPort a (protocol rule) (target_port rule)
      then Some (-1, a)
      else if invalid_conn rule then Some (0, a)
      else do {
        dup \<leftarrow> ChkForDup rule a;
        if dup then Some (-1, a)
        else do {
          free \<leftarrow> find_entry blank_entry a 0;
          case free of
            None \<Rightarrow> Some (-1, a)
          | Some cnt \<Rightarrow> do {
              e \<leftarrow> rd (cache a) cnt;
              (ret, a) \<leftarrow>
                (if isPwrSaveIf a (private_ip rule) \<or> isPwrSaveIf a (target_ip rule)
                 then do { a \<leftarrow> put_entry cnt (e\<lparr>enabled := False, rule_hdl := 0\<rparr>) a; Some (0 :: int, a) }
                 else do {
                   (ret, a) \<leftarrow> hw_add env (nat_rule_of rule) cnt a;
                   if ret < 0 then Some (-1, a)
                   else do { e \<leftarrow> rd (cache a) cnt; a \<leftarrow> put_entry cnt (e\<lparr>enabled := True\<rparr>) a; Some (0, a) }
                 });
              if ret < 0 then Some (-1, a)
              else do {
                e \<leftarrow> rd (cache a) cnt;
                a \<leftarrow> put_entry cnt (fill_entry rule e) a;
                Some (0, a\<lparr>curCnt := curCnt a + 1\<rparr>)
              }
            }
        }
      })"

text \<open>
  \<open>cnt\<close> is what the uninitialised variable of \<open>CacheEntry\<close> holds when its loop starts (a negative
  value reads before the array at once).
\<close>

definition CacheEntry :: "nat \<Rightarrow> nat_table_entry \<Rightarrow> natapp \<Rightarrow> natapp option" where
  "CacheEntry cnt rule a =
     (if invalid_conn rule then Some a
      else do {
        dup \<leftarrow> ChkForDup rule a;
        if dup then Some a
        else do {
          free \<leftarrow> find_entry blank_entry a cnt;
          let cnt = (case free of None \<Rightarrow> max cnt (max_entries a) | Some i \<Rightarrow> i);
          if max_entries a = cnt then Some a
          else do {
            e \<leftarrow> rd (cache a) cnt;
            a \<leftarrow> put_entry cnt ((fill_entry rule e)\<lparr>enabled := False, rule_hdl := 0, public_ip := public_ip rule\<rparr>) a;
            Some (a\<lparr>curCnt := curCnt a + 1\<rparr>)
          }
        }
      })"

section \<open>Clients that sleep, wake up and leave\<close>

definition UpdatePwrSaveIf :: "app_env \<Rightarrow> u32 \<Rightarrow> natapp \<Rightarrow> (int \<times> natapp) option" where
  "UpdatePwrSaveIf env client_lan_ip a =
     (if client_lan_ip = INVALID_IP_ADDR then Some (-1, a)
      else do {
        known \<leftarrow> scan_first (\<lambda>i. map_option (\<lambda>p. p = client_lan_ip) (rd (PwrSaveIfs a) i)) IPA_MAX_NUM_WIFI_CLIENTS 0;
        if known \<noteq> None then Some (0, a)
        else do {
          free \<leftarrow> scan_first (\<lambda>i. map_option (\<lambda>p. p = 0) (rd (PwrSaveIfs a) i)) IPA_MAX_NUM_WIFI_CLIENTS 0;
          let a = (case free of None \<Rightarrow> a | Some i \<Rightarrow> a\<lparr>PwrSaveIfs := (PwrSaveIfs a)[i := client_lan_ip]\<rparr>);
          a \<leftarrow> for_range (\<lambda>cnt a. do {
                 e \<leftarrow> rd (cache a) cnt;
                 if private_ip e = client_lan_ip \<and> enabled e
                 then do {
                   (ret, a) \<leftarrow> hw_del env cnt a;
                   if ret < 0 then Some a
                   else put_entry cnt (e\<lparr>enabled := False, rule_hdl := 0\<rparr>) a
                 }
                 else Some a }) (max_entries a) 0 a;
          Some (0, a)
        }
      })"

text \<open>The power save entry of a client is cleared, the first one.\<close>

definition clear_pwr_save :: "u32 \<Rightarrow> natapp \<Rightarrow> natapp option" where
  "clear_pwr_save ip a =
     do {
       found \<leftarrow> scan_first (\<lambda>i. map_option (\<lambda>p. p = ip) (rd (PwrSaveIfs a) i)) IPA_MAX_NUM_WIFI_CLIENTS 0;
       Some (case found of None \<Rightarrow> a | Some i \<Rightarrow> a\<lparr>PwrSaveIfs := (PwrSaveIfs a)[i := 0]\<rparr>)
     }"

definition ResetPwrSaveIf :: "app_env \<Rightarrow> u32 \<Rightarrow> natapp \<Rightarrow> (int \<times> natapp) option" where
  "ResetPwrSaveIf env client_lan_ip a =
     (if client_lan_ip = INVALID_IP_ADDR then Some (-1, a)
      else do {
        a \<leftarrow> clear_pwr_save client_lan_ip a;
        a \<leftarrow> for_range (\<lambda>cnt a. do {
               e \<leftarrow> rd (cache a) cnt;
               if private_ip e = client_lan_ip \<and> \<not> enabled e then readd_entry env cnt a else Some a })
             (max_entries a) 0 a;
        Some (-1, a)
      })"

text \<open>The entry stays in the cache, with the handle of the rule that was deleted.\<close>

definition DelEntriesOnClntDiscon :: "app_env \<Rightarrow> u32 \<Rightarrow> natapp \<Rightarrow> (int \<times> natapp) option" where
  "DelEntriesOnClntDiscon env ip_addr a =
     (if ip_addr = INVALID_IP_ADDR then Some (-1, a)
      else do {
        a \<leftarrow> clear_pwr_save ip_addr a;
        a \<leftarrow> for_range (\<lambda>cnt a. do {
               e \<leftarrow> rd (cache a) cnt;
               if private_ip e = ip_addr \<and> enabled e
               then do {
                 (ret, a) \<leftarrow> hw_del env cnt a;
                 if ret < 0 then Some a else put_entry cnt (e\<lparr>enabled := False\<rparr>) a
               }
               else Some a }) (max_entries a) 0 a;
        Some (0, a)
      })"

definition DelEntriesOnSTAClntDiscon :: "app_env \<Rightarrow> u32 \<Rightarrow> natapp \<Rightarrow> (int \<times> natapp) option" where
  "DelEntriesOnSTAClntDiscon env ip_addr a =
     (if ip_addr = INVALID_IP_ADDR then Some (-1, a)
      else do {
        a \<leftarrow> for_range (\<lambda>cnt a. do {
               e \<leftarrow> rd (cache a) cnt;
               if target_ip e = ip_addr
               then do {
                 (ret, a) \<leftarrow> (if enabled e then hw_del env cnt a else Some (0, a));
                 if ret < 0 then Some a
                 else do { a \<leftarrow> put_entry cnt zero_entry a; Some (a\<lparr>curCnt := curCnt a - 1\<rparr>) }
               }
               else Some a }) (max_entries a) 0 a;
        Some (0, a)
      })"

section \<open>Temporary entries\<close>

definition put_temp :: "nat \<Rightarrow> nat_table_entry \<Rightarrow> natapp \<Rightarrow> natapp option" where
  "put_temp i e a = map_option (\<lambda>es. a\<lparr>temp := es\<rparr>) (wr (temp a) i e)"

definition find_temp :: "(nat_table_entry \<Rightarrow> bool) \<Rightarrow> natapp \<Rightarrow> nat option option" where
  "find_temp p a = scan_first (\<lambda>i. map_option p (rd (temp a) i)) MAX_TEMP_ENTRIES 0"

definition AddTempEntry :: "nat_table_entry \<Rightarrow> natapp \<Rightarrow> natapp option" where
  "AddTempEntry new_entry a =
     (if isAlgPort a (protocol new_entry) (private_port new_entry) \<or> isAlgPort a (protocol new_entry) (target_port new_entry)
      then Some a
      else do {
        dup \<leftarrow> ChkForDup new_entry a;
        if dup then Some a
        else do {
          known \<leftarrow> find_temp (\<lambda>e. same_conn e new_entry) a;
          if known \<noteq> None then Some a
          else do {
            free \<leftarrow> find_temp (\<lambda>e. private_ip e = 0 \<and> target_ip e = 0) a;
            case free of None \<Rightarrow> Some a | Some cnt \<Rightarrow> put_temp cnt new_entry a
          }
        }
      })"

definition DeleteTempEntry :: "nat_table_entry \<Rightarrow> natapp \<Rightarrow> natapp option" where
  "DeleteTempEntry entry a =
     do {
       found \<leftarrow> find_temp (\<lambda>e. same_conn e entry) a;
       case found of None \<Rightarrow> Some a | Some cnt \<Rightarrow> put_temp cnt zero_entry a
     }"

definition FlushTempEntries :: "app_env \<Rightarrow> u32 \<Rightarrow> bool \<Rightarrow> natapp \<Rightarrow> natapp option" where
  "FlushTempEntries env ip_addr isAdd a =
     for_range (\<lambda>cnt a. do {
       t \<leftarrow> rd (temp a) cnt;
       if private_ip t = ip_addr \<or> target_ip t = ip_addr
       then do {
         (ret, a) \<leftarrow> (if isAdd \<and> public_ip t = pub_ip_addr a then AddEntry env t a else Some (0, a));
         if ret \<noteq> 0 then Some a else put_temp cnt zero_entry a
       }
       else Some a }) MAX_TEMP_ENTRIES 0 a"

section \<open>Time stamps\<close>

text \<open>\<open>htons\<close> and \<open>htonl\<close> on a little endian machine.\<close>

definition htons :: "u16 \<Rightarrow> u16" where
  "htons w = push_bit 8 w OR drop_bit 8 w"

definition htonl :: "u32 \<Rightarrow> u32" where
  "htonl w = mk32 (htons (lo16 w)) (htons (hi16 w))"

text \<open>A file that does not open ends the function: the UDP file comes first.\<close>

definition Read_TcpUdp_Timeout :: "app_env \<Rightarrow> natapp \<Rightarrow> natapp" where
  "Read_TcpUdp_Timeout env a =
     (case udp_file env of
        None \<Rightarrow> a
      | Some u \<Rightarrow>
          let a = (case u of None \<Rightarrow> a | Some v \<Rightarrow> a\<lparr>udp_timeout := v\<rparr>) in
          (case tcp_file env of
             None \<Rightarrow> a
           | Some t \<Rightarrow> (case t of None \<Rightarrow> a | Some v \<Rightarrow> a\<lparr>tcp_timeout := v\<rparr>)))"

definition ct_update_of :: "natapp \<Rightarrow> nat_table_entry \<Rightarrow> ct_update" where
  "ct_update_of a rule =
     \<lparr>ct_l4proto = protocol rule,
      ct_timeout = (if protocol rule = IPPROTO_UDP then udp_timeout a else tcp_timeout a),
      ct_ipv4_src = htonl (if dst_nat rule then target_ip rule else private_ip rule),
      ct_port_src = htons (if dst_nat rule then target_port rule else private_port rule),
      ct_ipv4_dst = htonl (if dst_nat rule then pub_ip_addr a else target_ip rule),
      ct_port_dst = htons (if dst_nat rule then public_port rule else target_port rule)\<rparr>"

text \<open>The entry is the one at \<open>cnt\<close>, which \<open>DeleteEntry\<close> may clear.\<close>

definition UpdateCTUdpTs :: "app_env \<Rightarrow> nat \<Rightarrow> u32 \<Rightarrow> natapp \<Rightarrow> natapp option" where
  "UpdateCTUdpTs env cnt new_ts a =
     (if \<not> ct_hdl a \<and> \<not> nfct_open_ok env then Some a
      else let a = a\<lparr>ct_hdl := True\<rparr> in
      if \<not> ct a \<and> \<not> nfct_new_ok env then Some a
      else do {
        let a = a\<lparr>ct := True\<rparr>;
        rule \<leftarrow> rd (cache a) cnt;
        let u = ct_update_of a rule;
        let a = a\<lparr>ct_updates := ct_updates a @ [u]\<rparr>;
        if nfct_query env u = -1 then map_option snd (DeleteEntry env rule a)
        else put_entry cnt (rule\<lparr>timestamp := new_ts\<rparr>) a
      })"

definition UpdateUDPTimeStamp :: "app_env \<Rightarrow> natapp \<Rightarrow> natapp option" where
  "UpdateUDPTimeStamp env a =
     map_option snd
       (for_range (\<lambda>cnt (read_to, a). do {
          e \<leftarrow> rd (cache a) cnt;
          if enabled e
          then do {
            (ret, ts) \<leftarrow> ipa_nat_query_timestamp (nat_table_hdl a) (rule_hdl e) False (drv a);
            if ret < 0 then Some (read_to, a)
            else let ts = (case ts of None \<Rightarrow> 0 | Some ts \<Rightarrow> ts) in
            if timestamp e = ts then Some (read_to, a)
            else do {
              a \<leftarrow> UpdateCTUdpTs env cnt ts (if read_to then a else Read_TcpUdp_Timeout env a);
              Some (True, a)
            }
          }
          else Some (read_to, a) }) (max_entries a) 0 (False, a))"

end
