(* ===== verification/Ct_Client.thy ===== *)
theory Ct_Client
  imports Ipacm_Events Nat_App
begin

text \<open>
  The client of connection tracking (ipacm/src/IPACM_ConntrackClient.cpp): the filters it builds
  for libnetfilter_conntrack, the threads that register for its messages, and the callback that
  turns a message into an event of the command queue.

  A filter of the library is the list of the requests made for it. The functions of the library,
  sockets and ioctls that can fail are the record \<open>ct_env\<close>. A message of the library is the record
  of the attributes that the code reads; addresses and ports are in network order.
\<close>

section \<open>Data\<close>

record ipacm_event_iface_up =
  ifname :: string
  ipv4_addr :: u32
  addr_mask :: u32
  ipv6_prefix :: "u32 list"
  is_sta :: bool
  xlat_mux_id :: u8

datatype nf_conntrack_msg_type = NFCT_T_UNKNOWN | NFCT_T_NEW | NFCT_T_UPDATE | NFCT_T_DESTROY | NFCT_T_ERROR

record nf_conntrack =
  ATTR_STATUS :: u32
  ATTR_REPL_L3PROTO :: u8
  ATTR_ORIG_L4PROTO :: u8
  ATTR_REPL_L4PROTO :: u8
  ATTR_ORIG_IPV4_SRC :: u32
  ATTR_ORIG_IPV4_DST :: u32
  ATTR_REPL_IPV4_SRC :: u32
  ATTR_ORIG_PORT_SRC :: u16
  ATTR_ORIG_PORT_DST :: u16
  ATTR_REPL_PORT_SRC :: u16
  ATTR_REPL_PORT_DST :: u16
  ATTR_TCP_STATE :: u8

record ipacm_ct_evt_data =
  ct_msg :: nf_conntrack
  ct_type :: nf_conntrack_msg_type

abbreviation (input) IPPROTO_TCP :: u8 where "IPPROTO_TCP \<equiv> 6"
abbreviation (input) TCP_CONNTRACK_ESTABLISHED :: u8 where "TCP_CONNTRACK_ESTABLISHED \<equiv> 3"
abbreviation (input) TCP_CONNTRACK_FIN_WAIT :: u8 where "TCP_CONNTRACK_FIN_WAIT \<equiv> 4"
abbreviation (input) AF_INET6 :: u8 where "AF_INET6 \<equiv> 10"
abbreviation (input) IPA_PROCESS_CT_MESSAGE :: nat where "IPA_PROCESS_CT_MESSAGE \<equiv> 21"
abbreviation (input) NFCT_CB_STOLEN :: int where "NFCT_CB_STOLEN \<equiv> 2"

datatype nfct_filter_attr =
  NFCT_FILTER_L4PROTO | NFCT_FILTER_L4PROTO_STATE | NFCT_FILTER_SRC_IPV4 | NFCT_FILTER_DST_IPV4

datatype nfct_filter_logic = NFCT_FILTER_LOGIC_POSITIVE | NFCT_FILTER_LOGIC_NEGATIVE

text \<open>A value: a protocol, a protocol and its state, or an address and its mask.\<close>

datatype nfct_filter_value = PROTO u8 | PROTO_STATE u8 u8 | ADDR_MASK u32 u32

datatype nfct_request =
    SET_LOGIC nfct_filter_attr nfct_filter_logic
  | ADD_ATTR nfct_filter_attr nfct_filter_value

type_synonym nfct_filter = "nfct_request list"

record ct_client =
  tcp_hdl :: bool
  udp_hdl :: bool
  tcp_filter :: "nfct_filter option"
  udp_filter :: "nfct_filter option"

text \<open>
  The statics: the instance and the \<open>isIgnore\<close> flags of the two update functions; then what the
  kernel was given, each filter attached with whether it was the TCP one.
\<close>

record ct_clients =
  cc_pInstance :: "ct_client instance_ptr"
  udp_isIgnore :: bool
  tcp_isIgnore :: bool
  attached :: "(bool \<times> nfct_filter) list"

record ct_env =
  filter_create :: "bool \<Rightarrow> bool"
  filter_set_logic :: "nfct_filter \<Rightarrow> nfct_filter_attr \<Rightarrow> int"
  filter_attach :: "bool \<Rightarrow> int"
  ct_open :: "bool \<Rightarrow> bool"
  ct_catch :: int
  cc_socket_ok :: bool
  if_ipv4 :: "string \<Rightarrow> u32 option"

section \<open>The instance\<close>

definition ct_client_new :: ct_client where
  "ct_client_new = \<lparr>tcp_hdl = False, udp_hdl = False, tcp_filter = None, udp_filter = None\<rparr>"

text \<open>
  The pointer returned and the new statics. A caller follows the pointer unless it is null, so the
  address of an object deleted before is undefined here.
\<close>

definition ct_client_GetInstance :: "ct_env \<Rightarrow> ct_clients \<Rightarrow> (ct_client option \<times> ct_clients) option" where
  "ct_client_GetInstance env s =
     (case cc_pInstance s of
        INSTANCE c \<Rightarrow> Some (Some c, s)
      | DELETED_INSTANCE \<Rightarrow> None
      | NO_INSTANCE \<Rightarrow>
          if \<not> filter_create env False then Some (None, s\<lparr>cc_pInstance := DELETED_INSTANCE\<rparr>)
          else if \<not> filter_create env True then Some (None, s\<lparr>cc_pInstance := DELETED_INSTANCE\<rparr>)
          else let c = ct_client_new\<lparr>udp_filter := Some [], tcp_filter := Some []\<rparr>
               in Some (Some c, s\<lparr>cc_pInstance := INSTANCE c\<rparr>))"

section \<open>Filters\<close>

definition ignore_addr :: "nfct_filter_attr \<Rightarrow> u32 \<Rightarrow> nfct_filter \<Rightarrow> nfct_filter" where
  "ignore_addr attr addr f = f @ [SET_LOGIC attr NFCT_FILTER_LOGIC_NEGATIVE, ADD_ATTR attr (ADDR_MASK addr 0xFFFFFFFF)]"

definition Ignore_Bridge_Addrs :: "ct_env \<Rightarrow> string \<Rightarrow> nfct_filter \<Rightarrow> int \<times> nfct_filter" where
  "Ignore_Bridge_Addrs env bridge f =
     (if \<not> cc_socket_ok env then (-1, f)
      else case if_ipv4 env bridge of
             None \<Rightarrow> (-1, f)
           | Some addr \<Rightarrow> (0, ignore_addr NFCT_FILTER_SRC_IPV4 (htonl addr) (ignore_addr NFCT_FILTER_DST_IPV4 (htonl addr) f)))"

definition Ignore_Local_Iface :: "ipacm_event_iface_up \<Rightarrow> nfct_filter \<Rightarrow> nfct_filter" where
  "Ignore_Local_Iface param f =
     (let f = ignore_addr NFCT_FILTER_DST_IPV4 (ipv4_addr param) f;
          f = ignore_addr NFCT_FILTER_SRC_IPV4 (ipv4_addr param) f;
          bc_ip_addr = 0xFFFFFFFF AND NOT (addr_mask param);
          bc_ip_addr = bc_ip_addr OR (ipv4_addr param AND addr_mask param)
      in ignore_addr NFCT_FILTER_DST_IPV4 bc_ip_addr f)"

definition Ignore_Local_Addrs :: "nfct_filter \<Rightarrow> nfct_filter" where
  "Ignore_Local_Addrs f = ignore_addr NFCT_FILTER_SRC_IPV4 0xFFFFFFFF (ignore_addr NFCT_FILTER_DST_IPV4 0xFFFFFFFF f)"

text \<open>A change of a filter of the instance; a null filter passed to the library is undefined.\<close>

definition upd_tcp :: "(nfct_filter \<Rightarrow> nfct_filter) \<Rightarrow> ct_client \<Rightarrow> ct_client option" where
  "upd_tcp g c = map_option (\<lambda>f. c\<lparr>tcp_filter := Some (g f)\<rparr>) (tcp_filter c)"

definition upd_udp :: "(nfct_filter \<Rightarrow> nfct_filter) \<Rightarrow> ct_client \<Rightarrow> ct_client option" where
  "upd_udp g c = map_option (\<lambda>f. c\<lparr>udp_filter := Some (g f)\<rparr>) (udp_filter c)"

definition accept_state :: "u8 \<Rightarrow> nfct_filter" where
  "accept_state st = [SET_LOGIC NFCT_FILTER_L4PROTO_STATE NFCT_FILTER_LOGIC_POSITIVE,
     ADD_ATTR NFCT_FILTER_L4PROTO_STATE (PROTO_STATE IPPROTO_TCP st)]"

text \<open>The requests of the initialisation for a filter, and its result.\<close>

definition tcp_init :: "ct_env \<Rightarrow> nfct_filter \<Rightarrow> int \<times> nfct_filter" where
  "tcp_init env f =
     (if filter_set_logic env f NFCT_FILTER_L4PROTO = -1 then (-1, f)
      else let f = f @ [SET_LOGIC NFCT_FILTER_L4PROTO NFCT_FILTER_LOGIC_POSITIVE, ADD_ATTR NFCT_FILTER_L4PROTO (PROTO IPPROTO_TCP)] in
      if filter_set_logic env f NFCT_FILTER_L4PROTO_STATE = -1 then (-1, f)
      else let f = f @ accept_state TCP_CONNTRACK_ESTABLISHED in
      if filter_set_logic env f NFCT_FILTER_L4PROTO_STATE = -1 then (-1, f)
      else (0, f @ accept_state TCP_CONNTRACK_FIN_WAIT))"

definition TCP_Filter_Init :: "ct_env \<Rightarrow> ct_clients \<Rightarrow> (int \<times> ct_clients) option" where
  "TCP_Filter_Init env s =
     do {
       (p, s) \<leftarrow> ct_client_GetInstance env s;
       case p of
         None \<Rightarrow> Some (-1, s)
       | Some c \<Rightarrow> do {
           f \<leftarrow> tcp_filter c;
           let (ret, f) = tcp_init env f;
           Some (ret, s\<lparr>cc_pInstance := INSTANCE (c\<lparr>tcp_filter := Some f\<rparr>)\<rparr>)
         }
     }"

text \<open>A failure of \<open>nfct_filter_set_logic\<close> is only printed.\<close>

definition UDP_Filter_Init :: "ct_env \<Rightarrow> ct_clients \<Rightarrow> (int \<times> ct_clients) option" where
  "UDP_Filter_Init env s =
     do {
       (p, s) \<leftarrow> ct_client_GetInstance env s;
       case p of
         None \<Rightarrow> Some (-1, s)
       | Some c \<Rightarrow> do {
           c \<leftarrow> upd_udp (\<lambda>f. f @ (if filter_set_logic env f NFCT_FILTER_L4PROTO = -1 then []
                                else [SET_LOGIC NFCT_FILTER_L4PROTO NFCT_FILTER_LOGIC_POSITIVE])
                           @ [ADD_ATTR NFCT_FILTER_L4PROTO (PROTO IPPROTO_UDP)]) c;
           Some (0, s\<lparr>cc_pInstance := INSTANCE c\<rparr>)
         }
     }"

text \<open>The last steps of both update functions.\<close>

definition attach_filter :: "ct_env \<Rightarrow> bool \<Rightarrow> ct_client \<Rightarrow> ct_clients \<Rightarrow> ct_clients" where
  "attach_filter env tcp c s =
     (let s = s\<lparr>cc_pInstance := INSTANCE c\<rparr> in
      case (if tcp then tcp_filter c else udp_filter c) of
        None \<Rightarrow> s
      | Some f \<Rightarrow> if filter_attach env tcp = -1 then s else s\<lparr>attached := attached s @ [(tcp, f)]\<rparr>)"

definition UpdateUDPFilters :: "ct_env \<Rightarrow> string \<Rightarrow> ipacm_event_iface_up \<Rightarrow> bool \<Rightarrow> ct_clients \<Rightarrow> ct_clients option" where
  "UpdateUDPFilters env bridge param isWan s =
     do {
       (p, s) \<leftarrow> ct_client_GetInstance env s;
       case p of
         None \<Rightarrow> Some s
       | Some c \<Rightarrow>
           if udp_filter c = None then Some s
           else do {
             (c, s) \<leftarrow> (if isWan then Some (c, s)
               else do {
                 c \<leftarrow> upd_udp (Ignore_Local_Iface param) c;
                 if udp_isIgnore s then Some (c, s)
                 else do {
                   c \<leftarrow> upd_udp (\<lambda>f. snd (Ignore_Bridge_Addrs env bridge f)) c;
                   c \<leftarrow> upd_udp Ignore_Local_Addrs c;
                   Some (c, s\<lparr>udp_isIgnore := True\<rparr>)
                 }
               });
             Some (if udp_hdl c then attach_filter env False c s else s\<lparr>cc_pInstance := INSTANCE c\<rparr>)
           }
     }"

text \<open>The bridge and broadcast addresses are put into the UDP filter here too.\<close>

definition UpdateTCPFilters :: "ct_env \<Rightarrow> string \<Rightarrow> ipacm_event_iface_up \<Rightarrow> bool \<Rightarrow> ct_clients \<Rightarrow> ct_clients option" where
  "UpdateTCPFilters env bridge param isWan s =
     do {
       (p, s) \<leftarrow> ct_client_GetInstance env s;
       case p of
         None \<Rightarrow> Some s
       | Some c \<Rightarrow>
           if tcp_filter c = None then Some s
           else do {
             (c, s) \<leftarrow> (if isWan then Some (c, s)
               else do {
                 c \<leftarrow> upd_tcp (Ignore_Local_Iface param) c;
                 if tcp_isIgnore s then Some (c, s)
                 else do {
                   c \<leftarrow> upd_udp (\<lambda>f. snd (Ignore_Bridge_Addrs env bridge f)) c;
                   c \<leftarrow> upd_udp Ignore_Local_Addrs c;
                   Some (c, s\<lparr>tcp_isIgnore := True\<rparr>)
                 }
               });
             Some (if tcp_hdl c then attach_filter env True c s else s\<lparr>cc_pInstance := INSTANCE c\<rparr>)
           }
     }"

section \<open>The threads\<close>

text \<open>
  Up to the wait for messages: the flag says whether the thread waits. \<open>nfct_catch\<close> returns when
  the handle is closed or fails (-1).
\<close>

definition TCPRegister_start :: "ct_env \<Rightarrow> ct_clients \<Rightarrow> (bool \<times> ct_clients) option" where
  "TCPRegister_start env s =
     do {
       (p, s) \<leftarrow> ct_client_GetInstance env s;
       case p of
         None \<Rightarrow> Some (False, s)
       | Some c \<Rightarrow>
           let c = c\<lparr>tcp_hdl := ct_open env True\<rparr>; s = s\<lparr>cc_pInstance := INSTANCE c\<rparr> in
           if \<not> ct_open env True then Some (False, s)
           else do {
             (ret, s) \<leftarrow> TCP_Filter_Init env s;
             if ret = -1 then Some (False, s)
             else do {
               (p, s) \<leftarrow> ct_client_GetInstance env s;
               c \<leftarrow> p;
               Some (filter_attach env True \<noteq> -1, attach_filter env True c s)
             }
           }
     }"

definition TCPRegister_end :: "ct_env \<Rightarrow> ct_clients \<Rightarrow> ct_clients option" where
  "TCPRegister_end env s =
     (if ct_catch env = -1 then Some s
      else do {
        (p, s) \<leftarrow> ct_client_GetInstance env s;
        c \<leftarrow> p;
        Some (s\<lparr>cc_pInstance := INSTANCE (c\<lparr>tcp_filter := None, tcp_hdl := False\<rparr>)\<rparr>)
      })"

text \<open>The UDP thread calls \<open>nfct_catch\<close> again and again until it fails, and then leaves everything.\<close>

definition UDPRegister_start :: "ct_env \<Rightarrow> ct_clients \<Rightarrow> (bool \<times> ct_clients) option" where
  "UDPRegister_start env s =
     do {
       (p, s) \<leftarrow> ct_client_GetInstance env s;
       case p of
         None \<Rightarrow> Some (False, s)
       | Some c \<Rightarrow>
           let c = c\<lparr>udp_hdl := ct_open env False\<rparr>; s = s\<lparr>cc_pInstance := INSTANCE c\<rparr> in
           if \<not> ct_open env False then Some (False, s)
           else do {
             (ret, s) \<leftarrow> UDP_Filter_Init env s;
             if ret = -1 then Some (False, s)
             else do {
               (p, s) \<leftarrow> ct_client_GetInstance env s;
               c \<leftarrow> p;
               Some (filter_attach env False \<noteq> -1, attach_filter env False c s)
             }
           }
     }"

section \<open>Messages\<close>

text \<open>
  The messages in the heap by their address, the data of the events that carry them, and the
  command queue. \<open>NatApp\<close> and the listeners do not touch them.
\<close>

record ct_queue =
  ct_objs :: "nat \<rightharpoonup> nf_conntrack"
  ct_evts :: "nat \<rightharpoonup> nat \<times> nf_conntrack_msg_type"
  ct_cmdq :: ipacm_events

definition nfct_destroy :: "nat \<Rightarrow> ct_queue \<Rightarrow> ct_queue option" where
  "nfct_destroy obj s = (if ct_objs s obj = None then None else Some (s\<lparr>ct_objs := (ct_objs s)(obj := None)\<rparr>))"

text \<open>
  \<open>ct_data\<close> is the address that malloc returns for the event data, 0 when it fails; the rest are
  the arguments of \<open>PostEvt\<close>.
\<close>

definition IPAConntrackEventCB ::
  "nf_conntrack_msg_type \<Rightarrow> nat \<Rightarrow> nat \<Rightarrow> nat \<Rightarrow> bool \<Rightarrow> bool \<Rightarrow> bool \<Rightarrow> ct_queue \<Rightarrow> (int \<times> ct_queue) option" where
  "IPAConntrackEventCB type obj ct_data itm lock_ok signal_ok unlock_ok s =
     do {
       msg \<leftarrow> ct_objs s obj;
       if AF_INET6 = ATTR_REPL_L3PROTO msg then map_option (Pair NFCT_CB_STOLEN) (nfct_destroy obj s)
       else if ct_data = 0 then map_option (Pair NFCT_CB_STOLEN) (nfct_destroy obj s)
       else do {
         let s = s\<lparr>ct_evts := (ct_evts s)(ct_data \<mapsto> (obj, type))\<rparr>;
         (r, q) \<leftarrow> PostEvt itm lock_ok signal_ok unlock_ok \<lparr>event = IPA_PROCESS_CT_MESSAGE, evt_data = ct_data\<rparr> (ct_cmdq s);
         let s = s\<lparr>ct_cmdq := q\<rparr>;
         if 0 \<noteq> r then map_option (Pair NFCT_CB_STOLEN) (nfct_destroy obj (s\<lparr>ct_evts := (ct_evts s)(ct_data := None)\<rparr>))
         else Some (NFCT_CB_STOLEN, s)
       }
     }"

end
