(* ===== verification/Ct_Listener.thy ===== *)
theory Ct_Listener
  imports Ct_Client
begin

text \<open>
  The listener for connection tracking (ipacm/src/IPACM_ConntrackListener.cpp and its header): it
  follows the wide area network, the clients behind the NAT interfaces and the clients of a station
  interface, classifies each message of connection tracking, and calls the NAT application.

  The record has the members of the class and what they point to: the NAT application and the
  statics of the connection tracking client. \<open>IPACM_Config::GetInstance()\<close> is an argument (\<open>None\<close>
  for null). The branches under \<open>CT_OPT\<close>, which nothing defines, are left out, and so is printing.
\<close>

section \<open>Data\<close>

abbreviation (input) MAX_NAT_IFACES :: nat where "MAX_NAT_IFACES \<equiv> 50"
abbreviation (input) MAX_STA_CLNT_IFACES :: nat where "MAX_STA_CLNT_IFACES \<equiv> 10"
abbreviation (input) IPS_SRC_NAT :: u32 where "IPS_SRC_NAT \<equiv> 16"
abbreviation (input) IPS_DST_NAT :: u32 where "IPS_DST_NAT \<equiv> 32"

datatype ct_thread = TCPRegisterWithConnTrack | UDPRegisterWithConnTrack | UDPConnTimeoutUpdate

record ct_listener =
  isCTReg :: bool
  isNatThreadStart :: bool
  WanUp :: bool
  nat_inst :: "natapp option"
  NatIfaceCnt :: int
  StaClntCnt :: int
  ct_pNatIfaces :: "string list option"
  nat_iface_ipv4_addr :: "u32 list"
  nonnat_iface_ipv4_addr :: "u32 list"
  sta_clnt_ipv4_addr :: "u32 list"
  ct_pConfig :: bool
  wan_ifname :: string
  wan_ipaddr :: u32
  isStaMode :: bool
  clients :: ct_clients
  started :: "ct_thread list"
  ct_destroyed :: nat

text \<open>
  \<open>if_name\<close>: the ioctl \<open>SIOCGIFNAME\<close>. \<open>junk_cnt\<close>: the uninitialised variable of \<open>CacheEntry\<close>.
\<close>

record listener_env =
  l_app :: app_env
  l_ct :: ct_env
  l_bridge :: string
  iface_malloc_ok :: bool
  socket_ok :: bool
  if_name :: "int \<Rightarrow> string option"
  thread_ok :: "ct_thread \<Rightarrow> bool"
  junk_cnt :: nat

section \<open>Construction\<close>

text \<open>The members \<open>wan_ifname\<close>, \<open>wan_ipaddr\<close> and \<open>isStaMode\<close> are not set.\<close>

definition IPACM_ConntrackListener_new ::
  "string \<Rightarrow> u32 \<Rightarrow> bool \<Rightarrow> natapp option \<Rightarrow> ct_clients \<Rightarrow> ct_listener" where
  "IPACM_ConntrackListener_new ifn wan sta inst cc =
     \<lparr>isCTReg = False, isNatThreadStart = False, WanUp = False, nat_inst = inst, NatIfaceCnt = 0, StaClntCnt = 0,
      ct_pNatIfaces = None, nat_iface_ipv4_addr = replicate MAX_NAT_IFACES 0,
      nonnat_iface_ipv4_addr = replicate MAX_NAT_IFACES 0, sta_clnt_ipv4_addr = replicate MAX_STA_CLNT_IFACES 0,
      ct_pConfig = False, wan_ifname = ifn, wan_ipaddr = wan, isStaMode = sta, clients = cc, started = [], ct_destroyed = 0\<rparr>"

text \<open>The events the constructor registers the object for, with the nodes that malloc returns.\<close>

definition ct_events :: "nat list" where
  "ct_events = [22, 23, 21, 39, 24, 25]"

fun registr_all :: "nat list \<Rightarrow> nat list \<Rightarrow> nat \<Rightarrow> ipacm_events \<Rightarrow> ipacm_events option" where
  "registr_all (nw # nws) (ev # evs) obj s = do { (r, s) \<leftarrow> registr nw ev obj s; registr_all nws evs obj s }"
| "registr_all _ _ obj s = Some s"

section \<open>Threads\<close>

definition pthread_create :: "listener_env \<Rightarrow> ct_thread \<Rightarrow> ct_listener \<Rightarrow> bool \<times> ct_listener" where
  "pthread_create env t l = (if thread_ok env t then (True, l\<lparr>started := started l @ [t]\<rparr>) else (False, l))"

definition CreateConnTrackThreads :: "listener_env \<Rightarrow> ct_listener \<Rightarrow> int \<times> ct_listener" where
  "CreateConnTrackThreads env l =
     (if isCTReg l then (0, l)
      else let (ok, l) = pthread_create env TCPRegisterWithConnTrack l in
      if \<not> ok then (-1, l)
      else let (ok, l) = pthread_create env UDPRegisterWithConnTrack l in
      if \<not> ok then (-1, l) else (0, l\<lparr>isCTReg := True\<rparr>))"

definition CreateNatThreads :: "listener_env \<Rightarrow> ct_listener \<Rightarrow> int \<times> ct_listener" where
  "CreateNatThreads env l =
     (if isNatThreadStart l then (0, l)
      else let (ok, l) = pthread_create env UDPConnTimeoutUpdate l in
      if \<not> ok then (-1, l) else (0, l\<lparr>isNatThreadStart := True\<rparr>))"

section \<open>The wide area network\<close>

definition TriggerWANUp :: "listener_env \<Rightarrow> ipacm_event_iface_up \<Rightarrow> ct_listener \<Rightarrow> ct_listener option" where
  "TriggerWANUp env d l =
     (if ipv4_addr d = 0 then Some l
      else do {
        let l = l\<lparr>WanUp := True, isStaMode := is_sta d, wan_ipaddr := ipv4_addr d, wan_ifname := ifname d\<rparr>;
        l \<leftarrow> (case nat_inst l of
               None \<Rightarrow> Some l
             | Some a \<Rightarrow> do { (r, a) \<leftarrow> AddTable (l_app env) (ipv4_addr d) a; Some (l\<lparr>nat_inst := Some a\<rparr>) });
        Some (snd (CreateNatThreads env l))
      })"

definition TriggerWANDown :: "listener_env \<Rightarrow> u32 \<Rightarrow> ct_listener \<Rightarrow> ct_listener option" where
  "TriggerWANDown env wan_addr l =
     (let l = l\<lparr>WanUp := False\<rparr> in
      case nat_inst l of
        None \<Rightarrow> Some l
      | Some a \<Rightarrow> do { (r, a) \<leftarrow> DeleteTable (l_app env) wan_addr a; Some (l\<lparr>nat_inst := Some a\<rparr>) })"

section \<open>Clients of the NAT interfaces\<close>

text \<open>A call of a void method of \<open>nat_inst\<close>, which must not be null.\<close>

definition nat_call :: "(natapp \<Rightarrow> natapp option) \<Rightarrow> ct_listener \<Rightarrow> ct_listener option" where
  "nat_call f l = do { a \<leftarrow> nat_inst l; a \<leftarrow> f a; Some (l\<lparr>nat_inst := Some a\<rparr>) }"

text \<open>The names of the NAT interfaces are copied afresh: \<open>None\<close> when the handler returns here.\<close>

definition refresh_nat_ifaces ::
  "listener_env \<Rightarrow> ipacm_config option \<Rightarrow> ct_listener \<Rightarrow> (string list option \<times> ct_listener) option" where
  "refresh_nat_ifaces env cfg l =
     (if \<not> ct_pConfig l \<and> cfg = None then Some (None, l)
      else do {
        c \<leftarrow> cfg;
        let l = l\<lparr>ct_pConfig := True, NatIfaceCnt := int (ipa_nat_iface_entries c), ct_pNatIfaces := None\<rparr>;
        if \<not> iface_malloc_ok env then Some (None, l)
        else do {
          (r, names) \<leftarrow> GetNatIfaces c (NatIfaceCnt l) False;
          if r \<noteq> 0 then Some (None, l\<lparr>ct_pNatIfaces := Some (replicate (nat (NatIfaceCnt l)) [])\<rparr>)
          else Some (Some names, l\<lparr>ct_pNatIfaces := Some names\<rparr>)
        }
      })"

text \<open>\<open>strncmp(a, b, 16) == 0\<close> on strings without a terminating zero.\<close>

definition same_name :: "string \<Rightarrow> string \<Rightarrow> bool" where
  "same_name a b \<longleftrightarrow> take 16 a = take 16 b"

text \<open>
  The first cell that holds the address or is empty; an empty one takes the address, and the NAT
  application is told. The flag says whether there was a cell.
\<close>

definition cache_nat_addr :: "listener_env \<Rightarrow> u32 \<Rightarrow> ct_listener \<Rightarrow> (bool \<times> ct_listener) option" where
  "cache_nat_addr env ip l =
     do {
       j \<leftarrow> scan_first (\<lambda>j. map_option (\<lambda>x. x = ip \<or> x = 0) (rd (nat_iface_ipv4_addr l) j)) MAX_NAT_IFACES 0;
       case j of
         None \<Rightarrow> Some (False, l)
       | Some j \<Rightarrow> do {
           x \<leftarrow> rd (nat_iface_ipv4_addr l) j;
           if x = ip then Some (True, l)
           else do {
             xs \<leftarrow> wr (nat_iface_ipv4_addr l) j ip;
             let l = l\<lparr>nat_iface_ipv4_addr := xs\<rparr>;
             l \<leftarrow> nat_call (\<lambda>a. map_option snd (ResetPwrSaveIf (l_app env) ip a)) l;
             l \<leftarrow> nat_call (FlushTempEntries (l_app env) ip True) l;
             Some (True, l)
           }
         }
     }"

definition cache_nonnat_addr :: "listener_env \<Rightarrow> u32 \<Rightarrow> ct_listener \<Rightarrow> ct_listener option" where
  "cache_nonnat_addr env ip l =
     do {
       i \<leftarrow> scan_first (\<lambda>i. map_option (\<lambda>x. x = 0) (rd (nonnat_iface_ipv4_addr l) i)) MAX_NAT_IFACES 0;
       case i of
         None \<Rightarrow> Some l
       | Some i \<Rightarrow> do {
           xs \<leftarrow> wr (nonnat_iface_ipv4_addr l) i ip;
           nat_call (FlushTempEntries (l_app env) ip False) (l\<lparr>nonnat_iface_ipv4_addr := xs\<rparr>)
         }
     }"

definition HandleNeighIpAddrAddEvt ::
  "listener_env \<Rightarrow> ipacm_config option \<Rightarrow> ipacm_event_data_all \<Rightarrow> ct_listener \<Rightarrow> ct_listener option" where
  "HandleNeighIpAddrAddEvt env cfg d l =
     (if ev_ipv4_addr d = 0 \<or> ev_iptype d \<noteq> IPA_IP_v4 then Some l
      else do {
        (names, l) \<leftarrow> refresh_nat_ifaces env cfg l;
        case names of
          None \<Rightarrow> Some l
        | Some names \<Rightarrow>
            if \<not> socket_ok env then Some l
            else case if_name env (ev_if_index d) of
              None \<Rightarrow> Some l
            | Some name \<Rightarrow> do {
                (isNatIface, l) \<leftarrow>
                  (if list_ex (same_name name) names then cache_nat_addr env (ev_ipv4_addr d) l else Some (False, l));
                if isNatIface then Some l else cache_nonnat_addr env (ev_ipv4_addr d) l
              }
      })"

text \<open>Every cell with the address is cleared, in both arrays.\<close>

definition clear_addr :: "u32 \<Rightarrow> nat \<Rightarrow> ct_listener \<Rightarrow> ct_listener option" where
  "clear_addr ip cnt l =
     do {
       x \<leftarrow> rd (nat_iface_ipv4_addr l) cnt;
       xs \<leftarrow> (if x = ip then wr (nat_iface_ipv4_addr l) cnt 0 else Some (nat_iface_ipv4_addr l));
       y \<leftarrow> rd (nonnat_iface_ipv4_addr l) cnt;
       ys \<leftarrow> (if y = ip then wr (nonnat_iface_ipv4_addr l) cnt 0 else Some (nonnat_iface_ipv4_addr l));
       Some (l\<lparr>nat_iface_ipv4_addr := xs, nonnat_iface_ipv4_addr := ys\<rparr>)
     }"

definition HandleNeighIpAddrDelEvt :: "listener_env \<Rightarrow> u32 \<Rightarrow> ct_listener \<Rightarrow> ct_listener option" where
  "HandleNeighIpAddrDelEvt env ip l =
     (if ip = 0 then Some l
      else do {
        l \<leftarrow> for_range (clear_addr ip) MAX_NAT_IFACES 0 l;
        l \<leftarrow> nat_call (FlushTempEntries (l_app env) ip False) l;
        nat_call (\<lambda>a. map_option snd (DelEntriesOnClntDiscon (l_app env) ip a)) l
      })"

section \<open>Clients of the station interface\<close>

definition HandleSTAClientAddEvt :: "listener_env \<Rightarrow> u32 \<Rightarrow> ct_listener \<Rightarrow> ct_listener option" where
  "HandleSTAClientAddEvt env ip l =
     (if StaClntCnt l \<ge> int MAX_STA_CLNT_IFACES then Some l
      else do {
        cnt \<leftarrow> scan_first (\<lambda>i. map_option (\<lambda>x. x \<noteq> 0 \<and> x = ip \<or> x = 0) (rd (sta_clnt_ipv4_addr l) i)) MAX_STA_CLNT_IFACES 0;
        l \<leftarrow> (case cnt of
               None \<Rightarrow> Some l
             | Some cnt \<Rightarrow> do {
                 x \<leftarrow> rd (sta_clnt_ipv4_addr l) cnt;
                 if x \<noteq> 0 \<and> x = ip then Some l
                 else do {
                   xs \<leftarrow> wr (sta_clnt_ipv4_addr l) cnt ip;
                   Some (l\<lparr>sta_clnt_ipv4_addr := xs, StaClntCnt := StaClntCnt l + 1\<rparr>)
                 }
               });
        nat_call (FlushTempEntries (l_app env) ip True) l
      })"

definition HandleSTAClientDelEvt :: "listener_env \<Rightarrow> u32 \<Rightarrow> ct_listener \<Rightarrow> ct_listener option" where
  "HandleSTAClientDelEvt env ip l =
     do {
       cnt \<leftarrow> scan_first (\<lambda>i. map_option (\<lambda>x. x \<noteq> 0 \<and> x = ip) (rd (sta_clnt_ipv4_addr l) i)) MAX_STA_CLNT_IFACES 0;
       l \<leftarrow> (case cnt of
              None \<Rightarrow> Some l
            | Some cnt \<Rightarrow> do {
                xs \<leftarrow> wr (sta_clnt_ipv4_addr l) cnt 0;
                l \<leftarrow> nat_call (\<lambda>a. map_option snd (DelEntriesOnSTAClntDiscon (l_app env) ip a)) (l\<lparr>sta_clnt_ipv4_addr := xs\<rparr>);
                Some (l\<lparr>StaClntCnt := StaClntCnt l - 1\<rparr>)
              });
       nat_call (FlushTempEntries (l_app env) ip False) l
     }"

section \<open>Messages of connection tracking\<close>

text \<open>\<open>ntohs\<close> and \<open>ntohl\<close> are the swaps of \<open>htons\<close> and \<open>htonl\<close>.\<close>

abbreviation (input) ntohs :: "u16 \<Rightarrow> u16" where "ntohs \<equiv> htons"
abbreviation (input) ntohl :: "u32 \<Rightarrow> u32" where "ntohl \<equiv> htonl"

text \<open>
  Whether the connection is a destination or a source NAT, by its status, or else by which end is
  the address of the wide area network; \<open>None\<close> when the function returns here.
\<close>

definition nat_status :: "nf_conntrack \<Rightarrow> u32 \<Rightarrow> u32 option" where
  "nat_status m wan =
     (if IPS_DST_NAT AND ATTR_STATUS m \<noteq> 0 then Some IPS_DST_NAT
      else if IPS_SRC_NAT AND ATTR_STATUS m \<noteq> 0 then Some IPS_SRC_NAT
      else let orig_src_ip = ntohl (ATTR_ORIG_IPV4_SRC m) in
      if orig_src_ip = 0 then None
      else let orig_dst_ip = ntohl (ATTR_ORIG_IPV4_DST m) in
      if orig_dst_ip = 0 then None
      else if orig_src_ip = wan then Some IPS_SRC_NAT
      else if orig_dst_ip = wan then Some IPS_DST_NAT
      else None)"

text \<open>The entry read from the tuples of the message; all other members are zero.\<close>

definition ct_rule :: "nf_conntrack \<Rightarrow> u32 \<Rightarrow> nat_table_entry" where
  "ct_rule m status =
     (if status = IPS_DST_NAT
      then zero_entry\<lparr>protocol := ATTR_REPL_L4PROTO m, dst_nat := True,
        target_ip := ntohl (ATTR_ORIG_IPV4_SRC m), target_port := ntohs (ATTR_ORIG_PORT_SRC m),
        public_port := ntohs (ATTR_ORIG_PORT_DST m),
        private_ip := ntohl (ATTR_REPL_IPV4_SRC m), private_port := ntohs (ATTR_REPL_PORT_SRC m)\<rparr>
      else zero_entry\<lparr>protocol := ATTR_REPL_L4PROTO m, dst_nat := False,
        target_ip := ntohl (ATTR_ORIG_IPV4_DST m), target_port := ntohs (ATTR_ORIG_PORT_DST m),
        public_port := ntohs (ATTR_REPL_PORT_DST m),
        private_ip := ntohl (ATTR_ORIG_IPV4_SRC m), private_port := ntohs (ATTR_ORIG_PORT_SRC m)\<rparr>)"

text \<open>
  Whether the connection is of interest: the entry to use and whether it is temporary, or
  \<open>Some None\<close> when it is ignored.
\<close>

definition nat_client ::
  "ipacm_config option \<Rightarrow> ct_listener \<Rightarrow> nat_table_entry \<Rightarrow> (nat_table_entry \<times> bool) option option" where
  "nat_client cfg l rule =
     (if private_ip rule \<noteq> wan_ipaddr l
      then do {
        cnt \<leftarrow> scan_first (\<lambda>i. map_option (\<lambda>x. x \<noteq> 0 \<and> (private_ip rule = x \<or> target_ip rule = x)) (rd (nat_iface_ipv4_addr l) i))
                 MAX_NAT_IFACES 0;
        if cnt \<noteq> None then Some (Some (rule, False))
        else case cfg of
          None \<Rightarrow> Some None
        | Some c \<Rightarrow> do {
            b \<leftarrow> isPrivateSubnet c (private_ip rule);
            b \<leftarrow> (if b then Some True else isPrivateSubnet c (target_ip rule));
            Some (if b then Some (rule, True) else None)
          }
      }
      else if isStaMode l then Some None
      else Some (Some (rule\<lparr>private_port := public_port rule\<rparr>, False)))"

text \<open>
  In station mode the target must be a client of the station interface, when it is in the subnet of
  the first: the loop runs over as many cells as there are clients.
\<close>

definition sta_known :: "ct_listener \<Rightarrow> nat_table_entry \<Rightarrow> bool option" where
  "sta_known l rule =
     (if \<not> isStaMode l \<or> StaClntCnt l = 0 then Some True
      else do {
        x \<leftarrow> rd (sta_clnt_ipv4_addr l) 0;
        if x AND 0xFFFFFF00 \<noteq> target_ip rule AND 0xFFFFFF00 then Some True
        else do {
          cnt \<leftarrow> scan_first (\<lambda>i. map_option (\<lambda>x. target_ip rule = x) (rd (sta_clnt_ipv4_addr l) i)) (nat (StaClntCnt l)) 0;
          Some (cnt \<noteq> None)
        }
      })"

definition new_conn :: "listener_env \<Rightarrow> bool \<Rightarrow> nat_table_entry \<Rightarrow> ct_listener \<Rightarrow> ct_listener option" where
  "new_conn env isTempEntry rule l =
     (if \<not> WanUp l then nat_call (CacheEntry (junk_cnt env) rule) l
      else if isTempEntry then nat_call (AddTempEntry rule) l
      else nat_call (\<lambda>a. map_option snd (AddEntry (l_app env) rule a)) l)"

definition end_conn :: "listener_env \<Rightarrow> nat_table_entry \<Rightarrow> ct_listener \<Rightarrow> ct_listener option" where
  "end_conn env rule l =
     do {
       l \<leftarrow> nat_call (\<lambda>a. map_option snd (DeleteEntry (l_app env) rule a)) l;
       nat_call (DeleteTempEntry rule) l
     }"

definition ProcessTCPorUDPMsg ::
  "listener_env \<Rightarrow> ipacm_config option \<Rightarrow> nf_conntrack \<Rightarrow> nf_conntrack_msg_type \<Rightarrow> ct_listener \<Rightarrow> ct_listener option" where
  "ProcessTCPorUDPMsg env cfg m type l =
     (case nat_status m (wan_ipaddr l) of
        None \<Rightarrow> Some l
      | Some status \<Rightarrow> do {
          r \<leftarrow> nat_client cfg l (ct_rule m status);
          case r of
            None \<Rightarrow> Some l
          | Some (rule, isTempEntry) \<Rightarrow> do {
              known \<leftarrow> sta_known l rule;
              let isTempEntry = (isTempEntry \<or> \<not> known);
              let rule = rule\<lparr>public_ip := wan_ipaddr l\<rparr>;
              let tcp_state = ATTR_TCP_STATE m;
              if protocol rule = IPPROTO_TCP
              then if nat_inst l = None then Some l
                   else if tcp_state = TCP_CONNTRACK_ESTABLISHED then new_conn env isTempEntry rule l
                   else if tcp_state = TCP_CONNTRACK_FIN_WAIT \<or> type = NFCT_T_DESTROY then end_conn env rule l
                   else Some l
              else if protocol rule = IPPROTO_UDP
              then if nat_inst l = None then Some l
                   else if type = NFCT_T_NEW then new_conn env isTempEntry rule l
                   else if type = NFCT_T_DESTROY then end_conn env rule l
                   else Some l
              else Some l
            }
        })"

definition ProcessCTMessage ::
  "listener_env \<Rightarrow> ipacm_config option \<Rightarrow> ipacm_ct_evt_data \<Rightarrow> ct_listener \<Rightarrow> ct_listener option" where
  "ProcessCTMessage env cfg d l =
     do {
       l \<leftarrow> (if ATTR_ORIG_L4PROTO (ct_msg d) \<noteq> IPPROTO_UDP \<and> ATTR_ORIG_L4PROTO (ct_msg d) \<noteq> IPPROTO_TCP then Some l
             else ProcessTCPorUDPMsg env cfg (ct_msg d) (ct_type d) l);
       Some (l\<lparr>ct_destroyed := ct_destroyed l + 1\<rparr>)
     }"

section \<open>Events\<close>

text \<open>The events with their data, \<open>None\<close> for a null pointer.\<close>

datatype ct_event =
    CT_MESSAGE "ipacm_ct_evt_data option"
  | HANDLE_WAN_UP "ipacm_event_iface_up option"
  | HANDLE_WAN_DOWN "ipacm_event_iface_up option"
  | HANDLE_WLAN_UP "ipacm_event_iface_up option"
  | HANDLE_LAN_UP "ipacm_event_iface_up option"
  | OTHER_EVENT

definition iface_up :: "listener_env \<Rightarrow> ipacm_event_iface_up \<Rightarrow> ct_listener \<Rightarrow> ct_listener option" where
  "iface_up env d l =
     do {
       let l = snd (CreateConnTrackThreads env l);
       cc \<leftarrow> UpdateUDPFilters (l_ct env) (l_bridge env) d False (clients l);
       cc \<leftarrow> UpdateTCPFilters (l_ct env) (l_bridge env) d False cc;
       Some (l\<lparr>clients := cc\<rparr>)
     }"

fun event_callback :: "listener_env \<Rightarrow> ipacm_config option \<Rightarrow> ct_event \<Rightarrow> ct_listener \<Rightarrow> ct_listener option" where
  "event_callback env cfg (CT_MESSAGE (Some d)) l = ProcessCTMessage env cfg d l"
| "event_callback env cfg (HANDLE_WAN_UP (Some d)) l =
     (let l = snd (CreateConnTrackThreads env l) in
      if \<not> WanUp l then TriggerWANUp env d l else Some l)"
| "event_callback env cfg (HANDLE_WAN_DOWN (Some d)) l =
     (if WanUp l then TriggerWANDown env (ipv4_addr d) l else Some l)"
| "event_callback env cfg (HANDLE_WLAN_UP (Some d)) l = iface_up env d l"
| "event_callback env cfg (HANDLE_LAN_UP (Some d)) l = iface_up env d l"
| "event_callback env cfg _ l = Some l"

end
