(* ===== verification/Nat_Mirror.thy ===== *)
theory Nat_Mirror
  imports Nat_App
begin

text \<open>
  The contract between the NAT application and the NAT driver. \<open>mirrors\<close> says that the rules of
  the table are exactly those of the enabled entries of a cache; the locale \<open>nat_driver\<close> is what
  the application relies on, its lemmas say how one addition or deletion moves the mirror, and the
  interpretation discharges the laws from the correctness of the driver.
\<close>

section \<open>The mirror\<close>

text \<open>The first \<open>k\<close> entries of the cache against the rules of the table.\<close>

definition mirrors :: "nat \<Rightarrow> nat_table_entry list \<Rightarrow> (nat \<Rightarrow> ipa_nat_ipv4_rule option) \<Rightarrow> bool" where
  "mirrors k es R \<longleftrightarrow>
     (\<forall>h r. R h = Some r \<longleftrightarrow> (\<exists>i<k. enabled (es ! i) \<and> rule_hdl (es ! i) = h \<and> nat_rule_of (es ! i) = r)) \<and>
     (\<forall>i<k. \<forall>j<k. enabled (es ! i) \<longrightarrow> enabled (es ! j) \<longrightarrow> rule_hdl (es ! i) = rule_hdl (es ! j) \<longrightarrow> i = j)"

lemma mirrors_rule: "mirrors k es R \<Longrightarrow> i < k \<Longrightarrow> enabled (es ! i) \<Longrightarrow> R (rule_hdl (es ! i)) = Some (nat_rule_of (es ! i))"
  by (auto simp: mirrors_def)

lemma mirrors_0: "mirrors 0 es R \<longleftrightarrow> R = Map.empty"
  by (auto simp: mirrors_def fun_eq_iff intro: option.exhaust)

lemma mirrors_none:
  assumes "\<forall>i<k. \<not> enabled (es ! i)"
  shows "mirrors k es Map.empty"
  using assms by (auto simp: mirrors_def)

text \<open>An entry beyond the first \<open>k\<close>, or one replaced by an entry with the same rule, does not matter.\<close>

lemma mirrors_cong:
  assumes "mirrors k es R"
    and "\<And>i. i < k \<Longrightarrow> enabled (es' ! i) = enabled (es ! i) \<and>
      (enabled (es ! i) \<longrightarrow> rule_hdl (es' ! i) = rule_hdl (es ! i) \<and> nat_rule_of (es' ! i) = nat_rule_of (es ! i))"
  shows "mirrors k es' R"
proof -
  have "(\<exists>i<k. enabled (es' ! i) \<and> rule_hdl (es' ! i) = h \<and> nat_rule_of (es' ! i) = r) \<longleftrightarrow>
        (\<exists>i<k. enabled (es ! i) \<and> rule_hdl (es ! i) = h \<and> nat_rule_of (es ! i) = r)" for h r
    using assms(2) by auto
  moreover have "(\<forall>i<k. \<forall>j<k. enabled (es' ! i) \<longrightarrow> enabled (es' ! j) \<longrightarrow> rule_hdl (es' ! i) = rule_hdl (es' ! j) \<longrightarrow> i = j)"
    using assms by (auto simp: mirrors_def)
  ultimately show ?thesis using assms(1) by (simp add: mirrors_def)
qed

lemma mirrors_upd:
  assumes "mirrors k es R" "i < length es" "enabled e = enabled (es ! i)"
    and "enabled e \<Longrightarrow> rule_hdl e = rule_hdl (es ! i) \<and> nat_rule_of e = nat_rule_of (es ! i)"
  shows "mirrors k (es[i := e]) R"
  by (rule mirrors_cong [OF assms(1)]) (use assms(2-4) in \<open>auto simp: nth_list_update\<close>)

lemma mirrors_beyond:
  assumes "mirrors k es R" "k \<le> i"
  shows "mirrors k (es[i := e]) R"
  by (rule mirrors_cong [OF assms(1)]) (use assms(2) in auto)

lemma mirrors_Suc:
  assumes "mirrors k es R" "\<not> enabled (es ! k)"
  shows "mirrors (Suc k) es R"
  using assms by (auto simp: mirrors_def less_Suc_eq)

text \<open>Entry \<open>i\<close> is the next one or already known to be disabled: a disabled entry in its place changes nothing.\<close>

lemma mirrors_skip:
  assumes "mirrors k es R" "i < length es" "k = i \<or> i < k \<and> \<not> enabled (es ! i)" "\<not> enabled e"
  shows "mirrors (max k (Suc i)) (es[i := e]) R"
proof (cases "k = i")
  case True
  have "mirrors k (es[i := e]) R" using mirrors_beyond assms(1) True by blast
  then have "mirrors (Suc k) (es[i := e]) R" by (rule mirrors_Suc) (use True assms(2,4) in simp)
  then show ?thesis using True by (simp add: max_def)
next
  case False
  then have "max k (Suc i) = k" "\<not> enabled (es ! i)" using assms(3) by auto
  then show ?thesis using mirrors_upd [OF assms(1,2), of e] assms(4) by simp
qed

lemma mirrors_add:
  assumes m: "mirrors k es R" and i: "i < k" "i < length es" "\<not> enabled (es ! i)" and e: "enabled e" "R (rule_hdl e) = None"
  shows "mirrors k (es[i := e]) (R(rule_hdl e \<mapsto> nat_rule_of e))"
proof -
  have nh: "rule_hdl (es ! j) \<noteq> rule_hdl e" if "j < k" "enabled (es ! j)" for j
    using mirrors_rule [OF m that] e(2) by auto
  show ?thesis
    unfolding mirrors_def
  proof (intro conjI allI impI)
    fix h r
    show "(R(rule_hdl e \<mapsto> nat_rule_of e)) h = Some r \<longleftrightarrow>
        (\<exists>j<k. enabled (es[i := e] ! j) \<and> rule_hdl (es[i := e] ! j) = h \<and> nat_rule_of (es[i := e] ! j) = r)" (is "?L \<longleftrightarrow> ?R")
    proof (cases "h = rule_hdl e")
      case True
      then show ?thesis using i e nh by (auto simp: nth_list_update)
    next
      case False
      have "R h = Some r \<longleftrightarrow> (\<exists>j<k. enabled (es ! j) \<and> rule_hdl (es ! j) = h \<and> nat_rule_of (es ! j) = r)"
        using m by (simp add: mirrors_def)
      also have "\<dots> \<longleftrightarrow> ?R" using i e False by (auto simp: nth_list_update)
      finally show ?thesis using False by simp
    qed
  next
    fix a b
    assume "a < k" "b < k" "enabled (es[i := e] ! a)" "enabled (es[i := e] ! b)"
      "rule_hdl (es[i := e] ! a) = rule_hdl (es[i := e] ! b)"
    then show "a = b" using m nh i by (auto simp: nth_list_update mirrors_def split: if_splits)
  qed
qed

lemma mirrors_del:
  assumes m: "mirrors k es R" and i: "i < k" "i < length es" "enabled (es ! i)" and e: "\<not> enabled e"
  shows "mirrors k (es[i := e]) (R(rule_hdl (es ! i) := None))"
proof -
  have uniq: "j = i" if "j < k" "enabled (es ! j)" "rule_hdl (es ! j) = rule_hdl (es ! i)" for j
    using m that i by (auto simp: mirrors_def)
  show ?thesis
    unfolding mirrors_def
  proof (intro conjI allI impI)
    fix h r
    have R: "R h = Some r \<longleftrightarrow> (\<exists>j<k. enabled (es ! j) \<and> rule_hdl (es ! j) = h \<and> nat_rule_of (es ! j) = r)"
      using m by (simp add: mirrors_def)
    have "(enabled (es[i := e] ! j) \<and> rule_hdl (es[i := e] ! j) = h \<and> nat_rule_of (es[i := e] ! j) = r) \<longleftrightarrow>
        (j \<noteq> i \<and> enabled (es ! j) \<and> rule_hdl (es ! j) = h \<and> nat_rule_of (es ! j) = r)" for j
      using i(2) e by (cases "j = i") auto
    moreover have "h \<noteq> rule_hdl (es ! i) \<and> R h = Some r \<longleftrightarrow>
        (\<exists>j<k. j \<noteq> i \<and> enabled (es ! j) \<and> rule_hdl (es ! j) = h \<and> nat_rule_of (es ! j) = r)"
      unfolding R using uniq by metis
    ultimately show "(R(rule_hdl (es ! i) := None)) h = Some r \<longleftrightarrow>
        (\<exists>j<k. enabled (es[i := e] ! j) \<and> rule_hdl (es[i := e] ! j) = h \<and> nat_rule_of (es[i := e] ! j) = r)"
      by auto
  next
    fix a b
    assume "a < k" "b < k" "enabled (es[i := e] ! a)" "enabled (es[i := e] ! b)"
      "rule_hdl (es[i := e] ! a) = rule_hdl (es[i := e] ! b)"
    then show "a = b" using m i e by (auto simp: nth_list_update mirrors_def split: if_splits)
  qed
qed

section \<open>The driver as the application sees it\<close>

locale nat_driver =
  fixes ok :: "'d \<Rightarrow> bool"
    and rules :: "'d \<Rightarrow> nat \<Rightarrow> ipa_nat_ipv4_rule option"
    and add :: "ipa_nat_ipv4_rule \<Rightarrow> 'd \<Rightarrow> (int \<times> nat option \<times> 'd) option"
    and del :: "nat \<Rightarrow> 'd \<Rightarrow> (int \<times> 'd) option"
  assumes add_law: "ok d \<Longrightarrow> \<not> dead_proto r \<Longrightarrow>
      (\<exists>e. e < 0 \<and> add r d = Some (e, None, d)) \<or>
      (\<exists>h d'. add r d = Some (0, Some h, d') \<and> ok d' \<and> rules d h = None \<and> rules d' = (rules d)(h \<mapsto> r))"
    and del_law: "ok d \<Longrightarrow> rules d h = Some r \<Longrightarrow>
      \<exists>d'. del h d = Some (0, d') \<and> ok d' \<and> rules d' = (rules d)(h := None)"
begin

text \<open>An addition for entry \<open>i\<close>: refused, or the entry with the new handle is mirrored.\<close>

lemma add_mirrors:
  assumes "ok d" "mirrors k es (rules d)" "i < length es" "k = i \<or> i < k \<and> \<not> enabled (es ! i)"
    "\<not> dead_proto (nat_rule_of e)"
  obtains (refused) r where "r < 0" "add (nat_rule_of e) d = Some (r, None, d)"
  | (added) h d' where "add (nat_rule_of e) d = Some (0, Some h, d')" "ok d'"
      "rules d' = (rules d)(h \<mapsto> nat_rule_of e)" "rules d h = None"
      "\<And>e'. enabled e' \<Longrightarrow> rule_hdl e' = h \<Longrightarrow> nat_rule_of e' = nat_rule_of e \<Longrightarrow>
        mirrors (max k (Suc i)) (es[i := e']) (rules d')"
proof -
  consider r where "r < 0" "add (nat_rule_of e) d = Some (r, None, d)"
    | h d' where "add (nat_rule_of e) d = Some (0, Some h, d')" "ok d'" "rules d h = None"
      "rules d' = (rules d)(h \<mapsto> nat_rule_of e)"
    using add_law [OF assms(1,5)] by blast
  then show thesis
  proof cases
    case (2 h d')
    have "mirrors (max k (Suc i)) (es[i := e']) (rules d')"
      if e': "enabled e'" "rule_hdl e' = h" "nat_rule_of e' = nat_rule_of e" for e'
    proof -
      let ?z = "(es ! i)\<lparr>enabled := False\<rparr>"
      have "mirrors (max k (Suc i)) (es[i := ?z]) (rules d)" by (rule mirrors_skip [OF assms(2-4)]) simp
      from mirrors_add [OF this, of i e'] show ?thesis using 2 e' assms(3) by simp
    qed
    with 2 show ?thesis by (intro added) auto
  qed (fact refused)
qed

text \<open>A deletion of an enabled entry succeeds, and the entry is not mirrored any more.\<close>

lemma del_mirrors:
  assumes "ok d" "mirrors k es (rules d)" "i < length es" "i < k" "enabled (es ! i)"
  obtains d' where "del (rule_hdl (es ! i)) d = Some (0, d')" "ok d'"
    "rules d' = (rules d)(rule_hdl (es ! i) := None)"
    "\<And>e'. \<not> enabled e' \<Longrightarrow> mirrors k (es[i := e']) (rules d')"
proof -
  from del_law [OF assms(1) mirrors_rule [OF assms(2,4,5)]] obtain d' where
    d': "del (rule_hdl (es ! i)) d = Some (0, d')" "ok d'" "rules d' = (rules d)(rule_hdl (es ! i) := None)" by blast
  then show thesis using mirrors_del [OF assms(2,4,3,5)] by (intro that) auto
qed

end

text \<open>The driver of ipanat, on table handle 1.\<close>

definition drv_ok :: "nat_env \<Rightarrow> ipa_nat_cache \<Rightarrow> bool" where
  "drv_ok env d \<longleftrightarrow> env_ok env \<and> table_cnt d = 1 \<and> (\<exists>t. ip4_tbl d = [t] \<and> tbl_inv t)"

definition drv_rules :: "ipa_nat_cache \<Rightarrow> nat \<Rightarrow> ipa_nat_ipv4_rule option" where
  "drv_rules d = rules_of (hd (ip4_tbl d))"

definition drv_add :: "nat_env \<Rightarrow> ipa_nat_ipv4_rule \<Rightarrow> ipa_nat_cache \<Rightarrow> (int \<times> nat option \<times> ipa_nat_cache) option" where
  "drv_add env r d = ipa_nat_add_ipv4_rule env 1 (Some r) False d"

definition drv_del :: "nat_env \<Rightarrow> nat \<Rightarrow> ipa_nat_cache \<Rightarrow> (int \<times> ipa_nat_cache) option" where
  "drv_del env h d = ipa_nat_del_ipv4_rule env 1 h d"

lemma drv_add_cases:
  assumes "drv_ok env d" "\<not> dead_proto r"
  obtains (refused) "drv_add env r d = Some (- EINVAL, None, d)" "rules_full (hd (ip4_tbl d)) r"
  | (added) h d' where "drv_add env r d = Some (0, Some h, d')" "drv_ok env d'" "drv_rules d h = None"
      "drv_rules d' = (drv_rules d)(h \<mapsto> r)" "0 < h" "\<forall>h'. 0 < h' \<and> h' < h \<longrightarrow> drv_rules d h' \<noteq> None"
proof -
  from assms(1) obtain t where t: "env_ok env" "ip4_tbl d = [t]" "tbl_inv t" "table_cnt d = 1" by (auto simp: drv_ok_def)
  from add_rule_spec [OF t(1,3) assms(2) t(2)] show ?thesis
  proof (elim disjE exE conjE)
    assume "ipa_nati_add_ipv4_rule env 1 r d = Some (- EINVAL, None, d)" "rules_full t r"
    then show ?thesis using t(2) by (intro refused) (simp_all add: drv_add_def ipa_nat_add_ipv4_rule_def)
  next
    fix h t'
    assume a: "ipa_nati_add_ipv4_rule env 1 r d = Some (0, Some h, d\<lparr>ip4_tbl := [t']\<rparr>)" "tbl_inv t'" "rules_of t h = None"
      "rules_of t' = (rules_of t)(h \<mapsto> r)" "0 < h" "\<forall>h'. 0 < h' \<and> h' < h \<longrightarrow> rules_of t h' \<noteq> None"
    show ?thesis
    proof (rule added)
      show "drv_add env r d = Some (0, Some h, d\<lparr>ip4_tbl := [t']\<rparr>)"
        using a(1) by (simp add: drv_add_def ipa_nat_add_ipv4_rule_def)
    qed (use a t in \<open>simp_all add: drv_ok_def drv_rules_def\<close>)
  qed
qed

lemma drv_del_spec:
  assumes "drv_ok env d" "drv_rules d h = Some r"
  obtains d' where "drv_del env h d = Some (0, d')" "drv_ok env d'" "drv_rules d' = (drv_rules d)(h := None)"
proof -
  from assms(1) obtain t where t: "env_ok env" "ip4_tbl d = [t]" "tbl_inv t" "table_cnt d = 1" by (auto simp: drv_ok_def)
  have r: "rules_of t h = Some r" using assms(2) t(2) by (simp add: drv_rules_def)
  then have "h \<noteq> 0" by (auto simp: rules_of_def split: option.splits if_splits)
  moreover from del_rule_spec [OF t(1,3,2) r] obtain t' where
    d: "ipa_nati_del_ipv4_rule env 1 h d = Some (0, d\<lparr>ip4_tbl := [t']\<rparr>)" "tbl_inv t'" "rules_of t' = (rules_of t)(h := None)"
    by blast
  ultimately have "drv_del env h d = Some (0, d\<lparr>ip4_tbl := [t']\<rparr>)" by (simp add: drv_del_def ipa_nat_del_ipv4_rule_def)
  then show ?thesis by (rule that) (use d t in \<open>simp_all add: drv_ok_def drv_rules_def\<close>)
qed

interpretation nd: nat_driver "drv_ok env" drv_rules "drv_add env" "drv_del env" for env
proof unfold_locales
  fix d r assume "drv_ok env d" "\<not> dead_proto r"
  then show "(\<exists>e<0. drv_add env r d = Some (e, None, d)) \<or>
      (\<exists>h d'. drv_add env r d = Some (0, Some h, d') \<and> drv_ok env d' \<and> drv_rules d h = None \<and>
        drv_rules d' = (drv_rules d)(h \<mapsto> r))"
    by (cases rule: drv_add_cases) auto
next
  fix d h r assume "drv_ok env d" "drv_rules d h = Some r"
  then show "\<exists>d'. drv_del env h d = Some (0, d') \<and> drv_ok env d' \<and> drv_rules d' = (drv_rules d)(h := None)"
    by (rule drv_del_spec) auto
qed

end
