(* ===== verification/Nat_App_Correct.thy ===== *)
theory Nat_App_Correct
  imports Nat_Mirror
begin

text \<open>
  The invariant of the NAT application and what its methods do to it: the cache holds distinct valid
  connections, its count is right, and while a table exists the rules of the table are those of
  the enabled entries.
\<close>

section \<open>The invariant\<close>

definition entry_wf :: "nat_table_entry \<Rightarrow> bool" where
  "entry_wf e \<longleftrightarrow> (if blank_entry e then \<not> enabled e else \<not> invalid_conn e \<and> protocol e \<noteq> 0xFF)"

definition conns_distinct :: "nat_table_entry list \<Rightarrow> bool" where
  "conns_distinct es \<longleftrightarrow>
     (\<forall>i<length es. \<forall>j<length es. \<not> blank_entry (es ! i) \<longrightarrow> same_conn (es ! i) (es ! j) \<longrightarrow> i = j)"

definition used_entries :: "nat_table_entry list \<Rightarrow> int" where
  "used_entries es = int (length (filter (\<lambda>e. \<not> blank_entry e) es))"

definition entries_wf :: "nat_table_entry list \<Rightarrow> bool" where
  "entries_wf es \<longleftrightarrow> (\<forall>e\<in>set es. entry_wf e) \<and> conns_distinct es"

definition app_wf :: "natapp \<Rightarrow> bool" where
  "app_wf a \<longleftrightarrow> length (cache a) = max_entries a \<and> length (temp a) = MAX_TEMP_ENTRIES \<and>
     length (PwrSaveIfs a) = IPA_MAX_NUM_WIFI_CLIENTS \<and> entries_wf (cache a) \<and>
     curCnt a = used_entries (cache a) \<and> (\<forall>t\<in>set (temp a). protocol t \<noteq> 0xFF)"

definition app_open :: "app_env \<Rightarrow> natapp \<Rightarrow> bool" where
  "app_open env a \<longleftrightarrow> nat_table_hdl a = 1 \<and> drv_ok (drv_env env) (drv a) \<and>
     mirrors (max_entries a) (cache a) (drv_rules (drv a))"

definition app_closed :: "natapp \<Rightarrow> bool" where
  "app_closed a \<longleftrightarrow> nat_table_hdl a = 0 \<and> fresh_cache (drv a)"

definition app_inv :: "app_env \<Rightarrow> natapp \<Rightarrow> bool" where
  "app_inv env a \<longleftrightarrow> app_wf a \<and> (app_open env a \<or> app_closed a)"

text \<open>The kernel and the allocator serve the driver, and release a table.\<close>

definition os_ok :: "app_env \<Rightarrow> bool" where
  "os_ok env \<longleftrightarrow> env_ok (drv_env env) \<and> kernel_ok (drv_env env) \<and> close_nat (drv_env env) = 0 \<and>
     (\<forall>i ip. ioctl_v4_del_nat (drv_env env) i ip = 0)"

section \<open>Entries\<close>

lemma entry_simps [simp]:
  "blank_entry zero_entry" "\<not> enabled zero_entry" "entry_wf zero_entry"
  "blank_entry (e\<lparr>enabled := b\<rparr>) = blank_entry e" "blank_entry (e\<lparr>rule_hdl := h\<rparr>) = blank_entry e"
  "blank_entry (e\<lparr>timestamp := u\<rparr>) = blank_entry e"
  "nat_rule_of (e\<lparr>enabled := b\<rparr>) = nat_rule_of e" "nat_rule_of (e\<lparr>rule_hdl := h\<rparr>) = nat_rule_of e"
  "nat_rule_of (e\<lparr>timestamp := u\<rparr>) = nat_rule_of e"
  "clnt_protocol (nat_rule_of e) = protocol e"
  by (simp_all add: blank_entry_def zero_entry_def entry_wf_def nat_rule_of_def)

lemma fill_entry_simps [simp]:
  "private_ip (fill_entry r e) = private_ip r" "target_ip (fill_entry r e) = target_ip r"
  "private_port (fill_entry r e) = private_port r" "target_port (fill_entry r e) = target_port r"
  "protocol (fill_entry r e) = protocol r" "public_port (fill_entry r e) = public_port r"
  "enabled (fill_entry r e) = enabled e" "rule_hdl (fill_entry r e) = rule_hdl e" "nat_rule_of (fill_entry r e) = nat_rule_of r"
  by (simp_all add: fill_entry_def nat_rule_of_def)

text \<open>The connection of an entry: what \<open>same_conn\<close> compares.\<close>

definition conn_of :: "nat_table_entry \<Rightarrow> u32 \<times> u32 \<times> u16 \<times> u16 \<times> u8" where
  "conn_of e = (private_ip e, target_ip e, private_port e, target_port e, protocol e)"

lemma same_conn_iff: "same_conn e r \<longleftrightarrow> conn_of e = conn_of r"
  by (auto simp: same_conn_def conn_of_def)

lemma conn_tests:
  assumes "conn_of e = conn_of e'"
  shows "blank_entry e = blank_entry e'" "invalid_conn e = invalid_conn e'" "private_ip e = private_ip e'"
    "target_ip e = target_ip e'" "protocol e = protocol e'"
  using assms by (simp_all add: conn_of_def blank_entry_def invalid_conn_def)

lemma conn_of_simps [simp]:
  "conn_of (e\<lparr>enabled := b\<rparr>) = conn_of e" "conn_of (e\<lparr>rule_hdl := h\<rparr>) = conn_of e" "conn_of (e\<lparr>timestamp := u\<rparr>) = conn_of e"
  "conn_of (e\<lparr>public_ip := p\<rparr>) = conn_of e" "conn_of (fill_entry r e) = conn_of r"
  by (simp_all add: conn_of_def)

lemma invalid_not_blank: "\<not> invalid_conn e \<Longrightarrow> \<not> blank_entry e"
  by (simp add: invalid_conn_def blank_entry_def)

lemma wf_nonblank:
  assumes "entries_wf es" "i < length es" "\<not> blank_entry (es ! i)"
  shows "\<not> invalid_conn (es ! i)" "protocol (es ! i) \<noteq> 0xFF" "private_ip (es ! i) \<noteq> 0" "target_ip (es ! i) \<noteq> 0"
proof -
  have "entry_wf (es ! i)" using assms(1,2) by (simp add: entries_wf_def)
  then show "\<not> invalid_conn (es ! i)" "protocol (es ! i) \<noteq> 0xFF" "private_ip (es ! i) \<noteq> 0" "target_ip (es ! i) \<noteq> 0"
    using assms(3) by (simp_all add: entry_wf_def invalid_conn_def)
qed

lemma wf_enabled: "entries_wf es \<Longrightarrow> i < length es \<Longrightarrow> enabled (es ! i) \<Longrightarrow> \<not> blank_entry (es ! i)"
  by (meson entries_wf_def entry_wf_def nth_mem)

lemma blank_ips: "blank_entry e \<Longrightarrow> private_ip e = 0 \<and> target_ip e = 0"
  by (simp add: blank_entry_def)

lemma wf_private: "entries_wf es \<Longrightarrow> i < length es \<Longrightarrow> private_ip (es ! i) \<noteq> 0 \<longleftrightarrow> \<not> blank_entry (es ! i)"
  using wf_nonblank(3) blank_ips by blast

lemma used_entries_upd:
  assumes "i < length es"
  shows "used_entries (es[i := e]) =
    used_entries es - (if blank_entry (es ! i) then 0 else 1) + (if blank_entry e then 0 else 1)"
proof -
  have "es = take i es @ es ! i # drop (Suc i) es" using assms by (simp add: id_take_nth_drop)
  then have "used_entries es = used_entries (take i es @ es ! i # drop (Suc i) es)" by simp
  moreover have "es[i := e] = take i es @ e # drop (Suc i) es" using assms by (rule upd_conv_take_nth_drop)
  ultimately show ?thesis by (simp add: used_entries_def)
qed

lemma wf_zero:
  assumes "entries_wf es" "i < length es"
  shows "entries_wf (es[i := zero_entry])"
proof -
  have "\<forall>e\<in>set (es[i := zero_entry]). entry_wf e"
    using assms by (auto simp: entries_wf_def dest: set_update_subset_insert [THEN subsetD])
  moreover have "conns_distinct (es[i := zero_entry])"
    unfolding conns_distinct_def
  proof (intro allI impI)
    fix j k assume jk: "j < length (es[i := zero_entry])" "k < length (es[i := zero_entry])"
      "\<not> blank_entry (es[i := zero_entry] ! j)" "same_conn (es[i := zero_entry] ! j) (es[i := zero_entry] ! k)"
    then have "j \<noteq> i" by auto
    moreover have "k \<noteq> i"
    proof
      assume "k = i"
      with jk(2,4) have "conn_of (es[i := zero_entry] ! j) = conn_of zero_entry" by (simp add: same_conn_iff)
      from conn_tests(1) [OF this] jk(3) show False by simp
    qed
    ultimately show "j = k" using jk assms by (auto simp: entries_wf_def conns_distinct_def)
  qed
  ultimately show ?thesis by (simp add: entries_wf_def)
qed

lemma wf_same:
  assumes "entries_wf es" "i < length es" "conn_of e = conn_of (es ! i)" "blank_entry e \<Longrightarrow> \<not> enabled e"
  shows "entries_wf (es[i := e])" "used_entries (es[i := e]) = used_entries es"
proof -
  have c: "conn_of (es[i := e] ! j) = conn_of (es ! j)" if "j < length es" for j
    using assms(2,3) that by (cases "j = i") auto
  have b: "blank_entry (es[i := e] ! j) = blank_entry (es ! j)" if "j < length es" for j
    using conn_tests(1) [OF c [OF that]] .
  have "entry_wf e" using assms conn_tests [OF assms(3)] nth_mem [OF assms(2)] by (auto simp: entries_wf_def entry_wf_def)
  then have "\<forall>e\<in>set (es[i := e]). entry_wf e"
    using assms(1) by (auto simp: entries_wf_def dest: set_update_subset_insert [THEN subsetD])
  moreover have "conns_distinct (es[i := e])"
    unfolding conns_distinct_def same_conn_iff
  proof (intro allI impI)
    fix j k assume "j < length (es[i := e])" "k < length (es[i := e])" "\<not> blank_entry (es[i := e] ! j)"
      "conn_of (es[i := e] ! j) = conn_of (es[i := e] ! k)"
    then show "j = k" using assms(1) b c by (simp add: entries_wf_def conns_distinct_def same_conn_iff)
  qed
  ultimately show "entries_wf (es[i := e])" by (simp add: entries_wf_def)
  show "used_entries (es[i := e]) = used_entries es"
    using used_entries_upd [OF assms(2), of e] conn_tests(1) [OF assms(3)] by simp
qed

lemma wf_fill:
  assumes "entries_wf es" "i < length es" "blank_entry (es ! i)" "\<not> invalid_conn e" "protocol e \<noteq> 0xFF"
    and dup: "\<forall>j<length es. \<not> same_conn (es ! j) e"
  shows "entries_wf (es[i := e])" "used_entries (es[i := e]) = used_entries es + 1"
proof -
  have nb: "\<not> blank_entry e" using invalid_not_blank [OF assms(4)] .
  have "\<forall>e\<in>set (es[i := e]). entry_wf e"
    using assms(1,4,5) nb by (auto simp: entries_wf_def entry_wf_def dest!: set_update_subset_insert [THEN subsetD])
  moreover have "conns_distinct (es[i := e])"
    unfolding conns_distinct_def same_conn_iff
  proof (intro allI impI)
    fix j k assume jk: "j < length (es[i := e])" "k < length (es[i := e])" "\<not> blank_entry (es[i := e] ! j)"
      "conn_of (es[i := e] ! j) = conn_of (es[i := e] ! k)"
    then consider "j = i" "k = i" | "j = i" "k \<noteq> i" | "j \<noteq> i" "k = i" | "j \<noteq> i" "k \<noteq> i" by blast
    then show "j = k"
      by cases (use jk dup assms(1,2) in \<open>auto simp: same_conn_iff entries_wf_def conns_distinct_def\<close>)
  qed
  ultimately show "entries_wf (es[i := e])" by (simp add: entries_wf_def)
  show "used_entries (es[i := e]) = used_entries es + 1" using used_entries_upd [OF assms(2), of e] assms(3) nb by simp
qed

text \<open>What the loops change: the cache, its count and the driver.\<close>

abbreviation upd_app :: "natapp \<Rightarrow> nat_table_entry list \<Rightarrow> int \<Rightarrow> ipa_nat_cache \<Rightarrow> natapp" where
  "upd_app a es n d \<equiv> a\<lparr>cache := es, curCnt := n, drv := d\<rparr>"

lemma app_wf_upd: "app_wf a \<Longrightarrow> entries_wf es \<Longrightarrow> length es = max_entries a \<Longrightarrow> app_wf (upd_app a es (used_entries es) d)"
  by (simp add: app_wf_def)

section \<open>Calls of the driver\<close>

lemma find_entry_spec:
  assumes "length (cache a) = max_entries a"
  shows "(\<forall>j. cnt \<le> j \<longrightarrow> j < max_entries a \<longrightarrow> \<not> p (cache a ! j)) \<and> find_entry p a cnt = Some None \<or>
    (\<exists>i. cnt \<le> i \<and> i < max_entries a \<and> p (cache a ! i) \<and> (\<forall>j. cnt \<le> j \<longrightarrow> j < i \<longrightarrow> \<not> p (cache a ! j)) \<and>
      find_entry p a cnt = Some (Some i))"
proof -
  let ?f = "\<lambda>i. map_option p (rd (cache a) i)"
  have t: "\<And>j. cnt \<le> j \<Longrightarrow> j < max_entries a \<Longrightarrow> ?f j = Some (p (cache a ! j))" using assms by simp
  have "\<exists>r. find_entry p a cnt = Some r"
    unfolding find_entry_def by (subst scan_first_total [where q = "\<lambda>j. p (cache a ! j)", OF t]) auto
  then obtain r where r: "find_entry p a cnt = Some r" by blast
  show ?thesis
  proof (cases r)
    case None
    then show ?thesis using scan_first_none [where q = "\<lambda>j. p (cache a ! j)", OF t] r unfolding find_entry_def by blast
  next
    case (Some i)
    then show ?thesis using scan_first_found [where q = "\<lambda>j. p (cache a ! j)", OF t] r unfolding find_entry_def by blast
  qed
qed

lemma hw_closed:
  assumes "nat_table_hdl a = 0" "i < length (cache a)"
  shows "hw_del env i a = Some (- EINVAL, a)" "hw_add env r i a = Some (- EINVAL, a)"
  using assms by (simp_all add: hw_del_def hw_add_def ipa_nat_del_ipv4_rule_def ipa_nat_add_ipv4_rule_def)

lemma hw_del_open:
  assumes "nat_table_hdl a = 1" "drv_ok (drv_env env) (drv a)" "mirrors k (cache a) (drv_rules (drv a))"
    "i < length (cache a)" "i < k" "enabled (cache a ! i)"
  obtains d where "hw_del env i a = Some (0, a\<lparr>drv := d\<rparr>)" "drv_ok (drv_env env) d"
    "drv_rules d = (drv_rules (drv a))(rule_hdl (cache a ! i) := None)"
    "\<And>e'. \<not> enabled e' \<Longrightarrow> mirrors k ((cache a)[i := e']) (drv_rules d)"
proof -
  obtain d where d: "drv_del (drv_env env) (rule_hdl (cache a ! i)) (drv a) = Some (0, d)" "drv_ok (drv_env env) d"
    "drv_rules d = (drv_rules (drv a))(rule_hdl (cache a ! i) := None)"
    "\<And>e'. \<not> enabled e' \<Longrightarrow> mirrors k ((cache a)[i := e']) (drv_rules d)"
    by (rule nd.del_mirrors [OF assms(2,3,4,5,6)]) (rule that)
  have "hw_del env i a = Some (0, a\<lparr>drv := d\<rparr>)" using d(1) assms(1,4) by (simp add: hw_del_def drv_del_def)
  from this d(2-4) show thesis by (rule that)
qed

lemma hw_add_open:
  assumes "nat_table_hdl a = 1" "drv_ok (drv_env env) (drv a)" "mirrors k (cache a) (drv_rules (drv a))"
    "i < length (cache a)" "k = i \<or> i < k \<and> \<not> enabled (cache a ! i)" "\<not> dead_proto (nat_rule_of e)"
  obtains (refused) "hw_add env (nat_rule_of e) i a = Some (- EINVAL, a)" "rules_full (hd (ip4_tbl (drv a))) (nat_rule_of e)"
  | (added) h d where
      "hw_add env (nat_rule_of e) i a = Some (0, a\<lparr>cache := (cache a)[i := (cache a ! i)\<lparr>rule_hdl := h\<rparr>], drv := d\<rparr>)"
      "drv_ok (drv_env env) d" "drv_rules d = (drv_rules (drv a))(h \<mapsto> nat_rule_of e)" "drv_rules (drv a) h = None"
      "\<forall>h'. 0 < h' \<and> h' < h \<longrightarrow> drv_rules (drv a) h' \<noteq> None" "0 < h"
      "\<And>e'. enabled e' \<Longrightarrow> rule_hdl e' = h \<Longrightarrow> nat_rule_of e' = nat_rule_of e \<Longrightarrow>
        mirrors (max k (Suc i)) ((cache a)[i := e']) (drv_rules d)"
proof (cases rule: drv_add_cases [OF assms(2,6)])
  case 1
  then have "hw_add env (nat_rule_of e) i a = Some (- EINVAL, a)"
    using assms(1,4) by (simp add: hw_add_def drv_add_def)
  with 1(2) show ?thesis by (intro refused)
next
  case (2 h d)
  have run: "hw_add env (nat_rule_of e) i a = Some (0, a\<lparr>cache := (cache a)[i := (cache a ! i)\<lparr>rule_hdl := h\<rparr>], drv := d\<rparr>)"
    using 2(1) assms(1,4) by (simp add: hw_add_def drv_add_def put_entry_def)
  show ?thesis
  proof (rule nd.add_mirrors [OF assms(2-6)])
    fix h' d' assume "drv_add (drv_env env) (nat_rule_of e) (drv a) = Some (0, Some h', d')"
      "\<And>e'. enabled e' \<Longrightarrow> rule_hdl e' = h' \<Longrightarrow> nat_rule_of e' = nat_rule_of e \<Longrightarrow>
        mirrors (max k (Suc i)) ((cache a)[i := e']) (drv_rules d')"
    with 2 run show ?thesis by (intro added [where h = h and d = d]) auto
  qed (use 2 in auto)
qed


lemma readd_open:
  assumes wf: "app_wf a" and a: "nat_table_hdl a = 1" "drv_ok (drv_env env) (drv a)" "mirrors k (cache a) (drv_rules (drv a))"
    and i: "i < max_entries a" "\<not> blank_entry (cache a ! i)" "k = i \<or> i < k \<and> \<not> enabled (cache a ! i)"
  obtains e d where "readd_entry env i a = Some (upd_app a ((cache a)[i := e]) (used_entries ((cache a)[i := e])) d)"
    "app_wf (upd_app a ((cache a)[i := e]) (used_entries ((cache a)[i := e])) d)"
    "drv_ok (drv_env env) d" "mirrors (max k (Suc i)) ((cache a)[i := e]) (drv_rules d)"
    "e = zero_entry \<or> enabled e \<and> conn_of e = conn_of (cache a ! i) \<and> nat_rule_of e = nat_rule_of (cache a ! i)"
proof -
  have w: "length (cache a) = max_entries a" "entries_wf (cache a)" "curCnt a = used_entries (cache a)"
    using wf by (simp_all add: app_wf_def)
  have il: "i < length (cache a)" using i(1) w(1) by simp
  have dp: "\<not> dead_proto (nat_rule_of (cache a ! i))" using wf_nonblank(2) [OF w(2) il i(2)] by simp
  show thesis
  proof (cases rule: hw_add_open [OF a il i(3) dp])
    case 1
    have wz: "app_wf (upd_app a ((cache a)[i := zero_entry]) (used_entries ((cache a)[i := zero_entry])) (drv a))"
      by (rule app_wf_upd [OF wf wf_zero [OF w(2) il]]) (simp add: w(1))
    show ?thesis
    proof (rule that [OF _ wz a(2)])
      show "readd_entry env i a = Some (upd_app a ((cache a)[i := zero_entry]) (used_entries ((cache a)[i := zero_entry])) (drv a))"
        using 1 il w(3) i(2) used_entries_upd [OF il, of zero_entry] by (simp add: readd_entry_def put_entry_def)
      show "mirrors (max k (Suc i)) ((cache a)[i := zero_entry]) (drv_rules (drv a))"
        by (rule mirrors_skip [OF a(3) il i(3)]) simp
    qed simp
  next
    case (2 h d)
    let ?e = "(cache a ! i)\<lparr>rule_hdl := h, enabled := True\<rparr>"
    have same: "entries_wf ((cache a)[i := ?e])" "used_entries ((cache a)[i := ?e]) = used_entries (cache a)"
      using wf_same [OF w(2) il, of ?e] i(2) by simp_all
    show ?thesis
    proof (rule that [where e = ?e and d = d])
      show "readd_entry env i a = Some (upd_app a ((cache a)[i := ?e]) (used_entries ((cache a)[i := ?e])) d)"
        using 2(1) il w(3) same(2) by (simp add: readd_entry_def put_entry_def)
      show "app_wf (upd_app a ((cache a)[i := ?e]) (used_entries ((cache a)[i := ?e])) d)"
        by (rule app_wf_upd [OF wf same(1)]) (simp add: w(1))
      show "mirrors (max k (Suc i)) ((cache a)[i := ?e]) (drv_rules d)" using 2(7) by simp
    qed (use 2 in simp_all)
  qed
qed

lemma readd_closed:
  assumes "app_wf a" "nat_table_hdl a = 0" "i < max_entries a" "\<not> blank_entry (cache a ! i)"
  shows "readd_entry env i a = Some (upd_app a ((cache a)[i := zero_entry]) (used_entries ((cache a)[i := zero_entry])) (drv a))"
proof -
  have il: "i < length (cache a)" using assms(1,3) by (simp add: app_wf_def)
  then show ?thesis
    using hw_closed(2) [OF assms(2) il] assms(1,4) used_entries_upd [OF il, of zero_entry]
    by (simp add: readd_entry_def put_entry_def app_wf_def)
qed

section \<open>Loops over the cache\<close>

text \<open>Two states differ in the cache, its count and the driver at most.\<close>

definition app_frame :: "natapp \<Rightarrow> natapp \<Rightarrow> bool" where
  "app_frame a b \<longleftrightarrow> b = upd_app a (cache b) (curCnt b) (drv b)"

lemma app_frame_simps:
  assumes "app_frame a b"
  shows "max_entries b = max_entries a" "temp b = temp a" "PwrSaveIfs b = PwrSaveIfs a" "nat_table_hdl b = nat_table_hdl a"
    "pub_ip_addr b = pub_ip_addr a" "pub_ip_addr_pre b = pub_ip_addr_pre a" "pALGPorts b = pALGPorts a"
proof -
  from assms obtain es n d where "b = upd_app a es n d" unfolding app_frame_def by blast
  then show "max_entries b = max_entries a" "temp b = temp a" "PwrSaveIfs b = PwrSaveIfs a" "nat_table_hdl b = nat_table_hdl a"
    "pub_ip_addr b = pub_ip_addr a" "pub_ip_addr_pre b = pub_ip_addr_pre a" "pALGPorts b = pALGPorts a" by simp_all
qed


lemma app_frame_refl: "app_frame a a"
  by (simp add: app_frame_def)

lemma app_frame_upd: "app_frame a b \<Longrightarrow> app_frame a (upd_app b es n d)"
proof -
  assume "app_frame a b"
  then obtain es' n' d' where "b = upd_app a es' n' d'" unfolding app_frame_def by blast
  then show ?thesis by (simp add: app_frame_def)
qed

text \<open>A loop whose body works on its own entry, and keeps the invariant.\<close>

lemma loop_entries:
  assumes inv: "app_inv env a"
    and step: "\<And>i b. i < max_entries a \<Longrightarrow> app_inv env b \<Longrightarrow> app_frame a b \<Longrightarrow> cache b ! i = cache a ! i \<Longrightarrow>
      \<exists>e n d. body i b = Some (upd_app b ((cache b)[i := e]) n d) \<and> app_inv env (upd_app b ((cache b)[i := e]) n d) \<and>
        P (cache a ! i) e"
  shows "\<exists>b. for_range body (max_entries a) 0 a = Some b \<and> app_inv env b \<and> app_frame a b \<and>
    (\<forall>i<max_entries a. P (cache a ! i) (cache b ! i))"
proof -
  define I where "I i b \<longleftrightarrow> app_inv env b \<and> app_frame a b \<and> (\<forall>j<i. P (cache a ! j) (cache b ! j)) \<and>
    (\<forall>j. i \<le> j \<longrightarrow> j < max_entries a \<longrightarrow> cache b ! j = cache a ! j)" for i b
  have "\<exists>b. for_range body (max_entries a) 0 a = Some b \<and> I (max_entries a) b"
  proof (rule for_range_inv)
    show "I 0 a" using inv by (simp add: I_def app_frame_refl)
    fix i b assume i: "i < max_entries a" and I: "I i b"
    then have b: "app_inv env b" "app_frame a b" "cache b ! i = cache a ! i" by (simp_all add: I_def)
    from step [OF i b] obtain e n d where s: "body i b = Some (upd_app b ((cache b)[i := e]) n d)"
      "app_inv env (upd_app b ((cache b)[i := e]) n d)" "P (cache a ! i) e" by blast
    have "length (cache b) = max_entries a" using b(1) app_frame_simps(1) [OF b(2)] by (simp add: app_inv_def app_wf_def)
    then have "I (Suc i) (upd_app b ((cache b)[i := e]) n d)"
      using I s app_frame_upd [OF b(2)] i by (auto simp: I_def nth_list_update less_Suc_eq)
    then show "\<exists>s'. body i b = Some s' \<and> I (Suc i) s'" using s(1) by blast
  qed simp
  then show ?thesis by (auto simp: I_def)
qed

text \<open>The body leaves the entry alone.\<close>

lemma step_skip:
  assumes "app_inv env b" "body i b = Some b" "P e0 (cache b ! i)"
  shows "\<exists>e n d. body i b = Some (upd_app b ((cache b)[i := e]) n d) \<and> app_inv env (upd_app b ((cache b)[i := e]) n d) \<and> P e0 e"
proof -
  have "upd_app b ((cache b)[i := cache b ! i]) (curCnt b) (drv b) = b" by simp
  then show ?thesis using assms by metis
qed

lemma inv_upd_open:
  assumes wf: "app_wf b" and es: "entries_wf es" "length es = max_entries b" and "nat_table_hdl b = 1"
    and "drv_ok (drv_env env) d" "mirrors (max_entries b) es (drv_rules d)"
  shows "app_inv env (upd_app b es (used_entries es) d)"
  using app_wf_upd [OF wf es] assms(4-6) by (simp add: app_inv_def app_open_def)

lemma inv_upd_closed:
  assumes wf: "app_wf b" and es: "entries_wf es" "length es = max_entries b" and "app_closed b"
  shows "app_inv env (upd_app b es (used_entries es) (drv b))"
  using app_wf_upd [OF wf es, of "drv b"] assms(4) by (simp add: app_inv_def app_closed_def)

text \<open>
  What a method does with an enabled entry when its driver call works, and an entry disabled in
  place: the three loops that take rules out of the table differ in the entry they leave.
\<close>

lemma del_step_open:
  assumes inv: "app_inv env b" "app_open env b" and i: "i < max_entries b" "enabled (cache b ! i)"
    and e: "\<not> enabled e" "e = zero_entry \<or> conn_of e = conn_of (cache b ! i)"
  obtains d where "hw_del env i b = Some (0, b\<lparr>drv := d\<rparr>)"
    "app_inv env (upd_app b ((cache b)[i := e]) (used_entries ((cache b)[i := e])) d)"
    "used_entries ((cache b)[i := e]) = curCnt b - (if e = zero_entry then 1 else 0)"
proof -
  have w: "app_wf b" "length (cache b) = max_entries b" "entries_wf (cache b)" "curCnt b = used_entries (cache b)"
    using inv(1) by (simp_all add: app_inv_def app_wf_def)
  have o: "nat_table_hdl b = 1" "drv_ok (drv_env env) (drv b)" "mirrors (max_entries b) (cache b) (drv_rules (drv b))"
    using inv(2) by (simp_all add: app_open_def)
  have il: "i < length (cache b)" using i(1) w(2) by simp
  have nb: "\<not> blank_entry (cache b ! i)" by (rule wf_enabled [OF w(3) il i(2)])
  have e_wf: "entries_wf ((cache b)[i := e])"
    using e wf_zero [OF w(3) il] wf_same(1) [OF w(3) il, of e] by auto
  have "blank_entry e \<longleftrightarrow> e = zero_entry" using e(2) nb conn_tests(1) [of e "cache b ! i"] by auto
  then have cnt: "used_entries ((cache b)[i := e]) = curCnt b - (if e = zero_entry then 1 else 0)"
    using used_entries_upd [OF il, of e] nb w(4) by simp
  obtain d where d: "hw_del env i b = Some (0, b\<lparr>drv := d\<rparr>)" "drv_ok (drv_env env) d"
    "\<And>e'. \<not> enabled e' \<Longrightarrow> mirrors (max_entries b) ((cache b)[i := e']) (drv_rules d)"
    by (rule hw_del_open [OF o il i]) (rule that)
  show thesis
    by (rule that [OF d(1) _ cnt], rule inv_upd_open [OF w(1) e_wf _ o(1) d(2) d(3) [OF e(1)]]) (simp add: w(2))
qed


text \<open>An entry that has no rule in the table is dropped.\<close>

lemma inv_drop:
  assumes b: "app_inv env b" and i: "i < max_entries b" and no: "\<not> enabled (cache b ! i) \<or> app_closed b"
  shows "app_inv env (upd_app b ((cache b)[i := zero_entry]) (used_entries ((cache b)[i := zero_entry])) (drv b))"
proof -
  have w: "app_wf b" "length (cache b) = max_entries b" "entries_wf (cache b)"
    using b by (simp_all add: app_inv_def app_wf_def)
  have il: "i < length (cache b)" using i w(2) by simp
  note wz = wf_zero [OF w(3) il]
  show ?thesis
  proof (cases "app_open env b")
    case True
    then have o: "nat_table_hdl b = 1" "drv_ok (drv_env env) (drv b)" "mirrors (max_entries b) (cache b) (drv_rules (drv b))"
      by (simp_all add: app_open_def)
    have "\<not> enabled (cache b ! i)" using no True by (auto simp: app_closed_def app_open_def)
    then have "mirrors (max_entries b) ((cache b)[i := zero_entry]) (drv_rules (drv b))"
      by (intro mirrors_upd [OF o(3) il]) simp_all
    then show ?thesis by (intro inv_upd_open [OF w(1) wz _ o(1,2)]) (simp_all add: w(2))
  next
    case False
    then have "app_closed b" using b by (simp add: app_inv_def)
    then show ?thesis by (intro inv_upd_closed [OF w(1) wz]) (simp_all add: w(2))
  qed
qed

section \<open>Sleeping and leaving clients\<close>

lemma scan_list:
  assumes "n \<le> length xs"
  shows "scan_first (\<lambda>i. map_option p (rd xs i)) n 0 = Some (if \<exists>i<n. p (xs ! i) then Some (LEAST i. p (xs ! i)) else None)"
  by (subst scan_first_total [where q = "\<lambda>i. p (xs ! i)"]) (use assms in auto)

text \<open>A change of the power save list alone.\<close>

lemma inv_pwr:
  assumes "app_inv env a" "length xs = IPA_MAX_NUM_WIFI_CLIENTS"
  shows "app_inv env (a\<lparr>PwrSaveIfs := xs\<rparr>)" "app_open env (a\<lparr>PwrSaveIfs := xs\<rparr>) = app_open env a"
  using assms by (auto simp: app_inv_def app_wf_def app_open_def app_closed_def)

lemma clear_pwr_save_spec:
  assumes "app_inv env a"
  obtains xs where "clear_pwr_save ip a = Some (a\<lparr>PwrSaveIfs := xs\<rparr>)" "length xs = IPA_MAX_NUM_WIFI_CLIENTS"
    "app_inv env (a\<lparr>PwrSaveIfs := xs\<rparr>)" "xs = (if ip \<in> set (PwrSaveIfs a) then list_update (PwrSaveIfs a) (LEAST i. PwrSaveIfs a ! i = ip) 0 else PwrSaveIfs a)"
proof -
  have len: "length (PwrSaveIfs a) = 32" using assms by (simp add: app_inv_def app_wf_def)
  have "(\<exists>i<32. PwrSaveIfs a ! i = ip) \<longleftrightarrow> ip \<in> set (PwrSaveIfs a)" using len by (auto simp: in_set_conv_nth)
  then have "clear_pwr_save ip a =
      Some (a\<lparr>PwrSaveIfs := if ip \<in> set (PwrSaveIfs a) then (PwrSaveIfs a)[(LEAST i. PwrSaveIfs a ! i = ip) := 0] else PwrSaveIfs a\<rparr>)"
    using len by (simp add: clear_pwr_save_def scan_list)
  then show thesis by (rule that) (use len inv_pwr [OF assms] in auto)
qed

lemma closed_not_open: "app_closed a \<Longrightarrow> \<not> app_open env a"
  by (simp add: app_closed_def app_open_def)

lemma frame_open:
  assumes "app_frame a b" "app_inv env b"
  shows "app_open env b \<longleftrightarrow> nat_table_hdl a = 1" "app_closed b \<longleftrightarrow> nat_table_hdl a = 0"
  using assms(2) app_frame_simps(4) [OF assms(1)] by (auto simp: app_inv_def app_open_def app_closed_def)

text \<open>
  The three loops: entries that satisfy \<open>q\<close> and are enabled leave the table and become \<open>f e\<close>. With no
  table the driver refuses and they stay.
\<close>

lemma del_loop:
  assumes inv: "app_inv env a"
    and f: "\<And>e. \<not> enabled (f e)" "\<And>e. f e = zero_entry \<or> conn_of (f e) = conn_of e"
    and body: "\<And>i b e. rd (cache b) i = Some e \<Longrightarrow> q e \<Longrightarrow> enabled e \<Longrightarrow> body i b = do {
        (ret, b) \<leftarrow> hw_del env i b;
        if ret < 0 then Some b
        else do { b \<leftarrow> put_entry i (f e) b; Some (b\<lparr>curCnt := curCnt b - (if f e = zero_entry then 1 else 0)\<rparr>) } }"
    and skip: "\<And>i b e. rd (cache b) i = Some e \<Longrightarrow> q e \<Longrightarrow> \<not> enabled e \<Longrightarrow> i < max_entries a \<Longrightarrow> app_inv env b \<Longrightarrow> app_frame a b \<Longrightarrow>
        \<exists>n e' d. body i b = Some (upd_app b ((cache b)[i := e']) n d) \<and> app_inv env (upd_app b ((cache b)[i := e']) n d) \<and> e' = g e"
    and none: "\<And>i b e. rd (cache b) i = Some e \<Longrightarrow> \<not> q e \<Longrightarrow> body i b = Some b"
  shows "\<exists>b. for_range body (max_entries a) 0 a = Some b \<and> app_inv env b \<and> app_frame a b \<and>
    (\<forall>i<max_entries a. cache b ! i = (let e = cache a ! i in
       if \<not> q e then e else if \<not> enabled e then g e else if nat_table_hdl a = 1 then f e else e))"
proof (rule loop_entries [OF inv])
  fix i b assume i: "i < max_entries a" and b: "app_inv env b" "app_frame a b" "cache b ! i = cache a ! i"
  have mx: "max_entries b = max_entries a" by (rule app_frame_simps [OF b(2)])
  have il: "i < length (cache b)" using i b(1) mx by (simp add: app_inv_def app_wf_def)
  then have rd: "rd (cache b) i = Some (cache a ! i)" using b(3) by simp
  let ?e = "cache a ! i"
  show "\<exists>e n d. body i b = Some (upd_app b ((cache b)[i := e]) n d) \<and> app_inv env (upd_app b ((cache b)[i := e]) n d) \<and>
      e = (let e = ?e in if \<not> q e then e else if \<not> enabled e then g e else if nat_table_hdl a = 1 then f e else e)"
  proof (cases "q ?e")
    case False
    show ?thesis by (rule step_skip [OF b(1)]) (use none [OF rd False] False b(3) in auto)
  next
    case q: True
    show ?thesis
    proof (cases "enabled ?e")
      case False
      show ?thesis using skip [OF rd q False i b(1,2)] q False by auto
    next
      case en: True
      have enb: "enabled (cache b ! i)" using en b(3) by simp
      show ?thesis
      proof (cases "nat_table_hdl a = 1")
        case True
        then have op: "app_open env b" using frame_open(1) [OF b(2,1)] by simp
        have fe: "f ?e = zero_entry \<or> conn_of (f ?e) = conn_of (cache b ! i)" using f(2) b(3) by simp
        have ib: "i < max_entries b" using i mx by simp
        obtain d where d: "hw_del env i b = Some (0, b\<lparr>drv := d\<rparr>)"
          "app_inv env (upd_app b ((cache b)[i := f ?e]) (used_entries ((cache b)[i := f ?e])) d)"
          "used_entries ((cache b)[i := f ?e]) = curCnt b - (if f ?e = zero_entry then 1 else 0)"
          by (rule del_step_open [OF b(1) op ib enb f(1) fe])
        have "body i b = Some (upd_app b ((cache b)[i := f ?e]) (used_entries ((cache b)[i := f ?e])) d)"
          using body [OF rd q en] d(1) il unfolding d(3) by (simp add: put_entry_def)
        then show ?thesis using d(2) q en True by auto
      next
        case False
        then have cl: "nat_table_hdl b = 0" using b frame_open [OF b(2,1)] by (auto simp: app_inv_def app_closed_def)
        show ?thesis
          by (rule step_skip [OF b(1)]) (use body [OF rd q en] hw_closed(1) [OF cl il] q en False b(3) in auto)
      qed
    qed
  qed
qed


lemma not_zero_entry: "private_ip e \<noteq> 0 \<Longrightarrow> e \<noteq> zero_entry"
  by (auto simp: zero_entry_def)

text \<open>The power save list after a client was recorded: in the first free cell, if there is one.\<close>

definition pwr_with :: "u32 \<Rightarrow> u32 list \<Rightarrow> u32 list" where
  "pwr_with ip xs = (if 0 \<in> set xs then xs[(LEAST i. xs ! i = 0) := ip] else xs)"

lemma length_pwr_with [simp]: "length (pwr_with ip xs) = length xs"
  by (simp add: pwr_with_def)

lemma UpdatePwrSaveIf_spec:
  assumes inv: "app_inv env a" and ip: "ip \<noteq> 0" "ip \<notin> set (PwrSaveIfs a)"
  shows "\<exists>b. UpdatePwrSaveIf env ip a = Some (0, b) \<and> app_inv env b \<and>
    app_frame (a\<lparr>PwrSaveIfs := pwr_with ip (PwrSaveIfs a)\<rparr>) b \<and>
    (\<forall>i<max_entries a. cache b ! i = (let e = cache a ! i in
       if private_ip e = ip \<and> enabled e \<and> nat_table_hdl a = 1 then e\<lparr>enabled := False, rule_hdl := 0\<rparr> else e))"
proof -
  let ?a = "a\<lparr>PwrSaveIfs := pwr_with ip (PwrSaveIfs a)\<rparr>"
  have len: "length (PwrSaveIfs a) = 32" using inv by (simp add: app_inv_def app_wf_def)
  have no: "\<not> (\<exists>i<32. PwrSaveIfs a ! i = ip)" using ip(2) len by (metis nth_mem)
  have ex: "(\<exists>i<32. PwrSaveIfs a ! i = 0) \<longleftrightarrow> 0 \<in> set (PwrSaveIfs a)" using len by (auto simp: in_set_conv_nth)
  have ai: "app_inv env ?a" by (rule inv_pwr(1) [OF inv]) (simp add: len)
  let ?body = "\<lambda>cnt b. do {
     e \<leftarrow> rd (cache b) cnt;
     if private_ip e = ip \<and> enabled e
     then do {
       (ret, b) \<leftarrow> hw_del env cnt b;
       if ret < 0 then Some b else put_entry cnt (e\<lparr>enabled := False, rule_hdl := 0\<rparr>) b
     }
     else Some b }"
  let ?f = "\<lambda>e. e\<lparr>enabled := False, rule_hdl := 0\<rparr> :: nat_table_entry"
  have "\<exists>b. for_range ?body (max_entries ?a) 0 ?a = Some b \<and> app_inv env b \<and> app_frame ?a b \<and>
      (\<forall>i<max_entries ?a. cache b ! i = (let e = cache ?a ! i in
         if \<not> private_ip e = ip then e else if \<not> enabled e then e else if nat_table_hdl ?a = 1 then ?f e else e))"
  proof (rule del_loop [OF ai])
    fix i and b :: natapp and e :: nat_table_entry
    assume e: "rd (cache b) i = Some e" "private_ip e = ip"
    have nz: "?f e \<noteq> zero_entry" by (rule not_zero_entry) (use e(2) ip(1) in simp)
    show "enabled e \<Longrightarrow> ?body i b = do {
        (ret, b) \<leftarrow> hw_del env i b;
        if ret < 0 then Some b
        else do { b \<leftarrow> put_entry i (?f e) b; Some (b\<lparr>curCnt := curCnt b - (if ?f e = zero_entry then 1 else 0)\<rparr>) } }"
      using e nz by (cases "hw_del env i b") (auto split: prod.splits)
    assume "\<not> enabled e" "app_inv env b"
    then show "\<exists>n e' d. ?body i b = Some (upd_app b ((cache b)[i := e']) n d) \<and>
        app_inv env (upd_app b ((cache b)[i := e']) n d) \<and> e' = e"
      using e step_skip [of env b ?body i "\<lambda>x y. y = e" e] by (auto simp: rd_Some_iff)
  qed simp_all
  then show ?thesis
    using len no ex ip(1) by (auto simp: UpdatePwrSaveIf_def scan_list pwr_with_def Let_def split: if_splits)
qed


lemma DelEntriesOnClntDiscon_spec:
  assumes inv: "app_inv env a" and ip: "ip \<noteq> 0"
  shows "\<exists>b xs. DelEntriesOnClntDiscon env ip a = Some (0, b) \<and> app_inv env b \<and> length xs = IPA_MAX_NUM_WIFI_CLIENTS \<and>
    app_frame (a\<lparr>PwrSaveIfs := xs\<rparr>) b \<and>
    (\<forall>i<max_entries a. cache b ! i = (let e = cache a ! i in
       if private_ip e = ip \<and> enabled e \<and> nat_table_hdl a = 1 then e\<lparr>enabled := False\<rparr> else e))"
proof -
  obtain xs where xs: "clear_pwr_save ip a = Some (a\<lparr>PwrSaveIfs := xs\<rparr>)" "length xs = IPA_MAX_NUM_WIFI_CLIENTS"
    "app_inv env (a\<lparr>PwrSaveIfs := xs\<rparr>)" by (rule clear_pwr_save_spec [OF inv])
  let ?a = "a\<lparr>PwrSaveIfs := xs\<rparr>"
  let ?body = "\<lambda>cnt b. do {
     e \<leftarrow> rd (cache b) cnt;
     if private_ip e = ip \<and> enabled e
     then do {
       (ret, b) \<leftarrow> hw_del env cnt b;
       if ret < 0 then Some b else put_entry cnt (e\<lparr>enabled := False\<rparr>) b
     }
     else Some b }"
  let ?f = "\<lambda>e. e\<lparr>enabled := False\<rparr> :: nat_table_entry"
  have "\<exists>b. for_range ?body (max_entries ?a) 0 ?a = Some b \<and> app_inv env b \<and> app_frame ?a b \<and>
      (\<forall>i<max_entries ?a. cache b ! i = (let e = cache ?a ! i in
         if \<not> private_ip e = ip then e else if \<not> enabled e then e else if nat_table_hdl ?a = 1 then ?f e else e))"
  proof (rule del_loop [OF xs(3)])
    fix i and b :: natapp and e :: nat_table_entry
    assume e: "rd (cache b) i = Some e" "private_ip e = ip"
    have nz: "?f e \<noteq> zero_entry" by (rule not_zero_entry) (use e(2) ip(1) in simp)
    show "enabled e \<Longrightarrow> ?body i b = do {
        (ret, b) \<leftarrow> hw_del env i b;
        if ret < 0 then Some b
        else do { b \<leftarrow> put_entry i (?f e) b; Some (b\<lparr>curCnt := curCnt b - (if ?f e = zero_entry then 1 else 0)\<rparr>) } }"
      using e nz by (cases "hw_del env i b") (auto split: prod.splits)
    assume "\<not> enabled e" "app_inv env b"
    then show "\<exists>n e' d. ?body i b = Some (upd_app b ((cache b)[i := e']) n d) \<and>
        app_inv env (upd_app b ((cache b)[i := e']) n d) \<and> e' = e"
      using e step_skip [of env b ?body i "\<lambda>x y. y = e" e] by (auto simp: rd_Some_iff)
  qed simp_all
  then show ?thesis
    using xs ip by (auto simp: DelEntriesOnClntDiscon_def Let_def split: if_splits)
qed

lemma DelEntriesOnSTAClntDiscon_spec:
  assumes inv: "app_inv env a" and ip: "ip \<noteq> 0"
  shows "\<exists>b. DelEntriesOnSTAClntDiscon env ip a = Some (0, b) \<and> app_inv env b \<and> app_frame a b \<and>
    (\<forall>i<max_entries a. cache b ! i = (let e = cache a ! i in
       if target_ip e = ip \<and> (\<not> enabled e \<or> nat_table_hdl a = 1) then zero_entry else e))"
proof -
  let ?body = "\<lambda>cnt b. do {
     e \<leftarrow> rd (cache b) cnt;
     if target_ip e = ip
     then do {
       (ret, b) \<leftarrow> (if enabled e then hw_del env cnt b else Some (0, b));
       if ret < 0 then Some b
       else do { b \<leftarrow> put_entry cnt zero_entry b; Some (b\<lparr>curCnt := curCnt b - 1\<rparr>) }
     }
     else Some b }"
  have "\<exists>b. for_range ?body (max_entries a) 0 a = Some b \<and> app_inv env b \<and> app_frame a b \<and>
      (\<forall>i<max_entries a. cache b ! i = (let e = cache a ! i in
         if \<not> target_ip e = ip then e else if \<not> enabled e then zero_entry
         else if nat_table_hdl a = 1 then zero_entry else e))"
  proof (rule del_loop [OF inv])
    fix i and b :: natapp and e :: nat_table_entry
    assume e: "rd (cache b) i = Some e" "target_ip e = ip"
    then show "enabled e \<Longrightarrow> ?body i b = do {
        (ret, b) \<leftarrow> hw_del env i b;
        if ret < 0 then Some b
        else do { b \<leftarrow> put_entry i zero_entry b; Some (b\<lparr>curCnt := curCnt b - (if zero_entry = zero_entry then 1 else 0)\<rparr>) } }"
      by simp
    assume ne: "\<not> enabled e" and b: "app_inv env b" and i: "i < max_entries a" and fr: "app_frame a b"
    have mx: "max_entries b = max_entries a" by (rule app_frame_simps [OF fr])
    have w: "app_wf b" "length (cache b) = max_entries b" "entries_wf (cache b)" "curCnt b = used_entries (cache b)"
      using b by (simp_all add: app_inv_def app_wf_def)
    have il: "i < length (cache b)" "cache b ! i = e" using e(1) by (simp_all add: rd_Some_iff)
    have nb: "\<not> blank_entry e" using e(2) ip blank_ips by auto
    have cnt: "used_entries ((cache b)[i := zero_entry]) = curCnt b - 1"
      using used_entries_upd [OF il(1), of zero_entry] nb il(2) w(4) by simp
    let ?b = "upd_app b ((cache b)[i := zero_entry]) (used_entries ((cache b)[i := zero_entry])) (drv b)"
    have run: "?body i b = Some ?b" using e ne il by (simp add: put_entry_def cnt)
    have inv': "app_inv env ?b" by (rule inv_drop [OF b]) (use i mx ne il in simp_all)
    show "\<exists>n e' d. ?body i b = Some (upd_app b ((cache b)[i := e']) n d) \<and>
        app_inv env (upd_app b ((cache b)[i := e']) n d) \<and> e' = zero_entry"
      using run inv' by blast
  qed simp_all
  then show ?thesis
    using ip by (auto simp: DelEntriesOnSTAClntDiscon_def Let_def split: if_splits)
qed

lemma ResetPwrSaveIf_spec:
  assumes inv: "app_inv env a" and ip: "ip \<noteq> 0"
  shows "\<exists>b xs. ResetPwrSaveIf env ip a = Some (-1, b) \<and> app_inv env b \<and> length xs = IPA_MAX_NUM_WIFI_CLIENTS \<and>
    app_frame (a\<lparr>PwrSaveIfs := xs\<rparr>) b \<and>
    (\<forall>i<max_entries a. let e = cache a ! i; e' = cache b ! i in
       if private_ip e = ip \<and> \<not> enabled e
       then e' = zero_entry \<or> enabled e' \<and> conn_of e' = conn_of e \<and> nat_rule_of e' = nat_rule_of e else e' = e)"
proof -
  obtain xs where xs: "clear_pwr_save ip a = Some (a\<lparr>PwrSaveIfs := xs\<rparr>)" "length xs = IPA_MAX_NUM_WIFI_CLIENTS"
    "app_inv env (a\<lparr>PwrSaveIfs := xs\<rparr>)" by (rule clear_pwr_save_spec [OF inv])
  let ?a = "a\<lparr>PwrSaveIfs := xs\<rparr>"
  let ?P = "\<lambda>e e'. if private_ip e = ip \<and> \<not> enabled e
       then e' = zero_entry \<or> enabled e' \<and> conn_of e' = conn_of e \<and> nat_rule_of e' = nat_rule_of e else e' = e"
  let ?body = "\<lambda>cnt b. do {
     e \<leftarrow> rd (cache b) cnt;
     if private_ip e = ip \<and> \<not> enabled e then readd_entry env cnt b else Some b }"
  have "\<exists>b. for_range ?body (max_entries ?a) 0 ?a = Some b \<and> app_inv env b \<and> app_frame ?a b \<and>
      (\<forall>i<max_entries ?a. ?P (cache ?a ! i) (cache b ! i))"
  proof (rule loop_entries [OF xs(3)])
    fix i b assume i: "i < max_entries ?a" and b: "app_inv env b" "app_frame ?a b" "cache b ! i = cache ?a ! i"
    have mx: "max_entries b = max_entries ?a" by (rule app_frame_simps [OF b(2)])
    have w: "app_wf b" "length (cache b) = max_entries b" using b(1) by (simp_all add: app_inv_def app_wf_def)
    have il: "i < length (cache b)" "i < max_entries b" using i w mx by simp_all
    show "\<exists>e n d. ?body i b = Some (upd_app b ((cache b)[i := e]) n d) \<and> app_inv env (upd_app b ((cache b)[i := e]) n d) \<and>
        ?P (cache ?a ! i) e"
    proof (cases "private_ip (cache b ! i) = ip \<and> \<not> enabled (cache b ! i)")
      case False
      then have "?body i b = Some b" using il by auto
      then show ?thesis by (rule step_skip [OF b(1)]) (use False b(3) in auto)
    next
      case True
      have nb: "\<not> blank_entry (cache b ! i)" using True ip blank_ips by metis
      have run: "?body i b = readd_entry env i b" using True il by simp
      show ?thesis
      proof (cases "app_open env b")
        case op: True
        then have o: "nat_table_hdl b = 1" "drv_ok (drv_env env) (drv b)" "mirrors (max_entries b) (cache b) (drv_rules (drv b))"
          by (simp_all add: app_open_def)
        have at: "max_entries b = i \<or> i < max_entries b \<and> \<not> enabled (cache b ! i)" using il True by simp
        obtain e d where e: "readd_entry env i b = Some (upd_app b ((cache b)[i := e]) (used_entries ((cache b)[i := e])) d)"
          "app_wf (upd_app b ((cache b)[i := e]) (used_entries ((cache b)[i := e])) d)" "drv_ok (drv_env env) d"
          "mirrors (max (max_entries b) (Suc i)) ((cache b)[i := e]) (drv_rules d)"
          "e = zero_entry \<or> enabled e \<and> conn_of e = conn_of (cache b ! i) \<and> nat_rule_of e = nat_rule_of (cache b ! i)"
          by (rule readd_open [OF w(1) o il(2) nb at])
        have "max (max_entries b) (Suc i) = max_entries b" using il(2) by simp
        then have "app_inv env (upd_app b ((cache b)[i := e]) (used_entries ((cache b)[i := e])) d)"
          using e(2-4) o(1) by (simp add: app_inv_def app_open_def)
        moreover have "?P (cache ?a ! i) e" using e(5) True b(3) by simp
        ultimately show ?thesis unfolding run using e(1) by blast
      next
        case False
        then have cl: "app_closed b" using b(1) by (simp add: app_inv_def)
        then have c0: "nat_table_hdl b = 0" by (simp add: app_closed_def)
        have "app_inv env (upd_app b ((cache b)[i := zero_entry]) (used_entries ((cache b)[i := zero_entry])) (drv b))"
          by (rule inv_drop [OF b(1) il(2)]) (simp add: cl)
        moreover have "?P (cache ?a ! i) zero_entry" using True b(3) by simp
        ultimately show ?thesis unfolding run using readd_closed [OF w(1) c0 il(2) nb] by blast
      qed
    qed
  qed
  then obtain b where b: "for_range ?body (max_entries ?a) 0 ?a = Some b" "app_inv env b" "app_frame ?a b"
    "\<forall>i<max_entries ?a. ?P (cache ?a ! i) (cache b ! i)" by blast
  have "cache ?a = cache a" "max_entries ?a = max_entries a" by simp_all
  with b(4) have b4: "\<forall>i<max_entries a. ?P (cache a ! i) (cache b ! i)" by (simp only:)
  show ?thesis
    by (rule exI [of _ b], rule exI [of _ xs]) (use b(1-3) b4 xs ip in \<open>simp add: ResetPwrSaveIf_def Let_def\<close>)
qed

end
