(* ===== verification/Nat_App_Ops.thy ===== *)
theory Nat_App_Ops
  imports Nat_App_Correct
begin

text \<open>
  The remaining methods of the NAT application against its invariant: adding and deleting entries,
  the life of the table, temporary entries and time stamps; and every sequence of calls.
\<close>

section \<open>Deleting an entry\<close>

lemma same_unique:
  assumes "entries_wf es" "i < length es" "j < length es" "\<not> blank_entry (es ! i)" "conn_of (es ! j) = conn_of (es ! i)"
  shows "j = i"
  using assms unfolding entries_wf_def conns_distinct_def same_conn_iff by metis

lemma DeleteEntry_spec:
  assumes inv: "app_inv env a" and nb: "\<not> blank_entry rule"
  shows "\<exists>b. DeleteEntry env rule a = Some (0, b) \<and> app_inv env b \<and> app_frame a b \<and>
    (\<forall>i<max_entries a. cache b ! i = (if same_conn (cache a ! i) rule then zero_entry else cache a ! i))"
proof -
  have w: "app_wf a" "length (cache a) = max_entries a" "entries_wf (cache a)" "curCnt a = used_entries (cache a)"
    using inv by (simp_all add: app_inv_def app_wf_def)
  from find_entry_spec [OF w(2), of 0 "\<lambda>e. same_conn e rule"] show ?thesis
  proof (elim disjE exE conjE)
    assume "\<forall>j. 0 \<le> j \<longrightarrow> j < max_entries a \<longrightarrow> \<not> same_conn (cache a ! j) rule"
      "find_entry (\<lambda>e. same_conn e rule) a 0 = Some None"
    then show ?thesis using inv app_frame_refl by (intro exI [of _ a]) (auto simp: DeleteEntry_def)
  next
    fix i assume i: "i < max_entries a" "same_conn (cache a ! i) rule" "find_entry (\<lambda>e. same_conn e rule) a 0 = Some (Some i)"
    have il: "i < length (cache a)" using i(1) w(2) by simp
    have same_i: "conn_of (cache a ! i) = conn_of rule" using i(2) by (simp add: same_conn_iff)
    have ni: "\<not> blank_entry (cache a ! i)" using nb conn_tests(1) [OF same_i] by simp
    have uniq: "same_conn (cache a ! j) rule \<longleftrightarrow> j = i" if j: "j < max_entries a" for j
    proof
      assume "same_conn (cache a ! j) rule"
      then have "conn_of (cache a ! j) = conn_of (cache a ! i)" using same_i by (simp add: same_conn_iff)
      from same_unique [OF w(3) il _ ni this] show "j = i" using j w(2) by simp
    qed (use i(2) in simp)
    have cnt: "used_entries ((cache a)[i := zero_entry]) = curCnt a - 1"
      using used_entries_upd [OF il, of zero_entry] ni w(4) by simp
    let ?e = "(cache a)[i := zero_entry]"
    obtain r d where d: "(if enabled (cache a ! i) then hw_del env i a else Some (0, a)) = Some (r, a\<lparr>drv := d\<rparr>)"
      "app_inv env (upd_app a ?e (used_entries ?e) d)"
    proof (cases "enabled (cache a ! i) \<and> app_open env a")
      case True
      obtain d where "hw_del env i a = Some (0, a\<lparr>drv := d\<rparr>)" "app_inv env (upd_app a ?e (used_entries ?e) d)"
        using del_step_open [of env a i zero_entry thesis] inv True i(1) that by auto
      then show ?thesis using that True by simp
    next
      case False
      then have no: "\<not> enabled (cache a ! i) \<or> app_closed a" using inv by (auto simp: app_inv_def)
      have "hw_del env i a = Some (- EINVAL, a)" if "enabled (cache a ! i)"
        using no that hw_closed(1) [OF _ il] by (simp add: app_closed_def)
      then have "(if enabled (cache a ! i) then hw_del env i a else Some (0, a)) =
          Some (if enabled (cache a ! i) then - EINVAL else 0, a\<lparr>drv := drv a\<rparr>)" by simp
      then show ?thesis by (rule that [OF _ inv_drop [OF inv i(1) no]])
    qed
    have "DeleteEntry env rule a = Some (0, upd_app a ?e (used_entries ?e) d)"
      using i(3) il d(1) unfolding DeleteEntry_def by (simp add: put_entry_def cnt)
    moreover have "app_frame a (upd_app a ?e (used_entries ?e) d)" by (rule app_frame_upd [OF app_frame_refl])
    ultimately show ?thesis using d(2) uniq w(2)
      by (intro exI [of _ "upd_app a ?e (used_entries ?e) d"]) (simp add: nth_list_update)
  qed
qed

section \<open>Adding an entry\<close>

text \<open>The cases of \<open>AddEntry\<close> after its first tests, for a valid connection that is not cached.\<close>

lemma AddEntry_spec:
  assumes inv: "app_inv env a" "app_open env a"
    and alg: "\<not> isAlgPort a (protocol rule) (private_port rule)" "\<not> isAlgPort a (protocol rule) (target_port rule)"
    and rule: "\<not> invalid_conn rule" "protocol rule \<noteq> 0xFF" and dup: "\<forall>j<max_entries a. \<not> same_conn (cache a ! j) rule"
  obtains (full) "AddEntry env rule a = Some (-1, a)" "\<forall>j<max_entries a. \<not> blank_entry (cache a ! j)"
  | (refused) "AddEntry env rule a = Some (-1, a)" "\<not> isPwrSaveIf a (private_ip rule) \<and> \<not> isPwrSaveIf a (target_ip rule)"
      "rules_full (hd (ip4_tbl (drv a))) (nat_rule_of rule)"
  | (added) i e d b where "AddEntry env rule a = Some (0, b)" "b = upd_app a ((cache a)[i := e]) (curCnt a + 1) d"
      "app_inv env b" "i < max_entries a" "blank_entry (cache a ! i)" "\<forall>j<i. \<not> blank_entry (cache a ! j)"
      "conn_of e = conn_of rule" "nat_rule_of e = nat_rule_of rule"
      "enabled e = (\<not> isPwrSaveIf a (private_ip rule) \<and> \<not> isPwrSaveIf a (target_ip rule))"
      "enabled e \<Longrightarrow> drv_rules (drv a) (rule_hdl e) = None \<and> 0 < rule_hdl e \<and>
         (\<forall>h'. 0 < h' \<and> h' < rule_hdl e \<longrightarrow> drv_rules (drv a) h' \<noteq> None) \<and>
         drv_rules d = (drv_rules (drv a))(rule_hdl e \<mapsto> nat_rule_of rule)"
      "\<not> enabled e \<Longrightarrow> d = drv a"
proof -
  have w: "app_wf a" "length (cache a) = max_entries a" "entries_wf (cache a)" "curCnt a = used_entries (cache a)"
    using inv by (simp_all add: app_inv_def app_wf_def)
  have o: "nat_table_hdl a = 1" "drv_ok (drv_env env) (drv a)" "mirrors (max_entries a) (cache a) (drv_rules (drv a))"
    using inv(2) by (simp_all add: app_open_def)
  have nodup: "ChkForDup rule a = Some False"
    using find_entry_spec [OF w(2), of 0 "\<lambda>e. same_conn e rule"] dup by (auto simp: ChkForDup_def)
  let ?pwr = "isPwrSaveIf a (private_ip rule) \<or> isPwrSaveIf a (target_ip rule)"
  note start = AddEntry_def o(1) alg rule(1) nodup
  from find_entry_spec [OF w(2), of 0 blank_entry] show thesis
  proof (elim disjE exE conjE)
    assume "\<forall>j. 0 \<le> j \<longrightarrow> j < max_entries a \<longrightarrow> \<not> blank_entry (cache a ! j)" "find_entry blank_entry a 0 = Some None"
    then show thesis by (intro full) (simp_all add: start)
  next
    fix i assume i: "i < max_entries a" "blank_entry (cache a ! i)" "find_entry blank_entry a 0 = Some (Some i)"
      "\<forall>j. 0 \<le> j \<longrightarrow> j < i \<longrightarrow> \<not> blank_entry (cache a ! j)"
    have il: "i < length (cache a)" using i(1) w(2) by simp
    have off: "\<not> enabled (cache a ! i)" using wf_enabled [OF w(3) il] i(2) by blast
    have dup': "\<forall>j<length (cache a). \<not> same_conn (cache a ! j) e" if "conn_of e = conn_of rule" for e
      using dup w(2) that by (simp add: same_conn_iff)
    note fl = wf_fill [OF w(3) il i(2)]
    have fw: "entries_wf ((cache a)[i := e])" "used_entries ((cache a)[i := e]) = curCnt a + 1" if "conn_of e = conn_of rule" for e
      using fl [of e] dup' [OF that] conn_tests(2,5) [OF that] rule w(4) by auto
    show thesis
    proof (cases ?pwr)
      case True
      let ?e = "fill_entry rule ((cache a ! i)\<lparr>enabled := False, rule_hdl := 0\<rparr>)"
      have run: "AddEntry env rule a = Some (0, upd_app a ((cache a)[i := ?e]) (curCnt a + 1) (drv a))"
        using True i(3) il by (simp add: start put_entry_def)
      have m: "mirrors (max_entries a) ((cache a)[i := ?e]) (drv_rules (drv a))"
        by (rule mirrors_upd [OF o(3) il]) (use off in simp_all)
      have "app_inv env (upd_app a ((cache a)[i := ?e]) (curCnt a + 1) (drv a))"
        using inv_upd_open [OF w(1) fw(1) _ o(1,2) m] fw(2) [of ?e] w(2) by simp
      then show thesis using True i(4) by (intro added [OF run refl _ i(1,2)]) auto
    next
      case False
      have dp: "\<not> dead_proto (nat_rule_of rule)" using rule(2) by simp
      have at: "max_entries a = i \<or> i < max_entries a \<and> \<not> enabled (cache a ! i)" using i(1) off by simp
      show thesis
      proof (cases rule: hw_add_open [OF o il at dp])
        case 1
        then show thesis using False i(3) il by (intro refused) (auto simp: start)
      next
        case (2 h d)
        let ?e = "fill_entry rule ((cache a ! i)\<lparr>rule_hdl := h, enabled := True\<rparr>)"
        have run: "AddEntry env rule a = Some (0, upd_app a ((cache a)[i := ?e]) (curCnt a + 1) d)"
          using False i(3) il 2(1) by (simp add: start put_entry_def)
        have "max (max_entries a) (Suc i) = max_entries a" using i(1) by simp
        with 2(7) [of ?e] have m: "mirrors (max_entries a) ((cache a)[i := ?e]) (drv_rules d)" by simp
        have "app_inv env (upd_app a ((cache a)[i := ?e]) (curCnt a + 1) d)"
          using inv_upd_open [OF w(1) fw(1) _ o(1) 2(2) m] fw(2) [of ?e] w(2) by simp
        then show thesis using False i(4) 2(3-6) by (intro added [OF run refl _ i(1,2)]) auto
      qed
    qed
  qed
qed

text \<open>Whatever the arguments, the invariant is kept and nothing but the cache and the table changes.\<close>

lemma AddEntry_inv:
  assumes inv: "app_inv env a" and proto: "protocol rule \<noteq> 0xFF"
  shows "\<exists>r b. AddEntry env rule a = Some (r, b) \<and> app_inv env b \<and> app_frame a b"
proof -
  have w: "length (cache a) = max_entries a" using inv by (simp add: app_inv_def app_wf_def)
  consider "nat_table_hdl a = 0 \<or> isAlgPort a (protocol rule) (private_port rule) \<or> isAlgPort a (protocol rule) (target_port rule)
      \<or> invalid_conn rule"
    | "ChkForDup rule a = Some True"
    | "nat_table_hdl a \<noteq> 0" "\<not> isAlgPort a (protocol rule) (private_port rule)" "\<not> isAlgPort a (protocol rule) (target_port rule)"
      "\<not> invalid_conn rule" "\<forall>j<max_entries a. \<not> same_conn (cache a ! j) rule"
    using find_entry_spec [OF w, of 0 "\<lambda>e. same_conn e rule"] by (auto simp: ChkForDup_def)
  then show ?thesis
  proof cases
    case 3
    then have "app_open env a" using inv by (auto simp: app_inv_def app_closed_def)
    then show ?thesis
      by (cases rule: AddEntry_spec [OF inv _ 3(2-4) proto 3(5)])
        (use inv app_frame_refl app_frame_upd [OF app_frame_refl] in auto)
  qed (use inv app_frame_refl in \<open>auto simp: AddEntry_def\<close>)
qed

section \<open>Caching an entry\<close>

text \<open>\<open>CacheEntry\<close> is safe when its uninitialised counter starts inside the array.\<close>

lemma CacheEntry_inv:
  assumes inv: "app_inv env a" and proto: "protocol rule \<noteq> 0xFF" and cnt: "cnt \<le> max_entries a"
  shows "\<exists>b. CacheEntry cnt rule a = Some b \<and> app_inv env b \<and> app_frame a b \<and> drv b = drv a"
proof -
  have w: "app_wf a" "length (cache a) = max_entries a" "entries_wf (cache a)" "curCnt a = used_entries (cache a)"
    using inv by (simp_all add: app_inv_def app_wf_def)
  have same: ?thesis if "CacheEntry cnt rule a = Some a" using that inv app_frame_refl by blast
  show ?thesis
  proof (cases "invalid_conn rule \<or> ChkForDup rule a = Some True")
    case True
    then show ?thesis by (intro same) (auto simp: CacheEntry_def)
  next
    case False
    from find_entry_spec [OF w(2), of 0 "\<lambda>e. same_conn e rule"] False
    have nodup: "ChkForDup rule a = Some False" "\<forall>j<length (cache a). \<not> same_conn (cache a ! j) rule"
      by (auto simp: ChkForDup_def w(2))
    from find_entry_spec [OF w(2), of cnt blank_entry] show ?thesis
    proof (elim disjE exE conjE)
      assume "find_entry blank_entry a cnt = Some None"
      then show ?thesis using False nodup(1) cnt by (intro same) (simp add: CacheEntry_def max_def)
    next
      fix i assume i: "i < max_entries a" "blank_entry (cache a ! i)" "find_entry blank_entry a cnt = Some (Some i)"
      have il: "i < length (cache a)" using i(1) w(2) by simp
      let ?e = "(fill_entry rule (cache a ! i))\<lparr>enabled := False, rule_hdl := 0, public_ip := public_ip rule\<rparr>"
      have c: "conn_of ?e = conn_of rule" by simp
      have off: "\<not> enabled (cache a ! i)" using wf_enabled [OF w(3) il] i(2) by blast
      have fl: "entries_wf ((cache a)[i := ?e])" "used_entries ((cache a)[i := ?e]) = curCnt a + 1"
        using wf_fill [OF w(3) il i(2), of ?e] conn_tests(2,5) [OF c] False proto nodup(2) w(4)
        unfolding same_conn_iff c by auto
      have "CacheEntry cnt rule a = Some (upd_app a ((cache a)[i := ?e]) (used_entries ((cache a)[i := ?e])) (drv a))"
        using False nodup(1) i il fl(2) by (simp add: CacheEntry_def put_entry_def)
      moreover have "app_inv env (upd_app a ((cache a)[i := ?e]) (used_entries ((cache a)[i := ?e])) (drv a))"
      proof (cases "app_open env a")
        case True
        then have o: "nat_table_hdl a = 1" "drv_ok (drv_env env) (drv a)" "mirrors (max_entries a) (cache a) (drv_rules (drv a))"
          by (simp_all add: app_open_def)
        have "mirrors (max_entries a) ((cache a)[i := ?e]) (drv_rules (drv a))"
          by (rule mirrors_upd [OF o(3) il]) (use off in simp_all)
        then show ?thesis by (intro inv_upd_open [OF w(1) fl(1) _ o(1,2)]) (simp_all add: w(2))
      next
        case False
        then have "app_closed a" using inv by (simp add: app_inv_def)
        then show ?thesis by (intro inv_upd_closed [OF w(1) fl(1)]) (simp_all add: w(2))
      qed
      moreover have "app_frame a (upd_app a ((cache a)[i := ?e]) (used_entries ((cache a)[i := ?e])) (drv a))"
        by (rule app_frame_upd [OF app_frame_refl])
      ultimately show ?thesis by (intro exI conjI) (assumption | simp)+
    qed
  qed
qed

section \<open>The life of the table\<close>

text \<open>
  A new table for the address of the last one, or for any address when no entry claims to have a
  rule: the entries are put back, except those the driver refuses, which leave the cache.
\<close>

definition restored :: "nat_table_entry \<Rightarrow> nat_table_entry \<Rightarrow> bool" where
  "restored e e' \<longleftrightarrow> (if blank_entry e then e' = e
     else e' = zero_entry \<or> enabled e' \<and> conn_of e' = conn_of e \<and> nat_rule_of e' = nat_rule_of e)"

lemma restore_loop:
  assumes wf: "app_wf a" and o: "nat_table_hdl a = 1" "drv_ok (drv_env env) (drv a)" "drv_rules (drv a) = Map.empty"
  shows "\<exists>b. for_range (\<lambda>cnt a. do {
        e \<leftarrow> rd (cache a) cnt;
        if private_ip e \<noteq> 0 then readd_entry env cnt a else Some a }) (max_entries a) 0 a = Some b \<and>
      app_inv env b \<and> app_frame a b \<and> (\<forall>i<max_entries a. restored (cache a ! i) (cache b ! i))"
proof -
  let ?body = "\<lambda>cnt a. do { e \<leftarrow> rd (cache a) cnt; if private_ip e \<noteq> 0 then readd_entry env cnt a else Some a }"
  define I where "I i b \<longleftrightarrow> app_wf b \<and> app_frame a b \<and> drv_ok (drv_env env) (drv b) \<and> mirrors i (cache b) (drv_rules (drv b)) \<and>
    (\<forall>j<i. restored (cache a ! j) (cache b ! j)) \<and> (\<forall>j. i \<le> j \<longrightarrow> j < max_entries a \<longrightarrow> cache b ! j = cache a ! j)" for i b
  have "\<exists>b. for_range ?body (max_entries a) 0 a = Some b \<and> I (max_entries a) b"
  proof (rule for_range_inv)
    show "I 0 a" using wf o(2,3) by (simp add: I_def app_frame_refl mirrors_0)
    fix i b assume i: "i < max_entries a" and I: "I i b"
    then have b: "app_wf b" "app_frame a b" "drv_ok (drv_env env) (drv b)" "mirrors i (cache b) (drv_rules (drv b))"
      "cache b ! i = cache a ! i" by (simp_all add: I_def)
    note fr = app_frame_simps [OF b(2)]
    have w: "length (cache b) = max_entries b" "entries_wf (cache b)" using b(1) by (simp_all add: app_wf_def)
    have il: "i < length (cache b)" "i < max_entries b" using i w(1) fr(1) by simp_all
    show "\<exists>s'. ?body i b = Some s' \<and> I (Suc i) s'"
    proof (cases "blank_entry (cache b ! i)")
      case True
      have "\<not> enabled (cache b ! i)" using wf_enabled [OF w(2) il(1)] True by blast
      from mirrors_Suc [OF b(4) this] have "I (Suc i) b"
        using I b True by (auto simp: I_def less_Suc_eq restored_def)
      moreover have "?body i b = Some b" using il(1) wf_private [OF w(2) il(1)] True by simp
      ultimately show ?thesis by blast
    next
      case False
      have h1: "nat_table_hdl b = 1" using fr(4) o(1) by simp
      obtain e d where e: "readd_entry env i b = Some (upd_app b ((cache b)[i := e]) (used_entries ((cache b)[i := e])) d)"
        "app_wf (upd_app b ((cache b)[i := e]) (used_entries ((cache b)[i := e])) d)" "drv_ok (drv_env env) d"
        "mirrors (max i (Suc i)) ((cache b)[i := e]) (drv_rules d)"
        "e = zero_entry \<or> enabled e \<and> conn_of e = conn_of (cache b ! i) \<and> nat_rule_of e = nat_rule_of (cache b ! i)"
        by (rule readd_open [OF b(1) h1 b(3,4) il(2) False]) simp
      have "max i (Suc i) = Suc i" by simp
      moreover have "restored (cache a ! i) e" using e(5) False b(5) by (simp add: restored_def)
      ultimately have "I (Suc i) (upd_app b ((cache b)[i := e]) (used_entries ((cache b)[i := e])) d)"
        using I e(2-4) app_frame_upd [OF b(2)] i w(1) fr(1) by (auto simp: I_def nth_list_update less_Suc_eq)
      moreover have "?body i b = readd_entry env i b" using il(1) wf_private [OF w(2) il(1)] False by simp
      ultimately show ?thesis using e(1) by auto
    qed
  qed simp
  then obtain b where b: "for_range ?body (max_entries a) 0 a = Some b" "I (max_entries a) b" by blast
  note fr = app_frame_simps [of a b]
  have "app_frame a b" "app_wf b" using b(2) by (simp_all add: I_def)
  moreover from fr [OF this(1)] have "app_open env b" using b(2) o(1) by (simp add: app_open_def I_def)
  ultimately show ?thesis using b by (intro exI [of _ b]) (simp add: app_inv_def I_def)
qed

lemma new_table:
  assumes "app_closed a" "os_ok env" "0 < max_entries a" "max_entries a \<le> 20480"
  obtains d where "ipa_nat_add_ipv4_tbl (drv_env env) pub_ip (max_entries a) False (drv a) = Some (0, Some 1, d)"
    "drv_ok (drv_env env) d" "drv_rules d = Map.empty" "\<And>r. \<not> rules_full (hd (ip4_tbl d)) r"
proof -
  have fresh: "fresh_cache (drv a)" using assms(1) by (simp add: app_closed_def)
  have env: "env_ok (drv_env env)" "kernel_ok (drv_env env)" using assms(2) by (simp_all add: os_ok_def)
  obtain t d where d: "ipa_nati_add_ipv4_tbl (drv_env env) pub_ip (max_entries a) (drv a) = Some (0, 1, d)"
    "ip4_tbl d = [t]" "table_cnt d = 1" "tbl_inv t" "rules_of t = Map.empty" "\<And>r. \<not> rules_full t r"
    by (rule add_tbl_spec [OF env(2) assms(4) fresh]) (rule that)
  show thesis
  proof (rule that)
    show "ipa_nat_add_ipv4_tbl (drv_env env) pub_ip (max_entries a) False (drv a) = Some (0, Some 1, d)"
      using d(1) assms(3) by (simp add: ipa_nat_add_ipv4_tbl_def)
  qed (use d env(1) in \<open>simp_all add: drv_ok_def drv_rules_def\<close>)
qed

lemma AddTable_spec:
  assumes inv: "app_inv env a" "app_closed a" and os: "os_ok env" and n: "0 < max_entries a" "max_entries a \<le> 20480"
    and addr: "pub_ip = pub_ip_addr_pre a \<or> (\<forall>e\<in>set (cache a). \<not> enabled e)"
  shows "\<exists>b. AddTable env pub_ip a = Some (0, b) \<and> app_inv env b \<and>
    app_frame (a\<lparr>nat_table_hdl := 1, pub_ip_addr := pub_ip\<rparr>) b \<and>
    (\<forall>i<max_entries a. if pub_ip = pub_ip_addr_pre a then restored (cache a ! i) (cache b ! i) else cache b ! i = cache a ! i)"
proof -
  obtain d where api: "ipa_nat_add_ipv4_tbl (drv_env env) pub_ip (max_entries a) False (drv a) = Some (0, Some 1, d)"
    and ok: "drv_ok (drv_env env) d" "drv_rules d = Map.empty"
    by (rule new_table [OF inv(2) os n]) (rule that)
  let ?a = "a\<lparr>drv := d, nat_table_hdl := 1\<rparr>"
  have wf: "app_wf ?a" using inv(1) by (simp add: app_inv_def app_wf_def)
  have set_ip: "app_inv env (b\<lparr>pub_ip_addr := pub_ip\<rparr>) \<and> app_frame (a\<lparr>nat_table_hdl := 1, pub_ip_addr := pub_ip\<rparr>) (b\<lparr>pub_ip_addr := pub_ip\<rparr>)"
    if "app_inv env b" "app_frame ?a b" for b
  proof -
    from that(2) obtain es m d' where "b = upd_app ?a es m d'" unfolding app_frame_def by blast
    then show ?thesis using that(1) by (simp add: app_inv_def app_wf_def app_open_def app_closed_def app_frame_def)
  qed
  show ?thesis
  proof (cases "pub_ip = pub_ip_addr_pre a")
    case True
    from restore_loop [OF wf, of env] ok obtain b where b: "for_range (\<lambda>cnt a. do {
        e \<leftarrow> rd (cache a) cnt;
        if private_ip e \<noteq> 0 then readd_entry env cnt a else Some a }) (max_entries a) 0 ?a = Some b"
      "app_inv env b" "app_frame ?a b" "\<forall>i<max_entries a. restored (cache a ! i) (cache b ! i)" by auto
    show ?thesis
      by (rule exI [of _ "b\<lparr>pub_ip_addr := pub_ip\<rparr>"])
        (use set_ip [OF b(2,3)] b(1,4) True api in \<open>simp add: AddTable_def\<close>)
  next
    case False
    with addr have off: "\<forall>i<max_entries a. \<not> enabled (cache a ! i)" using wf by (auto simp: app_wf_def)
    have "app_inv env ?a" using wf ok mirrors_none [OF off] by (simp add: app_inv_def app_open_def)
    from set_ip [OF this app_frame_refl] show ?thesis
      by (intro exI [of _ "?a\<lparr>pub_ip_addr := pub_ip\<rparr>"]) (use False api in \<open>simp add: AddTable_def\<close>)
  qed
qed

text \<open>Deleting the table keeps the cache, flags included.\<close>

lemma Reset_loop:
  assumes "length (cache a) = max_entries a"
  shows "NatApp_Reset a = Some (a\<lparr>nat_table_hdl := 0, pub_ip_addr := 0\<rparr>)"
proof -
  let ?a = "a\<lparr>nat_table_hdl := 0, pub_ip_addr := 0\<rparr>"
  have "\<exists>b. for_range (\<lambda>cnt a. do { e \<leftarrow> rd (cache a) cnt; Some a }) (max_entries a) 0 ?a = Some b \<and> b = ?a"
    by (rule for_range_inv [where I = "\<lambda>i b. b = ?a"]) (use assms in auto)
  then show ?thesis by (simp add: NatApp_Reset_def)
qed

lemma DeleteTable_spec:
  assumes inv: "app_inv env a" "app_open env a" and os: "os_ok env" and ip: "pub_ip_addr a = pub_ip"
  shows "\<exists>d. DeleteTable env pub_ip a =
      Some (0, a\<lparr>drv := d, pub_ip_addr_pre := pub_ip, nat_table_hdl := 0, pub_ip_addr := 0\<rparr>) \<and>
    app_inv env (a\<lparr>drv := d, pub_ip_addr_pre := pub_ip, nat_table_hdl := 0, pub_ip_addr := 0\<rparr>) \<and> fresh_cache d"
proof -
  have o: "nat_table_hdl a = 1" "drv_ok (drv_env env) (drv a)" using inv(2) by (simp_all add: app_open_def)
  have w: "app_wf a" "length (cache a) = max_entries a" using inv(1) by (simp_all add: app_inv_def app_wf_def)
  obtain t where t: "ip4_tbl (drv a) = [t]" "tbl_inv t" "table_cnt (drv a) = 1" using o(2) by (auto simp: drv_ok_def)
  from t(2) obtain m meta ids C D where tp: "tbl_parts t m meta ids C D" by (auto simp: tbl_inv_def)
  have v: "valid t" using tp_state [OF tp] by simp
  let ?d = "(put_tbl (put_tbl (drv a) 0 (t\<lparr>tbl_mem := None\<rparr>)) 0 zero_table_cache)\<lparr>table_cnt := 0\<rparr>"
  have del: "ipa_nat_del_ipv4_tbl (drv_env env) 1 (drv a) = Some (0, ?d)"
    using os t v by (simp add: os_ok_def ipa_nat_del_ipv4_tbl_def ipa_nati_del_ipv4_table_def hdl_index_def put_tbl_def Let_def)
  have fr: "fresh_cache ?d" using t(1) by (simp add: fresh_cache_def put_tbl_def)
  let ?b = "a\<lparr>drv := ?d, pub_ip_addr_pre := pub_ip, nat_table_hdl := 0, pub_ip_addr := 0\<rparr>"
  have "DeleteTable env pub_ip a = Some (0, ?b)"
    using del o(1) ip w(2) by (simp add: DeleteTable_def Reset_loop)
  moreover have "app_inv env ?b" using w(1) fr by (simp add: app_inv_def app_wf_def app_closed_def)
  ultimately show ?thesis using fr by blast
qed

section \<open>Temporary entries\<close>

lemma find_temp_total:
  assumes "app_wf a"
  shows "find_temp p a = Some None \<or> (\<exists>i<MAX_TEMP_ENTRIES. find_temp p a = Some (Some i) \<and> p (temp a ! i))"
proof -
  have len: "length (temp a) = 25" using assms by (simp add: app_wf_def)
  have s: "find_temp p a = Some (if \<exists>i<25. p (temp a ! i) then Some (LEAST i. p (temp a ! i)) else None)"
    unfolding find_temp_def by (rule scan_list) (simp add: len)
  show ?thesis
  proof (cases "\<exists>i<25. p (temp a ! i)")
    case True
    then obtain i where i: "i < 25" "p (temp a ! i)" by blast
    have "(LEAST i. p (temp a ! i)) \<le> i" "p (temp a ! (LEAST i. p (temp a ! i)))"
      using Least_le [of "\<lambda>i. p (temp a ! i)", OF i(2)] LeastI [of "\<lambda>i. p (temp a ! i)", OF i(2)] .
    then show ?thesis using True s i(1) by auto
  next
    case False
    then show ?thesis using s by (simp only: if_False simp_thms)
  qed
qed

lemma inv_temp:
  assumes "app_inv env a" "protocol e \<noteq> 0xFF" "i < MAX_TEMP_ENTRIES"
  shows "put_temp i e a = Some (a\<lparr>temp := (temp a)[i := e]\<rparr>)" "app_inv env (a\<lparr>temp := (temp a)[i := e]\<rparr>)"
  using assms
  by (auto simp: put_temp_def app_inv_def app_wf_def app_open_def app_closed_def dest: set_update_subset_insert [THEN subsetD])

lemma ChkForDup_total:
  assumes "length (cache a) = max_entries a"
  shows "\<exists>b. ChkForDup rule a = Some b"
  using find_entry_spec [OF assms, of 0 "\<lambda>e. same_conn e rule"] by (auto simp: ChkForDup_def)

lemma AddTempEntry_inv:
  assumes inv: "app_inv env a" and proto: "protocol rule \<noteq> 0xFF"
  shows "\<exists>xs. AddTempEntry rule a = Some (a\<lparr>temp := xs\<rparr>) \<and> app_inv env (a\<lparr>temp := xs\<rparr>)"
proof -
  have wf: "app_wf a" "length (cache a) = max_entries a" using inv by (simp_all add: app_inv_def app_wf_def)
  obtain dup where dup: "ChkForDup rule a = Some dup" using ChkForDup_total [OF wf(2)] by blast
  obtain k where k: "find_temp (\<lambda>e. same_conn e rule) a = Some k" using find_temp_total [OF wf(1)] by blast
  have same: "a = a\<lparr>temp := temp a\<rparr>" by simp
  from find_temp_total [OF wf(1), of "\<lambda>e. private_ip e = 0 \<and> target_ip e = 0"] show ?thesis
  proof (elim disjE exE conjE)
    assume "find_temp (\<lambda>e. private_ip e = 0 \<and> target_ip e = 0) a = Some None"
    then have "AddTempEntry rule a = Some a" using dup k by (auto simp: AddTempEntry_def)
    then show ?thesis using inv same by metis
  next
    fix i assume i: "i < 25" "find_temp (\<lambda>e. private_ip e = 0 \<and> target_ip e = 0) a = Some (Some i)"
    have "AddTempEntry rule a = Some a \<or> AddTempEntry rule a = put_temp i rule a"
      using dup k i(2) by (auto simp: AddTempEntry_def)
    then show ?thesis using inv same inv_temp [OF inv proto i(1)] by metis
  qed
qed

lemma DeleteTempEntry_inv:
  assumes inv: "app_inv env a"
  shows "\<exists>xs. DeleteTempEntry rule a = Some (a\<lparr>temp := xs\<rparr>) \<and> app_inv env (a\<lparr>temp := xs\<rparr>)"
proof -
  have wf: "app_wf a" using inv by (simp add: app_inv_def)
  have same: "a = a\<lparr>temp := temp a\<rparr>" by simp
  have z: "protocol zero_entry \<noteq> 0xFF" by (simp add: zero_entry_def)
  from find_temp_total [OF wf, of "\<lambda>e. same_conn e rule"] show ?thesis
  proof (elim disjE exE conjE)
    assume "find_temp (\<lambda>e. same_conn e rule) a = Some None"
    then have "DeleteTempEntry rule a = Some a" by (simp add: DeleteTempEntry_def)
    then show ?thesis using inv same by metis
  next
    fix i assume i: "i < 25" "find_temp (\<lambda>e. same_conn e rule) a = Some (Some i)"
    then show ?thesis using inv_temp [OF inv z i(1)] by (auto simp: DeleteTempEntry_def)
  qed
qed

text \<open>What a flush keeps besides the invariant.\<close>

definition same_table :: "natapp \<Rightarrow> natapp \<Rightarrow> bool" where
  "same_table a b \<longleftrightarrow> max_entries b = max_entries a \<and> nat_table_hdl b = nat_table_hdl a \<and> PwrSaveIfs b = PwrSaveIfs a \<and>
     pub_ip_addr b = pub_ip_addr a \<and> pub_ip_addr_pre b = pub_ip_addr_pre a \<and> pALGPorts b = pALGPorts a"

lemma same_table_refl [simp]: "same_table a a"
  by (simp add: same_table_def)

lemma same_table_trans: "same_table a b \<Longrightarrow> same_table b c \<Longrightarrow> same_table a c"
  by (simp add: same_table_def)

lemma frame_same_table: "app_frame a b \<Longrightarrow> same_table a b"
  using app_frame_simps [of a b] by (simp add: same_table_def)

lemma FlushTempEntries_inv:
  assumes inv: "app_inv env a"
  shows "\<exists>b. FlushTempEntries env ip isAdd a = Some b \<and> app_inv env b \<and> same_table a b"
proof -
  let ?I = "\<lambda>(i::nat) b. app_inv env b \<and> same_table a b"
  have z: "protocol zero_entry \<noteq> 0xFF" by (simp add: zero_entry_def)
  show ?thesis
    unfolding FlushTempEntries_def
  proof (rule for_range_inv [where I = ?I])
    fix i b assume i: "i < 25" and I: "?I i b"
    have len: "length (temp b) = 25" "\<forall>t\<in>set (temp b). protocol t \<noteq> 0xFF" using I by (simp_all add: app_inv_def app_wf_def)
    have pr: "protocol (temp b ! i) \<noteq> 0xFF" using len i by simp
    obtain r c where c: "(if isAdd \<and> public_ip (temp b ! i) = pub_ip_addr b then AddEntry env (temp b ! i) b else Some (0, b)) = Some (r, c)"
      "app_inv env c" "same_table b c"
      using AddEntry_inv [of env b, OF _ pr] I frame_same_table same_table_refl by (cases "isAdd \<and> public_ip (temp b ! i) = pub_ip_addr b") auto
    have st: "same_table a c" using I c(3) same_table_trans by blast
    show "\<exists>s'. (do {
         t \<leftarrow> rd (temp b) i;
         if private_ip t = ip \<or> target_ip t = ip
         then do {
           (ret, a) \<leftarrow> (if isAdd \<and> public_ip t = pub_ip_addr b then AddEntry env t b else Some (0, b));
           if ret \<noteq> 0 then Some a else put_temp i zero_entry a
         }
         else Some b }) = Some s' \<and> ?I (Suc i) s'"
    proof (cases "private_ip (temp b ! i) = ip \<or> target_ip (temp b ! i) = ip")
      case True
      have "same_table a (c\<lparr>temp := xs\<rparr>)" for xs using st by (simp add: same_table_def)
      then show ?thesis using True i len(1) c st inv_temp [OF c(2) z i] by (cases "r = 0") simp_all
    qed (use I i len(1) in simp)
  qed (use inv in simp_all)
qed

section \<open>Time stamps\<close>

lemma inv_ct:
  assumes "app_inv env a"
  shows "app_inv env (a\<lparr>ct_hdl := x\<rparr>)" "app_inv env (a\<lparr>ct := y\<rparr>)" "app_inv env (a\<lparr>ct_updates := us\<rparr>)"
    "app_inv env (a\<lparr>tcp_timeout := u\<rparr>)" "app_inv env (a\<lparr>udp_timeout := u\<rparr>)"
  using assms by (simp_all add: app_inv_def app_wf_def app_open_def app_closed_def)

lemma Read_TcpUdp_Timeout_inv:
  assumes "app_inv env a"
  shows "app_inv env (Read_TcpUdp_Timeout e a)" "same_table a (Read_TcpUdp_Timeout e a)" "cache (Read_TcpUdp_Timeout e a) = cache a"
  using assms inv_ct(4,5)
  by (auto simp: Read_TcpUdp_Timeout_def same_table_def Let_def split: option.splits)

text \<open>An entry keeps its connection, or it is cleared because connection tracking does not know it.\<close>

definition touched :: "nat_table_entry \<Rightarrow> nat_table_entry \<Rightarrow> bool" where
  "touched e e' \<longleftrightarrow> e' = zero_entry \<or> (\<exists>ts. e' = e\<lparr>timestamp := ts\<rparr>)"

lemma touched_refl: "touched e e"
  unfolding touched_def by (rule disjI2, rule exI [of _ "timestamp e"]) simp

lemma touched_ts: "touched e (e\<lparr>timestamp := ts\<rparr>)" and touched_zero: "touched e zero_entry"
  by (auto simp: touched_def)

lemma stamp_inv:
  assumes inv: "app_inv env a" and i: "i < max_entries a"
  shows "put_entry i ((cache a ! i)\<lparr>timestamp := ts\<rparr>) a = Some (a\<lparr>cache := (cache a)[i := (cache a ! i)\<lparr>timestamp := ts\<rparr>]\<rparr>)"
    "app_inv env (a\<lparr>cache := (cache a)[i := (cache a ! i)\<lparr>timestamp := ts\<rparr>]\<rparr>)"
proof -
  let ?es = "(cache a)[i := (cache a ! i)\<lparr>timestamp := ts\<rparr>]"
  have w: "app_wf a" "length (cache a) = max_entries a" "entries_wf (cache a)" using inv by (simp_all add: app_inv_def app_wf_def)
  have il: "i < length (cache a)" using i w(2) by simp
  then show "put_entry i ((cache a ! i)\<lparr>timestamp := ts\<rparr>) a = Some (a\<lparr>cache := ?es\<rparr>)" by (simp add: put_entry_def)
  have e: "entries_wf ?es" "used_entries ?es = used_entries (cache a)"
    using wf_same [OF w(3) il, of "(cache a ! i)\<lparr>timestamp := ts\<rparr>"] wf_enabled [OF w(3) il] by auto
  have "mirrors k ?es R" if "mirrors k (cache a) R" for k R by (rule mirrors_upd [OF that il]) simp_all
  then show "app_inv env (a\<lparr>cache := ?es\<rparr>)"
    using inv e w(2) by (auto simp: app_inv_def app_wf_def app_open_def app_closed_def)
qed

lemma UpdateCTUdpTs_inv:
  assumes inv: "app_inv env a" and i: "i < max_entries a" "enabled (cache a ! i)"
  shows "\<exists>b. UpdateCTUdpTs env i ts a = Some b \<and> app_inv env b \<and> same_table a b \<and> touched (cache a ! i) (cache b ! i) \<and>
    (\<forall>j<max_entries a. j \<noteq> i \<longrightarrow> cache b ! j = cache a ! j)"
proof -
  let ?u = "ct_update_of a (cache a ! i)"
  let ?a = "a\<lparr>ct_hdl := True, ct := True, ct_updates := ct_updates a @ [?u]\<rparr>"
  have w: "length (cache a) = max_entries a" "entries_wf (cache a)" using inv by (simp_all add: app_inv_def app_wf_def)
  have il: "i < length (cache a)" using i w by simp
  have st: "same_table a (a\<lparr>ct_hdl := True\<rparr>)" "same_table a ?a" by (simp_all add: same_table_def)
  have u: "ct_update_of (a\<lparr>ct_hdl := True, ct := True\<rparr>) (cache a ! i) = ?u" by (simp add: ct_update_of_def)
  have ai: "app_inv env ?a" using inv_ct(1-3) inv by metis
  consider "\<not> ct_hdl a \<and> \<not> nfct_open_ok env" | "ct_hdl a \<or> nfct_open_ok env" "\<not> ct a \<and> \<not> nfct_new_ok env"
    | (known) "ct_hdl a \<or> nfct_open_ok env" "ct a \<or> nfct_new_ok env" "nfct_query env ?u \<noteq> -1"
    | (gone) "ct_hdl a \<or> nfct_open_ok env" "ct a \<or> nfct_new_ok env" "nfct_query env ?u = -1" by blast
  then show ?thesis
  proof cases
    case 1
    then have "UpdateCTUdpTs env i ts a = Some a" by (simp add: UpdateCTUdpTs_def)
    then show ?thesis using inv touched_refl by auto
  next
    case 2
    then have "UpdateCTUdpTs env i ts a = Some (a\<lparr>ct_hdl := True\<rparr>)" by (auto simp: UpdateCTUdpTs_def)
    then show ?thesis using inv_ct(1) [OF inv] st(1) touched_refl by auto
  next
    case known
    note s = stamp_inv [OF ai, of i ts]
    have "UpdateCTUdpTs env i ts a = put_entry i ((cache ?a ! i)\<lparr>timestamp := ts\<rparr>) ?a"
      using known il u by (auto simp: UpdateCTUdpTs_def Let_def)
    then have "UpdateCTUdpTs env i ts a = Some (?a\<lparr>cache := (cache ?a)[i := (cache ?a ! i)\<lparr>timestamp := ts\<rparr>]\<rparr>)"
      using s(1) i by simp
    moreover have "same_table a (?a\<lparr>cache := es\<rparr>)" for es by (simp add: same_table_def)
    ultimately show ?thesis using s(2) i il touched_ts by auto
  next
    case gone
    have nb: "\<not> blank_entry (cache ?a ! i)" using wf_enabled [OF w(2) il i(2)] by simp
    from DeleteEntry_spec [OF ai nb] obtain b where b: "DeleteEntry env (cache a ! i) ?a = Some (0, b)" "app_inv env b" "app_frame ?a b"
      "\<forall>j<max_entries a. cache b ! j = (if same_conn (cache a ! j) (cache a ! i) then zero_entry else cache a ! j)" by auto
    have "UpdateCTUdpTs env i ts a = Some b"
      using gone il u b(1) by (auto simp: UpdateCTUdpTs_def Let_def)
    moreover have "cache b ! j = cache a ! j" if "j < max_entries a" "j \<noteq> i" for j
      using b(4) that same_unique [OF w(2) il _ nb [simplified], of j] w(1) by (auto simp: same_conn_iff)
    moreover have "cache b ! i = zero_entry" using b(4) i(1) by (simp add: same_conn_iff)
    ultimately show ?thesis using b(2) same_table_trans [OF st(2) frame_same_table [OF b(3)]] touched_zero by auto
  qed
qed

lemma query_in_app:
  assumes inv: "app_inv env a" and i: "i < max_entries a" "enabled (cache a ! i)"
  shows "\<exists>ret ts. ipa_nat_query_timestamp (nat_table_hdl a) (rule_hdl (cache a ! i)) False (drv a) = Some (ret, ts)"
proof (cases "app_open env a")
  case False
  then have "nat_table_hdl a = 0" using inv by (simp add: app_inv_def app_closed_def)
  then show ?thesis by (simp add: ipa_nat_query_timestamp_def)
next
  case True
  then have o: "nat_table_hdl a = 1" "drv_ok (drv_env env) (drv a)" "mirrors (max_entries a) (cache a) (drv_rules (drv a))"
    by (simp_all add: app_open_def)
  obtain t where t: "ip4_tbl (drv a) = [t]" "tbl_inv t" using o(2) by (auto simp: drv_ok_def)
  have r: "rules_of t (rule_hdl (cache a ! i)) = Some (nat_rule_of (cache a ! i))"
    using mirrors_rule [OF o(3) i] t(1) by (simp add: drv_rules_def)
  obtain m n where "ipa_nat_query_timestamp 1 (rule_hdl (cache a ! i)) False (drv a) =
      Some (0, Some (hw_ts_proto (rule_at m n) AND 0x00FFFFFF))" by (rule query_timestamp_spec [OF t(2,1) r])
  then show ?thesis unfolding o(1) by blast
qed

lemma UpdateUDPTimeStamp_inv:
  assumes inv: "app_inv env a"
  shows "\<exists>b. UpdateUDPTimeStamp env a = Some b \<and> app_inv env b \<and> same_table a b \<and>
    (\<forall>i<max_entries a. if enabled (cache a ! i) then touched (cache a ! i) (cache b ! i) else cache b ! i = cache a ! i)"
proof -
  define P where "P e e' \<longleftrightarrow> (if enabled e then touched e e' else e' = e)" for e e'
  define I where "I i s \<longleftrightarrow> (case s of (_ :: bool, b) \<Rightarrow> app_inv env b \<and> same_table a b \<and>
    (\<forall>j<i. P (cache a ! j) (cache b ! j)) \<and> (\<forall>j. i \<le> j \<longrightarrow> j < max_entries a \<longrightarrow> cache b ! j = cache a ! j))" for i s
  let ?body = "\<lambda>cnt (read_to, a). do {
          e \<leftarrow> rd (cache a) cnt;
          if enabled e
          then do {
            (ret, ts) \<leftarrow> ipa_nat_query_timestamp (nat_table_hdl a) (rule_hdl e) False (drv a);
            if ret < 0 then Some (read_to, a)
            else let ts = (case ts of None \<Rightarrow> 0 | Some ts \<Rightarrow> ts) in
            if timestamp e = ts then Some (read_to, a)
            else do {
              a \<leftarrow> UpdateCTUdpTs env cnt ts (if read_to then a else Read_TcpUdp_Timeout env a);
              Some (True, a)
            }
          }
          else Some (read_to, a) }"
  have "\<exists>s. for_range ?body (max_entries a) 0 (False, a) = Some s \<and> I (max_entries a) s"
  proof (rule for_range_inv)
    show "I 0 (False, a)" using inv by (simp add: I_def)
    fix i s assume i: "i < max_entries a" and "I i s"
    obtain rt b where s: "s = (rt, b)" by (cases s)
    with \<open>I i s\<close> have I: "I i (rt, b)" by simp
    then have b: "app_inv env b" "same_table a b" "cache b ! i = cache a ! i" using i by (simp_all add: I_def)
    have mx: "max_entries b = max_entries a" using b(2) by (simp add: same_table_def)
    have il: "i < length (cache b)" "i < max_entries b" using b(1) i mx by (simp_all add: app_inv_def app_wf_def)
    have skip: "I (Suc i) (x, b)" for x using I i b(3) touched_refl by (auto simp: I_def P_def less_Suc_eq)
    show "\<exists>s'. ?body i s = Some s' \<and> I (Suc i) s'"
    proof (cases "enabled (cache b ! i)")
      case False
      then show ?thesis using skip il(1) s by auto
    next
      case True
      obtain ret ts where q: "ipa_nat_query_timestamp (nat_table_hdl b) (rule_hdl (cache b ! i)) False (drv b) = Some (ret, ts)"
        using query_in_app [OF b(1) il(2) True] by blast
      let ?ts = "case ts of None \<Rightarrow> 0 | Some ts \<Rightarrow> ts"
      let ?b = "if rt then b else Read_TcpUdp_Timeout env b"
      have rb: "app_inv env ?b" "same_table b ?b" "cache ?b = cache b" using b(1) Read_TcpUdp_Timeout_inv [OF b(1), of env] by auto
      have "i < max_entries ?b" "enabled (cache ?b ! i)" using il(2) rb(2,3) True by (simp_all add: same_table_def)
      from UpdateCTUdpTs_inv [OF rb(1) this, of ?ts] obtain c where c: "UpdateCTUdpTs env i ?ts ?b = Some c" "app_inv env c" "same_table ?b c"
        "touched (cache b ! i) (cache c ! i)" "\<forall>j<max_entries ?b. j \<noteq> i \<longrightarrow> cache c ! j = cache b ! j" unfolding rb(3) by blast
      have "same_table a c" using same_table_trans [OF b(2) same_table_trans [OF rb(2) c(3)]] .
      moreover have "max_entries ?b = max_entries a" using rb(2) mx by (simp add: same_table_def)
      ultimately have "I (Suc i) (True, c)"
        using I c(2,4,5) b(3) True i by (auto simp: I_def P_def less_Suc_eq)
      then show ?thesis using skip il(1) s q True c(1) by (cases "ret < 0 \<or> timestamp (cache b ! i) = ?ts") (auto simp: Let_def)
    qed
  qed simp
  then show ?thesis by (auto simp: UpdateUDPTimeStamp_def I_def P_def)
qed

section \<open>Any sequence of calls\<close>

text \<open>
  The calls the connection tracking listener makes, in any order. \<open>allowed\<close> is its discipline: no
  second table, no connection of protocol 255, no empty rule to delete; and a new table when an
  entry still claims a rule only for the address of the last table.
\<close>

datatype app_call =
    ADD_TABLE u32
  | DELETE_TABLE u32
  | ADD_ENTRY nat_table_entry
  | DELETE_ENTRY nat_table_entry
  | CACHE_ENTRY nat nat_table_entry
  | CLIENT_SLEEPS u32
  | CLIENT_WAKES u32
  | CLIENT_LEFT u32
  | STA_CLIENT_LEFT u32
  | ADD_TEMP nat_table_entry
  | DELETE_TEMP nat_table_entry
  | FLUSH_TEMP u32 bool
  | UPDATE_STAMPS

fun app_run :: "app_env \<Rightarrow> app_call \<Rightarrow> natapp \<Rightarrow> natapp option" where
  "app_run env (ADD_TABLE ip) a = map_option snd (AddTable env ip a)"
| "app_run env (DELETE_TABLE ip) a = map_option snd (DeleteTable env ip a)"
| "app_run env (ADD_ENTRY r) a = map_option snd (AddEntry env r a)"
| "app_run env (DELETE_ENTRY r) a = map_option snd (DeleteEntry env r a)"
| "app_run env (CACHE_ENTRY cnt r) a = CacheEntry cnt r a"
| "app_run env (CLIENT_SLEEPS ip) a = map_option snd (UpdatePwrSaveIf env ip a)"
| "app_run env (CLIENT_WAKES ip) a = map_option snd (ResetPwrSaveIf env ip a)"
| "app_run env (CLIENT_LEFT ip) a = map_option snd (DelEntriesOnClntDiscon env ip a)"
| "app_run env (STA_CLIENT_LEFT ip) a = map_option snd (DelEntriesOnSTAClntDiscon env ip a)"
| "app_run env (ADD_TEMP r) a = AddTempEntry r a"
| "app_run env (DELETE_TEMP r) a = DeleteTempEntry r a"
| "app_run env (FLUSH_TEMP ip isAdd) a = FlushTempEntries env ip isAdd a"
| "app_run env UPDATE_STAMPS a = UpdateUDPTimeStamp env a"

fun allowed :: "natapp \<Rightarrow> app_call \<Rightarrow> bool" where
  "allowed a (ADD_TABLE ip) \<longleftrightarrow> nat_table_hdl a = 0 \<and> (ip = pub_ip_addr_pre a \<or> (\<forall>e\<in>set (cache a). \<not> enabled e))"
| "allowed a (ADD_ENTRY r) \<longleftrightarrow> protocol r \<noteq> 0xFF"
| "allowed a (DELETE_ENTRY r) \<longleftrightarrow> \<not> blank_entry r"
| "allowed a (CACHE_ENTRY cnt r) \<longleftrightarrow> protocol r \<noteq> 0xFF \<and> cnt \<le> max_entries a"
| "allowed a (ADD_TEMP r) \<longleftrightarrow> protocol r \<noteq> 0xFF"
| "allowed a c \<longleftrightarrow> True"

lemma DeleteTable_inv:
  assumes inv: "app_inv env a" and os: "os_ok env"
  shows "\<exists>r b. DeleteTable env ip a = Some (r, b) \<and> app_inv env b \<and> max_entries b = max_entries a"
proof (cases "nat_table_hdl a \<noteq> 0 \<and> pub_ip_addr a = ip")
  case True
  then have "app_open env a" using inv by (auto simp: app_inv_def app_closed_def)
  from DeleteTable_spec [OF inv this os, of ip] True show ?thesis by auto
next
  case False
  then have "DeleteTable env ip a = Some (-1, a)" by (auto simp: DeleteTable_def)
  then show ?thesis using inv by blast
qed

lemma UpdatePwrSaveIf_inv:
  assumes "app_inv env a"
  shows "\<exists>r b. UpdatePwrSaveIf env ip a = Some (r, b) \<and> app_inv env b \<and> max_entries b = max_entries a"
proof -
  have len: "length (PwrSaveIfs a) = 32" using assms by (simp add: app_inv_def app_wf_def)
  consider "ip = 0" | "ip \<noteq> 0" "ip \<in> set (PwrSaveIfs a)" | "ip \<noteq> 0" "ip \<notin> set (PwrSaveIfs a)" by blast
  then show ?thesis
  proof cases
    case 1
    then show ?thesis using assms by (simp add: UpdatePwrSaveIf_def)
  next
    case 2
    then have "\<exists>i<32. PwrSaveIfs a ! i = ip" using len by (auto simp: in_set_conv_nth)
    then have "UpdatePwrSaveIf env ip a = Some (0, a)" using 2(1) len by (simp add: UpdatePwrSaveIf_def scan_list)
    then show ?thesis using assms by blast
  next
    case 3
    then show ?thesis using UpdatePwrSaveIf_spec [OF assms 3] app_frame_simps(1) by fastforce
  qed
qed

lemma discon_inv:
  assumes inv: "app_inv env a"
  shows "\<exists>r b. DelEntriesOnClntDiscon env ip a = Some (r, b) \<and> app_inv env b \<and> max_entries b = max_entries a"
    "\<exists>r b. DelEntriesOnSTAClntDiscon env ip a = Some (r, b) \<and> app_inv env b \<and> max_entries b = max_entries a"
    "\<exists>r b. ResetPwrSaveIf env ip a = Some (r, b) \<and> app_inv env b \<and> max_entries b = max_entries a"
proof -
  show "\<exists>r b. DelEntriesOnClntDiscon env ip a = Some (r, b) \<and> app_inv env b \<and> max_entries b = max_entries a"
  proof (cases "ip = 0")
    case False
    then show ?thesis using DelEntriesOnClntDiscon_spec [OF inv False] app_frame_simps(1) by fastforce
  qed (use inv in \<open>simp add: DelEntriesOnClntDiscon_def\<close>)
  show "\<exists>r b. DelEntriesOnSTAClntDiscon env ip a = Some (r, b) \<and> app_inv env b \<and> max_entries b = max_entries a"
  proof (cases "ip = 0")
    case False
    then show ?thesis using DelEntriesOnSTAClntDiscon_spec [OF inv False] app_frame_simps(1) by fastforce
  qed (use inv in \<open>simp add: DelEntriesOnSTAClntDiscon_def\<close>)
  show "\<exists>r b. ResetPwrSaveIf env ip a = Some (r, b) \<and> app_inv env b \<and> max_entries b = max_entries a"
  proof (cases "ip = 0")
    case False
    then show ?thesis using ResetPwrSaveIf_spec [OF inv False] app_frame_simps(1) by fastforce
  qed (use inv in \<open>simp add: ResetPwrSaveIf_def\<close>)
qed

lemma app_run_inv:
  assumes inv: "app_inv env a" and os: "os_ok env" and n: "0 < max_entries a" "max_entries a \<le> 20480" and ok: "allowed a c"
  shows "\<exists>b. app_run env c a = Some b \<and> app_inv env b \<and> max_entries b = max_entries a"
proof (cases c)
  case (ADD_TABLE ip)
  then have "app_closed a" "ip = pub_ip_addr_pre a \<or> (\<forall>e\<in>set (cache a). \<not> enabled e)"
    using ok inv by (auto simp: app_inv_def app_open_def)
  from AddTable_spec [OF inv this(1) os n this(2)] show ?thesis using ADD_TABLE app_frame_simps(1) by fastforce
next
  case (ADD_ENTRY r)
  then show ?thesis using AddEntry_inv [OF inv, of r] ok app_frame_simps(1) by fastforce
next
  case (DELETE_ENTRY r)
  then show ?thesis using DeleteEntry_spec [OF inv, of r] ok app_frame_simps(1) by fastforce
next
  case (CACHE_ENTRY cnt r)
  then show ?thesis using CacheEntry_inv [OF inv, of r cnt] ok app_frame_simps(1) by fastforce
next
  case (ADD_TEMP r)
  then show ?thesis using AddTempEntry_inv [OF inv, of r] ok by auto
next
  case (DELETE_TEMP r)
  then show ?thesis using DeleteTempEntry_inv [OF inv, of r] by auto
next
  case (FLUSH_TEMP ip isAdd)
  then show ?thesis using FlushTempEntries_inv [OF inv, of ip isAdd] by (auto simp: same_table_def)
next
  case UPDATE_STAMPS
  then show ?thesis using UpdateUDPTimeStamp_inv [OF inv] by (auto simp: same_table_def)
qed (use DeleteTable_inv [OF inv os] UpdatePwrSaveIf_inv [OF inv] discon_inv [OF inv] in fastforce)+

inductive app_reach :: "app_env \<Rightarrow> natapp \<Rightarrow> natapp \<Rightarrow> bool" for env a0 where
  start: "app_reach env a0 a0"
| call: "app_reach env a0 a \<Longrightarrow> allowed a c \<Longrightarrow> app_run env c a = Some b \<Longrightarrow> app_reach env a0 b"

lemma app_reach_inv:
  assumes "app_reach env a0 a" "app_inv env a0" "os_ok env" "0 < max_entries a0" "max_entries a0 \<le> 20480"
  shows "app_inv env a \<and> max_entries a = max_entries a0"
  using assms
proof (induction rule: app_reach.induct)
  case (call a c b)
  then have a: "app_inv env a" "max_entries a = max_entries a0" by simp_all
  from app_run_inv [OF a(1) call.prems(2) _ _ call.hyps(2)] call a show ?case by fastforce
qed simp

text \<open>What the invariant says of a state: the rules of the table are those of the enabled entries.\<close>

lemma inv_open_rules:
  assumes "app_inv env a" "nat_table_hdl a \<noteq> 0"
  shows "drv_rules (drv a) h = Some r \<longleftrightarrow>
    (\<exists>i<max_entries a. enabled (cache a ! i) \<and> rule_hdl (cache a ! i) = h \<and> nat_rule_of (cache a ! i) = r)"
  using assms by (auto simp: app_inv_def app_open_def app_closed_def mirrors_def)

lemma inv_distinct:
  assumes "app_inv env a" "i < max_entries a" "j < max_entries a" "\<not> blank_entry (cache a ! i)" "conn_of (cache a ! j) = conn_of (cache a ! i)"
  shows "j = i"
  using assms same_unique [of "cache a" i j] by (simp add: app_inv_def app_wf_def)

text \<open>The object after its constructor and \<open>Init\<close>, with a power save list of the right size.\<close>

lemma app_inv_Init:
  assumes "NatApp_Init env cfg (NatApp_new pre tcp udp pwr d) = Some (0, a)" "fresh_cache d" "length pwr = IPA_MAX_NUM_WIFI_CLIENTS"
  shows "app_inv env2 a \<and> (\<exists>c. cfg = Some c \<and> max_entries a = ipa_nat_max_entries c)"
proof -
  have z: "entries_wf (replicate n zero_entry)" "used_entries (replicate n zero_entry) = 0" for n
    by (auto simp: entries_wf_def conns_distinct_def used_entries_def)
  have p: "protocol zero_entry \<noteq> 0xFF" by (simp add: zero_entry_def)
  show ?thesis
    using assms z p
    by (auto simp: NatApp_Init_def NatApp_new_def app_inv_def app_wf_def app_closed_def Let_def split: option.splits if_splits bind_splits)
qed

section \<open>A flag that outlives its table\<close>

text \<open>
  \<open>Reset\<close> compares the \<open>enabled\<close> flags with false instead of clearing them. When the next table has
  another address the entries are not restored, but they still claim the handles of the old table.
\<close>

lemma stale_delete:
  assumes inv: "app_inv env a" "app_closed a" and os: "os_ok env" and n: "0 < max_entries a" "max_entries a \<le> 20480"
    and ip: "pub_ip \<noteq> pub_ip_addr_pre a"
    and i: "i < max_entries a" "enabled (cache a ! i)" "rule_hdl (cache a ! i) = 1"
    and alg: "\<not> isAlgPort a (protocol r) (private_port r)" "\<not> isAlgPort a (protocol r) (target_port r)"
    and r: "\<not> invalid_conn r" "protocol r \<noteq> 0xFF" "\<forall>j<max_entries a. \<not> same_conn (cache a ! j) r"
    and awake: "\<not> isPwrSaveIf a (private_ip r)" "\<not> isPwrSaveIf a (target_ip r)"
    and free: "\<exists>j<max_entries a. blank_entry (cache a ! j)"
  shows "\<exists>b c d j. AddTable env pub_ip a = Some (0, b) \<and> AddEntry env r b = Some (0, c) \<and>
    drv_rules (drv c) = [1 \<mapsto> nat_rule_of r] \<and> DeleteEntry env (cache a ! i) c = Some (0, d) \<and>
    drv_rules (drv d) = Map.empty \<and> j < max_entries d \<and> same_conn (cache d ! j) r \<and> enabled (cache d ! j)"
proof -
  obtain d0 where d0: "ipa_nat_add_ipv4_tbl (drv_env env) pub_ip (max_entries a) False (drv a) = Some (0, Some 1, d0)"
    "drv_ok (drv_env env) d0" "drv_rules d0 = Map.empty" "\<And>r. \<not> rules_full (hd (ip4_tbl d0)) r"
    by (rule new_table [OF inv(2) os n]) (rule that)
  have w: "length (cache a) = max_entries a" "entries_wf (cache a)" using inv(1) by (simp_all add: app_inv_def app_wf_def)
  let ?b = "a\<lparr>drv := d0, nat_table_hdl := 1, pub_ip_addr := pub_ip\<rparr>"
  have b: "AddTable env pub_ip a = Some (0, ?b)" using d0(1) ip by (simp add: AddTable_def)
  have wb: "length (cache ?b) = max_entries ?b" using w(1) by simp
  have nodup: "ChkForDup r ?b = Some False"
    using find_entry_spec [OF wb, of 0 "\<lambda>e. same_conn e r"] r(3) by (auto simp: ChkForDup_def)
  obtain j where j: "j < max_entries a" "blank_entry (cache a ! j)" "find_entry blank_entry ?b 0 = Some (Some j)"
    using find_entry_spec [OF wb, of 0 blank_entry] free by auto
  have jl: "j < length (cache a)" "i < length (cache a)" using j(1) i(1) w(1) by simp_all
  have ij: "i \<noteq> j" using wf_enabled [OF w(2) jl(2) i(2)] j(2) by blast
  have proto: "\<not> dead_proto (nat_rule_of r)" using r(2) by simp
  obtain d1 where d1: "drv_add (drv_env env) (nat_rule_of r) d0 = Some (0, Some 1, d1)" "drv_ok (drv_env env) d1"
    "drv_rules d1 = [1 \<mapsto> nat_rule_of r]"
  proof (rule drv_add_cases [OF d0(2) proto])
    fix h d' assume h: "drv_add (drv_env env) (nat_rule_of r) d0 = Some (0, Some h, d')" "drv_ok (drv_env env) d'"
      "drv_rules d' = (drv_rules d0)(h \<mapsto> nat_rule_of r)" "0 < h" "\<forall>h'. 0 < h' \<and> h' < h \<longrightarrow> drv_rules d0 h' \<noteq> None"
    have "h = 1" using h(4,5) d0(3) by (cases "h = 1") (auto dest: spec [of _ 1])
    then show thesis using h d0(3) by (intro that [of d']) auto
  qed (use d0(4) in blast)
  let ?e = "fill_entry r ((cache a ! j)\<lparr>rule_hdl := 1, enabled := True\<rparr>)"
  let ?es = "(cache a)[j := ?e]"
  let ?c = "?b\<lparr>cache := ?es, drv := d1, curCnt := curCnt a + 1\<rparr>"
  have hw: "hw_add env (nat_rule_of r) j ?b = Some (0, ?b\<lparr>cache := (cache a)[j := (cache a ! j)\<lparr>rule_hdl := 1\<rparr>], drv := d1\<rparr>)"
    using d1(1) jl(1) by (simp add: hw_add_def drv_add_def put_entry_def)
  have off: "\<not> isAlgPort ?b (protocol r) (private_port r)" "\<not> isAlgPort ?b (protocol r) (target_port r)"
    "\<not> isPwrSaveIf ?b (private_ip r)" "\<not> isPwrSaveIf ?b (target_ip r)" using alg awake by (simp_all add: isAlgPort_def isPwrSaveIf_def)
  have c: "AddEntry env r ?b = Some (0, ?c)"
    using nodup j(3) hw off r(1) jl(1) by (simp add: AddEntry_def put_entry_def)
  obtain d2 where d2: "drv_del (drv_env env) 1 d1 = Some (0, d2)" "drv_ok (drv_env env) d2" "drv_rules d2 = Map.empty"
    using drv_del_spec [OF d1(2), of 1 "nat_rule_of r"] d1(3) by auto
  have nb: "\<not> blank_entry (cache a ! i)" by (rule wf_enabled [OF w(2) jl(2) i(2)])
  have uniq: "k = i" if "k < max_entries a" "same_conn (?es ! k) (cache a ! i)" for k
  proof (cases "k = j")
    case True
    then have "same_conn (cache a ! i) r" using that(2) jl(1) by (simp add: same_conn_iff)
    then show ?thesis using r(3) i(1) by blast
  next
    case False
    then show ?thesis using that same_unique [OF w(2) jl(2) _ nb, of k] w(1) by (simp add: same_conn_iff)
  qed
  have lc: "length (cache ?c) = max_entries ?c" using w(1) by simp
  have fi: "find_entry (\<lambda>e. same_conn e (cache a ! i)) ?c 0 = Some (Some i)"
    using find_entry_spec [OF lc, of 0 "\<lambda>e. same_conn e (cache a ! i)"] uniq i(1) ij jl by (auto simp: same_conn_iff)
  let ?d = "?c\<lparr>cache := ?es[i := zero_entry], drv := d2, curCnt := curCnt a\<rparr>"
  have "hw_del env i ?c = Some (0, ?c\<lparr>drv := d2\<rparr>)"
    using d2(1) i(3) ij jl by (simp add: hw_del_def drv_del_def)
  then have d: "DeleteEntry env (cache a ! i) ?c = Some (0, ?d)"
    using fi i(2) ij jl by (simp add: DeleteEntry_def put_entry_def)
  have "same_conn (cache ?d ! j) r" "enabled (cache ?d ! j)" using ij jl by (simp_all add: same_conn_iff)
  with b c d d1(3) d2(3) j(1) show ?thesis
    by (intro exI [of _ ?b] exI [of _ ?c] exI [of _ ?d] exI [of _ j]) simp
qed

end
