(* ===== verification/Ct_Listener_Correct.thy ===== *)
theory Ct_Listener_Correct
  imports Ct_Listener Nat_App_Ops
begin

text \<open>
  The invariant of the connection tracking listener together with the NAT application and the NAT
  driver below it: the table exists exactly while the wide area network is up, and has its address.
  Every handler keeps it and returns.
\<close>

section \<open>Calls of the NAT application that leave the table where it is\<close>

definition same_place :: "natapp \<Rightarrow> natapp \<Rightarrow> bool" where
  "same_place a b \<longleftrightarrow> nat_table_hdl b = nat_table_hdl a \<and> pub_ip_addr b = pub_ip_addr a \<and> max_entries b = max_entries a"

lemma same_place_refl [simp]: "same_place a a"
  by (simp add: same_place_def)

lemma frame_place: "app_frame a b \<Longrightarrow> same_place a b"
  using app_frame_simps [of a b] by (simp add: same_place_def)

lemma frame_place_pwr: "app_frame (a\<lparr>PwrSaveIfs := xs\<rparr>) b \<Longrightarrow> same_place a b"
  using app_frame_simps [of "a\<lparr>PwrSaveIfs := xs\<rparr>" b] by (simp add: same_place_def)

lemma table_place: "same_table a b \<Longrightarrow> same_place a b"
  by (simp add: same_table_def same_place_def)

text \<open>What an operation that keeps the invariant and the table does.\<close>

definition app_safe :: "app_env \<Rightarrow> (natapp \<Rightarrow> natapp option) \<Rightarrow> natapp \<Rightarrow> bool" where
  "app_safe env f a \<longleftrightarrow> (\<exists>b. f a = Some b \<and> app_inv env b \<and> same_place a b)"

lemma app_safeI: "f a = Some b \<Longrightarrow> app_inv env b \<Longrightarrow> same_place a b \<Longrightarrow> app_safe env f a"
  by (auto simp: app_safe_def)

lemma safe_add_entry:
  assumes "app_inv env a" "protocol r \<noteq> 0xFF"
  shows "app_safe env (\<lambda>a. map_option snd (AddEntry env r a)) a"
  using AddEntry_inv [OF assms] by (auto simp: app_safe_def intro: frame_place)

lemma safe_delete_entry:
  assumes "app_inv env a" "\<not> blank_entry r"
  shows "app_safe env (\<lambda>a. map_option snd (DeleteEntry env r a)) a"
  using DeleteEntry_spec [OF assms] by (auto simp: app_safe_def intro: frame_place)

lemma safe_cache_entry:
  assumes "app_inv env a" "protocol r \<noteq> 0xFF" "cnt \<le> max_entries a"
  shows "app_safe env (CacheEntry cnt r) a"
  using CacheEntry_inv [OF assms] by (auto simp: app_safe_def intro: frame_place)

lemma safe_temp:
  assumes "app_inv env a"
  shows "protocol r \<noteq> 0xFF \<Longrightarrow> app_safe env (AddTempEntry r) a" "app_safe env (DeleteTempEntry r) a"
  using AddTempEntry_inv [OF assms, of r] DeleteTempEntry_inv [OF assms, of r]
  by (auto simp: app_safe_def same_place_def)

lemma safe_flush:
  assumes "app_inv env a"
  shows "app_safe env (FlushTempEntries env ip isAdd) a"
  using FlushTempEntries_inv [OF assms, of ip isAdd] by (auto simp: app_safe_def intro: table_place)

lemma safe_client:
  assumes "app_inv env a"
  shows "app_safe env (\<lambda>a. map_option snd (ResetPwrSaveIf env ip a)) a"
    "app_safe env (\<lambda>a. map_option snd (DelEntriesOnClntDiscon env ip a)) a"
    "app_safe env (\<lambda>a. map_option snd (DelEntriesOnSTAClntDiscon env ip a)) a"
    "app_safe env (\<lambda>a. map_option snd (UpdatePwrSaveIf env ip a)) a"
proof -
  show "app_safe env (\<lambda>a. map_option snd (ResetPwrSaveIf env ip a)) a"
    using ResetPwrSaveIf_spec [OF assms, of ip] assms
    by (cases "ip = 0") (auto simp: app_safe_def ResetPwrSaveIf_def intro: frame_place_pwr)
  show "app_safe env (\<lambda>a. map_option snd (DelEntriesOnClntDiscon env ip a)) a"
    using DelEntriesOnClntDiscon_spec [OF assms, of ip] assms
    by (cases "ip = 0") (auto simp: app_safe_def DelEntriesOnClntDiscon_def intro: frame_place_pwr)
  show "app_safe env (\<lambda>a. map_option snd (DelEntriesOnSTAClntDiscon env ip a)) a"
    using DelEntriesOnSTAClntDiscon_spec [OF assms, of ip] assms
    by (cases "ip = 0") (auto simp: app_safe_def DelEntriesOnSTAClntDiscon_def intro: frame_place)
  show "app_safe env (\<lambda>a. map_option snd (UpdatePwrSaveIf env ip a)) a"
  proof (cases "ip = 0 \<or> ip \<in> set (PwrSaveIfs a)")
    case True
    have w: "length (PwrSaveIfs a) = IPA_MAX_NUM_WIFI_CLIENTS" using assms by (simp add: app_inv_def app_wf_def)
    have "\<exists>r. UpdatePwrSaveIf env ip a = Some (r, a)"
      using True scan_list [of 32 "PwrSaveIfs a" "\<lambda>p. p = ip"] by (auto simp: UpdatePwrSaveIf_def in_set_conv_nth w)
    then show ?thesis using assms by (auto simp: app_safe_def)
  next
    case False
    then show ?thesis using UpdatePwrSaveIf_spec [OF assms, of ip] by (auto simp: app_safe_def intro: frame_place_pwr)
  qed
qed

lemma safe_stamps:
  assumes "app_inv env a"
  shows "app_safe env (UpdateUDPTimeStamp env) a"
  using UpdateUDPTimeStamp_inv [OF assms] by (auto simp: app_safe_def intro: table_place)

fun table_call :: "app_call \<Rightarrow> bool" where
  "table_call (ADD_TABLE ip) \<longleftrightarrow> True"
| "table_call (DELETE_TABLE ip) \<longleftrightarrow> True"
| "table_call c \<longleftrightarrow> False"

lemma safe_call:
  assumes "app_inv env a" "allowed a c" "\<not> table_call c"
  shows "app_safe env (app_run env c) a"
  using assms safe_add_entry safe_delete_entry safe_cache_entry safe_temp safe_flush safe_client safe_stamps
  by (cases c) (auto simp: app_safe_def)

section \<open>Searching an array\<close>

lemma scan_list_cases:
  assumes "n \<le> length xs"
  obtains (none) "scan_first (\<lambda>i. map_option p (rd xs i)) n 0 = Some None" "\<forall>i<n. \<not> p (xs ! i)"
  | (found) j where "scan_first (\<lambda>i. map_option p (rd xs i)) n 0 = Some (Some j)" "j < n" "p (xs ! j)" "\<forall>i<j. \<not> p (xs ! i)"
proof (cases "\<exists>i<n. p (xs ! i)")
  case True
  then obtain i where i: "i < n" "p (xs ! i)" by blast
  let ?j = "LEAST i. p (xs ! i)"
  have "?j < n" using Least_le [of "\<lambda>i. p (xs ! i)", OF i(2)] i(1) by simp
  moreover have "p (xs ! ?j)" by (rule LeastI [of "\<lambda>i. p (xs ! i)", OF i(2)])
  moreover have "\<forall>i<?j. \<not> p (xs ! i)" using not_less_Least by blast
  moreover have "scan_first (\<lambda>i. map_option p (rd xs i)) n 0 = Some (Some ?j)" using scan_list [OF assms, of p] True by simp
  ultimately show thesis by (rule found [rotated 1])
next
  case False
  then show thesis using none scan_list [OF assms, of p] by auto
qed

section \<open>The invariant\<close>

definition sta_used :: "u32 list \<Rightarrow> nat" where
  "sta_used xs = length (filter (\<lambda>x. x \<noteq> 0) xs)"

definition clients_ok :: "ct_clients \<Rightarrow> bool" where
  "clients_ok s \<longleftrightarrow> (\<exists>c. cc_pInstance s = INSTANCE c \<and> udp_filter c \<noteq> None)"

definition nat_ok :: "listener_env \<Rightarrow> bool \<Rightarrow> u32 \<Rightarrow> natapp \<Rightarrow> bool" where
  "nat_ok env up wan a \<longleftrightarrow> app_inv (l_app env) a \<and> 0 < max_entries a \<and> max_entries a \<le> 20480 \<and> junk_cnt env \<le> max_entries a \<and>
     (if up then nat_table_hdl a = 1 \<and> pub_ip_addr a = wan else nat_table_hdl a = 0)"

definition lst_inv :: "listener_env \<Rightarrow> ct_listener \<Rightarrow> bool" where
  "lst_inv env l \<longleftrightarrow> length (nat_iface_ipv4_addr l) = MAX_NAT_IFACES \<and> length (nonnat_iface_ipv4_addr l) = MAX_NAT_IFACES \<and>
     length (sta_clnt_ipv4_addr l) = MAX_STA_CLNT_IFACES \<and> int (sta_used (sta_clnt_ipv4_addr l)) \<le> StaClntCnt l \<and>
     StaClntCnt l \<le> int MAX_STA_CLNT_IFACES \<and> (\<exists>a. nat_inst l = Some a \<and> nat_ok env (WanUp l) (wan_ipaddr l) a) \<and>
     clients_ok (clients l)"

lemma nat_ok_place: "nat_ok env up wan a \<Longrightarrow> app_inv (l_app env) b \<Longrightarrow> same_place a b \<Longrightarrow> nat_ok env up wan b"
  by (simp add: nat_ok_def same_place_def)

lemma nat_ok_inv: "nat_ok env up wan a \<Longrightarrow> app_inv (l_app env) a"
  by (simp add: nat_ok_def)

text \<open>A safe call of the NAT application keeps the invariant and changes nothing else.\<close>

lemma nat_call_inv:
  assumes "lst_inv env l" "\<And>a. nat_inst l = Some a \<Longrightarrow> nat_ok env (WanUp l) (wan_ipaddr l) a \<Longrightarrow> app_safe (l_app env) f a"
  shows "\<exists>b. nat_call f l = Some (l\<lparr>nat_inst := Some b\<rparr>) \<and> lst_inv env (l\<lparr>nat_inst := Some b\<rparr>)"
proof -
  obtain a where a: "nat_inst l = Some a" "nat_ok env (WanUp l) (wan_ipaddr l) a" using assms(1) by (auto simp: lst_inv_def)
  from assms(2) [OF a] obtain b where "f a = Some b" "app_inv (l_app env) b" "same_place a b" by (auto simp: app_safe_def)
  then show ?thesis using assms(1) a nat_ok_place [OF a(2)] by (auto simp: nat_call_def lst_inv_def)
qed

lemma sta_used_upd:
  assumes "i < length xs"
  shows "int (sta_used (xs[i := x])) = int (sta_used xs) - (if xs ! i = 0 then 0 else 1) + (if x = 0 then 0 else 1)"
proof -
  have "length (filter P (xs[i := x])) + (if P (xs ! i) then 1 else 0) = length (filter P xs) + (if P x then 1 else 0)" for P
    using assms by (subst (2) id_take_nth_drop [OF assms]) (simp add: upd_conv_take_nth_drop)
  from this [of "\<lambda>x. x \<noteq> 0"] show ?thesis by (simp add: sta_used_def split: if_splits)
qed

lemma lst_inv_arrays:
  assumes "lst_inv env l"
  shows "length xs = MAX_NAT_IFACES \<Longrightarrow> lst_inv env (l\<lparr>nat_iface_ipv4_addr := xs\<rparr>)"
    "length xs = MAX_NAT_IFACES \<Longrightarrow> lst_inv env (l\<lparr>nonnat_iface_ipv4_addr := xs\<rparr>)"
    "lst_inv env (l\<lparr>ct_pConfig := b\<rparr>)" "lst_inv env (l\<lparr>NatIfaceCnt := n\<rparr>)" "lst_inv env (l\<lparr>ct_pNatIfaces := ns\<rparr>)"
    "lst_inv env (l\<lparr>started := ts\<rparr>)" "lst_inv env (l\<lparr>isCTReg := b\<rparr>)" "lst_inv env (l\<lparr>isNatThreadStart := b\<rparr>)"
    "lst_inv env (l\<lparr>ct_destroyed := k\<rparr>)" "clients_ok cc \<Longrightarrow> lst_inv env (l\<lparr>clients := cc\<rparr>)"
  using assms by (simp_all add: lst_inv_def)

section \<open>Clients of the NAT interfaces\<close>

definition cfg_ok :: "ipacm_config \<Rightarrow> bool" where
  "cfg_ok c \<longleftrightarrow> ipa_num_private_subnet c \<le> length (private_subnet_table c) \<and> ipa_nat_iface_entries c \<le> length (pNatIfaces c)"

lemma refresh_inv:
  assumes "lst_inv env l" "\<forall>c. cfg = Some c \<longrightarrow> cfg_ok c" "ct_pConfig l \<longrightarrow> cfg \<noteq> None"
  shows "\<exists>r l'. refresh_nat_ifaces env cfg l = Some (r, l') \<and> lst_inv env l'"
  using assms
  by (cases cfg) (auto simp: refresh_nat_ifaces_def GetNatIfaces_def cfg_ok_def Let_def lst_inv_arrays)

lemma cache_nat_inv:
  assumes inv: "lst_inv env l"
  shows "\<exists>r l'. cache_nat_addr env ip l = Some (r, l') \<and> lst_inv env l'"
proof -
  let ?xs = "nat_iface_ipv4_addr l"
  have n: "length ?xs = MAX_NAT_IFACES" using inv by (simp add: lst_inv_def)
  then have le: "MAX_NAT_IFACES \<le> length ?xs" by simp
  show ?thesis
  proof (rule scan_list_cases [OF le, of "\<lambda>x. x = ip \<or> x = 0"])
    fix j assume j: "scan_first (\<lambda>i. map_option (\<lambda>x. x = ip \<or> x = 0) (rd ?xs i)) MAX_NAT_IFACES 0 = Some (Some j)" "j < MAX_NAT_IFACES"
    let ?l = "l\<lparr>nat_iface_ipv4_addr := ?xs[j := ip]\<rparr>"
    have "lst_inv env ?l" by (rule lst_inv_arrays(1) [OF inv]) (simp add: n)
    from nat_call_inv [OF this, of "\<lambda>a. map_option snd (ResetPwrSaveIf (l_app env) ip a)"]
    obtain b where b: "nat_call (\<lambda>a. map_option snd (ResetPwrSaveIf (l_app env) ip a)) ?l = Some (?l\<lparr>nat_inst := Some b\<rparr>)"
      "lst_inv env (?l\<lparr>nat_inst := Some b\<rparr>)" using safe_client(1) nat_ok_inv by blast
    from nat_call_inv [OF b(2), of "FlushTempEntries (l_app env) ip True"]
    obtain l' where "nat_call (FlushTempEntries (l_app env) ip True) (?l\<lparr>nat_inst := Some b\<rparr>) = Some l'" "lst_inv env l'"
      using safe_flush nat_ok_inv by blast
    then show ?thesis using inv j b(1) n by (cases "?xs ! j = ip") (auto simp: cache_nat_addr_def)
  qed (use inv in \<open>auto simp: cache_nat_addr_def\<close>)
qed

lemma cache_nonnat_inv:
  assumes inv: "lst_inv env l"
  shows "\<exists>l'. cache_nonnat_addr env ip l = Some l' \<and> lst_inv env l'"
proof -
  let ?xs = "nonnat_iface_ipv4_addr l"
  have n: "length ?xs = MAX_NAT_IFACES" using inv by (simp add: lst_inv_def)
  then have le: "MAX_NAT_IFACES \<le> length ?xs" by simp
  show ?thesis
  proof (rule scan_list_cases [OF le, of "\<lambda>x. x = 0"])
    fix j assume j: "scan_first (\<lambda>i. map_option (\<lambda>x. x = 0) (rd ?xs i)) MAX_NAT_IFACES 0 = Some (Some j)" "j < MAX_NAT_IFACES"
    let ?l = "l\<lparr>nonnat_iface_ipv4_addr := ?xs[j := ip]\<rparr>"
    have "lst_inv env ?l" by (rule lst_inv_arrays(2) [OF inv]) (simp add: n)
    from nat_call_inv [OF this, of "FlushTempEntries (l_app env) ip False"]
    obtain l' where "nat_call (FlushTempEntries (l_app env) ip False) ?l = Some l'" "lst_inv env l'"
      using safe_flush nat_ok_inv by blast
    then show ?thesis using j n by (simp add: cache_nonnat_addr_def)
  qed (use inv in \<open>auto simp: cache_nonnat_addr_def\<close>)
qed

lemma neigh_add_inv:
  assumes inv: "lst_inv env l" and cfg: "\<forall>c. cfg = Some c \<longrightarrow> cfg_ok c" "ct_pConfig l \<longrightarrow> cfg \<noteq> None"
  shows "\<exists>l'. HandleNeighIpAddrAddEvt env cfg d l = Some l' \<and> lst_inv env l'"
proof (cases "ev_ipv4_addr d = 0 \<or> ev_iptype d \<noteq> IPA_IP_v4")
  case True
  then show ?thesis using inv by (simp add: HandleNeighIpAddrAddEvt_def)
next
  case False
  obtain r l1 where l1: "refresh_nat_ifaces env cfg l = Some (r, l1)" "lst_inv env l1" using refresh_inv [OF inv cfg] by blast
  obtain b l2 where l2: "cache_nat_addr env (ev_ipv4_addr d) l1 = Some (b, l2)" "lst_inv env l2" using cache_nat_inv [OF l1(2)] by blast
  show ?thesis
    using False l1 l2 cache_nonnat_inv [OF l1(2), of "ev_ipv4_addr d"] cache_nonnat_inv [OF l2(2), of "ev_ipv4_addr d"]
    by (auto simp: HandleNeighIpAddrAddEvt_def split: option.splits)
qed

lemma clear_addr_inv:
  assumes "lst_inv env l" "cnt < MAX_NAT_IFACES"
  shows "\<exists>l'. clear_addr ip cnt l = Some l' \<and> lst_inv env l'"
  using assms by (auto simp: clear_addr_def lst_inv_def)

lemma neigh_del_inv:
  assumes inv: "lst_inv env l"
  shows "\<exists>l'. HandleNeighIpAddrDelEvt env ip l = Some l' \<and> lst_inv env l'"
proof (cases "ip = 0")
  case False
  obtain l1 where l1: "for_range (clear_addr ip) MAX_NAT_IFACES 0 l = Some l1" "lst_inv env l1"
    using for_range_inv [of "\<lambda>_. lst_inv env" 0 l MAX_NAT_IFACES "clear_addr ip"] inv clear_addr_inv by auto
  from nat_call_inv [OF l1(2), of "FlushTempEntries (l_app env) ip False"]
  obtain l2 where l2: "nat_call (FlushTempEntries (l_app env) ip False) l1 = Some l2" "lst_inv env l2"
    using safe_flush nat_ok_inv by blast
  from nat_call_inv [OF l2(2), of "\<lambda>a. map_option snd (DelEntriesOnClntDiscon (l_app env) ip a)"]
  show ?thesis using False l1 l2 safe_client(2) nat_ok_inv by (fastforce simp: HandleNeighIpAddrDelEvt_def)
qed (use inv in \<open>simp add: HandleNeighIpAddrDelEvt_def\<close>)

section \<open>Clients of the station interface\<close>

lemma sta_add_inv:
  assumes inv: "lst_inv env l"
  shows "\<exists>l'. HandleSTAClientAddEvt env ip l = Some l' \<and> lst_inv env l'"
proof (cases "StaClntCnt l \<ge> int MAX_STA_CLNT_IFACES")
  case True
  then show ?thesis using inv by (simp add: HandleSTAClientAddEvt_def)
next
  case room: False
  let ?xs = "sta_clnt_ipv4_addr l"
  have n: "length ?xs = MAX_STA_CLNT_IFACES" using inv by (simp add: lst_inv_def)
  then have le: "MAX_STA_CLNT_IFACES \<le> length ?xs" by simp
  have flush: "\<exists>l2. nat_call (FlushTempEntries (l_app env) ip True) l1 = Some l2 \<and> lst_inv env l2" if "lst_inv env l1" for l1
    using nat_call_inv [OF that, of "FlushTempEntries (l_app env) ip True"] safe_flush nat_ok_inv by blast
  show ?thesis
  proof (rule scan_list_cases [OF le, of "\<lambda>x. x \<noteq> 0 \<and> x = ip \<or> x = 0"])
    fix j assume j: "scan_first (\<lambda>i. map_option (\<lambda>x. x \<noteq> 0 \<and> x = ip \<or> x = 0) (rd ?xs i)) MAX_STA_CLNT_IFACES 0 = Some (Some j)"
      "j < MAX_STA_CLNT_IFACES"
    have "int (sta_used (?xs[j := ip])) \<le> int (sta_used ?xs) + 1" using sta_used_upd [of j ?xs ip] j(2) n by (simp split: if_splits)
    then have "lst_inv env (l\<lparr>sta_clnt_ipv4_addr := ?xs[j := ip], StaClntCnt := StaClntCnt l + 1\<rparr>)"
      using inv room by (simp add: lst_inv_def)
    from flush [OF this] flush [OF inv] show ?thesis using room j n
      by (cases "?xs ! j \<noteq> 0 \<and> ?xs ! j = ip") (auto simp: HandleSTAClientAddEvt_def)
  qed (use room flush [OF inv] in \<open>simp add: HandleSTAClientAddEvt_def\<close>)
qed

lemma sta_del_inv:
  assumes inv: "lst_inv env l"
  shows "\<exists>l'. HandleSTAClientDelEvt env ip l = Some l' \<and> lst_inv env l'"
proof -
  let ?xs = "sta_clnt_ipv4_addr l"
  let ?dis = "\<lambda>a. map_option snd (DelEntriesOnSTAClntDiscon (l_app env) ip a)"
  have n: "length ?xs = MAX_STA_CLNT_IFACES" using inv by (simp add: lst_inv_def)
  then have le: "MAX_STA_CLNT_IFACES \<le> length ?xs" by simp
  have flush: "\<exists>l2. nat_call (FlushTempEntries (l_app env) ip False) l1 = Some l2 \<and> lst_inv env l2" if "lst_inv env l1" for l1
    using nat_call_inv [OF that, of "FlushTempEntries (l_app env) ip False"] safe_flush nat_ok_inv by blast
  show ?thesis
  proof (rule scan_list_cases [OF le, of "\<lambda>x. x \<noteq> 0 \<and> x = ip"])
    fix j assume j: "scan_first (\<lambda>i. map_option (\<lambda>x. x \<noteq> 0 \<and> x = ip) (rd ?xs i)) MAX_STA_CLNT_IFACES 0 = Some (Some j)"
      "j < MAX_STA_CLNT_IFACES" "?xs ! j \<noteq> 0 \<and> ?xs ! j = ip"
    let ?l = "l\<lparr>sta_clnt_ipv4_addr := ?xs[j := 0]\<rparr>"
    have "?xs ! j \<noteq> 0" using j(3) by blast
    then have used: "int (sta_used (?xs[j := 0])) = int (sta_used ?xs) - 1" using sta_used_upd [of j ?xs 0] j(2) n by simp
    have "lst_inv env ?l" using inv used by (simp add: lst_inv_def)
    from nat_call_inv [OF this, of ?dis] obtain b
      where b: "nat_call ?dis ?l = Some (?l\<lparr>nat_inst := Some b\<rparr>)" "lst_inv env (?l\<lparr>nat_inst := Some b\<rparr>)"
      using safe_client(3) nat_ok_inv by blast
    have "lst_inv env (?l\<lparr>nat_inst := Some b, StaClntCnt := StaClntCnt l - 1\<rparr>)" using b(2) inv used by (simp add: lst_inv_def)
    from flush [OF this] show ?thesis using j n b(1) by (simp add: HandleSTAClientDelEvt_def)
  qed (use flush [OF inv] in \<open>simp add: HandleSTAClientDelEvt_def\<close>)
qed

section \<open>Messages\<close>

lemma isPrivateSubnet_total: "cfg_ok c \<Longrightarrow> \<exists>b. isPrivateSubnet c ip = Some b"
  unfolding isPrivateSubnet_def cfg_ok_def by (subst scan_list) auto

lemma nat_client_total:
  assumes "lst_inv env l" "\<forall>c. cfg = Some c \<longrightarrow> cfg_ok c"
  shows "\<exists>r. nat_client cfg l rule = Some r"
proof -
  have n: "MAX_NAT_IFACES \<le> length (nat_iface_ipv4_addr l)" using assms(1) by (simp add: lst_inv_def)
  obtain cnt where cnt: "scan_first (\<lambda>i. map_option (\<lambda>x. x \<noteq> 0 \<and> (private_ip rule = x \<or> target_ip rule = x)) (rd (nat_iface_ipv4_addr l) i))
      MAX_NAT_IFACES 0 = Some cnt"
    using scan_list [OF n, of "\<lambda>x. x \<noteq> 0 \<and> (private_ip rule = x \<or> target_ip rule = x)"] by blast
  show ?thesis
  proof (cases cfg)
    case None
    then show ?thesis using cnt by (simp add: nat_client_def)
  next
    case (Some c)
    then have c: "cfg_ok c" using assms(2) by simp
    obtain b1 b2 where "isPrivateSubnet c (private_ip rule) = Some b1" "isPrivateSubnet c (target_ip rule) = Some b2"
      using isPrivateSubnet_total [OF c] by metis
    then show ?thesis using cnt Some by (simp add: nat_client_def)
  qed
qed

lemma sta_known_total:
  assumes "lst_inv env l"
  shows "\<exists>b. sta_known l rule = Some b"
proof -
  have n: "nat (StaClntCnt l) \<le> length (sta_clnt_ipv4_addr l)" "0 < length (sta_clnt_ipv4_addr l)"
    using assms by (auto simp: lst_inv_def)
  show ?thesis using n(2) scan_list [OF n(1), of "\<lambda>x. target_ip rule = x"] by (auto simp: sta_known_def)
qed

lemma new_conn_inv:
  assumes "lst_inv env l" "protocol rule \<noteq> 0xFF"
  shows "\<exists>l'. new_conn env isTemp rule l = Some l' \<and> lst_inv env l'"
proof -
  have "\<exists>b. nat_call f l = Some (l\<lparr>nat_inst := Some b\<rparr>) \<and> lst_inv env (l\<lparr>nat_inst := Some b\<rparr>)"
    if "f \<in> {CacheEntry (junk_cnt env) rule, AddTempEntry rule, \<lambda>a. map_option snd (AddEntry (l_app env) rule a)}" for f
    using that safe_cache_entry [OF _ assms(2)] safe_temp(1) [OF _ assms(2)] safe_add_entry [OF _ assms(2)]
    by (intro nat_call_inv [OF assms(1)]) (auto simp: nat_ok_def)
  then show ?thesis unfolding new_conn_def by simp (metis)
qed

lemma end_conn_inv:
  assumes "lst_inv env l" "\<not> blank_entry rule"
  shows "\<exists>l'. end_conn env rule l = Some l' \<and> lst_inv env l'"
proof -
  from nat_call_inv [OF assms(1), of "\<lambda>a. map_option snd (DeleteEntry (l_app env) rule a)"]
  obtain l1 where l1: "nat_call (\<lambda>a. map_option snd (DeleteEntry (l_app env) rule a)) l = Some l1" "lst_inv env l1"
    using safe_delete_entry [OF nat_ok_inv assms(2)] by blast
  from nat_call_inv [OF l1(2), of "DeleteTempEntry rule"] show ?thesis
    using l1 safe_temp(2) nat_ok_inv unfolding end_conn_def by fastforce
qed

lemma ProcessTCPorUDPMsg_inv:
  assumes inv: "lst_inv env l" and cfg: "\<forall>c. cfg = Some c \<longrightarrow> cfg_ok c"
  shows "\<exists>l'. ProcessTCPorUDPMsg env cfg m type l = Some l' \<and> lst_inv env l'"
proof (cases "nat_status m (wan_ipaddr l)")
  case None
  then show ?thesis using inv by (simp add: ProcessTCPorUDPMsg_def)
next
  case (Some st)
  obtain r where r: "nat_client cfg l (ct_rule m st) = Some r" using nat_client_total [OF inv cfg] by blast
  show ?thesis
  proof (cases r)
    case None
    then show ?thesis using Some r inv by (simp add: ProcessTCPorUDPMsg_def)
  next
    case (Some rt)
    obtain rule t where rt: "rt = (rule, t)" by (cases rt)
    obtain k where k: "sta_known l rule = Some k" using sta_known_total [OF inv] by blast
    let ?rule = "rule\<lparr>public_ip := wan_ipaddr l\<rparr>"
    have n: "\<exists>l'. new_conn env (t \<or> \<not> k) ?rule l = Some l' \<and> lst_inv env l'" if "protocol rule = 6 \<or> protocol rule = 17"
      by (rule new_conn_inv [OF inv]) (use that in auto)
    have e: "\<exists>l'. end_conn env ?rule l = Some l' \<and> lst_inv env l'" if "protocol rule = 6 \<or> protocol rule = 17"
      by (rule end_conn_inv [OF inv]) (use that in \<open>auto simp: blank_entry_def\<close>)
    show ?thesis using \<open>nat_status m (wan_ipaddr l) = Some st\<close> r Some rt k n e inv
      by (auto simp: ProcessTCPorUDPMsg_def Let_def)
  qed
qed

lemma ProcessCTMessage_inv:
  assumes "lst_inv env l" "\<forall>c. cfg = Some c \<longrightarrow> cfg_ok c"
  shows "\<exists>l'. ProcessCTMessage env cfg d l = Some l' \<and> lst_inv env l'"
  using assms ProcessTCPorUDPMsg_inv [OF assms, of "ct_msg d" "ct_type d"]
  by (auto simp: ProcessCTMessage_def lst_inv_arrays)

section \<open>Threads, filters and the wide area network\<close>

lemma CreateConnTrackThreads_keeps:
  "\<exists>ts b. snd (CreateConnTrackThreads env l) = l\<lparr>started := ts, isCTReg := b\<rparr>"
  by (rule exI [of _ "started (snd (CreateConnTrackThreads env l))"], rule exI [of _ "isCTReg (snd (CreateConnTrackThreads env l))"])
    (simp add: CreateConnTrackThreads_def pthread_create_def Let_def)

lemma CreateNatThreads_keeps:
  "\<exists>ts b. snd (CreateNatThreads env l) = l\<lparr>started := ts, isNatThreadStart := b\<rparr>"
  by (rule exI [of _ "started (snd (CreateNatThreads env l))"], rule exI [of _ "isNatThreadStart (snd (CreateNatThreads env l))"])
    (simp add: CreateNatThreads_def pthread_create_def Let_def)

lemma threads_inv:
  assumes "lst_inv env l"
  shows "lst_inv env (snd (CreateConnTrackThreads env l))" "lst_inv env (snd (CreateNatThreads env l))"
    "WanUp (snd (CreateConnTrackThreads env l)) = WanUp l" "nat_inst (snd (CreateConnTrackThreads env l)) = nat_inst l"
    "wan_ipaddr (snd (CreateConnTrackThreads env l)) = wan_ipaddr l" "clients (snd (CreateConnTrackThreads env l)) = clients l"
proof -
  obtain ts b ts' b' where "snd (CreateConnTrackThreads env l) = l\<lparr>started := ts, isCTReg := b\<rparr>"
    "snd (CreateNatThreads env l) = l\<lparr>started := ts', isNatThreadStart := b'\<rparr>"
    using CreateConnTrackThreads_keeps CreateNatThreads_keeps by metis
  then show "lst_inv env (snd (CreateConnTrackThreads env l))" "lst_inv env (snd (CreateNatThreads env l))"
    "WanUp (snd (CreateConnTrackThreads env l)) = WanUp l" "nat_inst (snd (CreateConnTrackThreads env l)) = nat_inst l"
    "wan_ipaddr (snd (CreateConnTrackThreads env l)) = wan_ipaddr l" "clients (snd (CreateConnTrackThreads env l)) = clients l"
    using assms by (simp_all add: lst_inv_arrays)
qed

lemma clients_okE:
  assumes "clients_ok s"
  obtains c f where "cc_pInstance s = INSTANCE c" "udp_filter c = Some f"
  using assms by (auto simp: clients_ok_def)

lemma filters_inv:
  assumes "clients_ok s"
  shows "\<exists>s'. UpdateUDPFilters env bridge d w s = Some s' \<and> clients_ok s'" "\<exists>s'. UpdateTCPFilters env bridge d w s = Some s' \<and> clients_ok s'"
proof -
  obtain c f where c: "cc_pInstance s = INSTANCE c" "udp_filter c = Some f" by (rule clients_okE [OF assms])
  then have g: "ct_client_GetInstance env s = Some (Some c, s)" by (simp add: ct_client_GetInstance_def)
  show "\<exists>s'. UpdateUDPFilters env bridge d w s = Some s' \<and> clients_ok s'"
    using g c by (auto simp: UpdateUDPFilters_def upd_udp_def attach_filter_def Let_def clients_ok_def split: option.splits)
  show "\<exists>s'. UpdateTCPFilters env bridge d w s = Some s' \<and> clients_ok s'"
    using g c by (auto simp: UpdateTCPFilters_def upd_udp_def upd_tcp_def attach_filter_def Let_def clients_ok_def split: option.splits)
qed

lemma iface_up_inv:
  assumes "lst_inv env l"
  shows "\<exists>l'. iface_up env d l = Some l' \<and> lst_inv env l'"
proof -
  let ?l = "snd (CreateConnTrackThreads env l)"
  have ok: "clients_ok (clients ?l)" using threads_inv(1) [OF assms] by (simp add: lst_inv_def)
  obtain cc where cc: "UpdateUDPFilters (l_ct env) (l_bridge env) d False (clients ?l) = Some cc" "clients_ok cc"
    using filters_inv(1) [OF ok] by blast
  obtain cc2 where "UpdateTCPFilters (l_ct env) (l_bridge env) d False cc = Some cc2" "clients_ok cc2"
    using filters_inv(2) [OF cc(2)] by blast
  then show ?thesis using cc(1) lst_inv_arrays(10) [OF threads_inv(1) [OF assms]] by (simp add: iface_up_def)
qed

text \<open>The network comes up with the address of the last table, or without entries that claim a rule.\<close>

definition wan_up_ok :: "u32 \<Rightarrow> ct_listener \<Rightarrow> bool" where
  "wan_up_ok ip l \<longleftrightarrow> (\<forall>a. nat_inst l = Some a \<longrightarrow> ip = pub_ip_addr_pre a \<or> (\<forall>e\<in>set (cache a). \<not> enabled e))"

lemma wan_up_inv:
  assumes inv: "lst_inv env l" and os: "os_ok (l_app env)" and up: "\<not> WanUp l" and ip: "wan_up_ok (ipv4_addr d) l"
  shows "\<exists>l'. TriggerWANUp env d l = Some l' \<and> lst_inv env l' \<and> (ipv4_addr d \<noteq> 0 \<longrightarrow> WanUp l' \<and> wan_ipaddr l' = ipv4_addr d)"
proof (cases "ipv4_addr d = 0")
  case True
  then show ?thesis using inv by (simp add: TriggerWANUp_def)
next
  case False
  obtain a where a: "nat_inst l = Some a" "nat_ok env False (wan_ipaddr l) a" using inv up by (auto simp: lst_inv_def)
  then have c: "app_inv (l_app env) a" "app_closed a" "0 < max_entries a" "max_entries a \<le> 20480"
    by (auto simp: nat_ok_def app_inv_def app_open_def)
  have addr: "ipv4_addr d = pub_ip_addr_pre a \<or> (\<forall>e\<in>set (cache a). \<not> enabled e)" using ip a(1) by (simp add: wan_up_ok_def)
  obtain b where b: "AddTable (l_app env) (ipv4_addr d) a = Some (0, b)" "app_inv (l_app env) b"
    "app_frame (a\<lparr>nat_table_hdl := 1, pub_ip_addr := ipv4_addr d\<rparr>) b"
    using AddTable_spec [OF c(1,2) os c(3,4) addr] by blast
  have n: "nat_ok env True (ipv4_addr d) b" using a(2) b(2) app_frame_simps [OF b(3)] by (simp add: nat_ok_def)
  let ?l = "l\<lparr>WanUp := True, isStaMode := is_sta d, wan_ipaddr := ipv4_addr d, wan_ifname := ifname d, nat_inst := Some b\<rparr>"
  have i: "lst_inv env ?l" using inv n by (simp add: lst_inv_def)
  obtain ts s where t: "snd (CreateNatThreads env ?l) = ?l\<lparr>started := ts, isNatThreadStart := s\<rparr>" using CreateNatThreads_keeps by blast
  show ?thesis using False a(1) b(1) t threads_inv(2) [OF i] by (simp add: TriggerWANUp_def Let_def)
qed

lemma wan_down_inv:
  assumes inv: "lst_inv env l" and os: "os_ok (l_app env)" and up: "WanUp l"
  shows "\<exists>l'. TriggerWANDown env (wan_ipaddr l) l = Some l' \<and> lst_inv env l' \<and> \<not> WanUp l'"
proof -
  obtain a where a: "nat_inst l = Some a" "nat_ok env True (wan_ipaddr l) a" using inv up by (auto simp: lst_inv_def)
  then have o: "app_inv (l_app env) a" "app_open (l_app env) a" "pub_ip_addr a = wan_ipaddr l"
    by (auto simp: nat_ok_def app_inv_def app_closed_def)
  obtain d where d: "DeleteTable (l_app env) (wan_ipaddr l) a =
      Some (0, a\<lparr>drv := d, pub_ip_addr_pre := wan_ipaddr l, nat_table_hdl := 0, pub_ip_addr := 0\<rparr>)"
    "app_inv (l_app env) (a\<lparr>drv := d, pub_ip_addr_pre := wan_ipaddr l, nat_table_hdl := 0, pub_ip_addr := 0\<rparr>)"
    using DeleteTable_spec [OF o(1,2) os o(3)] by blast
  then show ?thesis using inv a by (simp add: TriggerWANDown_def lst_inv_def nat_ok_def)
qed

section \<open>Runs\<close>

text \<open>
  What happens to the listener: events of the queue, calls by the interface objects, calls of other
  threads to the NAT application, and the threads that register for messages.
\<close>

datatype ct_call =
    EVENT "ipacm_config option" ct_event
  | NEIGH_ADD "ipacm_config option" ipacm_event_data_all
  | NEIGH_DEL u32
  | STA_ADD u32
  | STA_DEL u32
  | APP_CALL app_call

fun ct_run :: "listener_env \<Rightarrow> ct_call \<Rightarrow> ct_listener \<Rightarrow> ct_listener option" where
  "ct_run env (EVENT cfg e) l = event_callback env cfg e l"
| "ct_run env (NEIGH_ADD cfg d) l = HandleNeighIpAddrAddEvt env cfg d l"
| "ct_run env (NEIGH_DEL ip) l = HandleNeighIpAddrDelEvt env ip l"
| "ct_run env (STA_ADD ip) l = HandleSTAClientAddEvt env ip l"
| "ct_run env (STA_DEL ip) l = HandleSTAClientDelEvt env ip l"
| "ct_run env (APP_CALL c) l = nat_call (app_run (l_app env) c) l"

fun ct_allowed :: "ct_listener \<Rightarrow> ct_call \<Rightarrow> bool" where
  "ct_allowed l (EVENT cfg (CT_MESSAGE d)) \<longleftrightarrow> (\<forall>c. cfg = Some c \<longrightarrow> cfg_ok c)"
| "ct_allowed l (EVENT cfg (HANDLE_WAN_UP (Some d))) \<longleftrightarrow> wan_up_ok (ipv4_addr d) l"
| "ct_allowed l (EVENT cfg (HANDLE_WAN_DOWN (Some d))) \<longleftrightarrow> ipv4_addr d = wan_ipaddr l"
| "ct_allowed l (NEIGH_ADD cfg d) \<longleftrightarrow> (\<forall>c. cfg = Some c \<longrightarrow> cfg_ok c) \<and> (ct_pConfig l \<longrightarrow> cfg \<noteq> None)"
| "ct_allowed l (APP_CALL c) \<longleftrightarrow> \<not> table_call c \<and> (\<forall>a. nat_inst l = Some a \<longrightarrow> allowed a c)"
| "ct_allowed l c \<longleftrightarrow> True"

lemma event_inv:
  assumes inv: "lst_inv env l" and os: "os_ok (l_app env)" and ok: "ct_allowed l (EVENT cfg e)"
  shows "\<exists>l'. event_callback env cfg e l = Some l' \<and> lst_inv env l'"
proof (cases "(env, cfg, e, l)" rule: event_callback.cases)
  case (1 env' cfg' d l')
  then show ?thesis using ok ProcessCTMessage_inv [OF inv] by auto
next
  case (2 env' cfg' d l')
  note t = threads_inv [OF inv]
  show ?thesis
  proof (cases "WanUp l")
    case True
    then show ?thesis using 2 t by (simp add: Let_def)
  next
    case False
    have "wan_up_ok (ipv4_addr d) (snd (CreateConnTrackThreads env l))" using 2 ok t(4) by (simp add: wan_up_ok_def)
    from wan_up_inv [OF t(1) os _ this] show ?thesis using 2 False t(3) by (auto simp: Let_def)
  qed
next
  case (3 env' cfg' d l')
  then show ?thesis using ok inv wan_down_inv [OF inv os] by auto
qed (use inv iface_up_inv [OF inv] in auto)

lemma ct_run_inv:
  assumes inv: "lst_inv env l" and os: "os_ok (l_app env)" and ok: "ct_allowed l c"
  shows "\<exists>l'. ct_run env c l = Some l' \<and> lst_inv env l'"
proof (cases c)
  case (EVENT cfg e)
  then show ?thesis using event_inv [OF inv os] ok by simp
next
  case (APP_CALL k)
  have "\<exists>b. nat_call (app_run (l_app env) k) l = Some (l\<lparr>nat_inst := Some b\<rparr>) \<and> lst_inv env (l\<lparr>nat_inst := Some b\<rparr>)"
    by (rule nat_call_inv [OF inv]) (use ok APP_CALL safe_call nat_ok_inv in auto)
  then show ?thesis using APP_CALL by auto
qed (use inv ok neigh_add_inv neigh_del_inv sta_add_inv sta_del_inv in auto)

inductive ct_reach :: "listener_env \<Rightarrow> ct_listener \<Rightarrow> ct_listener \<Rightarrow> bool" for env l0 where
  start: "ct_reach env l0 l0"
| call: "ct_reach env l0 l \<Longrightarrow> ct_allowed l c \<Longrightarrow> ct_run env c l = Some l' \<Longrightarrow> ct_reach env l0 l'"

lemma ct_reach_inv:
  assumes "ct_reach env l0 l" "lst_inv env l0" "os_ok (l_app env)"
  shows "lst_inv env l"
  using assms
proof (induction rule: ct_reach.induct)
  case (call l c l')
  then have "lst_inv env l" by simp
  from ct_run_inv [OF this call.prems(2) call.hyps(2)] call.hyps(3) show ?case by simp
qed simp

end
