(* ===== verification/Ipacm_Rm.thy ===== *)
theory Ipacm_Rm
  imports Ipacm_Config
begin

text \<open>
  The requests that \<open>AddRmDepend\<close> and \<open>DelRmDepend\<close> send to the resource manager, against what
  they are for: the kernel holds the dependencies of exactly the entries whose producer and
  consumer are both up, and no request adds a dependency it holds or deletes one it does not.
\<close>

section \<open>What the kernel holds\<close>

type_synonym rm_dep = "ipa_rm_resource_name \<times> ipa_rm_resource_name"

text \<open>The dependencies held after a list of requests, \<open>None\<close> when one of them is redundant.\<close>

fun run_deps :: "rm_ioctl list \<Rightarrow> rm_dep set \<Rightarrow> rm_dep set option" where
  "run_deps [] D = Some D"
| "run_deps (IPA_IOC_RM_ADD_DEPENDENCY p c # rs) D = (if (p, c) \<in> D then None else run_deps rs (insert (p, c) D))"
| "run_deps (IPA_IOC_RM_DEL_DEPENDENCY p c # rs) D = (if (p, c) \<in> D then run_deps rs (D - {(p, c)}) else None)"

lemma run_deps_append: "run_deps (xs @ ys) D = run_deps xs D \<bind> run_deps ys"
  by (induction xs D rule: run_deps.induct) simp_all

definition entry_deps :: "ipa_rm_client \<Rightarrow> rm_dep set" where
  "entry_deps e = {(producer_rm1 e, consumer_rm1 e), (producer_rm2 e, consumer_rm2 e)}"

definition held_deps :: "ipa_rm_client \<Rightarrow> rm_dep set" where
  "held_deps e =
     (if rm_set e then if rx_bypass_ipa e then {(producer_rm2 e, consumer_rm2 e)} else entry_deps e else {})"

definition rm_names :: "ipa_rm_client \<Rightarrow> ipa_rm_resource_name list" where
  "rm_names e = [producer_rm1 e, consumer_rm1 e, producer_rm2 e, consumer_rm2 e]"

text \<open>
  An entry is consistent when it is set exactly when both ends are up, its bypass flag is the one
  given for its producer, and its two dependencies differ.
\<close>

definition entry_ok :: "(ipa_rm_resource_name \<Rightarrow> bool) \<Rightarrow> ipa_rm_client \<Rightarrow> bool" where
  "entry_ok bp e \<longleftrightarrow> (rm_set e \<longleftrightarrow> producer1_up e \<and> consumer1_up e) \<and>
     (producer1_up e \<longrightarrow> rx_bypass_ipa e = bp (producer_rm1 e)) \<and>
     (producer_rm1 e, consumer_rm1 e) \<noteq> (producer_rm2 e, consumer_rm2 e) \<and> producer_rm1 e \<noteq> consumer_rm1 e"

section \<open>One entry\<close>

lemma entry_deps_names: "rm_names e' = rm_names e \<Longrightarrow> entry_deps e' = entry_deps e"
  by (simp add: rm_names_def entry_deps_def)

definition entry_step :: "(ipa_rm_resource_name \<Rightarrow> bool) \<Rightarrow> (ipa_rm_client \<Rightarrow> ipa_rm_client \<times> rm_ioctl list) \<Rightarrow> bool" where
  "entry_step bp f \<longleftrightarrow> (\<forall>e S. entry_ok bp e \<longrightarrow> S \<inter> entry_deps e = {} \<longrightarrow>
     entry_ok bp (fst (f e)) \<and> rm_names (fst (f e)) = rm_names e \<and>
     run_deps (snd (f e)) (S \<union> held_deps e) = Some (S \<union> held_deps (fst (f e))))"

lemma add_rm_entry_step: "entry_step bp (add_rm_entry rm1 (bp rm1))"
  unfolding entry_step_def
proof (intro allI impI)
  fix e S assume ok: "entry_ok bp e" and S: "S \<inter> entry_deps e = {}"
  show "entry_ok bp (fst (add_rm_entry rm1 (bp rm1) e)) \<and> rm_names (fst (add_rm_entry rm1 (bp rm1) e)) = rm_names e \<and>
      run_deps (snd (add_rm_entry rm1 (bp rm1) e)) (S \<union> held_deps e) = Some (S \<union> held_deps (fst (add_rm_entry rm1 (bp rm1) e)))"
    using ok S
    by (auto simp: add_rm_entry_def entry_ok_def rm_names_def held_deps_def entry_deps_def dep_requests_def Let_def)
qed

lemma del_rm_entry_step: "entry_step bp (del_rm_entry rm1 n)"
  unfolding entry_step_def
proof (intro allI impI)
  fix e S assume ok: "entry_ok bp e" and S: "S \<inter> entry_deps e = {}"
  show "entry_ok bp (fst (del_rm_entry rm1 n e)) \<and> rm_names (fst (del_rm_entry rm1 n e)) = rm_names e \<and>
      run_deps (snd (del_rm_entry rm1 n e)) (S \<union> held_deps e) = Some (S \<union> held_deps (fst (del_rm_entry rm1 n e)))"
    using ok S
    by (auto simp: del_rm_entry_def entry_ok_def rm_names_def held_deps_def entry_deps_def dep_requests_def Let_def)
qed


section \<open>The table\<close>

text \<open>No dependency belongs to two entries.\<close>

fun deps_apart :: "ipa_rm_client list \<Rightarrow> bool" where
  "deps_apart [] = True"
| "deps_apart (e # es) \<longleftrightarrow> (\<forall>e'\<in>set es. entry_deps e \<inter> entry_deps e' = {}) \<and> deps_apart es"

lemma deps_apart_names:
  "map rm_names es' = map rm_names es \<Longrightarrow> deps_apart es' = deps_apart es"
proof (induction es arbitrary: es')
  case Nil
  then show ?case by simp
next
  case (Cons e es)
  then obtain e' fs where es': "es' = e' # fs" "rm_names e' = rm_names e" "map rm_names fs = map rm_names es" by auto
  have "entry_deps ` set fs = entry_deps ` set es"
  proof -
    have "entry_deps = (\<lambda>ns. {(ns ! 0, ns ! 1), (ns ! 2, ns ! 3)}) \<circ> rm_names"
      by (rule ext) (simp add: entry_deps_def rm_names_def)
    then have "map entry_deps fs = map entry_deps es" using es'(3) by (metis (no_types, lifting) list.map_comp)
    then show ?thesis by (metis list.set_map)
  qed
  then have "(\<forall>x\<in>set fs. entry_deps e \<inter> entry_deps x = {}) = (\<forall>x\<in>set es. entry_deps e \<inter> entry_deps x = {})"
    by (metis (no_types, lifting) image_iff)
  then show ?case using Cons.IH [OF es'(3)] es' entry_deps_names [OF es'(2)] by simp
qed

definition table_held :: "ipa_rm_client list \<Rightarrow> rm_dep set" where
  "table_held es = (\<Union>e\<in>set es. held_deps e)"

lemma held_sub: "held_deps e \<subseteq> entry_deps e"
  by (auto simp: held_deps_def entry_deps_def)

lemma table_step:
  assumes f: "entry_step bp f" and ok: "\<forall>e\<in>set es. entry_ok bp e" and apart: "deps_apart es"
    and S: "\<forall>e\<in>set es. S \<inter> entry_deps e = {}"
  shows "(\<forall>e\<in>set es. entry_ok bp (fst (f e)) \<and> rm_names (fst (f e)) = rm_names e) \<and>
    run_deps (concat (map (snd \<circ> f) es)) (S \<union> table_held es) = Some (S \<union> table_held (map (fst \<circ> f) es))"
  using ok apart S
proof (induction es arbitrary: S)
  case Nil
  then show ?case by (simp add: table_held_def)
next
  case (Cons e es)
  let ?R = "S \<union> table_held es"
  have "?R \<inter> entry_deps e = {}" using Cons.prems held_sub by (fastforce simp: table_held_def)
  with f Cons.prems(1) have e: "entry_ok bp (fst (f e))" "rm_names (fst (f e)) = rm_names e"
    "run_deps (snd (f e)) (?R \<union> held_deps e) = Some (?R \<union> held_deps (fst (f e)))"
    unfolding entry_step_def by (metis list.set_intros(1))+
  have "held_deps (fst (f e)) \<subseteq> entry_deps e" using held_sub entry_deps_names [OF e(2)] by metis
  then have "\<forall>x\<in>set es. (S \<union> held_deps (fst (f e))) \<inter> entry_deps x = {}" using Cons.prems(2,3) by fastforce
  from Cons.IH [OF _ _ this] Cons.prems have IH: "\<forall>x\<in>set es. entry_ok bp (fst (f x)) \<and> rm_names (fst (f x)) = rm_names x"
    "run_deps (concat (map (snd \<circ> f) es)) (S \<union> held_deps (fst (f e)) \<union> table_held es) =
      Some (S \<union> held_deps (fst (f e)) \<union> table_held (map (fst \<circ> f) es))" by (simp_all add: comp_def)
  have "S \<union> table_held (e # es) = ?R \<union> held_deps e" "?R \<union> held_deps (fst (f e)) = S \<union> held_deps (fst (f e)) \<union> table_held es"
    by (auto simp: table_held_def)
  then show ?case using e IH by (simp add: run_deps_append table_held_def Un_ac comp_def)
qed

definition rm_inv :: "(ipa_rm_resource_name \<Rightarrow> bool) \<Rightarrow> ipacm_config \<Rightarrow> bool" where
  "rm_inv bp c \<longleftrightarrow> map rm_names (ipa_rm_tbl c) = map rm_names rm_tbl_init \<and> (\<forall>e\<in>set (ipa_rm_tbl c). entry_ok bp e) \<and>
     run_deps (rm_ioctls c) {} = Some (table_held (ipa_rm_tbl c))"

lemma init_apart: "deps_apart rm_tbl_init"
  by (simp add: rm_tbl_init_def rm_entry_def entry_deps_def)

lemma rm_inv_init:
  assumes "ipa_rm_tbl c = rm_tbl_init" "rm_ioctls c = []"
  shows "rm_inv bp c"
  using assms by (simp add: rm_inv_def rm_tbl_init_def rm_entry_def entry_ok_def table_held_def held_deps_def)

lemma rm_inv_step:
  assumes inv: "rm_inv bp c" and f: "entry_step bp f"
    and c': "ipa_rm_tbl c' = map (fst \<circ> f) (ipa_rm_tbl c)" "rm_ioctls c' = rm_ioctls c @ concat (map (snd \<circ> f) (ipa_rm_tbl c))"
  shows "rm_inv bp c'"
proof -
  let ?T = "ipa_rm_tbl c"
  have i: "map rm_names ?T = map rm_names rm_tbl_init" "\<forall>e\<in>set ?T. entry_ok bp e"
    "run_deps (rm_ioctls c) {} = Some (table_held ?T)" using inv by (simp_all add: rm_inv_def)
  have "deps_apart ?T" using deps_apart_names [OF i(1)] init_apart by simp
  from table_step [OF f i(2) this, of "{}"]
  have s: "\<forall>e\<in>set ?T. entry_ok bp (fst (f e)) \<and> rm_names (fst (f e)) = rm_names e"
    "run_deps (concat (map (snd \<circ> f) ?T)) (table_held ?T) = Some (table_held (map (fst \<circ> f) ?T))" by simp_all
  have "map rm_names (map (fst \<circ> f) ?T) = map rm_names ?T" using s(1) by simp
  then show ?thesis using i s by (simp add: rm_inv_def c' run_deps_append)
qed

section \<open>Any sequence of calls\<close>

text \<open>The interfaces of IPACM come and go in any order; each producer has one bypass flag.\<close>

inductive rm_reach :: "(ipa_rm_resource_name \<Rightarrow> bool) \<Rightarrow> ipacm_config \<Rightarrow> ipacm_config \<Rightarrow> bool" for bp c0 where
  start: "rm_reach bp c0 c0"
| add: "rm_reach bp c0 c \<Longrightarrow> rm_reach bp c0 (AddRmDepend rm (bp rm) c)"
| del: "rm_reach bp c0 c \<Longrightarrow> rm_reach bp c0 (DelRmDepend rm c)"

lemma rm_reach_inv:
  assumes "rm_reach bp c0 c" "rm_inv bp c0"
  shows "rm_inv bp c"
  using assms
proof (induction rule: rm_reach.induct)
  case start
  then show ?case .
next
  case (add c rm)
  show ?case
    by (rule rm_inv_step [OF add.IH [OF add.prems] add_rm_entry_step [of bp rm]]) (simp_all add: AddRmDepend_def Let_def comp_def)
next
  case (del c rm)
  show ?case
    by (rule rm_inv_step [OF del.IH [OF del.prems] del_rm_entry_step [of bp rm "ipa_rm_a2_check (if rm = IPA_RM_RESOURCE_Q6_CONS
        then c\<lparr>ipa_rm_a2_check := ipa_rm_a2_check c - 1\<rparr> else c)"]])
      (simp_all add: DelRmDepend_def Let_def comp_def)
qed

end
