(* ===== verification/Ipacm_Events_Correct.thy ===== *)
theory Ipacm_Events_Correct
  imports Ipacm_Events
begin

text \<open>
  The registrations and the command queue as lists: what each operation does to them, the queue as
  another message store, and the dispatch of an event to its listeners.
\<close>

section \<open>The list of registrations\<close>

definition rnx :: "ipacm_events \<Rightarrow> nat \<Rightarrow> nat" where
  "rnx s p = (case regs s p of Some n \<Rightarrow> ce_next n | None \<Rightarrow> 0)"

definition reg_item :: "ipacm_events \<Rightarrow> nat \<Rightarrow> nat \<times> nat" where
  "reg_item s p = (case regs s p of Some n \<Rightarrow> (ce_event n, ce_obj n) | None \<Rightarrow> (0, 0))"

definition reg_rep :: "ipacm_events \<Rightarrow> nat list \<Rightarrow> bool" where
  "reg_rep s ps \<longleftrightarrow> path (rnx s) (reg_head s) ps \<and> distinct ps \<and> (\<forall>p\<in>set ps. regs s p \<noteq> None)"

abbreviation regs_of :: "ipacm_events \<Rightarrow> nat list \<Rightarrow> (nat \<times> nat) list" where
  "regs_of s ps \<equiv> map (reg_item s) ps"

lemma reg_rep_node:
  assumes "reg_rep s ps" "p \<in> set ps"
  obtains n where "regs s p = Some n" "ce_next n = rnx s p" "reg_item s p = (ce_event n, ce_obj n)"
  using assms by (auto simp: reg_rep_def rnx_def reg_item_def)

lemma reg_rep_same:
  assumes "regs s' = regs s" "reg_head s' = reg_head s"
  shows "reg_rep s' ps = reg_rep s ps" "rnx s' = rnx s" "reg_item s' = reg_item s"
proof -
  show 1: "rnx s' = rnx s" "reg_item s' = reg_item s" using assms by (auto simp: rnx_def reg_item_def)
  show "reg_rep s' ps = reg_rep s ps" using assms 1 by (simp add: reg_rep_def)
qed

lemma path_nonzero: "path nxt x as \<Longrightarrow> 0 \<notin> set as"
  by (induction as arbitrary: x) auto

lemma last_reg_spec:
  assumes "path (rnx s) a (a # as)" "\<forall>p\<in>set (a # as). regs s p \<noteq> None"
  shows "last_reg a s = Some (last (a # as))"
  using assms
proof (induction as arbitrary: a)
  case Nil
  then obtain n where "regs s a = Some n" "ce_next n = 0" by (auto simp: rnx_def)
  then show ?case by (simp add: last_reg.simps [of a])
next
  case (Cons b bs)
  then obtain n where n: "regs s a = Some n" "ce_next n = b" "b \<noteq> 0" by (auto simp: rnx_def)
  have "last_reg b s = Some (last (b # bs))" by (rule Cons.IH) (use Cons.prems n in auto)
  then show ?case using n by (simp add: last_reg.simps [of a])
qed

lemma registr_spec:
  assumes rep: "reg_rep s ps" and nw: "nw \<noteq> 0" "regs s nw = None"
  shows "\<exists>s'. registr nw ev obj s = Some (0, s') \<and> reg_rep s' (ps @ [nw]) \<and>
    regs_of s' (ps @ [nw]) = regs_of s ps @ [(ev, obj)]"
proof -
  let ?s = "s\<lparr>regs := (regs s)(nw \<mapsto> \<lparr>ce_event = ev, ce_obj = obj, ce_next = 0\<rparr>)\<rparr>"
  have ps: "nw \<notin> set ps" using rep nw(2) by (auto simp: reg_rep_def)
  have nx: "rnx ?s = (rnx s)(nw := 0)" by (auto simp: rnx_def)
  show ?thesis
  proof (cases "ps = []")
    case True
    then have "reg_head s = 0" using rep by (simp add: reg_rep_def)
    then show ?thesis using True nw by (simp add: registr_def reg_rep_def rnx_def reg_item_def)
  next
    case False
    then have hd: "reg_head s = hd ps" "reg_head s \<noteq> 0" using rep by (cases ps; auto simp: reg_rep_def)+
    have "path (rnx ?s) (hd ps) (hd ps # tl ps)" using rep ps False hd(1) by (simp add: nx reg_rep_def)
    from last_reg_spec [OF this] rep False ps have l: "last_reg (hd ps) ?s = Some (last ps)"
      by (auto simp: reg_rep_def dest: list.set_sel(2))
    have ln: "last ps \<noteq> nw" "last ps \<in> set ps" using ps False by auto
    obtain n where n: "regs s (last ps) = Some n" using reg_rep_node [OF rep ln(2)] by metis
    let ?s' = "?s\<lparr>regs := (regs ?s)(last ps \<mapsto> n\<lparr>ce_next := nw\<rparr>)\<rparr>"
    have r: "registr nw ev obj s = Some (0, ?s')" using hd nw l n ln by (simp add: registr_def Let_def)
    have "rnx ?s' = (rnx s)(nw := 0, last ps := nw)" using ln by (auto simp: rnx_def)
    then have "path (rnx ?s') (reg_head ?s') (ps @ [nw])"
      using path_snoc [of "rnx s" "reg_head s" ps nw] rep False ps nw by (simp add: reg_rep_def)
    then have "reg_rep ?s' (ps @ [nw])" using rep ps by (auto simp: reg_rep_def)
    moreover have "regs_of ?s' (ps @ [nw]) = regs_of s ps @ [(ev, obj)]" using ps ln n by (auto simp: reg_item_def)
    ultimately show ?thesis using r by blast
  qed
qed

lemma dereg_loop_spec:
  assumes "reg_rep s (as @ bs)" "as \<noteq> [] \<Longrightarrow> prev = last as" "tmp = (if bs = [] then 0 else hd bs)"
  shows "\<exists>s'. dereg_loop param tmp prev s = Some s' \<and> reg_rep s' (as @ filter (\<lambda>p. snd (reg_item s p) \<noteq> param) bs) \<and>
    (\<forall>p. reg_item s' p = (if p \<in> set bs \<and> snd (reg_item s p) = param then (0, 0) else reg_item s p)) \<and>
    (\<forall>p. regs s' p = None \<longleftrightarrow> regs s p = None \<or> p \<in> set bs \<and> snd (reg_item s p) = param) \<and>
    called s' = called s \<and> event_stats s' = event_stats s \<and> freed_data s' = freed_data s \<and> msgs s' = msgs s"
  using assms
proof (induction bs arbitrary: as prev tmp s)
  case Nil
  then show ?case by (simp add: dereg_loop.simps [of param 0])
next
  case (Cons b bs)
  have tmp: "tmp = b" "b \<noteq> 0" using Cons.prems(1,3) path_nonzero [of "rnx s" "reg_head s" "as @ b # bs"] by (auto simp: reg_rep_def)
  obtain n where n: "regs s b = Some n" "ce_next n = rnx s b" "reg_item s b = (ce_event n, ce_obj n)"
    by (rule reg_rep_node [OF Cons.prems(1), of b]) simp
  have nxt: "rnx s b = (if bs = [] then 0 else hd bs)"
  proof -
    have "path (rnx s) (rnx s b) bs" using Cons.prems(1) path_drop by (auto simp: reg_rep_def)
    then show ?thesis by (cases bs) auto
  qed
  have dist: "distinct (as @ b # bs)" using Cons.prems(1) by (simp add: reg_rep_def)
  show ?case
  proof (cases "ce_obj n = param")
    case False
    have "reg_rep s ((as @ [b]) @ bs)" using Cons.prems(1) by simp
    from Cons.IH [OF this, of b "rnx s b"] nxt
    obtain s' where "dereg_loop param (rnx s b) b s = Some s'"
      "reg_rep s' ((as @ [b]) @ filter (\<lambda>p. snd (reg_item s p) \<noteq> param) bs)"
      "\<forall>p. reg_item s' p = (if p \<in> set bs \<and> snd (reg_item s p) = param then (0, 0) else reg_item s p)"
      "\<forall>p. regs s' p = None \<longleftrightarrow> regs s p = None \<or> p \<in> set bs \<and> snd (reg_item s p) = param"
      "called s' = called s \<and> event_stats s' = event_stats s \<and> freed_data s' = freed_data s \<and> msgs s' = msgs s" by auto
    then show ?thesis using False n tmp by (auto simp: dereg_loop.simps [of param b])
  next
    case True
    define s1 where "s1 = (if as = [] then s\<lparr>reg_head := rnx s b, regs := (regs s)(b := None)\<rparr>
      else s\<lparr>regs := (regs s)(last as \<mapsto> (the (regs s (last as)))\<lparr>ce_next := rnx s b\<rparr>, b := None)\<rparr>)"
    have la: "as \<noteq> [] \<Longrightarrow> last as \<in> set as \<and> last as \<noteq> b \<and> regs s (last as) \<noteq> None"
      using dist Cons.prems(1) by (auto simp: reg_rep_def)
    have head: "b = reg_head s \<longleftrightarrow> as = []"
    proof (cases as)
      case Nil
      then show ?thesis using Cons.prems(1) by (simp add: reg_rep_def)
    next
      case (Cons a as')
      then show ?thesis using Cons.prems(1) dist by (auto simp: reg_rep_def)
    qed
    have run: "dereg_loop param tmp prev s = dereg_loop param (rnx s b) prev s1"
    proof (cases "as = []")
      case True
      have "b = reg_head s" using True head by blast
      with True n tmp(2) \<open>ce_obj n = param\<close> show ?thesis
        unfolding tmp(1) by (subst dereg_loop.simps) (simp add: s1_def)
    next
      case False
      then obtain m where "regs s (last as) = Some m" "prev = last as" using la Cons.prems(2) by auto
      then show ?thesis using n tmp head False la \<open>ce_obj n = param\<close>
        by (simp add: dereg_loop.simps [of param b] s1_def set_ce_next_def)
    qed
    have item1: "reg_item s1 p = (if p = b then (0, 0) else reg_item s p)" for p
      using la by (auto simp: s1_def reg_item_def)
    have dom1: "regs s1 p = None \<longleftrightarrow> p = b \<or> regs s p = None" for p
      using la by (auto simp: s1_def)
    have "reg_rep s1 (as @ bs)"
    proof (cases "as = []")
      case True
      have "rnx s1 = (rnx s)(b := 0)" using True by (auto simp: s1_def rnx_def)
      then show ?thesis using True Cons.prems(1) by (auto simp: reg_rep_def s1_def)
    next
      case False
      then have "rnx s1 = (rnx s)(last as := rnx s b, b := 0)" using la by (auto simp: s1_def rnx_def)
      moreover have "reg_head s1 = reg_head s" using False by (simp add: s1_def)
      ultimately have "path (rnx s1) (reg_head s1) (as @ bs)"
        using path_remove [of "rnx s" "reg_head s" as b bs 0] Cons.prems(1) False by (simp add: reg_rep_def)
      then show ?thesis using Cons.prems(1) dom1 by (auto simp: reg_rep_def)
    qed
    from Cons.IH [OF this Cons.prems(2), of "rnx s b"] nxt
    obtain s' where s': "dereg_loop param (rnx s b) prev s1 = Some s'"
      "reg_rep s' (as @ filter (\<lambda>p. snd (reg_item s1 p) \<noteq> param) bs)"
      "\<forall>p. reg_item s' p = (if p \<in> set bs \<and> snd (reg_item s1 p) = param then (0, 0) else reg_item s1 p)"
      "\<forall>p. regs s' p = None \<longleftrightarrow> regs s1 p = None \<or> p \<in> set bs \<and> snd (reg_item s1 p) = param"
      "called s' = called s1 \<and> event_stats s' = event_stats s1 \<and> freed_data s' = freed_data s1 \<and> msgs s' = msgs s1" by auto
    have fl: "filter (\<lambda>p. snd (reg_item s1 p) \<noteq> param) bs = filter (\<lambda>p. snd (reg_item s p) \<noteq> param) bs"
      by (rule filter_cong) (use dist item1 in auto)
    have "b \<notin> set bs" using dist by simp
    then show ?thesis using s' run True n item1 dom1 unfolding fl by (intro exI [of _ s']) (auto simp: s1_def)
  qed
qed


lemma deregistr_spec:
  assumes "reg_rep s ps"
  shows "\<exists>s'. deregistr param s = Some (0, s') \<and> reg_rep s' (filter (\<lambda>p. snd (reg_item s p) \<noteq> param) ps) \<and>
    regs_of s' (filter (\<lambda>p. snd (reg_item s p) \<noteq> param) ps) = filter (\<lambda>(e, obj). obj \<noteq> param) (regs_of s ps) \<and>
    (\<forall>p. reg_item s' p = (if p \<in> set ps \<and> snd (reg_item s p) = param then (0, 0) else reg_item s p)) \<and>
    (\<forall>p. regs s' p = None \<longleftrightarrow> regs s p = None \<or> p \<in> set ps \<and> snd (reg_item s p) = param) \<and>
    called s' = called s \<and> event_stats s' = event_stats s \<and> freed_data s' = freed_data s \<and> msgs s' = msgs s"
proof -
  have "reg_head s = (if ps = [] then 0 else hd ps)" using assms by (cases ps) (auto simp: reg_rep_def)
  then obtain s' where s': "dereg_loop param (reg_head s) (reg_head s) s = Some s'"
    "reg_rep s' (filter (\<lambda>p. snd (reg_item s p) \<noteq> param) ps)"
    "\<forall>p. reg_item s' p = (if p \<in> set ps \<and> snd (reg_item s p) = param then (0, 0) else reg_item s p)"
    "\<forall>p. regs s' p = None \<longleftrightarrow> regs s p = None \<or> p \<in> set ps \<and> snd (reg_item s p) = param"
    "called s' = called s \<and> event_stats s' = event_stats s \<and> freed_data s' = freed_data s \<and> msgs s' = msgs s"
    using dereg_loop_spec [of s "[]" ps "reg_head s" "reg_head s" param] assms by auto
  have "regs_of s' (filter (\<lambda>p. snd (reg_item s p) \<noteq> param) ps) = regs_of s (filter (\<lambda>p. snd (reg_item s p) \<noteq> param) ps)"
    using s'(3) by simp
  also have "\<dots> = filter (\<lambda>(e, obj). obj \<noteq> param) (regs_of s ps)"
    by (induction ps) (auto simp: case_prod_beta)
  finally show ?thesis using s' by (auto simp: deregistr_def)
qed

section \<open>The command queue\<close>

definition mnx :: "ipacm_events \<Rightarrow> nat \<Rightarrow> nat" where
  "mnx s p = (case msgs s p of Some m \<Rightarrow> m_next m | None \<Rightarrow> 0)"

text \<open>The tail is the last message, except that it is stale while the queue is empty.\<close>

definition cq_rep :: "ipacm_events \<Rightarrow> nat list \<Rightarrow> bool" where
  "cq_rep s ps \<longleftrightarrow> path (mnx s) (Head s) ps \<and> distinct ps \<and> (\<forall>p\<in>set ps. msgs s p \<noteq> None) \<and>
     (ps \<noteq> [] \<longrightarrow> Tail s = last ps)"

definition cq_evts :: "ipacm_events \<Rightarrow> nat list \<Rightarrow> ipacm_cmd_q_data list" where
  "cq_evts s ps = map (\<lambda>p. m_evt (the (msgs s p))) ps"

definition cq_items :: "ipacm_events \<Rightarrow> ipacm_cmd_q_data list \<Rightarrow> bool" where
  "cq_items s xs \<longleftrightarrow> (\<exists>ps. cq_rep s ps \<and> cq_evts s ps = xs)"

definition cq_put :: "nat \<Rightarrow> ipacm_cmd_q_data \<Rightarrow> ipacm_events \<Rightarrow> ipacm_events option" where
  "cq_put itm d s = do { (r, s) \<leftarrow> PostEvt itm True True True d s; if r = 0 then Some s else None }"

text \<open>Taking a message as \<open>Process\<close> does: out of the queue, then deleted.\<close>

definition cq_take :: "ipacm_events \<Rightarrow> (ipacm_cmd_q_data \<times> ipacm_events) option" where
  "cq_take s = do { (itm, s) \<leftarrow> dequeue s; m \<leftarrow> msgs s itm; Some (m_evt m, s\<lparr>msgs := (msgs s)(itm := None)\<rparr>) }"

lemma PostEvt_spec:
  assumes rep: "cq_rep s ps" and itm: "itm \<noteq> 0" "msgs s itm = None"
  shows "\<exists>s'. PostEvt itm True signal_ok unlock_ok d s = Some (if signal_ok \<and> unlock_ok then 0 else -1, s') \<and>
    cq_rep s' (ps @ [itm]) \<and> cq_evts s' (ps @ [itm]) = cq_evts s ps @ [d] \<and>
    regs s' = regs s \<and> reg_head s' = reg_head s \<and> called s' = called s \<and> event_stats s' = event_stats s"
proof -
  let ?s = "s\<lparr>msgs := (msgs s)(itm \<mapsto> \<lparr>m_next = 0, m_evt = d\<rparr>)\<rparr>"
  have ps: "itm \<notin> set ps" using rep itm(2) by (auto simp: cq_rep_def)
  show ?thesis
  proof (cases "ps = []")
    case True
    then have "Head s = 0" using rep by (simp add: cq_rep_def)
    then show ?thesis using True itm by (simp add: PostEvt_def enqueue_def cq_rep_def cq_evts_def mnx_def)
  next
    case False
    have ln: "last ps \<in> set ps" "last ps \<noteq> itm" using False ps by auto
    then obtain m where m: "msgs s (last ps) = Some m" using rep by (auto simp: cq_rep_def)
    have r': "path (mnx s) (Head s) ps" "Tail s = last ps" using rep False by (simp_all add: cq_rep_def)
    have hd: "Head s \<noteq> 0" "Tail s = last ps" "last ps \<noteq> 0"
      using r' path_hd [OF r'(1)] path_nonzero [OF r'(1)] ln False by metis+
    let ?s' = "?s\<lparr>msgs := (msgs ?s)(last ps \<mapsto> m\<lparr>m_next := itm\<rparr>), Tail := itm\<rparr>"
    have r: "PostEvt itm True signal_ok unlock_ok d s = Some (if signal_ok \<and> unlock_ok then 0 else -1, ?s')"
      using hd itm ln m by (simp add: PostEvt_def enqueue_def setnext_def Let_def)
    have "mnx ?s' = (mnx s)(itm := 0, last ps := itm)" using ln by (auto simp: mnx_def)
    then have "path (mnx ?s') (Head ?s') (ps @ [itm])"
      using path_snoc [of "mnx s" "Head s" ps itm] rep False ps itm by (simp add: cq_rep_def)
    then have "cq_rep ?s' (ps @ [itm])" using rep ps by (auto simp: cq_rep_def)
    moreover have "cq_evts ?s' (ps @ [itm]) = cq_evts s ps @ [d]" using ps ln m by (auto simp: cq_evts_def)
    ultimately show ?thesis using r by (intro exI [of _ ?s']) simp
  qed
qed

lemma dequeue_spec:
  assumes "cq_rep s (p # ps)"
  shows "dequeue s = Some (p, s\<lparr>Head := mnx s p\<rparr>)"
    "cq_rep (s\<lparr>Head := mnx s p, msgs := (msgs s)(p := None)\<rparr>) ps"
    "cq_evts (s\<lparr>Head := mnx s p, msgs := (msgs s)(p := None)\<rparr>) ps = cq_evts s ps"
proof -
  have pp: "p \<noteq> 0" "Head s = p" "msgs s p \<noteq> None" "p \<notin> set ps" using assms by (auto simp: cq_rep_def)
  then show "dequeue s = Some (p, s\<lparr>Head := mnx s p\<rparr>)" by (auto simp: dequeue_def mnx_def)
  have "mnx (s\<lparr>Head := mnx s p, msgs := (msgs s)(p := None)\<rparr>) = (mnx s)(p := 0)" by (auto simp: mnx_def)
  then show "cq_rep (s\<lparr>Head := mnx s p, msgs := (msgs s)(p := None)\<rparr>) ps"
    using assms pp by (auto simp: cq_rep_def)
  show "cq_evts (s\<lparr>Head := mnx s p, msgs := (msgs s)(p := None)\<rparr>) ps = cq_evts s ps"
    using pp by (auto simp: cq_evts_def)
qed

interpretation cq: message_store cq_items "\<lambda>itm d s. itm \<noteq> 0 \<and> msgs s itm = None" cq_put cq_take id
proof unfold_locales
  fix s xs c x assume "cq_items s xs" "c \<noteq> 0 \<and> msgs s c = None"
  then obtain ps where "cq_rep s ps" "cq_evts s ps = xs" "c \<noteq> 0" "msgs s c = None" by (auto simp: cq_items_def)
  from PostEvt_spec [OF this(1,3,4), of True True x] this(2)
  show "\<exists>s'. cq_put c x s = Some s' \<and> cq_items s' (xs @ [x])" by (auto simp: cq_put_def cq_items_def)
next
  fix s x xs assume "cq_items s (x # xs)"
  then obtain ps where ps: "cq_rep s ps" "cq_evts s ps = x # xs" by (auto simp: cq_items_def)
  then obtain p qs where p: "ps = p # qs" by (cases ps) (auto simp: cq_evts_def)
  obtain m where m: "msgs s p = Some m" using ps p by (auto simp: cq_rep_def)
  have "m_evt m = x" "cq_evts s qs = xs" using ps(2) p m by (simp_all add: cq_evts_def)
  then have "cq_take s = Some (id x, s\<lparr>Head := mnx s p, msgs := (msgs s)(p := None)\<rparr>)"
    "cq_items (s\<lparr>Head := mnx s p, msgs := (msgs s)(p := None)\<rparr>) xs"
    using dequeue_spec [OF ps(1) [unfolded p]] m unfolding cq_take_def cq_items_def by auto
  then show "\<exists>s'. cq_take s = Some (id x, s') \<and> cq_items s' xs" by blast
qed

section \<open>Dispatching an event\<close>

text \<open>
  A callback of a listener keeps the registrations when it returns and leaves them, the record of
  callbacks and the counters alone; it may post events.
\<close>

definition keeps_at :: "listener \<Rightarrow> nat \<Rightarrow> bool" where
  "keeps_at cb obj \<longleftrightarrow> (\<forall>e d s. \<exists>s'. cb obj e d s = Some s' \<and> regs s' = regs s \<and> reg_head s' = reg_head s \<and>
     called s' = called s \<and> event_stats s' = event_stats s)"

definition calls_for :: "ipacm_cmd_q_data \<Rightarrow> (nat \<times> nat) list \<Rightarrow> (nat \<times> nat \<times> nat) list" where
  "calls_for d rs = map (\<lambda>(e, obj). (obj, event d, evt_data d)) (filter (\<lambda>(e, obj). e = event d) rs)"

lemma calls_for_simps [simp]:
  "calls_for d [] = []"
  "calls_for d (r # rs) = (if fst r = event d then (snd r, event d, evt_data d) # calls_for d rs else calls_for d rs)"
  "calls_for d (rs @ rs') = calls_for d rs @ calls_for d rs'"
  by (auto simp: calls_for_def case_prod_beta)

text \<open>The state in which the callback of a node runs.\<close>

definition counted :: "ipacm_cmd_q_data \<Rightarrow> nat \<Rightarrow> ipacm_events \<Rightarrow> ipacm_events" where
  "counted d obj s = s\<lparr>event_stats := (event_stats s)[event d := event_stats s ! event d + 1],
     called := called s @ [(obj, event d, evt_data d)]\<rparr>"

lemma counted_simps [simp]:
  "regs (counted d obj s) = regs s" "reg_head (counted d obj s) = reg_head s"
  "called (counted d obj s) = called s @ [(obj, event d, evt_data d)]"
  "length (event_stats (counted d obj s)) = length (event_stats s)"
  "reg_rep (counted d obj s) ps = reg_rep s ps" "rnx (counted d obj s) = rnx s" "reg_item (counted d obj s) = reg_item s"
  using reg_rep_same [of "counted d obj s" s] by (simp_all add: counted_def)

lemma process_node:
  assumes "regs s p = Some n" "p \<noteq> 0" "event d < length (event_stats s)"
  shows "process_loop_evt cb d p s =
    (if event d = ce_event n
     then cb (ce_obj n) (event d) (evt_data d) (counted d (ce_obj n) s) \<bind> process_loop_evt cb d (rnx s p)
     else process_loop_evt cb d (rnx s p) s)"
  using assms by (simp add: process_loop_evt.simps [of cb d p] counted_def rnx_def)

text \<open>The loop over the nodes \<open>ps\<close>, up to the node \<open>qs\<close> starts with.\<close>

lemma evt_loop_prefix:
  assumes cb: "\<forall>p\<in>set ps. fst (reg_item s p) = event d \<longrightarrow> keeps_at cb (snd (reg_item s p))"
    and ev: "event d < length (event_stats s)"
    and nodes: "path (rnx s) tmp (ps @ qs)" "\<forall>p\<in>set ps. regs s p \<noteq> None"
  shows "\<exists>s'. process_loop_evt cb d tmp s = process_loop_evt cb d (if qs = [] then 0 else hd qs) s' \<and>
    regs s' = regs s \<and> reg_head s' = reg_head s \<and>
    called s' = called s @ calls_for d (regs_of s ps) \<and> length (event_stats s') = length (event_stats s)"
  using cb ev nodes
proof (induction ps arbitrary: tmp s)
  case Nil
  then show ?case by (cases qs) auto
next
  case (Cons p ps)
  then obtain n where n: "regs s p = Some n" "tmp = p" "p \<noteq> 0" by auto
  have nx: "reg_item s p = (ce_event n, ce_obj n)" using n(1) by (simp add: reg_item_def)
  note node = process_node [OF n(1,3) Cons.prems(2), of cb]
  show ?case
  proof (cases "event d = ce_event n")
    case False
    with Cons.IH [of s "rnx s p"] Cons.prems n nx node show ?thesis by auto
  next
    case True
    then have "keeps_at cb (ce_obj n)" using Cons.prems(1) nx by simp
    then obtain s2 where s2: "cb (ce_obj n) (event d) (evt_data d) (counted d (ce_obj n) s) = Some s2" "regs s2 = regs s"
      "reg_head s2 = reg_head s" "called s2 = called s @ [(ce_obj n, event d, evt_data d)]"
      "length (event_stats s2) = length (event_stats s)" unfolding keeps_at_def by (metis counted_simps(1-4))
    note eq = reg_rep_same [OF s2(2,3)]
    have "\<exists>s'. process_loop_evt cb d (rnx s p) s2 = process_loop_evt cb d (if qs = [] then 0 else hd qs) s' \<and>
        regs s' = regs s2 \<and> reg_head s' = reg_head s2 \<and>
        called s' = called s2 @ calls_for d (regs_of s2 ps) \<and> length (event_stats s') = length (event_stats s2)"
      by (rule Cons.IH) (use Cons.prems n s2 eq in auto)
    then show ?thesis using True n nx s2 eq node by auto
  qed
qed

lemma evt_loop_spec:
  assumes "\<forall>p\<in>set ps. fst (reg_item s p) = event d \<longrightarrow> keeps_at cb (snd (reg_item s p))"
    "event d < length (event_stats s)" "path (rnx s) tmp ps" "\<forall>p\<in>set ps. regs s p \<noteq> None"
  shows "\<exists>s'. process_loop_evt cb d tmp s = Some s' \<and> regs s' = regs s \<and> reg_head s' = reg_head s \<and>
    called s' = called s @ calls_for d (regs_of s ps) \<and> length (event_stats s') = length (event_stats s)"
  using evt_loop_prefix [of ps s d cb tmp "[]"] assms by (auto simp: process_loop_evt.simps [of cb d 0])

text \<open>The event data is freed at the end.\<close>

definition end_evt :: "ipacm_cmd_q_data \<Rightarrow> ipacm_events \<Rightarrow> ipacm_events" where
  "end_evt d s = (if evt_data d \<noteq> 0 then s\<lparr>freed_data := freed_data s @ [evt_data d]\<rparr> else s)"

lemma end_evt_simps [simp]:
  "regs (end_evt d s) = regs s" "reg_head (end_evt d s) = reg_head s" "called (end_evt d s) = called s"
  "reg_rep (end_evt d s) ps = reg_rep s ps" "reg_item (end_evt d s) = reg_item s"
  using reg_rep_same [of "end_evt d s" s] by (simp_all add: end_evt_def)

lemma ProcessEvt_loop: "ProcessEvt cb d s = map_option (end_evt d) (process_loop_evt cb d (reg_head s) s)"
  by (cases "process_loop_evt cb d (reg_head s) s") (simp_all add: ProcessEvt_def end_evt_def)

lemma ProcessEvt_spec:
  assumes "\<forall>p\<in>set ps. fst (reg_item s p) = event d \<longrightarrow> keeps_at cb (snd (reg_item s p))"
    "event d < length (event_stats s)" "reg_rep s ps"
  shows "\<exists>s'. ProcessEvt cb d s = Some s' \<and> reg_rep s' ps \<and> regs_of s' ps = regs_of s ps \<and>
    called s' = called s @ calls_for d (regs_of s ps)"
proof -
  from evt_loop_spec [OF assms(1,2), of "reg_head s"] assms(3) obtain s' where
    s': "process_loop_evt cb d (reg_head s) s = Some s'" "regs s' = regs s" "reg_head s' = reg_head s"
      "called s' = called s @ calls_for d (regs_of s ps)" by (auto simp: reg_rep_def)
  then show ?thesis using assms(3) reg_rep_same [OF s'(2,3)]
    by (intro exI [of _ "end_evt d s'"]) (simp add: ProcessEvt_loop)
qed

section \<open>A listener that removes itself\<close>

text \<open>
  The callback of the interface objects on the event that ends them: \<open>delete this\<close>, whose
  destructor calls \<open>deregistr(this)\<close>. The other listeners leave the registrations alone.
\<close>

definition self_removing :: "nat \<Rightarrow> listener" where
  "self_removing obj this e d s = (if this = obj then map_option snd (deregistr obj s) else Some s)"

lemma self_removing_keeps: "this \<noteq> obj \<Longrightarrow> keeps_at (self_removing obj) this"
  by (simp add: keeps_at_def self_removing_def)

lemma self_removal_start:
  assumes rep: "reg_rep s (as @ p # bs)" and ev: "event d < length (event_stats s)"
    and p: "reg_item s p = (event d, obj)" and as: "\<forall>a\<in>set as. reg_item s a \<noteq> (event d, obj)"
  obtains s2 where "ProcessEvt (self_removing obj) d s =
      map_option (end_evt d) (process_loop_evt (self_removing obj) d (if bs = [] then 0 else hd bs) s2)"
    "reg_rep s2 (filter (\<lambda>q. snd (reg_item s q) \<noteq> obj) (as @ bs))"
    "\<forall>q. reg_item s2 q = (if q \<in> set (as @ p # bs) \<and> snd (reg_item s q) = obj then (0, 0) else reg_item s q)"
    "\<forall>q\<in>set bs. regs s2 q = None \<longleftrightarrow> snd (reg_item s q) = obj"
    "called s2 = called s @ calls_for d (regs_of s (as @ [p]))" "length (event_stats s2) = length (event_stats s)"
proof -
  have nodes: "path (rnx s) (reg_head s) (as @ p # bs)" "\<forall>q\<in>set as. regs s q \<noteq> None" using rep by (auto simp: reg_rep_def)
  have "\<forall>a\<in>set as. fst (reg_item s a) = event d \<longrightarrow> keeps_at (self_removing obj) (snd (reg_item s a))"
    using as self_removing_keeps by (metis prod.collapse)
  from evt_loop_prefix [OF this ev nodes] obtain s1 where s1:
    "process_loop_evt (self_removing obj) d (reg_head s) s = process_loop_evt (self_removing obj) d p s1"
    "regs s1 = regs s" "reg_head s1 = reg_head s" "called s1 = called s @ calls_for d (regs_of s as)"
    "length (event_stats s1) = length (event_stats s)" by auto
  note eq = reg_rep_same [OF s1(2,3)]
  obtain n where n: "regs s p = Some n" "ce_event n = event d" "ce_obj n = obj"
  proof (rule reg_rep_node [OF rep, of p])
    show "p \<in> set (as @ p # bs)" by simp
  qed (use p that in auto)
  have p0: "p \<noteq> 0" using path_nonzero [OF nodes(1)] by auto
  have nxt: "rnx s p = (if bs = [] then 0 else hd bs)" using path_drop [OF nodes(1)] by (cases bs) auto
  have "reg_rep (counted d obj s1) (as @ p # bs)" using rep eq by simp
  from deregistr_spec [OF this, of obj] obtain s2 where s2: "deregistr obj (counted d obj s1) = Some (0, s2)"
    "reg_rep s2 (filter (\<lambda>q. snd (reg_item s q) \<noteq> obj) (as @ p # bs))"
    "\<forall>q. reg_item s2 q = (if q \<in> set (as @ p # bs) \<and> snd (reg_item s q) = obj then (0, 0) else reg_item s q)"
    "\<forall>q. regs s2 q = None \<longleftrightarrow> regs s q = None \<or> q \<in> set (as @ p # bs) \<and> snd (reg_item s q) = obj"
    "called s2 = called s1 @ [(obj, event d, evt_data d)]" "length (event_stats s2) = length (event_stats s1)"
    using eq s1(2) by auto
  have "process_loop_evt (self_removing obj) d p s1 = process_loop_evt (self_removing obj) d (rnx s p) s2"
    using process_node [of s1 p n d "self_removing obj"] n p0 ev s1(2,5) s2(1) eq by (simp add: self_removing_def)
  moreover have "\<forall>q\<in>set bs. regs s q \<noteq> None" using rep by (simp add: reg_rep_def)
  ultimately show thesis
    using s1 s2 nxt p by (intro that [of s2]) (auto simp: ProcessEvt_loop)
qed

text \<open>It is safe when no later node is the listener's, and reads a freed node when the next one is.\<close>

lemma self_removal_last:
  assumes rep: "reg_rep s (as @ p # bs)" and ev: "event d < length (event_stats s)"
    and p: "reg_item s p = (event d, obj)" and as: "\<forall>a\<in>set as. reg_item s a \<noteq> (event d, obj)"
    and bs: "\<forall>b\<in>set bs. snd (reg_item s b) \<noteq> obj"
  shows "\<exists>s'. ProcessEvt (self_removing obj) d s = Some s' \<and>
    reg_rep s' (filter (\<lambda>q. snd (reg_item s q) \<noteq> obj) (as @ bs)) \<and>
    called s' = called s @ calls_for d (regs_of s (as @ p # bs))"
proof -
  obtain s2 where s2: "ProcessEvt (self_removing obj) d s =
      map_option (end_evt d) (process_loop_evt (self_removing obj) d (if bs = [] then 0 else hd bs) s2)"
    "reg_rep s2 (filter (\<lambda>q. snd (reg_item s q) \<noteq> obj) (as @ bs))"
    "\<forall>q. reg_item s2 q = (if q \<in> set (as @ p # bs) \<and> snd (reg_item s q) = obj then (0, 0) else reg_item s q)"
    "\<forall>q\<in>set bs. regs s2 q = None \<longleftrightarrow> snd (reg_item s q) = obj"
    "called s2 = called s @ calls_for d (regs_of s (as @ [p]))" "length (event_stats s2) = length (event_stats s)"
    by (rule self_removal_start [OF rep ev p as])
  have it: "\<forall>b\<in>set bs. reg_item s2 b = reg_item s b" using bs s2(3) by simp
  have "filter (\<lambda>q. snd (reg_item s q) \<noteq> obj) (as @ bs) = filter (\<lambda>q. snd (reg_item s q) \<noteq> obj) as @ bs"
    using bs by (simp add: filter_True)
  with s2(2) have rep2: "reg_rep s2 (filter (\<lambda>q. snd (reg_item s q) \<noteq> obj) as @ bs)" by simp
  have suffix: "path (rnx s2) (if bs = [] then 0 else hd bs) bs"
  proof (cases bs)
    case Nil
    then show ?thesis by simp
  next
    case (Cons b bs')
    then have "path (rnx s2) (rnx s2 b) bs'" "b \<noteq> 0"
      using rep2 path_drop path_nonzero by (fastforce simp: reg_rep_def)+
    then show ?thesis using Cons by simp
  qed
  have "\<exists>s'. process_loop_evt (self_removing obj) d (if bs = [] then 0 else hd bs) s2 = Some s' \<and> regs s' = regs s2 \<and>
      reg_head s' = reg_head s2 \<and> called s' = called s2 @ calls_for d (regs_of s2 bs) \<and>
      length (event_stats s') = length (event_stats s2)"
    by (rule evt_loop_spec [OF _ _ suffix])
      (use it bs s2(4,6) ev self_removing_keeps in auto)
  then obtain s' where s': "process_loop_evt (self_removing obj) d (if bs = [] then 0 else hd bs) s2 = Some s'"
    "regs s' = regs s2" "reg_head s' = reg_head s2" "called s' = called s2 @ calls_for d (regs_of s2 bs)" by blast
  have "regs_of s2 bs = regs_of s bs" using it by (simp only: map_eq_conv)
  with s' s2(5) p have "called s' = called s @ calls_for d (regs_of s (as @ p # bs))" by (simp only: map_append) simp
  then show ?thesis using s2(1,2) s'(1) reg_rep_same [OF s'(2,3)]
    by (intro exI [of _ "end_evt d s'"]) (simp only: option.map end_evt_simps simp_thms)
qed

lemma self_removal_next:
  assumes rep: "reg_rep s (as @ p # b # bs)" and ev: "event d < length (event_stats s)"
    and p: "reg_item s p = (event d, obj)" and as: "\<forall>a\<in>set as. reg_item s a \<noteq> (event d, obj)"
    and b: "snd (reg_item s b) = obj"
  shows "ProcessEvt (self_removing obj) d s = None"
proof -
  obtain s2 where s2: "ProcessEvt (self_removing obj) d s =
      map_option (end_evt d) (process_loop_evt (self_removing obj) d b s2)"
    "\<forall>q\<in>set (b # bs). regs s2 q = None \<longleftrightarrow> snd (reg_item s q) = obj"
    by (rule self_removal_start [OF rep ev p as]) auto
  then have "regs s2 b = None" "b \<noteq> 0" using b rep path_nonzero by (fastforce simp: reg_rep_def)+
  then show ?thesis using s2(1) by (simp add: process_loop_evt.simps [of _ d b])
qed

end
