(* ===== verification/Ipacm_Turn.thy ===== *)
theory Ipacm_Turn
  imports Ipacm_Events_Correct
begin

text \<open>
  One turn of the thread that serves the command queue, composed of the queue and the dispatcher:
  the oldest event reaches its listeners, and what they post waits behind the events already there.
\<close>

text \<open>A callback posts new messages behind those of the queue, and leaves the old ones alone.\<close>

definition appends_at :: "listener \<Rightarrow> nat \<Rightarrow> bool" where
  "appends_at cb obj \<longleftrightarrow> (\<forall>e d s s' qs. cb obj e d s = Some s' \<longrightarrow> cq_rep s qs \<longrightarrow>
     (\<exists>zs. cq_rep s' (qs @ zs) \<and> (\<forall>z\<in>set zs. msgs s z = None) \<and>
       (\<forall>x m. msgs s x = Some m \<longrightarrow> (\<exists>m'. msgs s' x = Some m' \<and> m_evt m' = m_evt m))))"

text \<open>The queue while the message \<open>p\<close>, already taken out, is being processed; \<open>ps\<close> were behind it.\<close>

definition behind :: "nat \<Rightarrow> nat list \<Rightarrow> ipacm_cmd_q_data list \<Rightarrow> ipacm_events \<Rightarrow> bool" where
  "behind p ps es s \<longleftrightarrow> (\<exists>zs. cq_rep s (ps @ zs) \<and> p \<notin> set (ps @ zs)) \<and> msgs s p \<noteq> None \<and> cq_evts s ps = es"

lemma behind_counted: "behind p ps es (counted d obj s) = behind p ps es s"
proof -
  have "mnx (counted d obj s) = mnx s" by (rule ext) (simp add: mnx_def counted_def)
  then show ?thesis by (simp add: behind_def cq_rep_def cq_evts_def counted_def)
qed

lemma behind_callback:
  assumes "appends_at cb obj" "cb obj e d s = Some s'" "behind p ps es s"
  shows "behind p ps es s'"
proof -
  obtain zs where zs: "cq_rep s (ps @ zs)" "p \<notin> set (ps @ zs)" "msgs s p \<noteq> None" "cq_evts s ps = es"
    using assms(3) by (auto simp: behind_def)
  have ap: "\<forall>e d s s' qs. cb obj e d s = Some s' \<longrightarrow> cq_rep s qs \<longrightarrow>
     (\<exists>zs. cq_rep s' (qs @ zs) \<and> (\<forall>z\<in>set zs. msgs s z = None) \<and>
       (\<forall>x m. msgs s x = Some m \<longrightarrow> (\<exists>m'. msgs s' x = Some m' \<and> m_evt m' = m_evt m)))"
    using assms(1) by (simp add: appends_at_def)
  obtain ys where ys: "cq_rep s' ((ps @ zs) @ ys)" "\<forall>z\<in>set ys. msgs s z = None"
    "\<forall>x m. msgs s x = Some m \<longrightarrow> (\<exists>m'. msgs s' x = Some m' \<and> m_evt m' = m_evt m)"
    using ap [rule_format, OF assms(2) zs(1)] by blast
  have "p \<notin> set ys" using ys(2) zs(3) by auto
  moreover have "msgs s' p \<noteq> None" using ys(3) zs(3) by fastforce
  moreover have "cq_evts s' ps = es"
  proof -
    have "m_evt (the (msgs s' x)) = m_evt (the (msgs s x))" if "x \<in> set ps" for x
    proof -
      obtain m where m: "msgs s x = Some m" using zs(1) \<open>x \<in> set ps\<close> by (auto simp: cq_rep_def)
      with ys(3) obtain m' where "msgs s' x = Some m'" "m_evt m' = m_evt m" by blast
      then show ?thesis using m by simp
    qed
    then have "cq_evts s' ps = cq_evts s ps" by (simp add: cq_evts_def)
    then show ?thesis using zs(4) by simp
  qed
  ultimately show ?thesis using ys(1) zs(2) unfolding behind_def by (intro conjI exI [of _ "zs @ ys"]) auto
qed

lemma loop_behind:
  assumes "\<forall>obj. appends_at cb obj" "process_loop_evt cb d tmp s = Some s'" "behind p ps es s"
  shows "behind p ps es s'"
proof -
  let ?P = "\<lambda>cb (d :: ipacm_cmd_q_data) (tmp :: nat) s s'. (\<forall>obj. appends_at cb obj) \<longrightarrow> behind p ps es s \<longrightarrow> behind p ps es s'"
  have "?P cb d tmp s s'"
  proof (rule process_loop_evt.raw_induct [where P = ?P])
    fix f :: "listener \<Rightarrow> ipacm_cmd_q_data \<Rightarrow> nat \<Rightarrow> ipacm_events \<Rightarrow> ipacm_events option"
      and cb :: listener and d :: ipacm_cmd_q_data and tmp :: nat and s s' :: ipacm_events
    assume IH: "\<And>cb d tmp s s'. f cb d tmp s = Some s' \<Longrightarrow> ?P cb d tmp s s'"
      and run: "(if tmp = 0 then Some s
        else do {
          tmp1 \<leftarrow> regs s tmp;
          s \<leftarrow> (if event d = ce_event tmp1
                then do {
                  k \<leftarrow> rd (event_stats s) (event d);
                  let s = s\<lparr>event_stats := (event_stats s)[event d := k + 1],
                            called := called s @ [(ce_obj tmp1, event d, evt_data d)]\<rparr>;
                  cb (ce_obj tmp1) (event d) (evt_data d) s
                }
                else Some s);
          f cb d (ce_next tmp1) s }) = Some s'"
    show "?P cb d tmp s s'"
    proof (intro impI)
      assume cb: "\<forall>obj. appends_at cb obj" and J: "behind p ps es s"
      show "behind p ps es s'"
      proof (cases "tmp = 0")
        case True
        then show ?thesis using run J by simp
      next
        case False
        let ?next = "\<lambda>n. if event d = ce_event n
            then do {
              k \<leftarrow> rd (event_stats s) (event d);
              let s = s\<lparr>event_stats := (event_stats s)[event d := k + 1],
                        called := called s @ [(ce_obj n, event d, evt_data d)]\<rparr>;
              cb (ce_obj n) (event d) (evt_data d) s
            }
            else Some s"
        have r: "regs s tmp \<bind> (\<lambda>n. ?next n \<bind> f cb d (ce_next n)) = Some s'" using run False by simp
        obtain n where "regs s tmp = Some n" using r by (cases "regs s tmp") simp_all
        with r have r2: "?next n \<bind> f cb d (ce_next n) = Some s'" by simp
        obtain s1 where n: "?next n = Some s1" using r2 by (cases "?next n") simp_all
        have n1: "f cb d (ce_next n) s1 = Some s'" using r2 unfolding n by simp
        have "behind p ps es s1"
        proof (cases "event d = ce_event n")
          case True
          with n have "cb (ce_obj n) (event d) (evt_data d) (counted d (ce_obj n) s) = Some s1"
            by (auto simp: counted_def rd_Some_iff bind_eq_Some_conv)
          moreover have "appends_at cb (ce_obj n)" "behind p ps es (counted d (ce_obj n) s)"
            using cb J by (simp_all add: behind_counted)
          ultimately show ?thesis using behind_callback by blast
        qed (use n J in simp)
        then show ?thesis using IH [OF n1] cb by blast
      qed
    qed
  qed (fact assms(2))
  then show ?thesis using assms(1,3) by blast
qed

lemma turn_delivers:
  assumes q: "cq_rep s (p # ps)" and r: "reg_rep s rs" and d: "d = m_evt (the (msgs s p))" "event d < length (event_stats s)"
    and cb: "\<forall>obj. keeps_at cb obj" "\<forall>obj. appends_at cb obj"
  shows "\<exists>s' zs. Process_turn cb s = Some (True, s') \<and> cq_rep s' (ps @ zs) \<and>
    cq_evts s' (ps @ zs) = cq_evts s ps @ cq_evts s' zs \<and> reg_rep s' rs \<and> regs_of s' rs = regs_of s rs \<and>
    called s' = called s @ calls_for d (regs_of s rs)"
proof -
  let ?s1 = "s\<lparr>Head := mnx s p\<rparr>"
  have dq: "dequeue s = Some (p, ?s1)" by (rule dequeue_spec [OF q])
  obtain m where m: "msgs s p = Some m" using q by (auto simp: cq_rep_def)
  have p: "p \<noteq> 0" "p \<notin> set ps" "path (mnx s) (mnx s p) ps" "distinct ps" "\<forall>x\<in>set ps. msgs s x \<noteq> None"
    "ps \<noteq> [] \<longrightarrow> Tail s = last ps"
    using q by (auto simp: cq_rep_def)
  have mn: "mnx ?s1 = mnx s" by (rule ext) (simp add: mnx_def)
  have same: "reg_rep ?s1 rs" "regs_of ?s1 rs = regs_of s rs"
    using r reg_rep_same [of ?s1 s] by simp_all
  have "cq_rep ?s1 ps" using p mn by (simp add: cq_rep_def)
  then have J: "behind p ps (cq_evts s ps) ?s1"
    using p(2) m unfolding behind_def by (intro conjI exI [of _ "[]"]) (simp_all add: cq_evts_def)
  from ProcessEvt_spec [of rs ?s1 d cb] cb(1) d(2) same obtain s2 where s2: "ProcessEvt cb d ?s1 = Some s2" "reg_rep s2 rs"
    "regs_of s2 rs = regs_of s rs" "called s2 = called s @ calls_for d (regs_of s rs)" by auto
  then obtain s3 where s3: "process_loop_evt cb d (reg_head s) ?s1 = Some s3" "s2 = end_evt d s3" by (auto simp: ProcessEvt_loop)
  from loop_behind [OF cb(2) s3(1) J] obtain zs where zs: "cq_rep s3 (ps @ zs)" "p \<notin> set (ps @ zs)" "cq_evts s3 ps = cq_evts s ps"
    by (auto simp: behind_def)
  have eq: "msgs s2 = msgs s3" "Head s2 = Head s3" "Tail s2 = Tail s3" unfolding s3(2) end_evt_def by auto
  let ?s' = "s2\<lparr>msgs := (msgs s2)(p := None)\<rparr>"
  have mn2: "mnx ?s' x = mnx s3 x" if "x \<noteq> p" for x using that eq by (simp add: mnx_def)
  have "path (mnx ?s') (Head s3) (ps @ zs) = path (mnx s3) (Head s3) (ps @ zs)"
    by (rule path_cong) (use zs(2) mn2 in metis)
  then have rep: "cq_rep ?s' (ps @ zs)" using zs(1,2) eq by (auto simp: cq_rep_def)
  have "cq_evts ?s' ps = cq_evts s3 ps" using zs(2) eq by (simp add: cq_evts_def)
  then have evts: "cq_evts ?s' (ps @ zs) = cq_evts s ps @ cq_evts ?s' zs"
    using zs(3) by (simp add: cq_evts_def)
  have "Process_turn cb s = Some (True, ?s')" using dq p(1) m s2(1) d(1) by (simp add: Process_turn_def)
  moreover have "reg_rep ?s' rs" "regs_of ?s' rs = regs_of s rs" using s2(2,3) reg_rep_same [of ?s' s2] by simp_all
  ultimately show ?thesis using rep evts s2(4) by (intro exI [of _ ?s'] exI [of _ zs]) simp
qed

end
