(* ===== verification/Ipacm_Props.thy ===== *)
theory Ipacm_Props
  imports Ipacm_Rm Ipacm_Turn
begin

text \<open>
  The properties of the configuration, the resource dependencies and the event machinery of the
  connection manager, each with a concrete instance.
\<close>

section \<open>Resource dependencies\<close>

definition demo_conf :: IPACM_conf where
  "demo_conf = \<lparr>iface_config = [\<lparr>iface_name = ''rndis0'', if_cat = LAN_IF, if_mode = ROUTER, wlan_mode = FULL, netlink_interface_index = 0\<rparr>,
      \<lparr>iface_name = ''wlan0'', if_cat = WLAN_IF, if_mode = ROUTER, wlan_mode = FULL, netlink_interface_index = 0\<rparr>],
     private_subnet_config = [\<lparr>subnet_addr = 0xC0A80000, subnet_mask = 0xFFFFFF00\<rparr>],
     alg_config = [\<lparr>alg_protocol = 6, alg_port = 21\<rparr>], nat_max_entries = 4, odu_enable = False,
     router_mode_enable = False, odu_embms_enable = False, num_wlan_guest_ap = 0\<rparr>"

definition demo_config_env :: config_env where
  "demo_config_env = \<lparr>cfg_malloc_ok = True, cfg_xml = Some demo_conf, iface_calloc_ok = True, alg_calloc_ok = True,
     nat_ptr_null = True, nat_calloc_ok = True\<rparr>"

definition demo_config :: ipacm_config where
  "demo_config = snd (the (IPACM_Config_Init demo_config_env (IPACM_Config_new 2 False [] [])))"

lemma demo_config_Init: "IPACM_Config_Init demo_config_env (IPACM_Config_new 2 False [] []) = Some (0, demo_config)"
  by (simp add: demo_config_def IPACM_Config_Init_def demo_config_env_def demo_conf_def Let_def)

lemma Init_tables:
  assumes "IPACM_Config_Init env c = Some (0, c0)"
  shows "ipa_rm_tbl c0 = rm_tbl_init" "rm_ioctls c0 = rm_ioctls c" "ipa_rm_a2_check c0 = ipa_rm_a2_check c"
  using assms by (auto simp: IPACM_Config_Init_def Let_def split: if_splits option.splits)

text \<open>
  C6: after \<open>Init\<close> and any calls of \<open>AddRmDepend\<close> and \<open>DelRmDepend\<close>, with one bypass flag for each
  producer, the requests sent to the resource manager never add a dependency that is there nor
  delete one that is not, and what they leave are the dependencies of the entries whose producer
  and consumer are both up: towards the consumer unless the producer bypasses the accelerator,
  and back.
\<close>
theorem rm_dependencies_exact:
  assumes "IPACM_Config_Init env (IPACM_Config_new n embms virt nets) = Some (0, c0)" "rm_reach bp c0 c"
  shows "run_deps (rm_ioctls c) {} = Some (\<Union>e\<in>set (ipa_rm_tbl c).
    if producer1_up e \<and> consumer1_up e
    then (if bp (producer_rm1 e) then {} else {(producer_rm1 e, consumer_rm1 e)}) \<union> {(producer_rm2 e, consumer_rm2 e)}
    else {})"
proof -
  have "rm_inv bp c0" using Init_tables [OF assms(1)] by (intro rm_inv_init) (simp_all add: IPACM_Config_new_def)
  from rm_reach_inv [OF assms(2) this] have inv: "\<forall>e\<in>set (ipa_rm_tbl c). entry_ok bp e"
    "run_deps (rm_ioctls c) {} = Some (table_held (ipa_rm_tbl c))" by (simp_all add: rm_inv_def)
  have "held_deps e = (if producer1_up e \<and> consumer1_up e
      then (if bp (producer_rm1 e) then {} else {(producer_rm1 e, consumer_rm1 e)}) \<union> {(producer_rm2 e, consumer_rm2 e)}
      else {})" if "entry_ok bp e" for e
    using that by (auto simp: entry_ok_def held_deps_def entry_deps_def)
  then show ?thesis using inv by (simp add: table_held_def)
qed

text \<open>WLAN, which bypasses the accelerator, and USB come up with the modem; then WLAN goes away.\<close>

definition demo_bp :: "ipa_rm_resource_name \<Rightarrow> bool" where
  "demo_bp rm = (rm = IPA_RM_RESOURCE_WLAN_PROD)"

definition demo_rm :: ipacm_config where
  "demo_rm = DelRmDepend IPA_RM_RESOURCE_WLAN_PROD (AddRmDepend IPA_RM_RESOURCE_Q6_CONS (demo_bp IPA_RM_RESOURCE_Q6_CONS)
     (AddRmDepend IPA_RM_RESOURCE_USB_PROD (demo_bp IPA_RM_RESOURCE_USB_PROD)
       (AddRmDepend IPA_RM_RESOURCE_WLAN_PROD (demo_bp IPA_RM_RESOURCE_WLAN_PROD) demo_config)))"

lemma demo_rm_reach: "rm_reach demo_bp demo_config demo_rm"
  unfolding demo_rm_def by (intro rm_reach.intros)

lemma rm_dependencies_exact_witness:
  "run_deps (rm_ioctls demo_rm) {} =
     Some {(IPA_RM_RESOURCE_USB_PROD, IPA_RM_RESOURCE_Q6_CONS), (IPA_RM_RESOURCE_Q6_PROD, IPA_RM_RESOURCE_USB_CONS)}"
proof -
  note t = Init_tables [OF demo_config_Init]
  show ?thesis
    unfolding rm_dependencies_exact [OF demo_config_Init demo_rm_reach]
    by (simp add: demo_rm_def AddRmDepend_def DelRmDepend_def t rm_tbl_init_def rm_entry_def add_rm_entry_def del_rm_entry_def
        demo_bp_def IPACM_Config_new_def Let_def insert_commute)
qed

text \<open>
  Releasing the modem's resource leaves everything as it was exactly when one user is left: with
  two or more users left, as with none, every dependency on the modem is torn down.
\<close>
theorem modem_release:
  assumes "\<forall>e\<in>set (ipa_rm_tbl c). producer_rm1 e \<noteq> IPA_RM_RESOURCE_Q6_CONS"
  shows "if ipa_rm_a2_check c = 2
    then ipa_rm_tbl (DelRmDepend IPA_RM_RESOURCE_Q6_CONS c) = ipa_rm_tbl c \<and> rm_ioctls (DelRmDepend IPA_RM_RESOURCE_Q6_CONS c) = rm_ioctls c
    else \<forall>e\<in>set (ipa_rm_tbl (DelRmDepend IPA_RM_RESOURCE_Q6_CONS c)).
      consumer_rm1 e = IPA_RM_RESOURCE_Q6_CONS \<longrightarrow> \<not> rm_set e \<and> \<not> consumer1_up e"
proof (cases "ipa_rm_a2_check c = 2")
  case True
  let ?T = "ipa_rm_tbl c" and ?f = "del_rm_entry IPA_RM_RESOURCE_Q6_CONS 1"
  have e: "map ?f ?T = map (\<lambda>e. (e, [])) ?T"
    using assms by (intro map_cong) (auto simp: del_rm_entry_def Let_def)
  have "map fst (map ?f ?T) = ?T" "concat (map snd (map ?f ?T)) = []" unfolding e by (simp_all add: comp_def)
  then show ?thesis using True by (simp add: DelRmDepend_def Let_def del: map_map)
next
  case False
  then show ?thesis using assms by (auto simp: DelRmDepend_def del_rm_entry_def Let_def)
qed

text \<open>Three users of the modem, and one leaves.\<close>

definition demo_users :: ipacm_config where
  "demo_users = AddRmDepend IPA_RM_RESOURCE_Q6_CONS False (AddRmDepend IPA_RM_RESOURCE_Q6_CONS False
     (AddRmDepend IPA_RM_RESOURCE_Q6_CONS False (AddRmDepend IPA_RM_RESOURCE_USB_PROD False demo_config)))"

lemma modem_release_witness:
  "ipa_rm_a2_check demo_users = 3 \<and>
   filter (\<lambda>e. consumer_rm1 e = IPA_RM_RESOURCE_Q6_CONS \<and> (rm_set e \<or> consumer1_up e))
     (ipa_rm_tbl (DelRmDepend IPA_RM_RESOURCE_Q6_CONS demo_users)) = []"
proof -
  note t = Init_tables [OF demo_config_Init]
  have n: "ipa_rm_a2_check demo_users = 3"
    by (simp add: demo_users_def AddRmDepend_def t IPACM_Config_new_def Let_def)
  have "\<forall>e\<in>set (ipa_rm_tbl demo_users). producer_rm1 e \<noteq> IPA_RM_RESOURCE_Q6_CONS"
    by (simp add: demo_users_def AddRmDepend_def t rm_tbl_init_def rm_entry_def add_rm_entry_def Let_def)
  from modem_release [OF this] n show ?thesis by (auto simp: filter_empty_conv)
qed

section \<open>Configuration\<close>

text \<open>
  \<open>AddNatIfaces\<close> counts an interface before it looks for room: one more than the array holds cells
  is still counted, without being stored, and from then on reading the list of NAT interfaces with
  the count that \<open>GetNatIfacesCnt\<close> reports leaves the array.
\<close>
theorem nat_ifaces_overcounted:
  assumes "length (pNatIfaces c) = ipa_num_ipa_interfaces c" "ipa_nat_iface_entries c = ipa_num_ipa_interfaces c"
    and "name \<notin> set (pNatIfaces c)"
  shows "\<exists>c'. AddNatIfaces name c = Some (0, c') \<and> pNatIfaces c' = pNatIfaces c \<and>
    ipa_nat_iface_entries c' = ipa_num_ipa_interfaces c + 1 \<and>
    GetNatIfaces c' (int (ipa_nat_iface_entries c')) False = None"
proof -
  let ?n = "ipa_nat_iface_entries c"
  have "scan_first (\<lambda>i. map_option (\<lambda>n. name = n) (rd (pNatIfaces c) i)) ?n 0 = Some None"
    by (subst scan_first_total [where q = "\<lambda>i. name = pNatIfaces c ! i"]) (use assms nth_mem in \<open>fastforce+\<close>)
  then have "AddNatIfaces name c = Some (0, c\<lparr>ipa_nat_iface_entries := ?n + 1\<rparr>)"
    using assms(2) by (simp add: AddNatIfaces_def)
  then show ?thesis using assms(1,2) by (simp add: GetNatIfaces_def nat_add_distrib)
qed

text \<open>Two cells, filled up to the count; the third name.\<close>

lemma nat_ifaces_overcounted_witness:
  "\<exists>c'. AddNatIfaces ''wlan1'' (demo_config\<lparr>pNatIfaces := [''rndis0'', []], ipa_nat_iface_entries := 2\<rparr>) = Some (0, c') \<and>
     GetNatIfaces c' (int (ipa_nat_iface_entries c')) False = None"
proof -
  have "ipa_num_ipa_interfaces demo_config = 2"
    by (simp add: demo_config_def IPACM_Config_Init_def demo_config_env_def demo_conf_def Let_def)
  then show ?thesis
    using nat_ifaces_overcounted [of "demo_config\<lparr>pNatIfaces := [''rndis0'', []], ipa_nat_iface_entries := 2\<rparr>" "''wlan1''"]
    by auto
qed

text \<open>The subnets in use, as pairs of address and mask.\<close>

definition subnets :: "ipacm_config \<Rightarrow> ipa_private_subnet list" where
  "subnets c = take (ipa_num_private_subnet c) (private_subnet_table c)"

lemma isPrivateSubnet_iff:
  assumes "ipa_num_private_subnet c \<le> length (private_subnet_table c)"
  shows "isPrivateSubnet c ip = Some (\<exists>s\<in>set (subnets c). subnet_addr s = (subnet_mask s AND ip))"
proof -
  let ?t = "private_subnet_table c"
  have "isPrivateSubnet c ip = Some (\<exists>i<ipa_num_private_subnet c. subnet_addr (?t ! i) = (subnet_mask (?t ! i) AND ip))"
    unfolding isPrivateSubnet_def
    by (subst scan_first_total [where q = "\<lambda>i. subnet_addr (?t ! i) = (subnet_mask (?t ! i) AND ip)"]) (use assms in auto)
  moreover have "(\<exists>i<ipa_num_private_subnet c. P (?t ! i)) \<longleftrightarrow> (\<exists>s\<in>set (subnets c). P s)" for P
    unfolding subnets_def nth_image [OF assms, symmetric] by auto
  ultimately show ?thesis by simp
qed

text \<open>
  A private subnet that was added is recognised: \<open>AddPrivateSubnet\<close> with a network address (its
  last octet zero) that is not in the table and a free cell makes \<open>isPrivateSubnet\<close> true for the 256
  addresses of that network, and for no other address that was not private before; one event is
  posted when its data can be allocated.
\<close>
theorem private_subnet_added:
  assumes "length (private_subnet_table c) = IPA_MAX_PRIVATE_SUBNET_ENTRIES" "ipa_num_private_subnet c < IPA_MAX_PRIVATE_SUBNET_ENTRIES"
    and "net \<notin> subnet_addr ` set (subnets c)" "net AND 0xFF = 0"
  shows "\<exists>c'. AddPrivateSubnet ok net idx c = Some (True, c') \<and>
    subnet_events c' = subnet_events c @ (if ok then [idx] else []) \<and>
    (\<forall>ip. isPrivateSubnet c' ip = Some (isPrivateSubnet c ip = Some True \<or> drop_bit 8 ip = drop_bit 8 net))"
proof -
  let ?n = "ipa_num_private_subnet c" and ?t = "private_subnet_table c"
  let ?s = "\<lparr>subnet_addr = net, subnet_mask = push_bit 8 (drop_bit 8 (NOT 0))\<rparr>"
  let ?c = "c\<lparr>private_subnet_table := ?t[?n := ?s], ipa_num_private_subnet := ?n + 1\<rparr>"
  have none: "find_subnet c net = Some None"
    unfolding find_subnet_def
    by (subst scan_first_total [where q = "\<lambda>i. subnet_addr (?t ! i) = net"])
      (use assms(1-3) in \<open>fastforce simp: subnets_def image_iff in_set_conv_nth\<close>)+
  have sub: "subnets ?c = subnets c @ [?s]" using assms(1,2) by (simp add: subnets_def take_Suc_conv_app_nth)
  have mask: "net = (push_bit 8 (drop_bit 8 (NOT 0)) AND ip) \<longleftrightarrow> drop_bit 8 ip = drop_bit 8 net" for ip
  proof -
    have z: "\<not> bit net i" if "i < 8" for i
    proof -
      have "bit (net AND 0xFF) i = (bit net i \<and> i < 8)"
        using bit_mask_iff [of 8 i, where 'a = "32 word"] by (auto simp: bit_and_iff mask_eq_exp_minus_1)
      then show ?thesis using assms(4) that by simp
    qed
    show ?thesis
    proof
      assume n: "net = (push_bit 8 (drop_bit 8 (NOT 0)) AND ip)"
      show "drop_bit 8 ip = drop_bit 8 net"
      proof (rule bit_word_eqI)
        fix i assume "i < LENGTH(32)"
        have "bit ip (8 + i) \<Longrightarrow> i < 24" using bit_imp_le_length [of ip "8 + i"] by simp
        then show "bit (drop_bit 8 ip) i = bit (drop_bit 8 net) i" by (auto simp: n bit_simps)
      qed
    next
      assume d: "drop_bit 8 ip = drop_bit 8 net"
      have "bit ip (8 + i) = bit net (8 + i)" for i using d by (metis bit_drop_bit_eq comp_apply add.commute)
      then have "bit ip i = bit net i" if "8 \<le> i" for i using that by (metis le_add_diff_inverse)
      note hi = this
      show "net = (push_bit 8 (drop_bit 8 (NOT 0)) AND ip)"
      proof (rule bit_word_eqI)
        fix i assume "i < LENGTH(32)"
        then show "bit net i = bit (push_bit 8 (drop_bit 8 (NOT 0)) AND ip) i"
          by (cases "i < 8") (auto simp: z hi [symmetric] bit_simps not_less)
      qed
    qed
  qed
  have p: "isPrivateSubnet ?c ip = Some (isPrivateSubnet c ip = Some True \<or> drop_bit 8 ip = drop_bit 8 net)" for ip
  proof -
    have "(\<exists>s\<in>set (subnets c @ [?s]). subnet_addr s = (subnet_mask s AND ip)) \<longleftrightarrow>
        (\<exists>s\<in>set (subnets c). subnet_addr s = (subnet_mask s AND ip)) \<or> net = (push_bit 8 (drop_bit 8 (NOT 0)) AND ip)" by auto
    moreover have "isPrivateSubnet ?c ip = Some (\<exists>s\<in>set (subnets c @ [?s]). subnet_addr s = (subnet_mask s AND ip))"
      using isPrivateSubnet_iff [of ?c ip] assms(1,2) unfolding sub by simp
    ultimately show ?thesis using isPrivateSubnet_iff [of c ip] assms(1,2) unfolding mask by simp
  qed
  have priv: "isPrivateSubnet (?c\<lparr>subnet_events := es\<rparr>) = isPrivateSubnet ?c" for es
    by (rule ext) (simp add: isPrivateSubnet_def)
  let ?r = "if ok then ?c\<lparr>subnet_events := subnet_events c @ [idx]\<rparr> else ?c"
  have "AddPrivateSubnet ok net idx c = Some (True, ?r)" using none assms(1,2) by (simp add: AddPrivateSubnet_def Let_def)
  then show ?thesis using p priv by (intro exI [of _ ?r]) simp
qed

lemma private_subnet_added_witness:
  "\<exists>c'. AddPrivateSubnet True 0xC0A82B00 1 demo_config = Some (True, c') \<and> isPrivateSubnet c' 0xC0A82B07 = Some True"
proof -
  have c: "private_subnet_table demo_config = [\<lparr>subnet_addr = 0xC0A80000, subnet_mask = 0xFFFFFF00\<rparr>, zero_subnet, zero_subnet]"
    "ipa_num_private_subnet demo_config = 1"
    by (simp_all add: demo_config_def IPACM_Config_Init_def demo_config_env_def demo_conf_def Let_def eval_nat_numeral)
  then have "subnets demo_config = [\<lparr>subnet_addr = 0xC0A80000, subnet_mask = 0xFFFFFF00\<rparr>]" by (simp add: subnets_def)
  with private_subnet_added [where c = demo_config and net = "0xC0A82B00" and ok = True and idx = 1] c obtain c' where
    "AddPrivateSubnet True 0xC0A82B00 1 demo_config = Some (True, c')"
    "isPrivateSubnet c' 0xC0A82B07 = Some (isPrivateSubnet demo_config 0xC0A82B07 = Some True \<or>
       drop_bit 8 0xC0A82B07 = (drop_bit 8 0xC0A82B00 :: u32))" by auto
  then show ?thesis by (auto simp: drop_bit_eq_div)
qed

section \<open>Registration and dispatch\<close>

text \<open>An empty dispatcher and queue, with a counter for each of the events 0 to 60.\<close>

definition no_events :: ipacm_events where
  "no_events = \<lparr>msgs = Map.empty, Head = 0, Tail = 0, regs = Map.empty, reg_head = 0, event_stats = replicate 61 0,
     called = [], freed_data = []\<rparr>"

lemma no_events_rep: "reg_rep no_events []" "cq_rep no_events []"
  by (simp_all add: reg_rep_def cq_rep_def no_events_def)

text \<open>
  C21: \<open>deregistr\<close> takes out every registration of a listener wherever its nodes are in the list, frees
  exactly these nodes, and keeps the others in their order. It ends on every list.
\<close>
theorem deregister_all:
  assumes "reg_rep s ps"
  shows "\<exists>s' qs. deregistr obj s = Some (0, s') \<and> reg_rep s' qs \<and>
    regs_of s' qs = filter (\<lambda>(e, ob). ob \<noteq> obj) (regs_of s ps) \<and>
    (\<forall>p. regs s' p = None \<longleftrightarrow> regs s p = None \<or> p \<in> set ps \<and> snd (reg_item s p) = obj)"
  using deregistr_spec [OF assms, of obj] by blast

text \<open>Three registrations; the listener 7 registered twice, first and last.\<close>

lemma demo_regs:
  obtains s ps where "reg_rep s ps" "regs_of s ps = [(2, 7), (2, 8), (3, 7)]" "cq_rep s []" "length (event_stats s) = 61" "called s = []"
proof -
  let ?s1 = "no_events\<lparr>regs := [10 \<mapsto> \<lparr>ce_event = 2, ce_obj = 7, ce_next = 0\<rparr>], reg_head := 10\<rparr>"
  let ?s = "no_events\<lparr>regs := [10 \<mapsto> \<lparr>ce_event = 2, ce_obj = 7, ce_next = 11\<rparr>, 11 \<mapsto> \<lparr>ce_event = 2, ce_obj = 8, ce_next = 12\<rparr>,
      12 \<mapsto> \<lparr>ce_event = 3, ce_obj = 7, ce_next = 0\<rparr>], reg_head := 10\<rparr>"
  show thesis
  proof (rule that)
    show "reg_rep ?s [10, 11, 12]" by (simp add: reg_rep_def rnx_def no_events_def)
    show "regs_of ?s [10, 11, 12] = [(2, 7), (2, 8), (3, 7)]" by (simp add: reg_item_def no_events_def)
    show "cq_rep ?s []" by (simp add: cq_rep_def no_events_def)
  qed (simp_all add: no_events_def)
qed

lemma deregister_all_witness:
  "\<exists>s ps s' qs. reg_rep s ps \<and> regs_of s ps = [(2, 7), (2, 8), (3, 7)] \<and> deregistr 7 s = Some (0, s') \<and>
     reg_rep s' qs \<and> regs_of s' qs = [(2, 8)]"
proof -
  obtain s ps where s: "reg_rep s ps" "regs_of s ps = [(2, 7), (2, 8), (3, 7)]" by (rule demo_regs)
  from deregister_all [OF s(1), of 7] show ?thesis unfolding s(2) using s by fastforce
qed

text \<open>
  A listener that registers a new object for an event and removes the object again leaves the
  registrations as they were.
\<close>
theorem register_deregister:
  assumes "reg_rep s ps" "nw \<noteq> 0" "regs s nw = None" "obj \<notin> snd ` set (regs_of s ps)"
  shows "\<exists>s1 s2 qs. registr nw ev obj s = Some (0, s1) \<and> deregistr obj s1 = Some (0, s2) \<and>
    reg_rep s2 qs \<and> regs_of s2 qs = regs_of s ps \<and> regs s2 nw = None"
proof -
  from registr_spec [OF assms(1-3), of ev obj] obtain s1 where s1: "registr nw ev obj s = Some (0, s1)"
    "reg_rep s1 (ps @ [nw])" "regs_of s1 (ps @ [nw]) = regs_of s ps @ [(ev, obj)]" by blast
  from deregistr_spec [OF s1(2), of obj] obtain s2 qs where s2: "deregistr obj s1 = Some (0, s2)" "reg_rep s2 qs"
    "regs_of s2 qs = filter (\<lambda>(e, ob). ob \<noteq> obj) (regs_of s1 (ps @ [nw]))"
    "\<forall>p. regs s2 p = None \<longleftrightarrow> regs s1 p = None \<or> p \<in> set (ps @ [nw]) \<and> snd (reg_item s1 p) = obj" by blast
  have "filter (\<lambda>(e, ob). ob \<noteq> obj) (regs_of s ps) = regs_of s ps"
    using assms(4) by (auto simp: filter_id_conv) (metis image_eqI snd_conv)
  then have "regs_of s2 qs = regs_of s ps" unfolding s2(3) s1(3) by simp
  moreover have "snd (reg_item s1 nw) = obj" using s1(3) by simp
  ultimately show ?thesis using s1(1) s2 by auto
qed

lemma register_deregister_witness:
  "\<exists>s1 s2 qs. registr 20 4 9 no_events = Some (0, s1) \<and> deregistr 9 s1 = Some (0, s2) \<and> reg_rep s2 qs \<and> regs_of s2 qs = []"
  using register_deregister [OF no_events_rep(1), of 20 9 4] by (auto simp: no_events_def)

text \<open>
  C7: a turn of the queue thread takes the oldest message, whose event is passed once to each listener
  registered for it, in the order of registration, and to no other; messages that the listeners post
  go behind the ones already in the queue, which keep their order.
\<close>
theorem oldest_event_delivered:
  assumes "cq_rep s (p # ps)" "reg_rep s rs" "event (m_evt (the (msgs s p))) < length (event_stats s)"
    and "\<forall>obj. keeps_at cb obj" "\<forall>obj. appends_at cb obj"
  shows "\<exists>s' zs. Process_turn cb s = Some (True, s') \<and> cq_rep s' (ps @ zs) \<and>
    cq_evts s' (ps @ zs) = cq_evts s ps @ cq_evts s' zs \<and> reg_rep s' rs \<and> regs_of s' rs = regs_of s rs \<and>
    called s' = called s @ calls_for (m_evt (the (msgs s p))) (regs_of s rs)"
  by (rule turn_delivers [OF assms(1,2) refl assms(3-5)])

text \<open>Event 2 with data 99 is posted from message 30; the listeners do nothing.\<close>

definition idle_cb :: listener where
  "idle_cb obj e d s = Some s"

lemma idle_cb_ok: "keeps_at idle_cb obj" "appends_at idle_cb obj"
proof -
  show "keeps_at idle_cb obj" by (simp add: keeps_at_def idle_cb_def)
  have "cq_rep s (qs @ [])" if "cq_rep s qs" for s qs using that by simp
  then show "appends_at idle_cb obj" unfolding appends_at_def idle_cb_def by fastforce
qed

lemma oldest_event_delivered_witness:
  "\<exists>s s1 s2. PostEvt 30 True True True \<lparr>event = 2, evt_data = 99\<rparr> s = Some (0, s1) \<and>
     Process_turn idle_cb s1 = Some (True, s2) \<and> called s2 = [(7, 2, 99), (8, 2, 99)]"
proof -
  obtain s ps where s: "reg_rep s ps" "regs_of s ps = [(2, 7), (2, 8), (3, 7)]" "cq_rep s []" "length (event_stats s) = 61" "called s = []"
    by (rule demo_regs)
  let ?d = "\<lparr>event = 2, evt_data = 99\<rparr>"
  let ?s = "s\<lparr>msgs := Map.empty\<rparr>"
  have r: "reg_rep ?s ps" "regs_of ?s ps = regs_of s ps" using s(1) reg_rep_same [of ?s s] by simp_all
  have q: "cq_rep ?s []" using s(3) by (simp add: cq_rep_def)
  from PostEvt_spec [OF q, of 30 True True ?d] obtain s1 where s1: "PostEvt 30 True True True ?d ?s = Some (0, s1)"
    "cq_rep s1 [30]" "cq_evts s1 [30] = [?d]" "regs s1 = regs ?s" "reg_head s1 = reg_head ?s" "called s1 = called ?s"
    "event_stats s1 = event_stats ?s" by (auto simp: cq_evts_def)
  have r1: "reg_rep s1 ps" "regs_of s1 ps = regs_of s ps" using r reg_rep_same [OF s1(4,5)] by simp_all
  have e: "m_evt (the (msgs s1 30)) = ?d" using s1(3) by (simp add: cq_evts_def)
  have "event (m_evt (the (msgs s1 30))) < length (event_stats s1)" using e s1(7) s(4) by simp
  from oldest_event_delivered [OF s1(2) r1(1) this] idle_cb_ok obtain s2 where
    "Process_turn idle_cb s1 = Some (True, s2)" "called s2 = called s1 @ calls_for ?d (regs_of s1 ps)" unfolding e by blast
  then show ?thesis using s1(1,6) s(2,5) r1(2) by (intro exI [of _ ?s] exI [of _ s1] exI [of _ s2]) simp
qed



text \<open>
  In every run of posts and takes of the command queue that never takes from an empty queue, the
  event data taken out followed by that left are the data that were there followed by those posted,
  in order: although the tail pointer goes stale whenever the queue runs empty.
\<close>
theorem command_queue_fifo:
  assumes "cq_items s xs" "cq.never_empty ops xs" "cq.run ops s = Some (ds, s')"
  shows "\<exists>ys. cq_items s' ys \<and> ds @ ys = xs @ [x. Some (c, x) \<leftarrow> ops]"
  using cq.run_fifo [OF assms] by (metis list.map_id0 id_apply)

text \<open>Post, take (the queue runs empty), post.\<close>

lemma command_queue_fifo_witness:
  "\<exists>ds s'. cq.run [Some (30, \<lparr>event = 2, evt_data = 99\<rparr>), None, Some (31, \<lparr>event = 3, evt_data = 98\<rparr>)] no_events = Some (ds, s') \<and>
     (\<exists>ys. cq_items s' ys \<and> ds @ ys = [\<lparr>event = 2, evt_data = 99\<rparr>, \<lparr>event = 3, evt_data = 98\<rparr>])"
proof -
  let ?ops = "[Some (30, \<lparr>event = 2, evt_data = 99\<rparr>), None, Some (31, \<lparr>event = 3, evt_data = 98\<rparr>)]"
  have items: "cq_items no_events []" using no_events_rep(2) by (auto simp: cq_items_def cq_evts_def)
  obtain s1 where s1: "cq_put 30 \<lparr>event = 2, evt_data = 99\<rparr> no_events = Some s1" "msgs s1 31 = None"
    "cq_items s1 [\<lparr>event = 2, evt_data = 99\<rparr>]"
    using cq.put_law [OF items, of 30 "\<lparr>event = 2, evt_data = 99\<rparr>"]
    by (auto simp: no_events_def cq_put_def PostEvt_def enqueue_def)
  obtain s2 where s2: "cq_take s1 = Some (\<lparr>event = 2, evt_data = 99\<rparr>, s2)" "cq_items s2 []"
    using cq.take_law [OF s1(3)] by auto
  have free: "msgs s2 31 = None" using s2(1) s1(2)
    by (auto simp: cq_take_def dequeue_def bind_eq_Some_conv split: if_splits)
  obtain s3 where s3: "cq_put 31 \<lparr>event = 3, evt_data = 98\<rparr> s2 = Some s3"
    using cq.put_law [OF s2(2), of 31 "\<lparr>event = 3, evt_data = 98\<rparr>"] free by auto
  have run: "cq.run ?ops no_events = Some ([\<lparr>event = 2, evt_data = 99\<rparr>], s3)"
    unfolding cq.run.simps using s1(1) s2(1) s3 free by (simp add: no_events_def)
  from command_queue_fifo [OF items _ run] run show ?thesis by auto
qed

end
