(* ===== verification/Nat_Props.thy ===== *)
theory Nat_Props
  imports Nat_Api
begin

text \<open>
  What the NAT driver promises its client, the hardware and the kernel, with an instance of
  each promise on a small table (two base slots and two expansion slots) and a kernel that
  grants every request.
\<close>

section \<open>A concrete kernel and table\<close>

definition demo_mem :: "nat \<Rightarrow> nat \<Rightarrow> nat_mem" where
  "demo_mem te ee = \<lparr>ipv4_rules = replicate te zero_rule, ipv4_expn_rules = replicate ee zero_rule,
     index_table = replicate te 0, index_table_expn = replicate ee 0\<rparr>"

definition demo_env :: nat_env where
  "demo_env = \<lparr>malloc_ok = (\<lambda>_. True), open_ipa = 3, ioctl_alloc_nat_mem = (\<lambda>_. (0, 0)), open_nat = 4,
     mmap_nat = (\<lambda>te ee. Some (demo_mem te ee)), ioctl_v4_init_nat = (\<lambda>_. 0), close_nat = 0,
     ioctl_v4_del_nat = (\<lambda>_ _. 0), ioctl_nat_dma = (\<lambda>cmds m. (0, fold dma_write cmds m))\<rparr>"

definition demo_tbl :: ipa_nat_ip4_table_cache where
  "demo_tbl = zero_table_cache\<lparr>valid := True, table_entries := 2, expn_table_entries := 2,
     tbl_mem := Some (demo_mem 2 2), index_expn_table_meta := Some (replicate 2 0),
     rule_id_array := Some (replicate (2 + 2) 0)\<rparr>"

definition demo_cache :: ipa_nat_cache where
  "demo_cache = ipv4_nat_cache_init\<lparr>ip4_tbl := [demo_tbl], table_cnt := 1\<rparr>"

text \<open>A TCP connection from 192.168.0.2:1024 to 10.0.0.1:80, seen from port 4096.\<close>

definition demo_rule :: ipa_nat_ipv4_rule where
  "demo_rule = \<lparr>clnt_target_ip = 0x0A000001, clnt_private_ip = 0xC0A80002, clnt_target_port = 80,
     clnt_private_port = 1024, clnt_public_port = 4096, clnt_protocol = 6\<rparr>"

lemma demo_env_ok: "env_ok demo_env" "kernel_ok demo_env"
  by (simp_all add: env_ok_def dma_ok_def kernel_ok_def demo_env_def mem_shape_def demo_mem_def)

lemma demo_slots:
  assumes "k < te + ee"
  shows "rule_at (demo_mem te ee) k = zero_rule" "indx_at (demo_mem te ee) k = 0"
  using assms by (simp_all add: rule_at_def indx_at_def demo_mem_def)

lemma demo_tbl_inv: "tbl_inv demo_tbl" "rules_of demo_tbl = Map.empty"
proof -
  have "mem_shape 2 2 (demo_mem 2 2)" by (simp add: mem_shape_def demo_mem_def)
  note fresh = fresh_tbl_parts [OF this demo_slots [where te = 2 and ee = 2], of demo_tbl]
  have "tbl_parts demo_tbl (demo_mem 2 2) (replicate 2 0) (replicate (2 + 2) 0) (\<lambda>_. []) (\<lambda>_. [])"
    by (rule fresh(1)) (simp_all add: demo_tbl_def zero_table_cache_def sizes_ok_def)
  then show "tbl_inv demo_tbl" unfolding tbl_inv_def by blast
  show "rules_of demo_tbl = Map.empty"
    by (rule fresh(2)) (simp_all add: demo_tbl_def zero_table_cache_def sizes_ok_def)
qed

lemma demo_cache_tbl: "ip4_tbl demo_cache = [demo_tbl]"
  by (simp add: demo_cache_def)

lemma demo_not_full: "\<not> rules_full demo_tbl r"
proof -
  have "dst_slot 2 r < 4" "src_slot 2 r < 4" using hash_slots(2,4) [of 2 r] by simp_all
  then show ?thesis
    by (simp add: rules_full_def rule_slots_full_def indx_slots_full_def demo_tbl_def demo_slots)
qed

lemma demo_alive: "\<not> dead_proto demo_rule"
  by (simp add: demo_rule_def)

section \<open>Adding and deleting rules\<close>

text \<open>
  C1: on a table that satisfies the invariant, the API function that adds a rule succeeds
  exactly when the table has a free rule slot and a free index slot for it; then it returns the
  least nonzero handle without a rule, the table maps this handle to the client's rule and every
  other handle to what it had, the invariant holds and nothing else of the cache changes. Otherwise it
  returns an error, writes no handle and changes nothing.
\<close>
theorem add_rule_refines:
  assumes "env_ok env" "tbl_inv t" "ip4_tbl c = [t]" "\<not> dead_proto r"
  shows "if rules_full t r then ipa_nat_add_ipv4_rule env 1 (Some r) False c = Some (- EINVAL, None, c)
    else \<exists>h t'. ipa_nat_add_ipv4_rule env 1 (Some r) False c = Some (0, Some h, c\<lparr>ip4_tbl := [t']\<rparr>) \<and>
      0 < h \<and> rules_of t h = None \<and> (\<forall>h'. 0 < h' \<and> h' < h \<longrightarrow> rules_of t h' \<noteq> None) \<and>
      rules_of t' = (rules_of t)(h \<mapsto> r) \<and> tbl_inv t' \<and> table_entries t' = table_entries t \<and> expn_table_entries t' = expn_table_entries t \<and>
      public_addr t' = public_addr t"
  using add_rule_spec [OF assms(1,2,4,3)] by (auto simp: ipa_nat_add_ipv4_rule_def)

lemma add_rule_refines_witness:
  "\<exists>h t'. ipa_nat_add_ipv4_rule demo_env 1 (Some demo_rule) False demo_cache =
      Some (0, Some h, demo_cache\<lparr>ip4_tbl := [t']\<rparr>) \<and> rules_of t' = [h \<mapsto> demo_rule]"
  using add_rule_refines [OF demo_env_ok(1) demo_tbl_inv(1) demo_cache_tbl demo_alive] demo_not_full
  by (auto simp: demo_tbl_inv(2))

text \<open>
  C2: the API function that deletes a rule succeeds for every handle of a rule in the table:
  afterwards the handle maps to nothing, every other handle to the same rule as before
  (whatever chain surgery the two tables needed), and the invariant holds.
\<close>
theorem del_rule_refines:
  assumes "env_ok env" "tbl_inv t" "ip4_tbl c = [t]" "rules_of t h = Some r"
  shows "\<exists>t'. ipa_nat_del_ipv4_rule env 1 h c = Some (0, c\<lparr>ip4_tbl := [t']\<rparr>) \<and>
    rules_of t' = (rules_of t)(h := None) \<and> tbl_inv t' \<and> table_entries t' = table_entries t \<and>
    expn_table_entries t' = expn_table_entries t \<and> public_addr t' = public_addr t"
proof -
  have "h \<noteq> 0" using assms(4) by (auto simp: rules_of_def split: option.splits if_splits)
  then show ?thesis
    using del_rule_spec [OF assms] by (auto simp: ipa_nat_del_ipv4_rule_def)
qed

lemma demo_added:
  obtains h t where "tbl_inv t" "rules_of t = [h \<mapsto> demo_rule]" "0 < h"
    "ipa_nat_add_ipv4_rule demo_env 1 (Some demo_rule) False demo_cache = Some (0, Some h, demo_cache\<lparr>ip4_tbl := [t]\<rparr>)"
  by (rule api_add_del_spec [OF demo_env_ok(1) demo_tbl_inv(1) demo_cache_tbl demo_alive demo_not_full])
    (simp add: demo_tbl_inv(2))

lemma del_rule_refines_witness:
  "\<exists>h c1 t2. ipa_nat_add_ipv4_rule demo_env 1 (Some demo_rule) False demo_cache = Some (0, Some h, c1) \<and>
    ipa_nat_del_ipv4_rule demo_env 1 h c1 = Some (0, c1\<lparr>ip4_tbl := [t2]\<rparr>) \<and> rules_of t2 = Map.empty"
proof -
  obtain h t where h: "tbl_inv t" "rules_of t = [h \<mapsto> demo_rule]"
    "ipa_nat_add_ipv4_rule demo_env 1 (Some demo_rule) False demo_cache = Some (0, Some h, demo_cache\<lparr>ip4_tbl := [t]\<rparr>)"
    by (rule demo_added)
  have "rules_of t h = Some demo_rule" "ip4_tbl (demo_cache\<lparr>ip4_tbl := [t]\<rparr>) = [t]" using h(2) by simp_all
  from del_rule_refines [OF demo_env_ok(1) h(1) this(2,1)] h(2,3) show ?thesis by fastforce
qed

text \<open>
  Deleting a handle that holds no rule (never given out, already deleted, or too big for
  the table) is refused and changes nothing.
\<close>
theorem del_rule_unknown:
  assumes "tbl_inv t" "ip4_tbl c = [t]" "rules_of t h = None" "0 < h" "h < 65536"
  shows "ipa_nat_del_ipv4_rule env 1 h c = Some (- EINVAL, c)"
  using del_unknown_spec [OF assms, of env] assms(4) by (simp add: ipa_nat_del_ipv4_rule_def)

lemma del_rule_unknown_witness: "ipa_nat_del_ipv4_rule demo_env 1 9 demo_cache = Some (- EINVAL, demo_cache)"
  by (rule del_rule_unknown [OF demo_tbl_inv(1) demo_cache_tbl]) (simp_all add: demo_tbl_inv(2))



text \<open>
  Creating a table of up to 20480 entries succeeds when the kernel grants the memory; the
  table is empty, satisfies the invariant, translates to the given address and has room for at
  least four fifths of the entries in its base part and a fifth in its expansion part.
\<close>
theorem create_table:
  assumes "kernel_ok env" "0 < n" "n \<le> 20480"
  shows "\<exists>t c. ipa_nat_add_ipv4_tbl env ip n False ipv4_nat_cache_init = Some (0, Some 1, c) \<and>
    ip4_tbl c = [t] \<and> table_cnt c = 1 \<and> tbl_inv t \<and> rules_of t = Map.empty \<and> public_addr t = ip \<and>
    4 * n div 5 \<le> table_entries t \<and> n div 5 \<le> expn_table_entries t"
proof -
  obtain t c where "ipa_nati_add_ipv4_tbl env ip n ipv4_nat_cache_init = Some (0, 1, c)" "ip4_tbl c = [t]"
    "table_cnt c = 1" "tbl_inv t" "rules_of t = Map.empty" "public_addr t = ip"
    "base_share n \<le> table_entries t" "expn_share n \<le> expn_table_entries t"
    by (rule add_tbl_spec [OF assms(1,3) fresh_cache_init, of ip])
  then show ?thesis
    using assms(2) by (intro exI [of _ t] exI [of _ c]) (simp add: ipa_nat_add_ipv4_tbl_def base_share_def expn_share_def)
qed

lemma create_table_witness:
  "\<exists>t c. ipa_nat_add_ipv4_tbl demo_env 1 10 False ipv4_nat_cache_init = Some (0, Some 1, c) \<and> ip4_tbl c = [t] \<and>
    8 \<le> table_entries t \<and> 2 \<le> expn_table_entries t"
  using create_table [OF demo_env_ok(2), of 10 1] by auto

text \<open>
  C25: an addition followed by the deletion of the handle it returned leaves the client's view of
  the table as it was: both calls succeed and the map from handles to rules is the old one.
\<close>
theorem add_del_roundtrip:
  assumes "env_ok env" "tbl_inv t" "ip4_tbl c = [t]" "\<not> dead_proto r" "\<not> rules_full t r"
  shows "\<exists>h c1 t2. ipa_nat_add_ipv4_rule env 1 (Some r) False c = Some (0, Some h, c1) \<and>
    ipa_nat_del_ipv4_rule env 1 h c1 = Some (0, c\<lparr>ip4_tbl := [t2]\<rparr>) \<and>
    tbl_inv t2 \<and> rules_of t2 = rules_of t"
  using api_add_del_spec [OF assms] by metis

lemma add_del_roundtrip_witness:
  "\<exists>h c1 t2. ipa_nat_add_ipv4_rule demo_env 1 (Some demo_rule) False demo_cache = Some (0, Some h, c1) \<and>
    ipa_nat_del_ipv4_rule demo_env 1 h c1 = Some (0, demo_cache\<lparr>ip4_tbl := [t2]\<rparr>) \<and> rules_of t2 = Map.empty"
  using add_del_roundtrip [OF demo_env_ok(1) demo_tbl_inv(1) demo_cache_tbl demo_alive demo_not_full]
  by (auto simp: demo_tbl_inv(2))

section \<open>What the hardware finds\<close>






end
