(* ===== verification/Nat_App_Props.thy ===== *)
theory Nat_App_Props
  imports Nat_App_Ops Ipacm_Props Nat_Props
begin

text \<open>
  The properties of the NAT application: what its cache and the rules of the NAT driver's table
  have to do with each other, in every state it can reach and after each operation, each with an
  instance on an application with four entries over a kernel that grants every request.
\<close>

section \<open>A concrete application\<close>

definition demo_app_env :: app_env where
  "demo_app_env = \<lparr>drv_env = demo_env, cache_malloc_ok = True, alg_malloc_ok = True, nfct_open_ok = True,
     nfct_new_ok = True, nfct_query = (\<lambda>_. 0), udp_file = Some (Some 60), tcp_file = Some (Some 7200)\<rparr>"

definition demo_app :: natapp where
  "demo_app = snd (the (NatApp_Init demo_app_env (Some demo_config) (NatApp_new 7 0 0 (replicate 32 0) ipv4_nat_cache_init)))"

text \<open>UDP from 192.168.0.2:1024 to 10.0.0.1:5000, seen from port 4096 of 10.0.0.9.\<close>

definition demo_entry :: nat_table_entry where
  "demo_entry = \<lparr>private_ip = 0xC0A80002, private_port = 1024, target_ip = 0x0A000001, target_port = 5000,
     public_ip = 0x0A000009, public_port = 4096, protocol = 17, timestamp = 0, dst_nat = False, enabled = False, rule_hdl = 0\<rparr>"

lemma demo_os: "os_ok demo_app_env"
  using demo_env_ok by (simp add: os_ok_def demo_app_env_def demo_env_def)

lemma demo_app_Init:
  "NatApp_Init demo_app_env (Some demo_config) (NatApp_new 7 0 0 (replicate 32 0) ipv4_nat_cache_init) = Some (0, demo_app)"
  "max_entries demo_app = 4" "cache demo_app = replicate 4 zero_entry" "PwrSaveIfs demo_app = replicate 32 0"
  "pub_ip_addr_pre demo_app = 7" "nat_table_hdl demo_app = 0" "pALGPorts demo_app = [\<lparr>alg_protocol = 6, alg_port = 21\<rparr>]"
proof -
  have c: "ipa_nat_max_entries demo_config = 4" "ipa_num_alg_ports demo_config = 1"
    "alg_table demo_config = [\<lparr>alg_protocol = 6, alg_port = 21\<rparr>]"
    by (simp_all add: demo_config_def IPACM_Config_Init_def demo_config_env_def demo_conf_def Let_def)
  show "NatApp_Init demo_app_env (Some demo_config) (NatApp_new 7 0 0 (replicate 32 0) ipv4_nat_cache_init) = Some (0, demo_app)"
    "max_entries demo_app = 4" "cache demo_app = replicate 4 zero_entry" "PwrSaveIfs demo_app = replicate 32 0"
    "pub_ip_addr_pre demo_app = 7" "nat_table_hdl demo_app = 0" "pALGPorts demo_app = [\<lparr>alg_protocol = 6, alg_port = 21\<rparr>]"
    by (simp_all add: demo_app_def NatApp_Init_def demo_app_env_def c Let_def GetAlgPorts_def NatApp_new_def)
qed

lemma demo_app_inv: "app_inv demo_app_env demo_app" "app_closed demo_app"
proof -
  from app_inv_Init [OF demo_app_Init(1) fresh_cache_init] show i: "app_inv demo_app_env demo_app" by simp
  then show "app_closed demo_app" using demo_app_Init(6) by (simp add: app_inv_def app_open_def)
qed

text \<open>The same with a table for 10.0.0.9, and then with one connection cached.\<close>

lemma demo_open:
  obtains b where "AddTable demo_app_env 0x0A000009 demo_app = Some (0, b)" "app_inv demo_app_env b" "app_open demo_app_env b"
    "cache b = replicate 4 zero_entry" "max_entries b = 4" "PwrSaveIfs b = replicate 32 0" "pub_ip_addr b = 0x0A000009"
    "pALGPorts b = [\<lparr>alg_protocol = 6, alg_port = 21\<rparr>]" "drv_rules (drv b) = Map.empty"
    "\<And>r. \<not> rules_full (hd (ip4_tbl (drv b))) r" "app_reach demo_app_env demo_app b"
proof -
  have n: "0 < max_entries demo_app" "max_entries demo_app \<le> 20480" by (simp_all add: demo_app_Init)
  obtain d where d: "ipa_nat_add_ipv4_tbl (drv_env demo_app_env) 0x0A000009 (max_entries demo_app) False (drv demo_app) = Some (0, Some 1, d)"
    "drv_ok (drv_env demo_app_env) d" "drv_rules d = Map.empty" "\<And>r. \<not> rules_full (hd (ip4_tbl d)) r"
    by (rule new_table [OF demo_app_inv(2) demo_os n]) (rule that)
  let ?b = "demo_app\<lparr>drv := d, nat_table_hdl := 1, pub_ip_addr := 0x0A000009\<rparr>"
  have run: "AddTable demo_app_env 0x0A000009 demo_app = Some (0, ?b)" using d(1) by (simp add: AddTable_def demo_app_Init)
  have off: "\<forall>e\<in>set (cache demo_app). \<not> enabled e" by (simp add: demo_app_Init)
  have inv: "app_inv demo_app_env ?b" 
    using AddTable_spec [OF demo_app_inv demo_os n disjI2 [OF off], where pub_ip = "0x0A000009"] unfolding run by auto
  then have "app_open demo_app_env ?b" by (simp add: app_inv_def app_closed_def)
  moreover have "app_reach demo_app_env demo_app ?b"
    by (rule app_reach.call [OF app_reach.start, of _ "ADD_TABLE 0x0A000009"]) (use run off in \<open>simp_all add: demo_app_Init\<close>)
  ultimately show thesis using run inv d(3,4) by (intro that [of ?b]) (simp_all add: demo_app_Init)
qed

lemma demo_entry_valid: "\<not> invalid_conn demo_entry" "protocol demo_entry \<noteq> 0xFF" "\<not> blank_entry demo_entry"
  "private_ip demo_entry = 0xC0A80002" "target_ip demo_entry = 0x0A000001"
  by (simp_all add: demo_entry_def invalid_conn_def blank_entry_def)

lemma demo_cached:
  obtains a b e where "app_inv demo_app_env b" "app_open demo_app_env b" "AddEntry demo_app_env demo_entry b = Some (0, a)"
    "app_inv demo_app_env a" "app_open demo_app_env a" "app_reach demo_app_env demo_app a" "max_entries a = 4"
    "cache a = (replicate 4 zero_entry)[0 := e]" "conn_of e = conn_of demo_entry" "nat_rule_of e = nat_rule_of demo_entry"
    "enabled e" "rule_hdl e = 1" "PwrSaveIfs a = replicate 32 0" "pub_ip_addr a = 0x0A000009"
    "pALGPorts a = [\<lparr>alg_protocol = 6, alg_port = 21\<rparr>]" "drv_rules (drv a) = [1 \<mapsto> nat_rule_of demo_entry]"
proof -
  obtain b where b: "AddTable demo_app_env 0x0A000009 demo_app = Some (0, b)" "app_inv demo_app_env b" "app_open demo_app_env b"
    "cache b = replicate 4 zero_entry" "max_entries b = 4" "PwrSaveIfs b = replicate 32 0" "pub_ip_addr b = 0x0A000009"
    "pALGPorts b = [\<lparr>alg_protocol = 6, alg_port = 21\<rparr>]" "drv_rules (drv b) = Map.empty"
    "\<And>r. \<not> rules_full (hd (ip4_tbl (drv b))) r" "app_reach demo_app_env demo_app b" by (rule demo_open) (rule that)
  have alg: "\<not> isAlgPort b (protocol demo_entry) (private_port demo_entry)"
    "\<not> isAlgPort b (protocol demo_entry) (target_port demo_entry)" by (simp_all add: isAlgPort_def b(8) demo_entry_def)
  have dup: "\<forall>j<max_entries b. \<not> same_conn (cache b ! j) demo_entry"
    by (simp add: b(4,5) same_conn_def zero_entry_def demo_entry_def)
  have awake: "\<not> isPwrSaveIf b (private_ip demo_entry) \<and> \<not> isPwrSaveIf b (target_ip demo_entry)"
    by (simp add: isPwrSaveIf_def b(6) list_ex_iff)
  show thesis
  proof (rule AddEntry_spec [OF b(2,3) alg demo_entry_valid(1,2) dup])
    fix i e d a assume a: "AddEntry demo_app_env demo_entry b = Some (0, a)" "a = upd_app b ((cache b)[i := e]) (curCnt b + 1) d"
      "app_inv demo_app_env a" "i < max_entries b" "blank_entry (cache b ! i)" "\<forall>j<i. \<not> blank_entry (cache b ! j)"
      "conn_of e = conn_of demo_entry" "nat_rule_of e = nat_rule_of demo_entry"
      "enabled e = (\<not> isPwrSaveIf b (private_ip demo_entry) \<and> \<not> isPwrSaveIf b (target_ip demo_entry))"
      "enabled e \<Longrightarrow> drv_rules (drv b) (rule_hdl e) = None \<and> 0 < rule_hdl e \<and>
         (\<forall>h'. 0 < h' \<and> h' < rule_hdl e \<longrightarrow> drv_rules (drv b) h' \<noteq> None) \<and>
         drv_rules d = (drv_rules (drv b))(rule_hdl e \<mapsto> nat_rule_of demo_entry)"
    have on: "enabled e" using a(9) awake by simp
    have h: "rule_hdl e = 1" using a(10) [OF on] b(9) by (cases "rule_hdl e = 1") (auto dest: spec [of _ 1])
    have i: "i = 0" using a(6) by (cases i) (auto simp: b(4) nth_append)
    have hdl: "nat_table_hdl a = nat_table_hdl b" using a(2) by simp
    have "app_open demo_app_env a" using a(3) b(3) hdl by (simp add: app_inv_def app_open_def app_closed_def)
    moreover have "app_reach demo_app_env demo_app a"
      by (rule app_reach.call [OF b(11), of "ADD_ENTRY demo_entry"]) (use a(1) demo_entry_valid in simp_all)
    ultimately show thesis using a b on h i by (intro that [of b a e]) (simp_all add: a(2))
  next
    assume "\<forall>j<max_entries b. \<not> blank_entry (cache b ! j)"
    then show thesis by (simp add: b(4,5)) (use entry_simps(1) in force)
  qed (use awake b(10) in blast)+
qed

section \<open>Every state\<close>



section \<open>Single operations\<close>

text \<open>
  C24: \<open>AddEntry\<close> of a valid connection that is neither cached nor of an application level gateway,
  while a table exists: without a blank entry it fails; while either end sleeps it caches the
  connection and leaves the table alone; otherwise it inserts the rule under the least free handle
  and caches the connection as enabled, or, when the driver has no slot for the rule, fails and
  changes nothing.
\<close>
theorem add_entry_outcomes:
  assumes "app_inv env a" "app_open env a" "\<not> invalid_conn rule" "protocol rule \<noteq> 0xFF"
    and "\<not> isAlgPort a (protocol rule) (private_port rule)" "\<not> isAlgPort a (protocol rule) (target_port rule)"
    and "\<forall>j<max_entries a. \<not> same_conn (cache a ! j) rule"
  shows "\<exists>ret b. AddEntry env rule a = Some (ret, b) \<and> app_inv env b \<and>
    (if \<forall>j<max_entries a. \<not> blank_entry (cache a ! j) then ret = -1 \<and> b = a
     else let asleep = isPwrSaveIf a (private_ip rule) \<or> isPwrSaveIf a (target_ip rule) in
       (if ret = 0 then (\<exists>i<max_entries a. blank_entry (cache a ! i) \<and> same_conn (cache b ! i) rule \<and>
              (\<forall>j<max_entries a. j \<noteq> i \<longrightarrow> cache b ! j = cache a ! j) \<and> enabled (cache b ! i) = (\<not> asleep) \<and>
              (if asleep then drv b = drv a
               else drv_rules (drv b) = (drv_rules (drv a))(rule_hdl (cache b ! i) \<mapsto> nat_rule_of rule) \<and>
                 rule_hdl (cache b ! i) = (LEAST h. 0 < h \<and> drv_rules (drv a) h = None)))
        else ret = -1 \<and> b = a \<and> \<not> asleep \<and> rules_full (hd (ip4_tbl (drv a))) (nat_rule_of rule)))"
proof (rule AddEntry_spec [OF assms(1,2,5,6,3,4,7)])
  assume "AddEntry env rule a = Some (-1, a)" "\<forall>j<max_entries a. \<not> blank_entry (cache a ! j)"
  then show ?thesis using assms(1) by simp
next
  assume r: "AddEntry env rule a = Some (-1, a)" "\<not> isPwrSaveIf a (private_ip rule) \<and> \<not> isPwrSaveIf a (target_ip rule)"
    "rules_full (hd (ip4_tbl (drv a))) (nat_rule_of rule)"
  then show ?thesis using assms(1) by (intro exI [of _ "-1"] exI [of _ a]) simp
next
  fix i e d b assume b: "AddEntry env rule a = Some (0, b)" "b = upd_app a ((cache a)[i := e]) (curCnt a + 1) d"
      "app_inv env b" "i < max_entries a" "blank_entry (cache a ! i)"
      "conn_of e = conn_of rule" "enabled e = (\<not> isPwrSaveIf a (private_ip rule) \<and> \<not> isPwrSaveIf a (target_ip rule))"
      "enabled e \<Longrightarrow> drv_rules (drv a) (rule_hdl e) = None \<and> 0 < rule_hdl e \<and>
         (\<forall>h'. 0 < h' \<and> h' < rule_hdl e \<longrightarrow> drv_rules (drv a) h' \<noteq> None) \<and>
         drv_rules d = (drv_rules (drv a))(rule_hdl e \<mapsto> nat_rule_of rule)"
      "\<not> enabled e \<Longrightarrow> d = drv a"
  have "i < length (cache a)" using assms(1) b(4) by (simp add: app_inv_def app_wf_def)
  then have e: "cache b ! i = e" "\<forall>j<max_entries a. j \<noteq> i \<longrightarrow> cache b ! j = cache a ! j" using b(2) by simp_all
  have l: "rule_hdl e = (LEAST h. 0 < h \<and> drv_rules (drv a) h = None)" if "enabled e"
    using b(8) [OF that] by (intro Least_equality [symmetric]) (auto simp: not_less [symmetric])
  have asleep: "(isPwrSaveIf a (private_ip rule) \<or> isPwrSaveIf a (target_ip rule)) = (\<not> enabled e)" using b(7) by blast
  have nf: "(\<forall>j<max_entries a. \<not> blank_entry (cache a ! j)) = False" using b(4,5) by blast
  have "same_conn (cache b ! i) rule" using b(6) e(1) by (simp add: same_conn_iff)
  then have "\<exists>i<max_entries a. blank_entry (cache a ! i) \<and> same_conn (cache b ! i) rule \<and>
      (\<forall>j<max_entries a. j \<noteq> i \<longrightarrow> cache b ! j = cache a ! j) \<and> enabled (cache b ! i) = (\<not> \<not> enabled e) \<and>
      (if \<not> enabled e then drv b = drv a
       else drv_rules (drv b) = (drv_rules (drv a))(rule_hdl (cache b ! i) \<mapsto> nat_rule_of rule) \<and>
         rule_hdl (cache b ! i) = (LEAST h. 0 < h \<and> drv_rules (drv a) h = None))"
    using b(2,4,5,8,9) e l by (intro exI [of _ i]) simp
  then show ?thesis unfolding asleep nf Let_def using b(1,3) by (intro exI [of _ "0::int"] exI [of _ b]) simp
qed

lemma add_entry_outcomes_witness:
  "\<exists>b a i. app_open demo_app_env b \<and> AddEntry demo_app_env demo_entry b = Some (0, a) \<and> app_inv demo_app_env a \<and>
     i < 4 \<and> same_conn (cache a ! i) demo_entry \<and> enabled (cache a ! i)"
proof -
  obtain b where b: "app_inv demo_app_env b" "app_open demo_app_env b" "cache b = replicate 4 zero_entry" "max_entries b = 4"
    "PwrSaveIfs b = replicate 32 0" "pALGPorts b = [\<lparr>alg_protocol = 6, alg_port = 21\<rparr>]" "\<And>r. \<not> rules_full (hd (ip4_tbl (drv b))) r"
    by (rule demo_open) (rule that)
  have alg: "\<not> isAlgPort b (protocol demo_entry) (private_port demo_entry)"
    "\<not> isAlgPort b (protocol demo_entry) (target_port demo_entry)" by (simp_all add: isAlgPort_def b(6) demo_entry_def)
  have dup: "\<forall>j<max_entries b. \<not> same_conn (cache b ! j) demo_entry"
    by (simp add: b(3,4) same_conn_def zero_entry_def demo_entry_def)
  have awake: "\<not> isPwrSaveIf b x" for x by (simp add: isPwrSaveIf_def b(5) list_ex_iff)
  have "\<not> (\<forall>j<max_entries b. \<not> blank_entry (cache b ! j))" using b(3,4) entry_simps(1) by force
  with add_entry_outcomes [OF b(1,2) demo_entry_valid(1,2) alg dup] b(2,4,7) awake show ?thesis
    by (auto simp: Let_def split: if_splits)
qed

text \<open>Operations that disable the entries of some rules and keep the others.\<close>

definition conn_of_rule :: "ipa_nat_ipv4_rule \<Rightarrow> u32 \<times> u32 \<times> u16 \<times> u16 \<times> u8" where
  "conn_of_rule r = (clnt_private_ip r, clnt_target_ip r, clnt_private_port r, clnt_target_port r, clnt_protocol r)"

lemma conn_of_rule_of [simp]: "conn_of_rule (nat_rule_of e) = conn_of e"
  by (simp add: conn_of_rule_def conn_of_def nat_rule_of_def)

lemma private_of_rule_of [simp]: "clnt_private_ip (nat_rule_of e) = private_ip e"
  by (simp add: nat_rule_of_def)

lemma rules_kept:
  assumes "app_inv env a" "app_inv env b" "nat_table_hdl a \<noteq> 0" "nat_table_hdl b = nat_table_hdl a" "max_entries b = max_entries a"
    and "\<And>i. i < max_entries a \<Longrightarrow> enabled (cache b ! i) = (enabled (cache a ! i) \<and> \<not> P (nat_rule_of (cache a ! i)))"
    and "\<And>i. i < max_entries a \<Longrightarrow> enabled (cache b ! i) \<Longrightarrow>
      rule_hdl (cache b ! i) = rule_hdl (cache a ! i) \<and> nat_rule_of (cache b ! i) = nat_rule_of (cache a ! i)"
  shows "drv_rules (drv b) h = Some r \<longleftrightarrow> drv_rules (drv a) h = Some r \<and> \<not> P r"
proof -
  have hb: "nat_table_hdl b \<noteq> 0" using assms(3,4) by simp
  show ?thesis
    unfolding inv_open_rules [OF assms(1,3)] inv_open_rules [OF assms(2) hb] assms(5) using assms(6,7) by metis
qed

text \<open>
  C23: while a table exists, \<open>DeleteEntry\<close> takes the connection out of the cache and its rule out of
  the table, and keeps every other entry and every rule of another connection.
\<close>
theorem delete_entry_exact:
  assumes "app_inv env a" "app_open env a" "\<not> blank_entry rule"
  shows "\<exists>b. DeleteEntry env rule a = Some (0, b) \<and> app_inv env b \<and>
    (\<forall>i<max_entries a. cache b ! i = (if same_conn (cache a ! i) rule then zero_entry else cache a ! i)) \<and>
    (\<forall>h r. drv_rules (drv b) h = Some r \<longleftrightarrow> drv_rules (drv a) h = Some r \<and>
       conn_of_rule r \<noteq> conn_of rule)"
proof -
  obtain b where b: "DeleteEntry env rule a = Some (0, b)" "app_inv env b" "app_frame a b"
    "\<forall>i<max_entries a. cache b ! i = (if same_conn (cache a ! i) rule then zero_entry else cache a ! i)"
    using DeleteEntry_spec [OF assms(1,3)] by blast
  have f: "max_entries b = max_entries a" "nat_table_hdl b = nat_table_hdl a" "nat_table_hdl a \<noteq> 0"
    using app_frame_simps [OF b(3)] assms(2) by (simp_all add: app_open_def)
  have "drv_rules (drv b) h = Some r \<longleftrightarrow> drv_rules (drv a) h = Some r \<and> \<not> conn_of_rule r = conn_of rule" for h r
    by (rule rules_kept [OF assms(1) b(2) f(3,2,1)]) (use b(4) in \<open>auto simp: same_conn_iff\<close>)
  then show ?thesis using b by blast
qed

lemma delete_entry_exact_witness:
  "\<exists>a b. app_reach demo_app_env demo_app a \<and> drv_rules (drv a) = [1 \<mapsto> nat_rule_of demo_entry] \<and>
     DeleteEntry demo_app_env demo_entry a = Some (0, b) \<and> cache b = replicate 4 zero_entry \<and> drv_rules (drv b) = Map.empty"
proof -
  obtain a b e where a: "app_inv demo_app_env a" "app_open demo_app_env a" "app_reach demo_app_env demo_app a" "max_entries a = 4"
    "cache a = (replicate 4 zero_entry)[0 := e]" "conn_of e = conn_of demo_entry" "drv_rules (drv a) = [1 \<mapsto> nat_rule_of demo_entry]"
    by (rule demo_cached)
  obtain b where b: "DeleteEntry demo_app_env demo_entry a = Some (0, b)" "app_inv demo_app_env b"
    "\<forall>i<4. cache b ! i = (if same_conn (cache a ! i) demo_entry then zero_entry else cache a ! i)"
    "\<forall>h r. drv_rules (drv b) h = Some r \<longleftrightarrow> drv_rules (drv a) h = Some r \<and>
       conn_of_rule r \<noteq> conn_of demo_entry"
    using delete_entry_exact [OF a(1,2) demo_entry_valid(3)] unfolding a(4) by blast
  have none: "drv_rules (drv b) h = None" for h
    using b(4) unfolding a(7) by (cases "drv_rules (drv b) h") (auto split: if_splits)
  obtain b2 where "DeleteEntry demo_app_env demo_entry a = Some (0, b2)" "app_frame a b2"
    using DeleteEntry_spec [OF a(1) demo_entry_valid(3)] by blast
  then have "length (cache b) = 4" using b(1,2) a(4) app_frame_simps [of a b] by (simp add: app_inv_def app_wf_def)
  then have "cache b = replicate 4 zero_entry"
    using b(3) a(6) by (intro nth_equalityI) (auto simp: a(5) nth_list_update same_conn_iff)
  then show ?thesis using a(3,7) b(1) none by (intro exI [of _ a] exI [of _ b]) auto
qed

text \<open>
  C22: after \<open>UpdatePwrSaveIf\<close> for a client that was awake, no rule of the table has its private
  address, every other rule is where it was, and the cache keeps all its connections.
\<close>
theorem sleeping_client_has_no_rules:
  assumes "app_inv env a" "app_open env a" "ip \<noteq> 0" "ip \<notin> set (PwrSaveIfs a)"
  shows "\<exists>b. UpdatePwrSaveIf env ip a = Some (0, b) \<and> app_inv env b \<and>
    (\<forall>h r. drv_rules (drv b) h = Some r \<longleftrightarrow> drv_rules (drv a) h = Some r \<and> clnt_private_ip r \<noteq> ip) \<and>
    (\<forall>i<max_entries a. conn_of (cache b ! i) = conn_of (cache a ! i)) \<and> curCnt b = curCnt a \<and>
    (0 \<in> set (PwrSaveIfs a) \<longrightarrow> isPwrSaveIf b ip)"
proof -
  obtain b where b: "UpdatePwrSaveIf env ip a = Some (0, b)" "app_inv env b"
    "app_frame (a\<lparr>PwrSaveIfs := pwr_with ip (PwrSaveIfs a)\<rparr>) b"
    "\<forall>i<max_entries a. cache b ! i = (let e = cache a ! i in
       if private_ip e = ip \<and> enabled e \<and> nat_table_hdl a = 1 then e\<lparr>enabled := False, rule_hdl := 0\<rparr> else e)"
    using UpdatePwrSaveIf_spec [OF assms(1,3,4)] by blast
  have h1: "nat_table_hdl a = 1" using assms(2) by (simp add: app_open_def)
  have f: "max_entries b = max_entries a" "nat_table_hdl b = nat_table_hdl a" "nat_table_hdl a \<noteq> 0"
    "PwrSaveIfs b = pwr_with ip (PwrSaveIfs a)"
    using app_frame_simps [OF b(3)] h1 by simp_all
  have w: "curCnt a = used_entries (cache a)" "curCnt b = used_entries (cache b)" "length (cache a) = max_entries a"
    "length (cache b) = max_entries a" using assms(1) b(2) f(1) by (simp_all add: app_inv_def app_wf_def)
  have rules: "drv_rules (drv b) h = Some r \<longleftrightarrow> drv_rules (drv a) h = Some r \<and> clnt_private_ip r \<noteq> ip" for h r
    by (rule rules_kept [OF assms(1) b(2) f(3,2,1)]) (use b(4) in \<open>auto simp: h1 Let_def\<close>)
  have conn: "conn_of (cache b ! i) = conn_of (cache a ! i)" if "i < max_entries a" for i
    using b(4) that by (simp add: Let_def)
  have "map conn_of (cache b) = map conn_of (cache a)" using conn w(3,4) by (simp add: list_eq_iff_nth_eq)
  moreover have "used_entries es = int (length (filter (\<lambda>c. c \<noteq> (0, 0, 0, 0, 0)) (map conn_of es)))" for es
    by (simp add: used_entries_def filter_map comp_def conn_of_def blank_entry_def)
  ultimately have "curCnt b = curCnt a" by (simp only: w(1,2))
  moreover have "isPwrSaveIf b ip" if z: "0 \<in> set (PwrSaveIfs a)"
  proof -
    obtain k where k: "k < length (PwrSaveIfs a)" "PwrSaveIfs a ! k = 0" using z by (auto simp: in_set_conv_nth)
    then have "(LEAST i. PwrSaveIfs a ! i = 0) < length (PwrSaveIfs a)" by (meson Least_le le_less_trans)
    then have "ip \<in> set (PwrSaveIfs b)" using z by (simp add: f(4) pwr_with_def set_update_memI)
    then show ?thesis using assms(3) by (auto simp: isPwrSaveIf_def list_ex_iff)
  qed
  ultimately show ?thesis using b(1,2) rules conn by (intro exI [of _ b]) blast
qed

lemma sleeping_client_has_no_rules_witness:
  "\<exists>a b. app_reach demo_app_env demo_app a \<and> drv_rules (drv a) = [1 \<mapsto> nat_rule_of demo_entry] \<and>
     UpdatePwrSaveIf demo_app_env 0xC0A80002 a = Some (0, b) \<and> drv_rules (drv b) = Map.empty \<and> curCnt b = curCnt a \<and>
     isPwrSaveIf b 0xC0A80002"
proof -
  obtain a b e where a: "app_inv demo_app_env a" "app_open demo_app_env a" "app_reach demo_app_env demo_app a"
    "PwrSaveIfs a = replicate 32 0" "drv_rules (drv a) = [1 \<mapsto> nat_rule_of demo_entry]"
    by (rule demo_cached)
  obtain b where b: "UpdatePwrSaveIf demo_app_env 0xC0A80002 a = Some (0, b)" "curCnt b = curCnt a" "isPwrSaveIf b 0xC0A80002"
    "\<forall>h r. drv_rules (drv b) h = Some r \<longleftrightarrow> drv_rules (drv a) h = Some r \<and> clnt_private_ip r \<noteq> 0xC0A80002"
    using sleeping_client_has_no_rules [OF a(1,2), where ip = "0xC0A80002"] a(4) by auto
  have none: "drv_rules (drv b) h = None" for h
    using b(4) unfolding a(5) by (cases "drv_rules (drv b) h") (auto simp: nat_rule_of_def demo_entry_def split: if_splits)
  then show ?thesis using a(3,5) b by (intro exI [of _ a] exI [of _ b]) auto
qed



text \<open>
  C35: a table for another address does not restore the cached connections, but they keep the
  \<open>enabled\<close> flag of the old table, since \<open>Reset\<close> compares the flags with false instead of clearing
  them. When such an entry holds handle 1 and a new connection is added, deleting the old connection
  removes the new connection's rule from the table, and the new one stays cached as enabled.
\<close>
theorem stale_flag_deletes_foreign_rule:
  assumes "app_inv env a" "app_closed a" "os_ok env" "0 < max_entries a" "max_entries a \<le> 20480" "pub_ip \<noteq> pub_ip_addr_pre a"
    and "i < max_entries a" "enabled (cache a ! i)" "rule_hdl (cache a ! i) = 1"
    and "\<not> isAlgPort a (protocol r) (private_port r)" "\<not> isAlgPort a (protocol r) (target_port r)"
    and "\<not> invalid_conn r" "protocol r \<noteq> 0xFF" "\<forall>j<max_entries a. \<not> same_conn (cache a ! j) r"
    and "\<not> isPwrSaveIf a (private_ip r)" "\<not> isPwrSaveIf a (target_ip r)" "\<exists>j<max_entries a. blank_entry (cache a ! j)"
  shows "\<exists>b c d j. AddTable env pub_ip a = Some (0, b) \<and> AddEntry env r b = Some (0, c) \<and>
    drv_rules (drv c) = [1 \<mapsto> nat_rule_of r] \<and> DeleteEntry env (cache a ! i) c = Some (0, d) \<and>
    drv_rules (drv d) = Map.empty \<and> j < max_entries d \<and> same_conn (cache d ! j) r \<and> enabled (cache d ! j)"
  by (rule stale_delete [OF assms])

text \<open>The address changes from 10.0.0.9 to 10.0.0.10; the new connection is to another port.\<close>

lemma stale_flag_deletes_foreign_rule_witness:
  "\<exists>s a b c d e. app_reach demo_app_env demo_app s \<and> DeleteTable demo_app_env 0x0A000009 s = Some (0, a) \<and>
     AddTable demo_app_env 0x0A00000A a = Some (0, b) \<and> AddEntry demo_app_env (demo_entry\<lparr>target_port := 5001\<rparr>) b = Some (0, c) \<and>
     drv_rules (drv c) = [1 \<mapsto> nat_rule_of (demo_entry\<lparr>target_port := 5001\<rparr>)] \<and>
     conn_of e = conn_of demo_entry \<and> DeleteEntry demo_app_env e c = Some (0, d) \<and> drv_rules (drv d) = Map.empty"
proof -
  obtain s0 s e where s: "app_inv demo_app_env s" "app_open demo_app_env s" "app_reach demo_app_env demo_app s" "max_entries s = 4"
    "cache s = (replicate 4 zero_entry)[0 := e]" "conn_of e = conn_of demo_entry" "enabled e" "rule_hdl e = 1"
    "PwrSaveIfs s = replicate 32 0" "pub_ip_addr s = 0x0A000009" "pALGPorts s = [\<lparr>alg_protocol = 6, alg_port = 21\<rparr>]"
    by (rule demo_cached)
  obtain d where d: "DeleteTable demo_app_env 0x0A000009 s =
      Some (0, s\<lparr>drv := d, pub_ip_addr_pre := 0x0A000009, nat_table_hdl := 0, pub_ip_addr := 0\<rparr>)"
    "app_inv demo_app_env (s\<lparr>drv := d, pub_ip_addr_pre := 0x0A000009, nat_table_hdl := 0, pub_ip_addr := 0\<rparr>)" "fresh_cache d"
    using DeleteTable_spec [OF s(1,2) demo_os s(10)] by blast
  let ?a = "s\<lparr>drv := d, pub_ip_addr_pre := 0x0A000009, nat_table_hdl := 0, pub_ip_addr := 0\<rparr>"
  let ?r = "demo_entry\<lparr>target_port := 5001\<rparr>"
  have closed: "app_closed ?a" using d(3) by (simp add: app_closed_def)
  have n: "0 < max_entries ?a" "max_entries ?a \<le> 20480" by (simp_all add: s(4))
  have c0: "cache ?a ! 0 = e" by (simp add: s(5))
  have alg: "\<not> isAlgPort ?a (protocol ?r) (private_port ?r)" "\<not> isAlgPort ?a (protocol ?r) (target_port ?r)"
    by (simp_all add: isAlgPort_def s(11) demo_entry_def)
  have r: "\<not> invalid_conn ?r" "protocol ?r \<noteq> 0xFF" by (simp_all add: demo_entry_def invalid_conn_def)
  have new: "\<not> same_conn (cache ?a ! j) ?r" if "j < max_entries ?a" for j
    using that s(6) by (simp add: s(4,5) nth_list_update same_conn_iff) (simp add: conn_of_def zero_entry_def demo_entry_def)
  have awake: "\<not> isPwrSaveIf ?a x" for x by (simp add: isPwrSaveIf_def s(9) list_ex_iff)
  have free: "\<exists>j<max_entries ?a. blank_entry (cache ?a ! j)" by (intro exI [of _ 1]) (simp add: s(4,5))
  have ip: "0x0A00000A \<noteq> pub_ip_addr_pre ?a" by simp
  have e: "enabled (cache ?a ! 0)" "rule_hdl (cache ?a ! 0) = 1" unfolding c0 using s(7,8) by simp_all
  obtain b c f where "AddTable demo_app_env 0x0A00000A ?a = Some (0, b)" "AddEntry demo_app_env ?r b = Some (0, c)"
    "drv_rules (drv c) = [1 \<mapsto> nat_rule_of ?r]" "DeleteEntry demo_app_env (cache ?a ! 0) c = Some (0, f)" "drv_rules (drv f) = Map.empty"
    using stale_flag_deletes_foreign_rule [OF d(2) closed demo_os n ip n(1) e alg r _ awake awake free] new by blast
  then show ?thesis unfolding c0 using s(3,6) d(1)
    by (intro exI [of _ s] exI [of _ ?a] exI [of _ b] exI [of _ c] exI [of _ f] exI [of _ e]) simp
qed

section \<open>Time stamps\<close>

text \<open>
  \<open>UpdateUDPTimeStamp\<close> always returns; it changes the time stamp of some entries and drops others
  (those that connection tracking no longer knows), it touches no entry that is not enabled, and the
  table loses exactly the rules of the connections dropped.
\<close>
theorem stamps_keep_rules:
  assumes "app_inv env a" "app_open env a"
  shows "\<exists>b. UpdateUDPTimeStamp env a = Some b \<and> app_inv env b \<and>
    (\<forall>i<max_entries a. if enabled (cache a ! i) then cache b ! i = zero_entry \<or> (\<exists>ts. cache b ! i = (cache a ! i)\<lparr>timestamp := ts\<rparr>)
       else cache b ! i = cache a ! i) \<and>
    (\<forall>h r. drv_rules (drv b) h = Some r \<longleftrightarrow>
       drv_rules (drv a) h = Some r \<and> (\<exists>i<max_entries a. conn_of (cache b ! i) = conn_of_rule r))"
proof -
  obtain b where b: "UpdateUDPTimeStamp env a = Some b" "app_inv env b" "same_table a b"
    "\<forall>i<max_entries a. if enabled (cache a ! i) then touched (cache a ! i) (cache b ! i) else cache b ! i = cache a ! i"
    using UpdateUDPTimeStamp_inv [OF assms(1)] by blast
  have f: "max_entries b = max_entries a" "nat_table_hdl b = nat_table_hdl a" "nat_table_hdl a \<noteq> 0"
    using b(3) assms(2) by (simp_all add: same_table_def app_open_def)
  have kept: "conn_of (cache b ! j) = conn_of (cache a ! j) \<or> cache b ! j = zero_entry" if "j < max_entries a" for j
    using b(4) that by (auto simp: touched_def split: if_splits)
  have dropped: "conn_of (cache b ! j) \<noteq> conn_of (cache a ! i)"
    if ij: "i < max_entries a" "j < max_entries a" and e: "enabled (cache a ! i)" "cache b ! i = zero_entry" for i j
  proof
    assume same: "conn_of (cache b ! j) = conn_of (cache a ! i)"
    have nb: "\<not> blank_entry (cache a ! i)"
      using wf_enabled [of "cache a" i] assms(1) ij(1) e(1) by (simp add: app_inv_def app_wf_def)
    then have "cache b ! j \<noteq> zero_entry" using conn_tests(1) [OF same] entry_simps(1) by auto
    then have "conn_of (cache a ! j) = conn_of (cache a ! i)" using kept [OF ij(2)] same by simp
    then have "j = i" by (rule inv_distinct [OF assms(1) ij nb])
    then show False using \<open>cache b ! j \<noteq> zero_entry\<close> e(2) by simp
  qed
  have "drv_rules (drv b) h = Some r \<longleftrightarrow>
      drv_rules (drv a) h = Some r \<and> \<not> \<not> (\<exists>i<max_entries a. conn_of (cache b ! i) = conn_of_rule r)" for h r
  proof (rule rules_kept [OF assms(1) b(2) f(3,2,1)])
    fix i assume i: "i < max_entries a"
    from b(4) i consider (off) "\<not> enabled (cache a ! i)" "cache b ! i = cache a ! i"
      | (gone) "enabled (cache a ! i)" "cache b ! i = zero_entry"
      | (there) ts where "enabled (cache a ! i)" "cache b ! i = (cache a ! i)\<lparr>timestamp := ts\<rparr>"
      by (auto simp: touched_def split: if_splits)
    then show "enabled (cache b ! i) = (enabled (cache a ! i) \<and>
        \<not> \<not> (\<exists>j<max_entries a. conn_of (cache b ! j) = conn_of_rule (nat_rule_of (cache a ! i))))"
    proof cases
      case gone
      then show ?thesis using dropped [OF i _ gone] by auto
    next
      case there
      then have "conn_of (cache b ! i) = conn_of_rule (nat_rule_of (cache a ! i))" by simp
      then show ?thesis using i there by auto
    qed simp
    show "rule_hdl (cache b ! i) = rule_hdl (cache a ! i) \<and> nat_rule_of (cache b ! i) = nat_rule_of (cache a ! i)"
      if "enabled (cache b ! i)"
      using b(4) i that by (auto simp: touched_def split: if_splits)
  qed
  then show ?thesis using b(1,2,4) unfolding touched_def by (intro exI [of _ b]) simp
qed

lemma stamps_keep_rules_witness:
  "\<exists>a b. app_reach demo_app_env demo_app a \<and> drv_rules (drv a) = [1 \<mapsto> nat_rule_of demo_entry] \<and>
     UpdateUDPTimeStamp demo_app_env a = Some b \<and> (cache b ! 0 = zero_entry \<longleftrightarrow> drv_rules (drv b) = Map.empty)"
proof -
  obtain s a e where a: "app_inv demo_app_env a" "app_open demo_app_env a" "app_reach demo_app_env demo_app a" "max_entries a = 4"
    "cache a = (replicate 4 zero_entry)[0 := e]" "conn_of e = conn_of demo_entry" "enabled e"
    "drv_rules (drv a) = [1 \<mapsto> nat_rule_of demo_entry]" by (rule demo_cached)
  obtain b where b: "UpdateUDPTimeStamp demo_app_env a = Some b"
    "\<forall>i<max_entries a. if enabled (cache a ! i) then cache b ! i = zero_entry \<or> (\<exists>ts. cache b ! i = (cache a ! i)\<lparr>timestamp := ts\<rparr>)
       else cache b ! i = cache a ! i"
    "\<forall>h r. drv_rules (drv b) h = Some r \<longleftrightarrow>
       drv_rules (drv a) h = Some r \<and> (\<exists>i<max_entries a. conn_of (cache b ! i) = conn_of_rule r)"
    using stamps_keep_rules [OF a(1,2)] by blast
  have rest: "cache b ! i = zero_entry" if "i < 4" "i \<noteq> 0" for i
    using b(2) [rule_format, of i] that by (simp add: a(4,5) split: if_splits)
  have first: "cache b ! 0 = zero_entry \<or> (\<exists>ts. cache b ! 0 = e\<lparr>timestamp := ts\<rparr>)"
    using b(2) [rule_format, of 0] a(7) by (simp add: a(4,5))
  have z: "conn_of zero_entry \<noteq> conn_of demo_entry" by (simp add: conn_of_def zero_entry_def demo_entry_def)
  have "(\<exists>i<4. conn_of (cache b ! i) = conn_of demo_entry) \<longleftrightarrow> conn_of (cache b ! 0) = conn_of demo_entry"
    using rest z by (metis zero_less_numeral)
  also have "\<dots> \<longleftrightarrow> cache b ! 0 \<noteq> zero_entry" using first z a(6) by auto
  finally have key: "drv_rules (drv b) h = Some r \<longleftrightarrow> h = 1 \<and> r = nat_rule_of demo_entry \<and> cache b ! 0 \<noteq> zero_entry" for h r
    using b(3) by (auto simp: a(4,8) split: if_splits)
  then have "drv_rules (drv b) = Map.empty \<longleftrightarrow> cache b ! 0 = zero_entry" by (auto simp: fun_eq_iff) (metis option.exhaust)
  then show ?thesis using a(3,8) b(1) by blast
qed

end
