(* ===== verification/Nat_Props2.thy ===== *)
theory Nat_Props2
  imports Nat_Props
begin

text \<open>
  Promises of the NAT driver's parts: counting and time stamps, the layout of rules, table
  sizes, hashing, checksums, the order of DMA requests, argument checks and table deletion, and
  the places where the code does not keep what it promises.
\<close>

section \<open>Queries\<close>

text \<open>
  The entries that \<open>ipa_nati_query_nat_rules\<close> counts in the two index tables are together
  as many as there are rules in the table.
\<close>
theorem index_counts_are_rules:
  assumes "tbl_inv t" "ip4_tbl c = [t]"
  shows "\<exists>a b. ipa_nati_query_nat_rules 1 IPA_NAT_INDX_TBL c = Some a \<and>
    ipa_nati_query_nat_rules 1 IPA_NAT_INDEX_EXPN_TBL c = Some b \<and> a + b = card (dom (rules_of t))"
  by (rule indx_counts_rules [OF assms]) blast

lemma index_counts_are_rules_witness:
  "\<exists>c a b. ipa_nati_query_nat_rules 1 IPA_NAT_INDX_TBL c = Some a \<and>
    ipa_nati_query_nat_rules 1 IPA_NAT_INDEX_EXPN_TBL c = Some b \<and> a + b = 1"
proof -
  obtain h t where h: "tbl_inv t" "rules_of t = [h \<mapsto> demo_rule]" by (rule demo_added)
  have "ip4_tbl (demo_cache\<lparr>ip4_tbl := [t]\<rparr>) = [t]" by simp
  from index_counts_are_rules [OF h(1) this] h(2) show ?thesis by auto
qed

text \<open>
  The time stamp reported for a rule's handle is the low 24 bits of the time stamp word of
  the enabled slot that holds that rule.
\<close>
theorem timestamp_of_rule:
  assumes "tbl_inv t" "ip4_tbl c = [t]" "rules_of t h = Some r"
  shows "\<exists>m n. tbl_mem t = Some m \<and> clnt_of (rule_at m n) = r \<and> rule_enabled (rule_at m n) \<and>
    ipa_nat_query_timestamp 1 h False c = Some (0, Some (hw_ts_proto (rule_at m n) AND 0x00FFFFFF))"
  by (rule query_timestamp_spec [OF assms]) blast

lemma timestamp_of_rule_witness: "\<exists>c h ts. ipa_nat_query_timestamp 1 h False c = Some (0, Some ts)"
proof -
  obtain h t where h: "tbl_inv t" "rules_of t = [h \<mapsto> demo_rule]" by (rule demo_added)
  have "ip4_tbl (demo_cache\<lparr>ip4_tbl := [t]\<rparr>) = [t]" "rules_of t h = Some demo_rule" using h(2) by simp_all
  from timestamp_of_rule [OF h(1) this] show ?thesis by blast
qed

text \<open>
  The dump of a table never stays inside its arrays: its loops over the expansion tables run
  to \<open>cnt <= expn_table_entries\<close> and read the slot behind the last.
\<close>
theorem dump_reads_past_end:
  assumes "tbl_inv t" "ip4_tbl c = [t]"
  shows "ipa_nat_dump_ipv4_table 1 c = None"
proof -
  obtain m meta ids C D where tp: "tbl_parts t m meta ids C D" using assms(1) by (auto simp: tbl_inv_def)
  note sh = tp_shape [OF tp] and st = tp_state [OF tp]
  have "dump_loop (rule_active (ipv4_expn_rules m)) l (expn_table_entries t + 1) = None" for l
    by (rule dump_overrun [OF sh])
  then show ?thesis
    by (cases "dump_loop (rule_active (ipv4_rules m))
        (\<lambda>cnt. map_option (\<lambda>r. ipa_nati_print_rule r cnt) (rd (ipv4_rules m) cnt)) (table_entries t)")
      (simp_all add: ipa_nat_dump_ipv4_table_def assms(2) st(3) Let_def del: dump_loop.simps)
qed

lemma dump_reads_past_end_witness: "ipa_nat_dump_ipv4_table 1 demo_cache = None"
  by (rule dump_reads_past_end [OF demo_tbl_inv(1) demo_cache_tbl])

section \<open>Layout of a rule\<close>


text \<open>
  A DMA request for a rule slot changes the one halfword at its offset and no other: not in
  this slot and not in any other slot or table.
\<close>
theorem dma_changes_one_halfword:
  assumes "mem_shape te ee m" "s < te" "i < 16" "dma_base_addr c = IPA_NAT_BASE_TBL" "dma_offset c = 32 * s + 2 * i"
  shows "rule_halfwords (rule_at (dma_write c m) s) = (rule_halfwords (rule_at m s))[i := dma_data c] \<and>
    (\<forall>k. k \<noteq> s \<longrightarrow> rule_at (dma_write c m) k = rule_at m k) \<and> indx_at (dma_write c m) = indx_at m"
proof -
  have off: "2 * i < 32" using assms(3) by simp
  have w: "dma_write c m = upd_rule s (write16_rule (2 * i) (dma_data c)) m"
    by (rule dma_write_rule(1) [OF assms(1) off assms(5,4,2)])
  have s: "s < te + ee" using assms(2) by simp
  show ?thesis using rule_halfwords_write16 [OF assms(3)] by (simp add: w rule_at_upd_rule [OF assms(1) s])
qed

lemma dma_changes_one_halfword_witness:
  "rule_halfwords (rule_at (dma_write \<lparr>dma_table_index = 0, dma_base_addr = IPA_NAT_BASE_TBL, dma_offset = 50,
     dma_data = 0x8000\<rparr> (demo_mem 2 2)) 1) = (rule_halfwords (rule_at (demo_mem 2 2) 1))[9 := 0x8000]"
proof -
  have "mem_shape 2 2 (demo_mem 2 2)" by (simp add: mem_shape_def demo_mem_def)
  from dma_changes_one_halfword [OF this, of 1 9 "\<lparr>dma_table_index = 0, dma_base_addr = IPA_NAT_BASE_TBL,
      dma_offset = 50, dma_data = 0x8000\<rparr>"] show ?thesis by simp
qed

section \<open>Sizes, hashes, checksums\<close>

text \<open>
  For 1 to 32768 the loop of \<open>GetNearest2Power\<close> ends and gives the least power of two
  that is at least the argument and at least 2.
\<close>
theorem nearest_power_is_least:
  assumes "0 < num" "num \<le> 32768"
  shows "\<exists>k. GetNearest2Power num = Some (0, 2 ^ k) \<and> 1 \<le> k \<and> num \<le> 2 ^ k \<and>
    (\<forall>j. 1 \<le> j \<longrightarrow> num \<le> 2 ^ j \<longrightarrow> k \<le> j)"
  by (rule GetNearest2Power_correct [OF assms]) blast

lemma nearest_power_is_least_witness: "\<exists>k. GetNearest2Power 100 = Some (0, 2 ^ k) \<and> 100 \<le> (2 :: nat) ^ k"
  using nearest_power_is_least [of 100] by auto

text \<open>
  Above 32768 the 16 bit result of \<open>GetNearest2Power\<close> overflows to 0 and the return code
  still says success.
\<close>
theorem nearest_power_overflows:
  assumes "32768 < num" "num < 65536"
  shows "GetNearest2Power num = Some (0, 0)"
  by (rule GetNearest2Power_overflow [OF assms])

lemma nearest_power_overflows_witness: "GetNearest2Power 40000 = Some (0, 0)"
  by (rule nearest_power_overflows) simp_all

text \<open>
  With a table of at least two entries both hash indices, computed with the table size minus
  one as mask, are valid nonzero slots.
\<close>
theorem hashes_in_table:
  assumes "size_mask \<noteq> 0"
  shows "0 < unat (dst_hash ti tp pp pr size_mask) \<and> unat (dst_hash ti tp pp pr size_mask) \<le> unat size_mask \<and>
    0 < unat (src_hash pi sp ti tp pr size_mask) \<and> unat (src_hash pi sp ti tp pr size_mask) \<le> unat size_mask"
  using hash_bounds [OF assms] by blast

lemma hashes_in_table_witness: "unat (dst_hash 1 2 3 6 255) \<le> 255"
  using hashes_in_table [of 255 1 2 3 6 4 5] by simp

text \<open>A chain of additions with end-around carry.\<close>

lemmas csum_halves = low_half_ucast high_half_ucast halves_NOT add_0

lemma csum_first: "unat (ucast (x :: u16) :: u32) \<le> 65535 \<and> unat (ucast x :: u32) mod 65535 = unat x mod 65535"
  by (simp add: unat_ucast32)

lemma csum_step:
  assumes "unat c \<le> 65535 \<and> unat c mod 65535 = s mod 65535"
  shows "unat (csum_add c (ucast (x :: u16))) \<le> 65535 \<and>
    unat (csum_add c (ucast x)) mod 65535 = (s + unat x) mod 65535"
  using csum_add_spec [of c x] assms by (metis mod_add_left_eq)

lemma csum_result: "unat (c :: u32) \<le> 65535 \<Longrightarrow> unat (ucast c :: u16) = unat c"
  by (simp add: unsigned_ucast_eq take_bit_nat_eq_self)

lemma csum_cancel1:
  assumes "c mod 65535 = (s + (65535 - a)) mod 65535" "a \<le> 65535"
  shows "(c + a) mod 65535 = s mod (65535 :: nat)"
proof -
  have "(c + a) mod 65535 = (s + (65535 - a) + a) mod 65535" using assms(1) by (metis mod_add_left_eq)
  also have "s + (65535 - a) + a = s + 65535" using assms(2) by simp
  finally show ?thesis by simp
qed

lemma csum_cancel2:
  assumes "c mod 65535 = (s + (65535 - unat a) + (65535 - unat b)) mod 65535"
  shows "(c + unat (a :: u16) + unat (b :: u16)) mod 65535 = s mod 65535"
proof -
  have "(c + unat b) mod 65535 = (s + (65535 - unat a)) mod 65535"
    by (rule csum_cancel1 [OF assms u16_le])
  then have "(c + unat b + unat a) mod 65535 = s mod 65535" by (rule csum_cancel1 [OF _ u16_le])
  then show ?thesis by (simp only: ac_simps)
qed

lemma csum_cancel3:
  assumes "c mod 65535 = (s + (65535 - unat a) + (65535 - unat b) + (65535 - unat d)) mod 65535"
  shows "(c + unat (a :: u16) + unat (b :: u16) + unat (d :: u16)) mod 65535 = s mod 65535"
proof -
  have "(c + unat d) mod 65535 = (s + (65535 - unat a) + (65535 - unat b)) mod 65535"
    by (rule csum_cancel1 [OF assms u16_le])
  from csum_cancel2 [OF this] show ?thesis by (simp only: ac_simps)
qed

text \<open>
  The IP checksum difference stored in a rule is a 16 bit one's complement difference: added
  to the halfwords of the private address it gives those of the public address, modulo 65535.
\<close>
theorem ip_cksum_difference:
  "(unat (ipa_nati_calc_ip_cksum pub priv) + unat (lo16 priv) + unat (hi16 priv)) mod 65535 =
   (unat (lo16 pub) + unat (hi16 pub)) mod 65535"
proof -
  let ?c = "csum_add (csum_add (csum_add (0 + (pub AND 0xFFFF)) (drop_bit 16 pub)) (NOT priv AND 0xFFFF)) (drop_bit 16 (NOT priv))"
  have "unat ?c \<le> 65535 \<and> unat ?c mod 65535 =
      (unat (lo16 pub) + unat (hi16 pub) + unat (NOT (lo16 priv)) + unat (NOT (hi16 priv))) mod 65535"
    unfolding csum_halves by (intro csum_step csum_first)
  then show ?thesis
    using csum_cancel2 by (simp add: ipa_nati_calc_ip_cksum_def Let_def csum_result unat_NOT16)
qed

lemma ip_cksum_difference_example: "ipa_nati_calc_ip_cksum 0x0A000001 0xC0A80002 = 0x4956"
  by (simp add: ipa_nati_calc_ip_cksum_def csum_add_def)

text \<open>
  The TCP and UDP checksum difference is the same for the addresses together with the ports.
\<close>
theorem tcp_udp_cksum_difference:
  "(unat (ipa_nati_calc_tcp_udp_cksum pub pub_port priv priv_port)
      + unat (lo16 priv) + unat (hi16 priv) + unat priv_port) mod 65535 =
   (unat (lo16 pub) + unat (hi16 pub) + unat pub_port) mod 65535"
proof -
  let ?c = "csum_add (csum_add (csum_add (csum_add (csum_add (0 + (pub AND 0xFFFF)) (drop_bit 16 pub)) (ucast pub_port))
     (NOT priv AND 0xFFFF)) (drop_bit 16 (NOT priv))) (ucast (NOT priv_port))"
  have "unat ?c \<le> 65535 \<and> unat ?c mod 65535 = (unat (lo16 pub) + unat (hi16 pub) + unat pub_port
      + unat (NOT (lo16 priv)) + unat (NOT (hi16 priv)) + unat (NOT priv_port)) mod 65535"
    unfolding csum_halves by (intro csum_step csum_first)
  then show ?thesis
    using csum_cancel3 by (simp add: ipa_nati_calc_tcp_udp_cksum_def Let_def csum_result unat_NOT16)
qed

section \<open>The order of DMA requests\<close>

lemma dma_write_commute:
  assumes "\<not> is_indx_cmd r" "is_indx_cmd x"
  shows "dma_write r (dma_write x m) = dma_write x (dma_write r m)"
  using assms by (auto simp: is_indx_cmd_def dma_write_def Let_def split: nat_table_type.splits)

lemma dma_fold_commute:
  assumes "\<forall>r\<in>set rs. \<not> is_indx_cmd r" "is_indx_cmd x"
  shows "fold dma_write rs (dma_write x m) = dma_write x (fold dma_write rs m)"
  using assms
proof (induction rs arbitrary: m)
  case (Cons a rs)
  then show ?case using dma_write_commute [of a x] by simp
qed simp

lemma dma_folds_commute:
  assumes "\<forall>r\<in>set rs. \<not> is_indx_cmd r" "\<forall>x\<in>set xs. is_indx_cmd x"
  shows "fold dma_write rs (fold dma_write xs m) = fold dma_write xs (fold dma_write rs m)"
  using assms by (induction xs arbitrary: m) (simp_all add: dma_fold_commute)

text \<open>
  C37: \<open>ReorderCmds\<close>, on the requests of a deletion (those for the rules before those for the
  index), puts the index requests first; it drops and repeats none, and the device memory after
  all of them is the same.
\<close>
theorem reorder_index_first:
  assumes "\<forall>r\<in>set rs. \<not> is_indx_cmd r" "\<forall>x\<in>set xs. is_indx_cmd x" "rs \<noteq> []" "xs \<noteq> []" "malloc_ok env ALLOC_REORDER"
  shows "ReorderCmds env (rs @ xs) = xs @ rs \<and>
    fold dma_write (ReorderCmds env (rs @ xs)) m = fold dma_write (rs @ xs) m"
proof -
  have "dropWhile (\<lambda>c. \<not> is_indx_cmd c) (rs @ xs) = xs"
    using assms(1,2,4) by (cases xs) (auto simp: dropWhile_append2)
  then have "ReorderCmds env (rs @ xs) = xs @ rs" using assms(3-5) by (simp add: ReorderCmds_def Let_def)
  then show ?thesis using dma_folds_commute [OF assms(1,2)] by simp
qed

definition demo_rule_cmd :: ipa_ioc_nat_dma_one where
  "demo_rule_cmd = \<lparr>dma_table_index = 0, dma_base_addr = IPA_NAT_BASE_TBL, dma_offset = 50, dma_data = 0\<rparr>"

definition demo_indx_cmd :: ipa_ioc_nat_dma_one where
  "demo_indx_cmd = \<lparr>dma_table_index = 0, dma_base_addr = IPA_NAT_INDX_TBL, dma_offset = 4, dma_data = 0\<rparr>"

lemma reorder_index_first_witness:
  "ReorderCmds demo_env ([demo_rule_cmd] @ [demo_indx_cmd]) = [demo_indx_cmd] @ [demo_rule_cmd]"
proof -
  have "\<forall>r\<in>set [demo_rule_cmd]. \<not> is_indx_cmd r" "\<forall>x\<in>set [demo_indx_cmd]. is_indx_cmd x"
    by (simp_all add: is_indx_cmd_def demo_rule_cmd_def demo_indx_cmd_def)
  from reorder_index_first [OF this, of demo_env "demo_mem 2 2"] show ?thesis by (simp add: demo_env_def)
qed

section \<open>Arguments and table deletion\<close>

text \<open>
  Every API function refuses a null pointer, a zero table handle and, but for the deletion of
  a rule, a table handle above the number of tables: it returns the error and changes nothing.
\<close>
theorem api_refuses_bad_arguments:
  "ipa_nat_add_ipv4_tbl env ip n True c = Some (- EINVAL, None, c) \<and>
   ipa_nat_add_ipv4_tbl env ip 0 null c = Some (- EINVAL, None, c) \<and>
   ipa_nat_add_ipv4_rule env tbl None null c = Some (- EINVAL, None, c) \<and>
   ipa_nat_add_ipv4_rule env tbl r True c = Some (- EINVAL, None, c) \<and>
   ipa_nat_add_ipv4_rule env 0 r null c = Some (- EINVAL, None, c) \<and>
   ipa_nat_add_ipv4_rule env (2 + k) r null c = Some (- EINVAL, None, c) \<and>
   ipa_nat_del_ipv4_tbl env 0 c = Some (- EINVAL, c) \<and>
   ipa_nat_del_ipv4_tbl env (2 + k) c = Some (- EINVAL, c) \<and>
   ipa_nat_del_ipv4_rule env 0 h c = Some (- EINVAL, c) \<and>
   ipa_nat_del_ipv4_rule env tbl 0 c = Some (- EINVAL, c) \<and>
   ipa_nat_query_timestamp 0 h null c = Some (- EINVAL, None) \<and>
   ipa_nat_query_timestamp (2 + k) h null c = Some (- EINVAL, None) \<and>
   ipa_nat_query_timestamp tbl h True c = Some (- EINVAL, None)"
  by (simp add: ipa_nat_add_ipv4_tbl_def ipa_nat_add_ipv4_rule_def ipa_nat_del_ipv4_tbl_def
      ipa_nat_del_ipv4_rule_def ipa_nat_query_timestamp_def split: option.split)

text \<open>
  The deletion of a rule has no upper bound on the table handle: for any handle from 2 to
  256, and a cache of one table, it reads a table cache behind the array.
\<close>
theorem del_rule_unchecked_table:
  assumes "ip4_tbl c = [t]" "2 \<le> tbl" "tbl \<le> 256" "0 < h"
  shows "ipa_nat_del_ipv4_rule env tbl h c = None"
proof -
  have "hdl_index tbl = tbl - 1" using assms(2,3) by (simp add: hdl_index_def le_mod_geq)
  then have "rd (ip4_tbl c) (hdl_index tbl) = None" using assms(1,2) by (intro rd_out) simp
  then show ?thesis using assms(2,4) by (simp add: ipa_nat_del_ipv4_rule_def ipa_nati_del_ipv4_rule_def)
qed

lemma del_rule_unchecked_table_witness: "ipa_nat_del_ipv4_rule demo_env 2 1 demo_cache = None"
  by (rule del_rule_unchecked_table [OF demo_cache_tbl]) simp_all

text \<open>
  Deleting a valid table unmaps its memory whatever follows. When the kernel closes the device and
  drops the table, the cache entry is reset and the number of tables goes down by one; when it
  does not, the error leaves a table that is marked valid but has no memory, and the next
  addition to it uses a null pointer.
\<close>
theorem delete_table:
  assumes "ip4_tbl c = [t]" "valid t" "0 < table_cnt c" "table_cnt c < 256"
  shows "if close_nat env = 0 \<and> ioctl_v4_del_nat env 0 (public_addr t) = 0
    then ipa_nat_del_ipv4_tbl env 1 c = Some (0, c\<lparr>ip4_tbl := [zero_table_cache], table_cnt := table_cnt c - 1\<rparr>)
    else ipa_nat_del_ipv4_tbl env 1 c = Some (- EINVAL, c\<lparr>ip4_tbl := [t\<lparr>tbl_mem := None\<rparr>]\<rparr>) \<and>
      ipa_nat_add_ipv4_rule env 1 (Some r) False (c\<lparr>ip4_tbl := [t\<lparr>tbl_mem := None\<rparr>]\<rparr>) = None"
proof -
  have "(table_cnt c + 255) mod 256 = table_cnt c - 1" using assms(3,4) by (simp add: le_mod_geq)
  then show ?thesis
    using assms(1,2)
    by (simp add: ipa_nat_del_ipv4_tbl_def ipa_nati_del_ipv4_table_def hdl_index_def put_tbl_def Let_def
        ipa_nat_add_ipv4_rule_def ipa_nati_add_ipv4_rule_def ipa_nati_generate_rule_def ipa_nati_generate_tbl_rule_def)
qed

lemma delete_table_witness:
  "ipa_nat_del_ipv4_tbl demo_env 1 demo_cache = Some (0, demo_cache\<lparr>ip4_tbl := [zero_table_cache], table_cnt := 0\<rparr>)"
  using delete_table [OF demo_cache_tbl, of demo_env demo_rule]
  by (simp add: demo_tbl_def demo_cache_def demo_env_def)

section \<open>Creation that goes wrong\<close>

text \<open>
  When the allocation of the index meta array fails, \<open>ipa_nati_update_cache\<close> reports success
  without mapping the table, and the creation of the table then clears it through a null
  pointer instead of returning an error.
\<close>
theorem create_table_malloc_failure:
  assumes "0 < n" "n \<le> 20480" "\<not> malloc_ok env ALLOC_INDEX_META" "0 \<le> open_ipa env"
    "\<forall>size. ioctl_alloc_nat_mem env size = (0, 0)"
  shows "ipa_nat_add_ipv4_tbl env ip n False ipv4_nat_cache_init = None"
proof -
  obtain te ee where s: "GetNearest2Power (if base_share n = 0 then 1 else base_share n) = Some (0, te)"
    "GetNearestEven (expn_share n) = Some ee" "sizes_ok te ee" by (rule share_sizes [OF assms(2)])
  then have te: "trunc16 (te + ee) = te + ee" by (simp add: sizes_ok_def)
  have al: "ipa_nati_alloc_table env n ipv4_nat_cache_init =
      Some (0, 32 * (te + ee) + 4 * (te + ee), 0, te, ee, ipv4_nat_cache_init\<lparr>ipa_fd := open_ipa env\<rparr>)"
    using assms(4,5) s te by (simp add: ipa_nati_alloc_table_def CreateNatDevice_def ipv4_nat_cache_init_def Let_def)
  show ?thesis
    using al assms(1,3)
    by (simp add: ipa_nat_add_ipv4_tbl_def ipa_nati_add_ipv4_tbl_def ipa_nati_update_cache_def put_tbl_def Let_def
        ipv4_nat_cache_init_def zero_table_cache_def ipa_nati_reset_tbl_def)
qed

lemma create_table_malloc_failure_witness:
  "ipa_nat_add_ipv4_tbl (demo_env\<lparr>malloc_ok := (\<lambda>s. s \<noteq> ALLOC_INDEX_META)\<rparr>) 7 10 False ipv4_nat_cache_init = None"
  by (rule create_table_malloc_failure) (simp_all add: demo_env_def)

text \<open>
  The creation of a table does not check how many there are: with the one table in place a second
  creation writes behind the array of table caches.
\<close>
theorem second_table_overruns:
  assumes "ip4_tbl c = [t]" "table_cnt c = 1" "kernel_ok env" "0 < n" "n \<le> 20480"
  shows "ipa_nat_add_ipv4_tbl env ip n False c = None"
proof -
  obtain te ee where s: "GetNearest2Power (if base_share n = 0 then 1 else base_share n) = Some (0, te)"
    "GetNearestEven (expn_share n) = Some ee" by (rule share_sizes [OF assms(5)])
  obtain mem_size off te' ee' c' where al: "ipa_nati_alloc_table env n c = Some (0, mem_size, off, te', ee', c')"
    and c': "ip4_tbl c' = [t]" "table_cnt c' = 1"
    using s assms(1-3) by (auto simp: ipa_nati_alloc_table_def CreateNatDevice_def kernel_ok_def Let_def)
  have "ipa_nati_update_cache env mem_size off ip te' ee' c' = None"
    using c' by (simp add: ipa_nati_update_cache_def rd_def)
  then show ?thesis using al assms(4) by (simp add: ipa_nat_add_ipv4_tbl_def ipa_nati_add_ipv4_tbl_def)
qed

lemma second_table_overruns_witness: "ipa_nat_add_ipv4_tbl demo_env 7 10 False demo_cache = None"
  by (rule second_table_overruns [OF demo_cache_tbl _ demo_env_ok(2)]) (simp_all add: demo_cache_def)

text \<open>
  In an index table of more than 16384 base slots the link to a new expansion entry goes
  astray: the byte offset is kept in 16 bits, so the request meant for base slot \<open>q\<close> writes the next
  index of slot \<open>q - 16384\<close> and leaves slot \<open>q\<close> without the link.
\<close>
theorem index_link_truncated:
  assumes env: "env_ok env" and sh: "mem_shape te ee m"
    and t: "tbl_mem t = Some m" "table_entries t = te" "tbl_addr_offset t = 0"
    and q: "16384 \<le> q" "q < te" "te \<le> 32768" and i: "te < i" "i < te + ee" "i < 65536"
    and s: "unat (ix_prev_index s) = q"
  shows "\<exists>m'. ipa_nati_copy_ipv4_index_rule_to_hw env s i idx t = Some (t\<lparr>tbl_mem := Some m'\<rparr>) \<and>
    indx_next (indx_at m' (q - 16384)) = i \<and> indx_at m' q = indx_at m q"
proof -
  let ?m = "upd_indx i (\<lambda>_. nat_indx_rule_of_sw s) m"
  let ?c = "\<lparr>dma_table_index = idx, dma_base_addr = IPA_NAT_INDX_TBL, dma_offset = 4 * (q - 16384) + 2, dma_data = of_nat i\<rparr>"
  have off: "trunc16 (trunc16 (4 * q mod 4294967296) + 2) = 4 * (q - 16384) + 2"
  proof -
    have "4 * q = 4 * (q - 16384) + 65536" using q by simp
    moreover have "4 * (q - 16384) < 65536" using q by simp
    ultimately have "trunc16 (4 * q) = 4 * (q - 16384)"
      unfolding trunc16_def by (metis mod_add_self2 mod_less)
    then show ?thesis using q by (simp add: trunc16_def)
  qed
  have sh': "mem_shape te ee ?m" using sh by simp
  have slot: "q - 16384 < te" using q by linarith
  have "dma_in_range ?m ?c" by (rule dma_in_range_indx(1) [OF sh', of 2]) (use slot in simp_all)
  then have dma: "ioctl_nat_dma env [?c] ?m = (0, dma_write ?c ?m)"
    using dma_okD [of env "[?c]" ?m] env by (simp add: env_ok_def)
  have w: "dma_write ?c ?m = upd_indx (q - 16384) (write16_indx 2 (of_nat i)) ?m"
    by (subst dma_write_indx(1) [OF sh', of 2 _ "q - 16384"]) (use slot in simp_all)
  let ?m' = "upd_indx (q - 16384) (write16_indx 2 (of_nat i)) ?m"
  have at: "indx_at ?m' = (indx_at m)(i := nat_indx_rule_of_sw s, q - 16384 := write16_indx 2 (of_nat i) (indx_at ?m (q - 16384)))"
    using slot i by (simp add: indx_at_upd_indx [OF sh'] indx_at_upd_indx [OF sh])
  have "ipa_nati_copy_ipv4_index_rule_to_hw env s i idx t = Some (t\<lparr>tbl_mem := Some ?m'\<rparr>)"
    using t q i s env off dma w sh
    by (simp add: ipa_nati_copy_ipv4_index_rule_to_hw_def Let_def ipa_nati_get_index_entry_offset_def
        ipa_nati_write_next_index_def env_ok_def upd_const [OF sh] mem_shapeD)
  moreover have "indx_next (indx_at ?m' (q - 16384)) = i" using i by (simp add: at)
  moreover have "q \<noteq> q - 16384" using q by linarith
  then have "indx_at ?m' q = indx_at m q" using q i by (simp add: at)
  ultimately show ?thesis by blast
qed

lemma index_link_truncated_witness:
  "\<exists>m'. ipa_nati_copy_ipv4_index_rule_to_hw demo_env \<lparr>ix_tbl_entry = 9, ix_next_index = 0, ix_prev_index = 20000\<rparr>
      32769 0 (demo_tbl\<lparr>table_entries := 32768, tbl_mem := Some (demo_mem 32768 2)\<rparr>) =
      Some (demo_tbl\<lparr>table_entries := 32768, tbl_mem := Some m'\<rparr>) \<and>
    indx_next (indx_at m' 3616) = 32769 \<and> indx_at m' 20000 = 0"
proof -
  have sh: "mem_shape 32768 2 (demo_mem 32768 2)" by (simp add: mem_shape_def demo_mem_def)
  show ?thesis
    using index_link_truncated [OF demo_env_ok(1) sh, of "demo_tbl\<lparr>table_entries := 32768, tbl_mem := Some (demo_mem 32768 2)\<rparr>"
        20000 32769 "\<lparr>ix_tbl_entry = 9, ix_next_index = 0, ix_prev_index = 20000\<rparr>" 0]
    by (simp add: demo_slots) (simp add: demo_tbl_def zero_table_cache_def)
qed

end
