(* ===== verification/Ct_Props.thy ===== *)
theory Ct_Props
  imports Ct_Listener_Correct Nat_App_Props Nat_Props2
begin

text \<open>
  The properties of connection tracking: the filters, the way of a message from the library to the
  listener, what the listener makes of it, and the state of the listener together with the NAT
  application and the driver below it, each with a concrete instance.
\<close>

section \<open>A concrete listener\<close>

definition demo_ct_env :: ct_env where
  "demo_ct_env = \<lparr>filter_create = (\<lambda>_. True), filter_set_logic = (\<lambda>_ _. 0), filter_attach = (\<lambda>_. 0), ct_open = (\<lambda>_. True),
     ct_catch = -1, cc_socket_ok = True, if_ipv4 = (\<lambda>_. Some 0x0100A8C0)\<rparr>"

definition demo_lenv :: listener_env where
  "demo_lenv = \<lparr>l_app = demo_app_env, l_ct = demo_ct_env, l_bridge = ''bridge0'', iface_malloc_ok = True, socket_ok = True,
     if_name = (\<lambda>_. Some ''wlan0''), thread_ok = (\<lambda>_. True), junk_cnt = 0\<rparr>"

definition demo_clients :: ct_clients where
  "demo_clients = \<lparr>cc_pInstance = INSTANCE (ct_client_new\<lparr>udp_filter := Some [], tcp_filter := Some []\<rparr>),
     udp_isIgnore = False, tcp_isIgnore = False, attached = []\<rparr>"

definition demo_lst :: ct_listener where
  "demo_lst = IPACM_ConntrackListener_new [] 0 False (Some demo_app) demo_clients"

text \<open>The network interface comes up with address 10.0.0.9.\<close>

definition demo_wan :: ipacm_event_iface_up where
  "demo_wan = \<lparr>ifname = ''rmnet0'', ipv4_addr = 0x0A000009, addr_mask = 0xFFFFFF00, ipv6_prefix = [0, 0], is_sta = False, xlat_mux_id = 0\<rparr>"

lemma demo_clients_ok: "clients_ok demo_clients"
  by (simp add: clients_ok_def demo_clients_def)

section \<open>Every state\<close>

lemma lst_inv_new:
  assumes "app_inv (l_app env) a0" "nat_table_hdl a0 = 0" "0 < max_entries a0" "max_entries a0 \<le> 20480" "junk_cnt env \<le> max_entries a0" "clients_ok cc"
  shows "lst_inv env (IPACM_ConntrackListener_new ifn wan sta (Some a0) cc)"
  using assms by (simp add: lst_inv_def IPACM_ConntrackListener_new_def nat_ok_def sta_used_def)


lemma demo_lst_inv: "lst_inv demo_lenv demo_lst"
  unfolding demo_lst_def using demo_app_inv demo_app_Init demo_clients_ok
  by (intro lst_inv_new) (simp_all add: demo_lenv_def)

text \<open>The network comes up.\<close>

lemma demo_up:
  obtains l b where "event_callback demo_lenv None (HANDLE_WAN_UP (Some demo_wan)) demo_lst = Some l"
    "ct_reach demo_lenv demo_lst l" "lst_inv demo_lenv l" "WanUp l" "wan_ipaddr l = 0x0A000009" "nat_inst l = Some b" "isStaMode l = False"
    "nat_iface_ipv4_addr l = replicate 50 0" "cache b = replicate 4 zero_entry" "max_entries b = 4" "PwrSaveIfs b = replicate 32 0"
    "pALGPorts b = [\<lparr>alg_protocol = 6, alg_port = 21\<rparr>]" "\<And>r. \<not> rules_full (hd (ip4_tbl (drv b))) r"
proof -
  obtain b where b: "AddTable demo_app_env 0x0A000009 demo_app = Some (0, b)" "app_inv demo_app_env b" "app_open demo_app_env b"
    "cache b = replicate 4 zero_entry" "max_entries b = 4" "PwrSaveIfs b = replicate 32 0"
    "pALGPorts b = [\<lparr>alg_protocol = 6, alg_port = 21\<rparr>]" "\<And>r. \<not> rules_full (hd (ip4_tbl (drv b))) r"
    by (rule demo_open) (rule that)
  let ?l = "demo_lst\<lparr>started := [TCPRegisterWithConnTrack, UDPRegisterWithConnTrack, UDPConnTimeoutUpdate], isCTReg := True,
    WanUp := True, isStaMode := False, wan_ipaddr := 0x0A000009, wan_ifname := ''rmnet0'', nat_inst := Some b, isNatThreadStart := True\<rparr>"
  have run: "event_callback demo_lenv None (HANDLE_WAN_UP (Some demo_wan)) demo_lst = Some ?l"
    using b(1) by (simp add: demo_lst_def IPACM_ConntrackListener_new_def CreateConnTrackThreads_def CreateNatThreads_def
        pthread_create_def TriggerWANUp_def demo_lenv_def demo_wan_def Let_def)
  have ok: "ct_allowed demo_lst (EVENT None (HANDLE_WAN_UP (Some demo_wan)))"
    by (simp add: wan_up_ok_def demo_lst_def IPACM_ConntrackListener_new_def demo_app_Init)
  have os: "os_ok (l_app demo_lenv)" using demo_os by (simp add: demo_lenv_def)
  have inv: "lst_inv demo_lenv ?l" using event_inv [OF demo_lst_inv os ok] unfolding run by simp
  have reach: "ct_reach demo_lenv demo_lst ?l" by (rule ct_reach.call [OF ct_reach.start ok]) (simp only: ct_run.simps run)
  show thesis by (rule that [OF run reach inv]) (use b in \<open>simp_all add: demo_lst_def IPACM_ConntrackListener_new_def\<close>)
qed


section \<open>The wide area network goes down\<close>

text \<open>
  C36: when the network goes down with another address than it came up with, the listener takes it
  for down but \<open>DeleteTable\<close> refuses and the table stays; the next time it comes up a second table
  is created, which is written behind the array of tables.
\<close>
theorem wan_down_other_address:
  assumes "lst_inv env l" "os_ok (l_app env)" "WanUp l" "ipv4_addr d \<noteq> wan_ipaddr l" "ipv4_addr d2 \<noteq> 0"
  shows "\<exists>l'. event_callback env cfg (HANDLE_WAN_DOWN (Some d)) l = Some l' \<and> \<not> WanUp l' \<and> nat_inst l' = nat_inst l \<and>
    event_callback env cfg (HANDLE_WAN_UP (Some d2)) l' = None"
proof -
  obtain a where a: "nat_inst l = Some a" "nat_ok env True (wan_ipaddr l) a" using assms(1,3) by (auto simp: lst_inv_def)
  then have o: "app_open (l_app env) a" "pub_ip_addr a = wan_ipaddr l" "nat_table_hdl a = 1" "0 < max_entries a" "max_entries a \<le> 20480"
    by (auto simp: nat_ok_def app_inv_def app_closed_def)
  let ?l = "l\<lparr>WanUp := False\<rparr>"
  have down: "event_callback env cfg (HANDLE_WAN_DOWN (Some d)) l = Some ?l"
    using assms(3,4) a(1) o(2,3) by (simp add: TriggerWANDown_def DeleteTable_def)
  obtain t where t: "ip4_tbl (drv a) = [t]" "table_cnt (drv a) = 1" using o(1) by (auto simp: app_open_def drv_ok_def)
  have "ipa_nat_add_ipv4_tbl (drv_env (l_app env)) (ipv4_addr d2) (max_entries a) False (drv a) = None"
    by (rule second_table_overruns [OF t _ o(4,5)]) (use assms(2) in \<open>simp add: os_ok_def\<close>)
  then have "AddTable (l_app env) (ipv4_addr d2) a = None" by (simp add: AddTable_def)
  moreover obtain ts b where "snd (CreateConnTrackThreads env ?l) = ?l\<lparr>started := ts, isCTReg := b\<rparr>"
    using CreateConnTrackThreads_keeps by blast
  ultimately have "event_callback env cfg (HANDLE_WAN_UP (Some d2)) ?l = None"
    using assms(5) a(1) by (simp add: TriggerWANUp_def Let_def)
  then show ?thesis using down a(1) by (intro exI [of _ ?l]) simp
qed

lemma wan_down_other_address_witness:
  "\<exists>l l'. ct_reach demo_lenv demo_lst l \<and>
     event_callback demo_lenv None (HANDLE_WAN_DOWN (Some (demo_wan\<lparr>ipv4_addr := 0x0A00000A\<rparr>))) l = Some l' \<and>
     event_callback demo_lenv None (HANDLE_WAN_UP (Some (demo_wan\<lparr>ipv4_addr := 0x0A00000A\<rparr>))) l' = None"
proof -
  obtain l b where l: "ct_reach demo_lenv demo_lst l" "lst_inv demo_lenv l" "WanUp l" "wan_ipaddr l = 0x0A000009" by (rule demo_up)
  have os: "os_ok (l_app demo_lenv)" using demo_os by (simp add: demo_lenv_def)
  let ?d = "demo_wan\<lparr>ipv4_addr := 0x0A00000A\<rparr>"
  have ip: "ipv4_addr ?d \<noteq> wan_ipaddr l" "ipv4_addr ?d \<noteq> 0" by (simp_all add: l(4))
  show ?thesis using wan_down_other_address [OF l(2) os l(3) ip, of None] l(1) by blast
qed

section \<open>What a message is taken for\<close>

lemma htons_htons [simp]: "htons (htons w) = w"
  unfolding htons_def by (rule bit_word_eqI) (auto simp: bit_or_iff bit_push_bit_iff bit_drop_bit_eq)

lemma htonl_htonl [simp]: "htonl (htonl w) = w"
  by (simp add: htonl_def)

text \<open>
  C3: both directions of opening a connection give the same rule: the message for client \<open>p:pp\<close> that
  opened a connection to \<open>t:tp\<close>, seen outside as port \<open>wp\<close> (source NAT), and the message for \<open>t:tp\<close>
  that opened one to port \<open>wp\<close> outside and was led to \<open>p:pp\<close> (destination NAT).
\<close>
theorem both_directions_same_rule:
  assumes "ATTR_STATUS m1 AND IPS_DST_NAT = 0" "ATTR_STATUS m1 AND IPS_SRC_NAT \<noteq> 0" "ATTR_STATUS m2 AND IPS_DST_NAT \<noteq> 0"
    and "ATTR_REPL_L4PROTO m1 = ATTR_REPL_L4PROTO m2"
    and "ATTR_ORIG_IPV4_SRC m1 = ATTR_REPL_IPV4_SRC m2" "ATTR_ORIG_PORT_SRC m1 = ATTR_REPL_PORT_SRC m2"
    and "ATTR_ORIG_IPV4_DST m1 = ATTR_ORIG_IPV4_SRC m2" "ATTR_ORIG_PORT_DST m1 = ATTR_ORIG_PORT_SRC m2"
    and "ATTR_REPL_PORT_DST m1 = ATTR_ORIG_PORT_DST m2"
  shows "\<exists>s1 s2. nat_status m1 wan = Some s1 \<and> nat_status m2 wan = Some s2 \<and>
    nat_rule_of (ct_rule m1 s1) = nat_rule_of (ct_rule m2 s2) \<and> conn_of (ct_rule m1 s1) = conn_of (ct_rule m2 s2) \<and>
    \<not> dst_nat (ct_rule m1 s1) \<and> dst_nat (ct_rule m2 s2)"
proof -
  have "nat_status m1 wan = Some IPS_SRC_NAT" "nat_status m2 wan = Some IPS_DST_NAT"
    using assms(1-3) by (simp_all add: nat_status_def and.commute)
  then show ?thesis using assms(4-) by (simp add: ct_rule_def nat_rule_of_def conn_of_def)
qed

text \<open>The client 192.168.0.2:1024 and 10.0.0.1:5000, in network order; 10.0.0.9:4096 outside.\<close>

definition demo_msg :: nf_conntrack where
  "demo_msg = \<lparr>ATTR_STATUS = 16, ATTR_REPL_L3PROTO = 2, ATTR_ORIG_L4PROTO = 17, ATTR_REPL_L4PROTO = 17,
     ATTR_ORIG_IPV4_SRC = 0x0200A8C0, ATTR_ORIG_IPV4_DST = 0x0100000A, ATTR_REPL_IPV4_SRC = 0x0100000A,
     ATTR_ORIG_PORT_SRC = 0x0004, ATTR_ORIG_PORT_DST = 0x8813, ATTR_REPL_PORT_SRC = 0x8813, ATTR_REPL_PORT_DST = 0x0010,
     ATTR_TCP_STATE = 0\<rparr>"

definition demo_msg_dst :: nf_conntrack where
  "demo_msg_dst = demo_msg\<lparr>ATTR_STATUS := 32, ATTR_ORIG_IPV4_SRC := 0x0100000A, ATTR_ORIG_PORT_SRC := 0x8813,
     ATTR_ORIG_IPV4_DST := 0x0900000A, ATTR_ORIG_PORT_DST := 0x0010, ATTR_REPL_IPV4_SRC := 0x0200A8C0, ATTR_REPL_PORT_SRC := 0x0004\<rparr>"

lemma demo_msg_rule: "ct_rule demo_msg IPS_SRC_NAT = demo_entry\<lparr>public_ip := 0\<rparr>"
  by (simp add: ct_rule_def demo_msg_def demo_entry_def zero_entry_def htonl_def htons_def mk32_def lo16_def hi16_def)

lemma both_directions_same_rule_witness:
  "\<exists>s1 s2. nat_status demo_msg 0x0A000009 = Some s1 \<and> nat_status demo_msg_dst 0x0A000009 = Some s2 \<and>
    nat_rule_of (ct_rule demo_msg s1) = nat_rule_of (ct_rule demo_msg_dst s2)"
  using both_directions_same_rule [of demo_msg demo_msg_dst "0x0A000009"] by (auto simp: demo_msg_def demo_msg_dst_def)



section \<open>The life of a connection\<close>

text \<open>What \<open>ProcessTCPorUDPMsg\<close> does with a UDP message of interest.\<close>

lemma udp_message:
  assumes "ATTR_ORIG_L4PROTO (ct_msg d) = IPPROTO_UDP" "nat_status (ct_msg d) (wan_ipaddr l) = Some s"
    and "nat_client cfg l (ct_rule (ct_msg d) s) = Some (Some (rule, t))" "sta_known l rule = Some k" "protocol rule = IPPROTO_UDP"
    and "nat_inst l \<noteq> None"
  shows "ProcessCTMessage env cfg d l = map_option (\<lambda>l. l\<lparr>ct_destroyed := ct_destroyed l + 1\<rparr>)
    (if ct_type d = NFCT_T_NEW then new_conn env (t \<or> \<not> k) (rule\<lparr>public_ip := wan_ipaddr l\<rparr>) l
     else if ct_type d = NFCT_T_DESTROY then end_conn env (rule\<lparr>public_ip := wan_ipaddr l\<rparr>) l else Some l)"
  using assms by (auto simp: ProcessCTMessage_def ProcessTCPorUDPMsg_def Let_def map_option_case split: option.split)

text \<open>Neither depends on the NAT application.\<close>

lemma nat_client_frame: "nat_client cfg (l\<lparr>nat_inst := x, ct_destroyed := n\<rparr>) r = nat_client cfg l r"
  and sta_known_frame: "sta_known (l\<lparr>nat_inst := x, ct_destroyed := n\<rparr>) r = sta_known l r"
  by (simp_all add: nat_client_def sta_known_def cong: if_cong)

lemma new_conn_nat:
  assumes "new_conn env t r l = Some l'"
  shows "\<exists>b. l' = l\<lparr>nat_inst := Some b\<rparr>"
  using assms by (auto simp: new_conn_def nat_call_def bind_eq_Some_conv split: if_splits)

text \<open>
  C8: after the messages that a UDP connection began and ended, in whatever state the first finds the
  network and whether or not the connection was taken into the table, the connection is neither in
  the cache nor in the table, and no rule of another connection was touched by the second message.
\<close>
theorem udp_connection_ends:
  assumes "lst_inv env l" "\<forall>c. cfg = Some c \<longrightarrow> cfg_ok c"
    and "ATTR_ORIG_L4PROTO m = IPPROTO_UDP" "nat_status m (wan_ipaddr l) = Some s"
    and "nat_client cfg l (ct_rule m s) = Some (Some (rule, t))" "protocol rule = IPPROTO_UDP"
  shows "\<exists>l1 l2 a1 a2. ProcessCTMessage env cfg \<lparr>ct_msg = m, ct_type = NFCT_T_NEW\<rparr> l = Some l1 \<and>
    ProcessCTMessage env cfg \<lparr>ct_msg = m, ct_type = NFCT_T_DESTROY\<rparr> l1 = Some l2 \<and>
    nat_inst l1 = Some a1 \<and> nat_inst l2 = Some a2 \<and> lst_inv env l2 \<and> (\<forall>i<max_entries a2. \<not> same_conn (cache a2 ! i) rule) \<and>
    (WanUp l \<longrightarrow> (\<forall>h r. drv_rules (drv a2) h = Some r \<longleftrightarrow> drv_rules (drv a1) h = Some r \<and> conn_of_rule r \<noteq> conn_of rule))"
proof -
  let ?new = "\<lparr>ct_msg = m, ct_type = NFCT_T_NEW\<rparr>" and ?old = "\<lparr>ct_msg = m, ct_type = NFCT_T_DESTROY\<rparr>"
  let ?r = "rule\<lparr>public_ip := wan_ipaddr l\<rparr>"
  obtain k where k: "sta_known l rule = Some k" using sta_known_total [OF assms(1)] by blast
  have some: "nat_inst l \<noteq> None" using assms(1) by (auto simp: lst_inv_def)
  obtain l0 where l0: "new_conn env (t \<or> \<not> k) ?r l = Some l0" "lst_inv env l0"
    using new_conn_inv [OF assms(1), of ?r] assms(6) by auto
  then obtain b where b: "l0 = l\<lparr>nat_inst := Some b\<rparr>" using new_conn_nat by blast
  let ?l1 = "l0\<lparr>ct_destroyed := ct_destroyed l0 + 1\<rparr>"
  have l1: "ProcessCTMessage env cfg ?new l = Some ?l1" "lst_inv env ?l1"
    using udp_message [of ?new l s cfg rule t k] assms k some l0 lst_inv_arrays(9) [OF l0(2)] by simp_all
  obtain a1 where a1: "nat_inst ?l1 = Some a1" "nat_ok env (WanUp l) (wan_ipaddr l) a1"
    using l1(2) b by (auto simp: lst_inv_def)
  have nb: "\<not> blank_entry ?r" using assms(6) by (simp add: blank_entry_def)
  have conn: "conn_of ?r = conn_of rule" by (simp add: conn_of_def)
  obtain a2 where a2: "DeleteEntry (l_app env) ?r a1 = Some (0, a2)" "app_inv (l_app env) a2" "app_frame a1 a2"
    "\<forall>i<max_entries a1. cache a2 ! i = (if same_conn (cache a1 ! i) ?r then zero_entry else cache a1 ! i)"
    using DeleteEntry_spec [OF nat_ok_inv [OF a1(2)] nb] by blast
  obtain xs where xs: "DeleteTempEntry ?r a2 = Some (a2\<lparr>temp := xs\<rparr>)" using DeleteTempEntry_inv [OF a2(2)] by blast
  let ?l2 = "?l1\<lparr>nat_inst := Some (a2\<lparr>temp := xs\<rparr>), ct_destroyed := ct_destroyed ?l1 + 1\<rparr>"
  have e: "end_conn env ?r ?l1 = Some (?l1\<lparr>nat_inst := Some (a2\<lparr>temp := xs\<rparr>)\<rparr>)"
    using a1(1) a2(1) xs by (simp add: end_conn_def nat_call_def)
  have l2: "ProcessCTMessage env cfg ?old ?l1 = Some ?l2"
    using udp_message [of ?old ?l1 s cfg rule t k] assms k b e
    by (simp add: nat_client_frame sta_known_frame)
  have inv2: "lst_inv env ?l2" using ProcessCTMessage_inv [OF l1(2) assms(2), of ?old] l2 by simp
  have gone: "\<not> same_conn (cache a2 ! i) rule" if "i < max_entries a2" for i
  proof -
    have "i < max_entries a1" using that app_frame_simps(1) [OF a2(3)] by simp
    moreover have "conn_of zero_entry \<noteq> conn_of rule" using assms(6) by (simp add: conn_of_def zero_entry_def)
    ultimately show ?thesis using a2(4) by (simp add: same_conn_iff conn)
  qed
  have rules: "drv_rules (drv a2) h = Some r \<longleftrightarrow> drv_rules (drv a1) h = Some r \<and> conn_of_rule r \<noteq> conn_of rule"
    if "WanUp l" for h r
  proof -
    have "app_open (l_app env) a1" using a1(2) that by (auto simp: nat_ok_def app_inv_def app_closed_def)
    from delete_entry_exact [OF nat_ok_inv [OF a1(2)] this nb] show ?thesis using a2(1) by (simp add: conn)
  qed
  show ?thesis using l1(1) l2 a1(1) inv2 gone rules
    by (intro exI [of _ ?l1] exI [of _ ?l2] exI [of _ a1] exI [of _ "a2\<lparr>temp := xs\<rparr>"]) simp
qed

text \<open>The client 192.168.0.2 was added, then its connection begins and ends.\<close>

lemma udp_connection_ends_witness:
  "\<exists>l l1 l2 a2. WanUp l \<and> ProcessCTMessage demo_lenv None \<lparr>ct_msg = demo_msg, ct_type = NFCT_T_NEW\<rparr> l = Some l1 \<and>
    ProcessCTMessage demo_lenv None \<lparr>ct_msg = demo_msg, ct_type = NFCT_T_DESTROY\<rparr> l1 = Some l2 \<and>
    nat_inst l2 = Some a2 \<and> \<not> same_conn (cache a2 ! 0) demo_entry"
proof -
  obtain l0 b where l0: "lst_inv demo_lenv l0" "WanUp l0" "wan_ipaddr l0 = 0x0A000009" "isStaMode l0 = False"
    "nat_iface_ipv4_addr l0 = replicate 50 0" by (rule demo_up)
  let ?xs = "0xC0A80002 # replicate 49 0"
  let ?l = "l0\<lparr>nat_iface_ipv4_addr := ?xs\<rparr>"
  have inv: "lst_inv demo_lenv ?l" using lst_inv_arrays(1) [OF l0(1), of ?xs] by simp
  have st: "nat_status demo_msg (wan_ipaddr ?l) = Some IPS_SRC_NAT" by (simp add: nat_status_def demo_msg_def)
  let ?e = "demo_entry\<lparr>public_ip := 0\<rparr>"
  have cl: "nat_client None ?l (ct_rule demo_msg IPS_SRC_NAT) = Some (Some (?e, False))"
    using l0(3) unfolding demo_msg_rule nat_client_def by (subst scan_first.simps) (simp add: demo_entry_def)
  have pr: "protocol ?e = IPPROTO_UDP" "ATTR_ORIG_L4PROTO demo_msg = IPPROTO_UDP" by (simp_all add: demo_entry_def demo_msg_def)
  obtain l1 l2 a2 where r: "ProcessCTMessage demo_lenv None \<lparr>ct_msg = demo_msg, ct_type = NFCT_T_NEW\<rparr> ?l = Some l1"
    "ProcessCTMessage demo_lenv None \<lparr>ct_msg = demo_msg, ct_type = NFCT_T_DESTROY\<rparr> l1 = Some l2"
    "nat_inst l2 = Some a2" "lst_inv demo_lenv l2" "\<forall>i<max_entries a2. \<not> same_conn (cache a2 ! i) ?e"
    using udp_connection_ends [OF inv _ pr(2) st cl pr(1)] by auto
  have "0 < max_entries a2" using r(3,4) by (auto simp: lst_inv_def nat_ok_def)
  then have "\<not> same_conn (cache a2 ! 0) demo_entry" using r(5) by (simp add: same_conn_iff conn_of_def)
  then show ?thesis using l0(2) r(1-3) by (intro exI [of _ ?l] exI [of _ l1] exI [of _ l2] exI [of _ a2]) simp
qed

section \<open>Clients of the station interface\<close>

lemma nat_call_keeps: "nat_call f l = Some l' \<Longrightarrow> \<exists>b. l' = l\<lparr>nat_inst := Some b\<rparr>"
  by (auto simp: nat_call_def bind_eq_Some_conv)

text \<open>A client that is in the array leaves.\<close>

lemma sta_del_found:
  assumes "lst_inv env l" "j < MAX_STA_CLNT_IFACES" "sta_clnt_ipv4_addr l ! j = ip" "ip \<noteq> 0" "\<forall>i<j. sta_clnt_ipv4_addr l ! i \<noteq> ip"
  shows "\<exists>b. HandleSTAClientDelEvt env ip l =
    Some (l\<lparr>sta_clnt_ipv4_addr := (sta_clnt_ipv4_addr l)[j := 0], StaClntCnt := StaClntCnt l - 1, nat_inst := Some b\<rparr>)"
proof -
  let ?xs = "sta_clnt_ipv4_addr l"
  have n: "length ?xs = MAX_STA_CLNT_IFACES" using assms(1) by (simp add: lst_inv_def)
  then have le: "MAX_STA_CLNT_IFACES \<le> length ?xs" by simp
  have found: "scan_first (\<lambda>i. map_option (\<lambda>x. x \<noteq> 0 \<and> x = ip) (rd ?xs i)) MAX_STA_CLNT_IFACES 0 = Some (Some j)"
  proof (rule scan_list_cases [OF le, of "\<lambda>x. x \<noteq> 0 \<and> x = ip"])
    fix k assume k: "scan_first (\<lambda>i. map_option (\<lambda>x. x \<noteq> 0 \<and> x = ip) (rd ?xs i)) MAX_STA_CLNT_IFACES 0 = Some (Some k)"
      "?xs ! k \<noteq> 0 \<and> ?xs ! k = ip" "\<forall>i<k. \<not> (?xs ! i \<noteq> 0 \<and> ?xs ! i = ip)"
    have "k = j" using k(2,3) assms(3-5) by (metis nat_neq_iff)
    then show ?thesis using k(1) by simp
  qed (use assms(2-4) in auto)
  obtain l' where l': "HandleSTAClientDelEvt env ip l = Some l'" using sta_del_inv [OF assms(1)] by blast
  then have "\<exists>b. l' = l\<lparr>sta_clnt_ipv4_addr := ?xs[j := 0], StaClntCnt := StaClntCnt l - 1, nat_inst := Some b\<rparr>"
    using found assms(2) n by (auto simp: HandleSTAClientDelEvt_def bind_eq_Some_conv dest!: nat_call_keeps)
  then show ?thesis using l' by simp
qed

text \<open>
  The count of the station clients bounds the search through their array although a client that
  left makes a hole in it: of three clients, once the second left, the third is not found any more
  (its connections become temporary entries); once the first left instead, every target outside
  0.0.0.0/24 passes for a known client.
\<close>
theorem station_client_hidden:
  assumes "lst_inv env l" "isStaMode l" "sta_clnt_ipv4_addr l = [x, y, z] @ replicate 7 0" "StaClntCnt l = 3"
    and "distinct [x, y, z, 0]" "x AND 0xFFFFFF00 = z AND 0xFFFFFF00"
  shows "\<exists>l1 l2. HandleSTAClientDelEvt env y l = Some l1 \<and> HandleSTAClientDelEvt env x l = Some l2 \<and>
    z \<in> set (sta_clnt_ipv4_addr l1) \<and> (\<forall>r. target_ip r = z \<longrightarrow> sta_known l1 r = Some False) \<and>
    (\<forall>r. target_ip r AND 0xFFFFFF00 \<noteq> 0 \<longrightarrow> sta_known l2 r = Some True)"
proof -
  have d: "x \<noteq> y" "x \<noteq> 0" "y \<noteq> 0" "z \<noteq> 0" "z \<noteq> x" using assms(5) by auto
  obtain b where b: "HandleSTAClientDelEvt env y l =
      Some (l\<lparr>sta_clnt_ipv4_addr := [x, 0, z] @ replicate 7 0, StaClntCnt := 2, nat_inst := Some b\<rparr>)"
    using sta_del_found [OF assms(1), of 1 y] assms(3,4) d by auto
  obtain c where c: "HandleSTAClientDelEvt env x l =
      Some (l\<lparr>sta_clnt_ipv4_addr := [0, y, z] @ replicate 7 0, StaClntCnt := 2, nat_inst := Some c\<rparr>)"
    using sta_del_found [OF assms(1), of 0 x] assms(3,4) d by auto
  have "sta_known (l\<lparr>sta_clnt_ipv4_addr := [x, 0, z] @ replicate 7 0, StaClntCnt := 2, nat_inst := Some b\<rparr>) r = Some False"
    if "target_ip r = z" for r
    using that assms(2,6) d scan_list [of 2 "[x, 0, z] @ replicate 7 0" "\<lambda>v. z = v"]
    by (simp add: sta_known_def less_2_cases_iff ex_disj_distrib conj_disj_distribR)
  moreover have "sta_known (l\<lparr>sta_clnt_ipv4_addr := [0, y, z] @ replicate 7 0, StaClntCnt := 2, nat_inst := Some c\<rparr>) r = Some True"
    if "target_ip r AND 0xFFFFFF00 \<noteq> 0" for r
    using that assms(2) by (simp add: sta_known_def)
  ultimately show ?thesis using b c by simp
qed

lemma station_client_hidden_witness:
  "\<exists>l l1. sta_clnt_ipv4_addr l = [0xC0A80102, 0xC0A80103, 0xC0A80104] @ replicate 7 0 \<and>
     HandleSTAClientDelEvt demo_lenv 0xC0A80103 l = Some l1 \<and> 0xC0A80104 \<in> set (sta_clnt_ipv4_addr l1) \<and>
     sta_known l1 (demo_entry\<lparr>target_ip := 0xC0A80104\<rparr>) = Some False"
proof -
  obtain l0 b where l0: "lst_inv demo_lenv l0" "WanUp l0" "wan_ipaddr l0 = 0x0A000009" "isStaMode l0 = False"
    "nat_iface_ipv4_addr l0 = replicate 50 0" by (rule demo_up)
  let ?xs = "[0xC0A80102, 0xC0A80103, 0xC0A80104] @ replicate 7 0"
  let ?l = "l0\<lparr>isStaMode := True, sta_clnt_ipv4_addr := ?xs, StaClntCnt := 3\<rparr>"
  have inv: "lst_inv demo_lenv ?l" using l0(1) by (simp add: lst_inv_def sta_used_def)
  have m: "isStaMode ?l" "sta_clnt_ipv4_addr ?l = ?xs" "StaClntCnt ?l = 3" by simp_all
  from station_client_hidden [OF inv m] obtain l1 where "HandleSTAClientDelEvt demo_lenv 0xC0A80103 ?l = Some l1"
    "0xC0A80104 \<in> set (sta_clnt_ipv4_addr l1)" "\<forall>r. target_ip r = 0xC0A80104 \<longrightarrow> sta_known l1 r = Some False" by auto
  then show ?thesis using m(2) by (intro exI [of _ ?l] exI [of _ l1]) simp
qed

section \<open>Filters\<close>

definition ignores :: "nfct_filter_attr \<Rightarrow> u32 \<Rightarrow> nfct_filter \<Rightarrow> bool" where
  "ignores attr a f \<longleftrightarrow> SET_LOGIC attr NFCT_FILTER_LOGIC_NEGATIVE \<in> set f \<and> ADD_ATTR attr (ADDR_MASK a 0xFFFFFFFF) \<in> set f"

text \<open>What both functions add to the UDP filter once.\<close>

definition bridge_and_broadcast :: "ct_env \<Rightarrow> string \<Rightarrow> nfct_filter \<Rightarrow> nfct_filter" where
  "bridge_and_broadcast env bridge f = Ignore_Local_Addrs (snd (Ignore_Bridge_Addrs env bridge f))"

lemma attach_filter_simps [simp]:
  "cc_pInstance (attach_filter env tcp c s) = INSTANCE c" "tcp_isIgnore (attach_filter env tcp c s) = tcp_isIgnore s"
  by (simp_all add: attach_filter_def Let_def split: option.split)

lemma udp_filters_step:
  assumes "cc_pInstance s = INSTANCE c" "udp_filter c = Some f" "\<not> udp_isIgnore s"
  shows "\<exists>s'. UpdateUDPFilters env bridge d False s = Some s' \<and> tcp_isIgnore s' = tcp_isIgnore s \<and>
    cc_pInstance s' = INSTANCE (c\<lparr>udp_filter := Some (bridge_and_broadcast env bridge (Ignore_Local_Iface d f))\<rparr>)"
  using assms by (auto simp: UpdateUDPFilters_def ct_client_GetInstance_def upd_udp_def bridge_and_broadcast_def)

lemma tcp_filters_step:
  assumes "cc_pInstance s = INSTANCE c" "udp_filter c = Some fu" "tcp_filter c = Some ft" "\<not> tcp_isIgnore s"
  shows "\<exists>s'. UpdateTCPFilters env bridge d False s = Some s' \<and>
    cc_pInstance s' = INSTANCE (c\<lparr>tcp_filter := Some (Ignore_Local_Iface d ft), udp_filter := Some (bridge_and_broadcast env bridge fu)\<rparr>)"
  using assms by (auto simp: UpdateTCPFilters_def ct_client_GetInstance_def upd_udp_def upd_tcp_def bridge_and_broadcast_def)

lemma ignores_add: "ignores attr a (ignore_addr attr a f)"
  and ignores_mono: "ignores attr a f \<Longrightarrow> ignores attr a (ignore_addr attr' a' f)"
  by (simp_all add: ignores_def ignore_addr_def)

lemma ignores_bridge: "ignores attr a f \<Longrightarrow> ignores attr a (bridge_and_broadcast env bridge f)"
  by (simp add: bridge_and_broadcast_def Ignore_Bridge_Addrs_def Ignore_Local_Addrs_def ignores_mono split: option.split)

lemma ignores_broadcast:
  "ignores NFCT_FILTER_DST_IPV4 0xFFFFFFFF (bridge_and_broadcast env bridge f)"
  "ignores NFCT_FILTER_SRC_IPV4 0xFFFFFFFF (bridge_and_broadcast env bridge f)"
  by (simp_all add: bridge_and_broadcast_def Ignore_Local_Addrs_def ignores_add ignores_mono)

lemma ignores_iface:
  "ignores NFCT_FILTER_SRC_IPV4 (ipv4_addr d) (Ignore_Local_Iface d f)"
  "ignores NFCT_FILTER_DST_IPV4 (ipv4_addr d) (Ignore_Local_Iface d f)"
  "ignores NFCT_FILTER_DST_IPV4 (NOT (addr_mask d) OR (ipv4_addr d AND addr_mask d)) (Ignore_Local_Iface d f)"
proof -
  have "(0xFFFFFFFF :: u32) = -1" by simp
  then have m: "0xFFFFFFFF AND w = w" for w :: u32 by (simp only: and.left_neutral)
  show "ignores NFCT_FILTER_SRC_IPV4 (ipv4_addr d) (Ignore_Local_Iface d f)"
    "ignores NFCT_FILTER_DST_IPV4 (ipv4_addr d) (Ignore_Local_Iface d f)"
    "ignores NFCT_FILTER_DST_IPV4 (NOT (addr_mask d) OR (ipv4_addr d AND addr_mask d)) (Ignore_Local_Iface d f)"
    by (simp_all add: Ignore_Local_Iface_def Let_def m ignores_add ignores_mono)
qed

text \<open>
  When the first local interface comes up, its address and the broadcast address of its subnet
  are put into both filters, but the limited broadcast and the bridge's address, which
  \<open>UpdateTCPFilters\<close> adds too, go into the UDP filter a second time: the TCP filter gets nothing else.
\<close>
theorem tcp_filter_without_broadcast:
  assumes "cc_pInstance s = INSTANCE c" "udp_filter c = Some fu" "tcp_filter c = Some ft" "\<not> udp_isIgnore s" "\<not> tcp_isIgnore s"
  shows "\<exists>s1 s2 c2 gu gt. UpdateUDPFilters env bridge d False s = Some s1 \<and> UpdateTCPFilters env bridge d False s1 = Some s2 \<and>
    cc_pInstance s2 = INSTANCE c2 \<and> udp_filter c2 = Some gu \<and> tcp_filter c2 = Some gt \<and>
    (\<forall>f\<in>{gu, gt}. ignores NFCT_FILTER_SRC_IPV4 (ipv4_addr d) f \<and> ignores NFCT_FILTER_DST_IPV4 (ipv4_addr d) f \<and>
       ignores NFCT_FILTER_DST_IPV4 (NOT (addr_mask d) OR (ipv4_addr d AND addr_mask d)) f) \<and>
    ignores NFCT_FILTER_DST_IPV4 0xFFFFFFFF gu \<and> ignores NFCT_FILTER_SRC_IPV4 0xFFFFFFFF gu \<and>
    gt = Ignore_Local_Iface d ft \<and> gu = bridge_and_broadcast env bridge (bridge_and_broadcast env bridge (Ignore_Local_Iface d fu))"
proof -
  let ?b = "bridge_and_broadcast env bridge" and ?i = "Ignore_Local_Iface d"
  obtain s1 where s1: "UpdateUDPFilters env bridge d False s = Some s1" "tcp_isIgnore s1 = tcp_isIgnore s"
    "cc_pInstance s1 = INSTANCE (c\<lparr>udp_filter := Some (?b (?i fu))\<rparr>)" using udp_filters_step [OF assms(1,2,4)] by blast
  obtain s2 where "UpdateTCPFilters env bridge d False s1 = Some s2"
    "cc_pInstance s2 = INSTANCE (c\<lparr>tcp_filter := Some (?i ft), udp_filter := Some (?b (?b (?i fu)))\<rparr>)"
    using tcp_filters_step [OF s1(3), of "?b (?i fu)" ft env bridge d] assms(3,5) s1(2) by auto
  then show ?thesis using s1(1) ignores_iface [of d] ignores_broadcast [of env bridge] ignores_bridge [of _ _ _ env bridge]
    by (intro exI [of _ s1] exI [of _ s2]) simp
qed

lemma tcp_filter_without_broadcast_witness:
  "\<exists>s1 s2 c2 gt. UpdateUDPFilters demo_ct_env ''bridge0'' demo_wan False demo_clients = Some s1 \<and>
     UpdateTCPFilters demo_ct_env ''bridge0'' demo_wan False s1 = Some s2 \<and> cc_pInstance s2 = INSTANCE c2 \<and> tcp_filter c2 = Some gt \<and>
     ignores NFCT_FILTER_DST_IPV4 0x0A0000FF gt \<and> \<not> ignores NFCT_FILTER_DST_IPV4 0xFFFFFFFF gt"
proof -
  have c: "cc_pInstance demo_clients = INSTANCE (ct_client_new\<lparr>udp_filter := Some [], tcp_filter := Some []\<rparr>)"
    "\<not> udp_isIgnore demo_clients" "\<not> tcp_isIgnore demo_clients" by (simp_all add: demo_clients_def)
  have "ignores NFCT_FILTER_DST_IPV4 0x0A0000FF (Ignore_Local_Iface demo_wan [])"
    "\<not> ignores NFCT_FILTER_DST_IPV4 0xFFFFFFFF (Ignore_Local_Iface demo_wan [])"
    by (simp_all add: ignores_def Ignore_Local_Iface_def ignore_addr_def demo_wan_def)
  with tcp_filter_without_broadcast [OF c(1) _ _ c(2,3), of "[]" "[]" demo_ct_env "''bridge0''" demo_wan] show ?thesis by auto
qed

section \<open>From the library to the listener\<close>

text \<open>A registration touches only the list, and takes one address.\<close>

lemma registr_frame:
  assumes "registr nw ev obj s = Some (r, s')"
  shows "msgs s' = msgs s" "Head s' = Head s" "Tail s' = Tail s" "called s' = called s" "event_stats s' = event_stats s"
    "regs s' p = None \<longleftrightarrow> regs s p = None \<and> (p \<noteq> nw \<or> nw = 0)"
  using assms by (auto simp: registr_def Let_def bind_eq_Some_conv split: if_splits)

lemma registr_all_spec:
  assumes "reg_rep s ps" "distinct nws" "0 \<notin> set nws" "\<forall>p\<in>set nws. regs s p = None" "length nws = length evs"
  shows "\<exists>s'. registr_all nws evs obj s = Some s' \<and> reg_rep s' (ps @ nws) \<and>
    regs_of s' (ps @ nws) = regs_of s ps @ map (\<lambda>e. (e, obj)) evs \<and> msgs s' = msgs s \<and> Head s' = Head s \<and> Tail s' = Tail s \<and>
    called s' = called s \<and> event_stats s' = event_stats s"
  using assms
proof (induction nws arbitrary: evs s ps)
  case (Cons nw nws)
  then obtain ev es where evs: "evs = ev # es" by (cases evs) auto
  obtain s1 where s1: "registr nw ev obj s = Some (0, s1)" "reg_rep s1 (ps @ [nw])" "regs_of s1 (ps @ [nw]) = regs_of s ps @ [(ev, obj)]"
    using registr_spec [OF Cons.prems(1), of nw ev obj] Cons.prems(3,4) by auto
  note f = registr_frame [OF s1(1)]
  have free: "\<forall>p\<in>set nws. regs s1 p = None" using Cons.prems(2,4) f(6) by auto
  have rest: "distinct nws" "0 \<notin> set nws" "length nws = length es" using Cons.prems(2,3,5) evs by simp_all
  show ?case using Cons.IH [OF s1(2) rest(1,2) free rest(3)] s1 f(1-5) evs by auto
qed simp

text \<open>
  C20: once the listener is constructed, a message for an IPv4 connection that the library hands to
  \<open>IPAConntrackEventCB\<close> while no event waits reaches the listener in the next turn of the queue: it is
  called exactly once for it, after the listeners registered earlier for the same event, with
  event data that still hold the message and its type.
\<close>
theorem message_reaches_listener:
  assumes "reg_rep (ct_cmdq s0) ps" "cq_rep (ct_cmdq s0) []" "distinct nws" "0 \<notin> set nws"
    and "\<forall>p\<in>set nws. regs (ct_cmdq s0) p = None" "length nws = 6" "21 < length (event_stats (ct_cmdq s0))"
    and "registr_all nws ct_events lst (ct_cmdq s0) = Some q0" "s = s0\<lparr>ct_cmdq := q0\<rparr>"
    and "ct_objs s obj = Some m" "ATTR_REPL_L3PROTO m \<noteq> AF_INET6" "ct_data \<noteq> 0" "itm \<noteq> 0" "msgs q0 itm = None"
    and "\<forall>ob. keeps_at cb ob" "\<forall>ob. appends_at cb ob"
  shows "\<exists>s1 q. IPAConntrackEventCB type obj ct_data itm True True True s = Some (NFCT_CB_STOLEN, s1) \<and>
    Process_turn cb (ct_cmdq s1) = Some (True, q) \<and>
    called q = called (ct_cmdq s0) @ [(ob, 21, ct_data). (e, ob) \<leftarrow> regs_of (ct_cmdq s0) ps, e = 21] @ [(lst, 21, ct_data)] \<and>
    ct_evts s1 ct_data = Some (obj, type) \<and> ct_objs s1 obj = Some m"
proof -
  obtain q1 where q1: "registr_all nws ct_events lst (ct_cmdq s0) = Some q1" "reg_rep q1 (ps @ nws)"
    "regs_of q1 (ps @ nws) = regs_of (ct_cmdq s0) ps @ map (\<lambda>e. (e, lst)) ct_events" "msgs q1 = msgs (ct_cmdq s0)"
    "Head q1 = Head (ct_cmdq s0)" "Tail q1 = Tail (ct_cmdq s0)" "called q1 = called (ct_cmdq s0)" "event_stats q1 = event_stats (ct_cmdq s0)"
    using registr_all_spec [OF assms(1,3,4,5), of ct_events lst] assms(6) by (auto simp: ct_events_def)
  have same: "q1 = q0" using q1(1) assms(8) by simp
  have q: "cq_rep q0 []" using assms(2) q1(4,5,6) unfolding same by (simp add: cq_rep_def)
  let ?d = "\<lparr>event = IPA_PROCESS_CT_MESSAGE, evt_data = ct_data\<rparr>"
  from PostEvt_spec [OF q assms(13,14), of True True ?d] obtain q2 where q2: "PostEvt itm True True True ?d q0 = Some (0, q2)"
    "cq_rep q2 [itm]" "cq_evts q2 [itm] = [?d]" "regs q2 = regs q0" "reg_head q2 = reg_head q0" "called q2 = called q0"
    "event_stats q2 = event_stats q0" by (auto simp: cq_evts_def)
  have r2: "reg_rep q2 (ps @ nws)" "regs_of q2 (ps @ nws) = regs_of q0 (ps @ nws)"
    using q1(2) reg_rep_same [OF q2(4,5)] unfolding same by simp_all
  have d: "?d = m_evt (the (msgs q2 itm))" using q2(3) by (simp add: cq_evts_def)
  have stats: "event ?d < length (event_stats q2)" using assms(7) q2(7) q1(8) unfolding same by simp
  obtain q3 where q3: "Process_turn cb q2 = Some (True, q3)" "called q3 = called q2 @ calls_for ?d (regs_of q2 (ps @ nws))"
    using turn_delivers [OF q2(2) r2(1) d stats assms(15,16)] by blast
  have calls: "calls_for ?d (xs @ map (\<lambda>e. (e, lst)) ct_events) = [(ob, 21, ct_data). (e, ob) \<leftarrow> xs, e = 21] @ [(lst, 21, ct_data)]" for xs
    by (simp add: calls_for_def ct_events_def) (induction xs; auto)
  have "IPAConntrackEventCB type obj ct_data itm True True True s =
      Some (NFCT_CB_STOLEN, s\<lparr>ct_evts := (ct_evts s)(ct_data \<mapsto> (obj, type)), ct_cmdq := q2\<rparr>)"
    using assms(9-12) q2(1) by (simp add: IPAConntrackEventCB_def)
  moreover have "called q3 = called (ct_cmdq s0) @ [(ob, 21, ct_data). (e, ob) \<leftarrow> regs_of (ct_cmdq s0) ps, e = 21] @ [(lst, 21, ct_data)]"
    unfolding q3(2) r2(2) q1(3) [unfolded same] calls q2(6) q1(7) [unfolded same] ..
  ultimately show ?thesis using q3(1) assms(9,10)
    by (intro exI [of _ "s\<lparr>ct_evts := (ct_evts s)(ct_data \<mapsto> (obj, type)), ct_cmdq := q2\<rparr>"] exI [of _ q3]) simp
qed

text \<open>The listener is object 5; message 300 of the library gets event data 400.\<close>

definition demo_ctq :: ct_queue where
  "demo_ctq = \<lparr>ct_objs = [300 \<mapsto> demo_msg], ct_evts = Map.empty, ct_cmdq = no_events\<rparr>"

lemma message_reaches_listener_witness:
  "\<exists>q0 s1 q. registr_all [51, 52, 53, 54, 55, 56] ct_events 5 no_events = Some q0 \<and>
     IPAConntrackEventCB NFCT_T_NEW 300 400 30 True True True (demo_ctq\<lparr>ct_cmdq := q0\<rparr>) = Some (NFCT_CB_STOLEN, s1) \<and>
     Process_turn idle_cb (ct_cmdq s1) = Some (True, q) \<and> called q = [(5, 21, 400)]"
proof -
  let ?nws = "[51, 52, 53, 54, 55, 56] :: nat list"
  have n: "distinct ?nws" "0 \<notin> set ?nws" "length ?nws = 6" "\<forall>p\<in>set ?nws. regs (ct_cmdq demo_ctq) p = None"
    by (simp_all add: demo_ctq_def no_events_def)
  have r: "reg_rep (ct_cmdq demo_ctq) []" "cq_rep (ct_cmdq demo_ctq) []" using no_events_rep by (simp_all add: demo_ctq_def)
  obtain q0 where q0: "registr_all ?nws ct_events 5 (ct_cmdq demo_ctq) = Some q0" "msgs q0 = msgs (ct_cmdq demo_ctq)"
    using registr_all_spec [OF r(1) n(1,2,4), of ct_events 5] by (auto simp: ct_events_def)
  have m: "ct_objs (demo_ctq\<lparr>ct_cmdq := q0\<rparr>) 300 = Some demo_msg" "ATTR_REPL_L3PROTO demo_msg \<noteq> AF_INET6" "msgs q0 30 = None"
    by (simp_all add: demo_ctq_def demo_msg_def q0(2) no_events_def)
  have stats: "21 < length (event_stats (ct_cmdq demo_ctq))" by (simp add: demo_ctq_def no_events_def)
  have cb: "\<forall>ob. keeps_at idle_cb ob" "\<forall>ob. appends_at idle_cb ob" using idle_cb_ok by simp_all
  from message_reaches_listener [OF r n(1,2,4,3) stats q0(1) refl m(1,2) _ _ m(3) cb, of 400 NFCT_T_NEW]
  show ?thesis using q0(1) by (auto simp: demo_ctq_def no_events_def)
qed

text \<open>
  When \<open>PostEvt\<close> fails after it has put the message into the queue (the signal or the unlock
  fails), the callback frees the event data and the message of the library, which the event in the
  queue still names.
\<close>
theorem failed_post_dangles:
  assumes "cq_rep (ct_cmdq s) ps" "itm \<noteq> 0" "msgs (ct_cmdq s) itm = None" "\<not> (signal_ok \<and> unlock_ok)"
    and "ct_objs s obj = Some m" "ATTR_REPL_L3PROTO m \<noteq> AF_INET6" "ct_data \<noteq> 0"
  shows "\<exists>s1. IPAConntrackEventCB type obj ct_data itm True signal_ok unlock_ok s = Some (NFCT_CB_STOLEN, s1) \<and>
    ct_objs s1 obj = None \<and> ct_evts s1 ct_data = None \<and> cq_rep (ct_cmdq s1) (ps @ [itm]) \<and>
    cq_evts (ct_cmdq s1) (ps @ [itm]) = cq_evts (ct_cmdq s) ps @ [\<lparr>event = IPA_PROCESS_CT_MESSAGE, evt_data = ct_data\<rparr>]"
proof -
  let ?d = "\<lparr>event = IPA_PROCESS_CT_MESSAGE, evt_data = ct_data\<rparr>"
  from PostEvt_spec [OF assms(1-3), of signal_ok unlock_ok ?d] assms(4) obtain q where
    q: "PostEvt itm True signal_ok unlock_ok ?d (ct_cmdq s) = Some (-1, q)" "cq_rep q (ps @ [itm])"
      "cq_evts q (ps @ [itm]) = cq_evts (ct_cmdq s) ps @ [?d]" by auto
  then show ?thesis using assms(5-7) by (simp add: IPAConntrackEventCB_def nfct_destroy_def)
qed

lemma failed_post_dangles_witness:
  "\<exists>s1. IPAConntrackEventCB NFCT_T_NEW 300 400 30 True False True demo_ctq = Some (NFCT_CB_STOLEN, s1) \<and>
     ct_objs s1 300 = None \<and> ct_evts s1 400 = None \<and> cq_evts (ct_cmdq s1) [30] = [\<lparr>event = 21, evt_data = 400\<rparr>]"
proof -
  have q: "cq_rep (ct_cmdq demo_ctq) []" "msgs (ct_cmdq demo_ctq) 30 = None" "cq_evts (ct_cmdq demo_ctq) [] = []"
    using no_events_rep(2) by (simp_all add: demo_ctq_def no_events_def cq_evts_def)
  have m: "ct_objs demo_ctq 300 = Some demo_msg" "ATTR_REPL_L3PROTO demo_msg \<noteq> AF_INET6" by (simp_all add: demo_ctq_def demo_msg_def)
  from failed_post_dangles [OF q(1) _ q(2) _ m, of False True 400 NFCT_T_NEW] show ?thesis using q(3) by auto
qed

end
