(* ===== verification/Ipacm_Neighbor.thy ===== *)
theory Ipacm_Neighbor
  imports Ipacm_Config Ipacm_Events
begin

text \<open>
  The neighbour cache of the IPA connection manager (ipacm/src/IPACM_Neighbor.cpp) and the mapping of
  kernel interface indices (\<open>iface_ipa_index_query\<close> of ipacm/src/IPACM_Iface.cpp): a client is known
  by its MAC address; what is cached of it completes the events about clients that come without an
  address, or through the bridge.

  The object is a record together with the configuration, whose interface table the query updates,
  and the events posted, in order. Sockets, ioctls and malloc are arguments; printing is left out.
\<close>

section \<open>Interfaces\<close>

record iface_env =
  ie_socket_ok :: bool
  ie_if_name :: "int \<Rightarrow> string option"
  ie_malloc_ok :: bool
  ie_junk_ipv6 :: "u32 list"
  ie_junk_mac :: "u8 list"

definition same_ifname :: "string \<Rightarrow> string \<Rightarrow> bool" where
  "same_ifname a b \<longleftrightarrow> take 16 a = take 16 b"

text \<open>The index into the interface table, or -1.\<close>

definition iface_ipa_index_query :: "iface_env \<Rightarrow> int \<Rightarrow> ipacm_config \<Rightarrow> (int \<times> ipacm_config) option" where
  "iface_ipa_index_query env interface_index c =
     (if iface_table c = [] then Some (-1, c)
      else do {
        known \<leftarrow> scan_first (\<lambda>i. map_option (\<lambda>e. interface_index = netlink_interface_index e) (rd (iface_table c) i))
                   (ipa_num_ipa_interfaces c) 0;
        case known of
          Some i \<Rightarrow> Some (int i, c)
        | None \<Rightarrow>
            if \<not> ie_socket_ok env then Some (-1, c)
            else case ie_if_name env interface_index of
              None \<Rightarrow> Some (-1, c)
            | Some name \<Rightarrow> do {
                found \<leftarrow> scan_first (\<lambda>i. map_option (\<lambda>e. same_ifname name (iface_name e)) (rd (iface_table c) i))
                           (ipa_num_ipa_interfaces c) 0;
                case found of
                  None \<Rightarrow> Some (-1, c)
                | Some i \<Rightarrow> do {
                    e \<leftarrow> rd (iface_table c) i;
                    t \<leftarrow> wr (iface_table c) i (e\<lparr>netlink_interface_index := interface_index\<rparr>);
                    Some (int i, c\<lparr>iface_table := t\<rparr>)
                  }
              }
      })"

text \<open>Whether an interface is the bridge: its entry is read, whatever the index.\<close>

definition is_bridge :: "int \<Rightarrow> ipacm_config \<Rightarrow> bool option" where
  "is_bridge ipa_interface_index c =
     (if ipa_interface_index < 0 then None
      else map_option (\<lambda>e. ipa_virtual_iface_name c = iface_name e) (rd (iface_table c) (nat ipa_interface_index)))"

section \<open>The cache\<close>

abbreviation (input) IPA_MAX_NUM_NEIGHBOR_CLIENTS :: nat where "IPA_MAX_NUM_NEIGHBOR_CLIENTS \<equiv> 100"
abbreviation (input) IPA_NEIGH_CLIENT_IP_ADDR_ADD_EVENT :: nat where "IPA_NEIGH_CLIENT_IP_ADDR_ADD_EVENT \<equiv> 17"
abbreviation (input) IPA_NEIGH_CLIENT_IP_ADDR_DEL_EVENT :: nat where "IPA_NEIGH_CLIENT_IP_ADDR_DEL_EVENT \<equiv> 18"

record ipa_neighbor_client =
  nc_mac :: "u8 list"
  nc_iface_index :: int
  nc_v4_addr :: u32
  nc_ipa_if_num :: int

record ipacm_neighbor =
  num_neighbor_client :: nat
  circular_index :: nat
  neighbor_client :: "ipa_neighbor_client list"
  n_config :: ipacm_config
  n_posted :: "(nat \<times> ipacm_event_data_all) list"

definition zero_client :: ipa_neighbor_client where
  "zero_client = \<lparr>nc_mac = replicate 6 0, nc_iface_index = 0, nc_v4_addr = 0, nc_ipa_if_num = 0\<rparr>"

definition IPACM_Neighbor_new :: "ipacm_config \<Rightarrow> ipacm_neighbor" where
  "IPACM_Neighbor_new c = \<lparr>num_neighbor_client = 0, circular_index = 0,
     neighbor_client = replicate IPA_MAX_NUM_NEIGHBOR_CLIENTS zero_client, n_config = c, n_posted = []\<rparr>"

definition n_query :: "iface_env \<Rightarrow> int \<Rightarrow> ipacm_neighbor \<Rightarrow> (int \<times> ipacm_neighbor) option" where
  "n_query env i s = map_option (\<lambda>(r, c). (r, s\<lparr>n_config := c\<rparr>)) (iface_ipa_index_query env i (n_config s))"

text \<open>The first cached client with a MAC address.\<close>

definition find_client :: "u8 list \<Rightarrow> ipacm_neighbor \<Rightarrow> nat option option" where
  "find_client mac s =
     scan_first (\<lambda>i. map_option (\<lambda>c. nc_mac c = mac) (rd (neighbor_client s) i)) (num_neighbor_client s) 0"

definition upd_client :: "nat \<Rightarrow> (ipa_neighbor_client \<Rightarrow> ipa_neighbor_client) \<Rightarrow> ipacm_neighbor \<Rightarrow> ipacm_neighbor option" where
  "upd_client i f s =
     do { c \<leftarrow> rd (neighbor_client s) i; cs \<leftarrow> wr (neighbor_client s) i (f c); Some (s\<lparr>neighbor_client := cs\<rparr>) }"

text \<open>The entry is cleared, and the ones behind it move down.\<close>

definition move_down :: "nat \<Rightarrow> ipacm_neighbor \<Rightarrow> ipacm_neighbor option" where
  "move_down i s = do { c \<leftarrow> rd (neighbor_client s) (i + 1); upd_client i (\<lambda>_. c) s }"

definition remove_client :: "nat \<Rightarrow> ipacm_neighbor \<Rightarrow> ipacm_neighbor option" where
  "remove_client i s =
     do {
       s \<leftarrow> upd_client i (\<lambda>_. zero_client) s;
       s \<leftarrow> for_range move_down (num_neighbor_client s - 1) i s;
       Some (s\<lparr>num_neighbor_client := num_neighbor_client s - 1\<rparr>)
     }"

text \<open>
  A new client goes behind the others; when the array is full it takes the place at
  \<open>circular_index\<close>, which goes up each time, without its IPv4 address.
\<close>

definition cache_client :: "u8 list \<Rightarrow> int \<Rightarrow> int \<Rightarrow> u32 \<Rightarrow> ipacm_neighbor \<Rightarrow> ipacm_neighbor option" where
  "cache_client mac if_index ipa_if v4 s =
     (if num_neighbor_client s < IPA_MAX_NUM_NEIGHBOR_CLIENTS
      then do {
        s \<leftarrow> upd_client (num_neighbor_client s)
               (\<lambda>_. \<lparr>nc_mac = mac, nc_iface_index = if_index, nc_v4_addr = v4, nc_ipa_if_num = ipa_if\<rparr>) s;
        Some (s\<lparr>num_neighbor_client := num_neighbor_client s + 1\<rparr>)
      }
      else do {
        s \<leftarrow> upd_client (circular_index s)
               (\<lambda>_. \<lparr>nc_mac = mac, nc_iface_index = if_index, nc_v4_addr = 0, nc_ipa_if_num = ipa_if\<rparr>) s;
        Some (s\<lparr>circular_index := circular_index s + 1\<rparr>)
      })"

section \<open>Events\<close>

text \<open>Posting a copy of event data; without memory the handler returns.\<close>

definition post_neigh :: "iface_env \<Rightarrow> bool \<Rightarrow> ipacm_event_data_all \<Rightarrow> ipacm_neighbor \<Rightarrow> bool \<times> ipacm_neighbor" where
  "post_neigh env isNew d s =
     (if \<not> ie_malloc_ok env then (False, s)
      else (True, s\<lparr>n_posted := n_posted s @
        [(if isNew then IPA_NEIGH_CLIENT_IP_ADDR_ADD_EVENT else IPA_NEIGH_CLIENT_IP_ADDR_DEL_EVENT, d)]\<rparr>))"

text \<open>The event data made of a cached client; the IPv6 address stays as malloc gives it.\<close>

definition client_data :: "iface_env \<Rightarrow> ipa_neighbor_client \<Rightarrow> ipacm_event_data_all" where
  "client_data env c = \<lparr>ev_iptype = IPA_IP_v4, ev_if_index = nc_iface_index c, ev_ipv4_addr = nc_v4_addr c,
     ev_ipv6_addr = ie_junk_ipv6 env, ev_mac_addr = nc_mac c\<rparr>"

text \<open>A posted event, and the query for the name to print.\<close>

definition post_and_query :: "iface_env \<Rightarrow> bool \<Rightarrow> ipacm_event_data_all \<Rightarrow> ipacm_neighbor \<Rightarrow> (bool \<times> ipacm_neighbor) option" where
  "post_and_query env isNew d s =
     (let (ok, s) = post_neigh env isNew d s in
      if \<not> ok then Some (False, s) else do { (i, s) \<leftarrow> n_query env (ev_if_index d) s; Some (True, s) })"

datatype wlan_attrib = WLAN_HDR_ATTRIB_MAC_ADDR "u8 list" | WLAN_HDR_ATTRIB_STA_ID u8

text \<open>The MAC address is that of the last attribute that is one; without any it is not initialised.\<close>

fun attrib_mac :: "u8 list \<Rightarrow> wlan_attrib list \<Rightarrow> u8 list" where
  "attrib_mac mac [] = mac"
| "attrib_mac mac (WLAN_HDR_ATTRIB_MAC_ADDR m # as) = attrib_mac m as"
| "attrib_mac mac (WLAN_HDR_ATTRIB_STA_ID i # as) = attrib_mac mac as"

definition wlan_client_add_ex :: "iface_env \<Rightarrow> int \<Rightarrow> wlan_attrib list \<Rightarrow> ipacm_neighbor \<Rightarrow> ipacm_neighbor option" where
  "wlan_client_add_ex env if_index attribs s =
     do {
       (ipa_if, s) \<leftarrow> n_query env if_index s;
       found \<leftarrow> find_client (attrib_mac (ie_junk_mac env) attribs) s;
       case found of
         None \<Rightarrow> Some s
       | Some i \<Rightarrow> do {
           bridge \<leftarrow> is_bridge ipa_if (n_config s);
           if bridge then Some s
           else do {
             s \<leftarrow> upd_client i (\<lambda>c. c\<lparr>nc_iface_index := if_index\<rparr>) s;
             c \<leftarrow> rd (neighbor_client s) i;
             if ipa_if \<noteq> nc_ipa_if_num c then Some s
             else if nc_v4_addr c \<noteq> 0 then map_option snd (post_and_query env True (client_data env c) s)
             else Some s
           }
         }
     }"

text \<open>A neighbour with an IPv4 address.\<close>

definition neigh_v4 :: "iface_env \<Rightarrow> bool \<Rightarrow> int \<Rightarrow> ipacm_event_data_all \<Rightarrow> ipacm_neighbor \<Rightarrow> ipacm_neighbor option" where
  "neigh_v4 env isNew ipa_if d s =
     (if ev_ipv4_addr d = 0 then Some s
      else if ev_ipv4_addr d AND 0xFFFF0000 = 0xA9FE0000 then Some s
      else do {
        bridge \<leftarrow> is_bridge ipa_if (n_config s);
        found \<leftarrow> find_client (ev_mac_addr d) s;
        if bridge
        then (case found of
            None \<Rightarrow> Some s
          | Some i \<Rightarrow> do {
              c \<leftarrow> rd (neighbor_client s) i;
              let d = d\<lparr>ev_if_index := nc_iface_index c\<rparr>;
              s \<leftarrow> upd_client i (\<lambda>c. c\<lparr>nc_v4_addr := ev_ipv4_addr d\<rparr>) s;
              s \<leftarrow> (if isNew then Some s else remove_client i s);
              map_option snd (post_and_query env isNew d s)
            })
        else do {
          s \<leftarrow> (case found of
                 Some i \<Rightarrow>
                   if isNew
                   then upd_client i (\<lambda>c. c\<lparr>nc_iface_index := ev_if_index d, nc_ipa_if_num := ipa_if, nc_v4_addr := ev_ipv4_addr d\<rparr>) s
                   else remove_client i s
               | None \<Rightarrow>
                   if isNew then cache_client (ev_mac_addr d) (ev_if_index d) ipa_if (ev_ipv4_addr d) s else Some s);
          Some (snd (post_neigh env isNew d s))
        }
      })"

text \<open>A neighbour with an IPv6 address.\<close>

definition neigh_v6 :: "iface_env \<Rightarrow> bool \<Rightarrow> int \<Rightarrow> ipacm_event_data_all \<Rightarrow> ipacm_neighbor \<Rightarrow> ipacm_neighbor option" where
  "neigh_v6 env isNew ipa_if d s =
     do {
       bridge \<leftarrow> is_bridge ipa_if (n_config s);
       if bridge
       then do {
         found \<leftarrow> find_client (ev_mac_addr d) s;
         case found of
           None \<Rightarrow> Some s
         | Some i \<Rightarrow> do {
             c \<leftarrow> rd (neighbor_client s) i;
             map_option snd (post_and_query env isNew (d\<lparr>ev_if_index := nc_iface_index c\<rparr>) s)
           }
       }
       else Some (snd (post_neigh env isNew d s))
     }"

text \<open>A neighbour without an address: the cached one is used.\<close>

definition neigh_no_addr :: "iface_env \<Rightarrow> bool \<Rightarrow> int \<Rightarrow> ipacm_event_data_all \<Rightarrow> ipacm_neighbor \<Rightarrow> ipacm_neighbor option" where
  "neigh_no_addr env isNew ipa_if d s =
     do {
       found \<leftarrow> find_client (ev_mac_addr d) s;
       case found of
         Some i \<Rightarrow> do {
           bridge \<leftarrow> is_bridge ipa_if (n_config s);
           (go_on, s) \<leftarrow> (if bridge then Some (True, s)
             else do {
               s \<leftarrow> upd_client i (\<lambda>c. c\<lparr>nc_iface_index := ev_if_index d\<rparr>) s;
               c \<leftarrow> rd (neighbor_client s) i;
               if nc_v4_addr c \<noteq> 0 then post_and_query env isNew (client_data env c) s else Some (True, s)
             });
           if go_on \<and> \<not> isNew then remove_client i s else Some s
         }
       | None \<Rightarrow>
           if isNew
           then do {
             bridge \<leftarrow> is_bridge ipa_if (n_config s);
             if bridge then Some s else cache_client (ev_mac_addr d) (ev_if_index d) ipa_if 0 s
           }
           else Some s
     }"

text \<open>The events with their data; every event but the first goes the way of the other two.\<close>

datatype neigh_evt =
    WLAN_CLIENT_ADD_EX int "wlan_attrib list"
  | NEW_NEIGH ipacm_event_data_all
  | DEL_NEIGH ipacm_event_data_all

definition neigh_event :: "iface_env \<Rightarrow> bool \<Rightarrow> ipacm_event_data_all \<Rightarrow> ipacm_neighbor \<Rightarrow> ipacm_neighbor option" where
  "neigh_event env isNew d s =
     do {
       (ipa_if, s) \<leftarrow> n_query env (ev_if_index d) s;
       if ev_iptype d = IPA_IP_v4 then neigh_v4 env isNew ipa_if d s
       else if list_ex (\<lambda>w. w \<noteq> 0) (ev_ipv6_addr d) then neigh_v6 env isNew ipa_if d s
       else neigh_no_addr env isNew ipa_if d s
     }"

fun neigh_callback :: "iface_env \<Rightarrow> neigh_evt \<Rightarrow> ipacm_neighbor \<Rightarrow> ipacm_neighbor option" where
  "neigh_callback env (WLAN_CLIENT_ADD_EX if_index attribs) s = wlan_client_add_ex env if_index attribs s"
| "neigh_callback env (NEW_NEIGH d) s = neigh_event env True d s"
| "neigh_callback env (DEL_NEIGH d) s = neigh_event env False d s"

end
