(* ===== verification/Ipacm_Neighbor_Correct.thy ===== *)
theory Ipacm_Neighbor_Correct
  imports Ipacm_Neighbor
begin

text \<open>
  What the neighbour cache promises: it is a finite map from MAC addresses, which the events update
  and read; and where its array ends.
\<close>

section \<open>Association lists with an index\<close>

lemma map_of_split_at:
  assumes "distinct (map fst xs)" "i < length xs"
  shows "map_of xs k = (if k = fst (xs ! i) then Some (snd (xs ! i)) else map_of (take i xs @ drop (Suc i) xs) k)"
    "map_of (take i xs @ drop (Suc i) xs) (fst (xs ! i)) = None"
proof -
  have xs: "xs = take i xs @ xs ! i # drop (Suc i) xs" using assms(2) by (simp add: id_take_nth_drop)
  have "distinct (map fst (take i xs @ xs ! i # drop (Suc i) xs))" using assms(1) xs by metis
  then have notin: "fst (xs ! i) \<notin> fst ` set (take i xs)" "fst (xs ! i) \<notin> fst ` set (drop (Suc i) xs)"
    by simp_all
  have none: "map_of (take i xs) (fst (xs ! i)) = None" "map_of (drop (Suc i) xs) (fst (xs ! i)) = None"
    using notin by (simp_all add: map_of_eq_None_iff)
  show "map_of (take i xs @ drop (Suc i) xs) (fst (xs ! i)) = None" by (simp add: none map_add_def)
  have "map_of xs k = map_of (take i xs @ xs ! i # drop (Suc i) xs) k" using xs by metis
  also have "\<dots> = (if k = fst (xs ! i) then Some (snd (xs ! i)) else map_of (take i xs @ drop (Suc i) xs) k)"
    using none by (cases "xs ! i") (auto simp: map_add_def split: option.splits)
  finally show "map_of xs k = (if k = fst (xs ! i) then Some (snd (xs ! i)) else map_of (take i xs @ drop (Suc i) xs) k)" .
qed

lemma map_of_drop_at:
  assumes "distinct (map fst xs)" "i < length xs"
  shows "map_of (take i xs @ drop (Suc i) xs) = (map_of xs)(fst (xs ! i) := None)"
  using map_of_split_at [OF assms] by (intro ext) (simp del: map_of_append)

lemma map_of_set_at:
  assumes "distinct (map fst xs)" "i < length xs" "fst y = fst (xs ! i) \<or> fst y \<notin> fst ` set xs"
  shows "map_of (xs[i := y]) = (map_of xs)(fst (xs ! i) := None, fst y \<mapsto> snd y)"
proof
  fix k
  have "distinct (map fst (xs[i := y]))" unfolding map_update
    using assms by (cases "fst y = fst (xs ! i)") (simp_all add: list_update_same_conv distinct_list_update)
  from map_of_split_at(1) [OF this, of i k] map_of_split_at(2) [OF this, of i] map_of_split_at(1) [OF assms(1,2), of k]
    map_of_split_at(2) [OF assms(1,2)] assms(2)
  show "map_of (xs[i := y]) k = ((map_of xs)(fst (xs ! i) := None, fst y \<mapsto> snd y)) k"
    by (auto simp del: map_of_append)
qed

lemma map_of_snoc:
  assumes "fst y \<notin> fst ` set xs"
  shows "map_of (xs @ [y]) = (map_of xs)(fst y \<mapsto> snd y)"
proof
  fix k
  have "map_of xs (fst y) = None" using assms by (simp add: map_of_eq_None_iff)
  then show "map_of (xs @ [y]) k = ((map_of xs)(fst y \<mapsto> snd y)) k"
    by (cases y) (auto simp: map_add_def split: option.splits)
qed

section \<open>The cached clients\<close>

abbreviation known :: "ipacm_neighbor \<Rightarrow> ipa_neighbor_client list" where
  "known s \<equiv> take (num_neighbor_client s) (neighbor_client s)"

definition entry_of :: "ipa_neighbor_client \<Rightarrow> u8 list \<times> int \<times> u32 \<times> int" where
  "entry_of c = (nc_mac c, nc_iface_index c, nc_v4_addr c, nc_ipa_if_num c)"

definition cached :: "ipacm_neighbor \<Rightarrow> u8 list \<rightharpoonup> int \<times> u32 \<times> int" where
  "cached s = map_of (map entry_of (known s))"

definition nb_inv :: "ipacm_neighbor \<Rightarrow> bool" where
  "nb_inv s \<longleftrightarrow> length (neighbor_client s) = IPA_MAX_NUM_NEIGHBOR_CLIENTS \<and> num_neighbor_client s \<le> IPA_MAX_NUM_NEIGHBOR_CLIENTS \<and>
     distinct (map nc_mac (known s)) \<and> ipa_num_ipa_interfaces (n_config s) \<le> length (iface_table (n_config s))"

lemma nb_entry_simps [simp]: "fst (entry_of c) = nc_mac c" "fst \<circ> entry_of = nc_mac"
  by (auto simp: entry_of_def fun_eq_iff)

lemma nb_invD:
  assumes "nb_inv s"
  shows "length (neighbor_client s) = IPA_MAX_NUM_NEIGHBOR_CLIENTS" "num_neighbor_client s \<le> IPA_MAX_NUM_NEIGHBOR_CLIENTS"
    "length (known s) = num_neighbor_client s" "distinct (map nc_mac (known s))"
  using assms by (simp_all add: nb_inv_def)

lemma nb_inv_config:
  assumes "nb_inv s" "ipa_num_ipa_interfaces c \<le> length (iface_table c)"
  shows "nb_inv (s\<lparr>n_config := c\<rparr>)" "nb_inv (s\<lparr>n_posted := ps\<rparr>)"
  using assms by (simp_all add: nb_inv_def)

lemma find_client_cases:
  assumes "nb_inv s"
  obtains (unknown) "find_client mac s = Some None" "cached s mac = None" "mac \<notin> nc_mac ` set (known s)"
  | (found) i where "find_client mac s = Some (Some i)" "i < num_neighbor_client s" "nc_mac (known s ! i) = mac"
      "cached s mac = Some (snd (entry_of (known s ! i)))"
proof -
  note d = nb_invD [OF assms]
  have tot: "map_option (\<lambda>c. nc_mac c = mac) (rd (neighbor_client s) i) = Some (nc_mac (known s ! i) = mac)"
    if "0 \<le> i" "i < num_neighbor_client s" for i using that d(1,2) by simp
  note scan = scan_first_total [of 0 "num_neighbor_client s" "\<lambda>i. map_option (\<lambda>c. nc_mac c = mac) (rd (neighbor_client s) i)",
    OF tot, folded find_client_def]
  note hit = scan_first_found [of 0 "num_neighbor_client s" "\<lambda>i. map_option (\<lambda>c. nc_mac c = mac) (rd (neighbor_client s) i)",
    OF tot, folded find_client_def]
  note miss = scan_first_none [of 0 "num_neighbor_client s" "\<lambda>i. map_option (\<lambda>c. nc_mac c = mac) (rd (neighbor_client s) i)",
    OF tot, folded find_client_def]
  show thesis
  proof (cases "find_client mac s")
    case None
    then show thesis using scan by simp
  next
    case (Some r)
    show thesis
    proof (cases r)
      case None
      have no: "mac \<notin> nc_mac ` set (known s)" using miss Some None d(3) by (metis (no_types, lifting) imageE in_set_conv_nth le0)
      moreover have "cached s mac = None" using no by (simp add: cached_def map_of_eq_None_iff image_image)
      ultimately show thesis using unknown Some None by blast
    next
      case (Some j)
      have j: "j < num_neighbor_client s" "nc_mac (known s ! j) = mac" using hit [of j] Some \<open>find_client mac s = Some r\<close> by blast+
      have "entry_of (known s ! j) \<in> set (map entry_of (known s))" using j(1) d(3) by (metis image_eqI list.set_map nth_mem)
      moreover have "entry_of (known s ! j) = (mac, snd (entry_of (known s ! j)))" using j(2) by (metis nb_entry_simps(1) prod.collapse)
      ultimately have "(mac, snd (entry_of (known s ! j))) \<in> set (map entry_of (known s))" by metis
      then have "cached s mac = Some (snd (entry_of (known s ! j)))" unfolding cached_def
        using d(4) by (intro map_of_is_SomeI) simp_all
      then show thesis using found j Some \<open>find_client mac s = Some r\<close> by blast
    qed
  qed
qed

section \<open>Changes of the cache\<close>

lemma upd_client_spec:
  assumes inv: "nb_inv s" and i: "i < num_neighbor_client s" and f: "nc_mac (f (known s ! i)) = nc_mac (known s ! i)"
  shows "\<exists>s'. upd_client i f s = Some s' \<and> nb_inv s' \<and> known s' = (known s)[i := f (known s ! i)] \<and>
    cached s' = (cached s)(nc_mac (known s ! i) \<mapsto> snd (entry_of (f (known s ! i)))) \<and>
    num_neighbor_client s' = num_neighbor_client s \<and> circular_index s' = circular_index s \<and>
    n_config s' = n_config s \<and> n_posted s' = n_posted s"
proof -
  note d = nb_invD [OF inv]
  let ?s = "s\<lparr>neighbor_client := (neighbor_client s)[i := f (neighbor_client s ! i)]\<rparr>"
  have nth: "neighbor_client s ! i = known s ! i" using i by simp
  have k: "known ?s = (known s)[i := f (known s ! i)]" using i by (simp add: take_update_swap)
  have m: "map nc_mac (known ?s) = map nc_mac (known s)" unfolding k using f i d(3) by (simp add: map_update list_update_same_conv)
  have "map entry_of (known ?s) = (map entry_of (known s))[i := entry_of (f (known s ! i))]" unfolding k by (simp add: map_update)
  then have c: "cached ?s = (cached s)(nc_mac (known s ! i) \<mapsto> snd (entry_of (f (known s ! i))))"
    using map_of_set_at [of "map entry_of (known s)" i "entry_of (f (known s ! i))"] d(3,4) i f by (simp add: cached_def)
  have "nb_inv ?s" using inv m unfolding nb_inv_def by simp
  then show ?thesis using i d(1,2) k c by (intro exI [of _ ?s]) (simp add: upd_client_def)
qed

lemma move_down_loop:
  assumes "length cs = 100" "i \<le> n" "n < 100"
  shows "for_range move_down n i (s\<lparr>neighbor_client := cs\<rparr>) =
    Some (s\<lparr>neighbor_client := take i cs @ take (n - i) (drop (Suc i) cs) @ drop n cs\<rparr>)"
  using assms(1,2)
proof (induction "n - i" arbitrary: i cs)
  case 0
  then show ?case by simp
next
  case (Suc k)
  then have i: "i < n" "Suc i < length cs" using assms(3) by simp_all
  let ?cs = "cs[i := cs ! Suc i]"
  have step: "move_down i (s\<lparr>neighbor_client := cs\<rparr>) = Some (s\<lparr>neighbor_client := ?cs\<rparr>)"
    using i by (simp add: move_down_def upd_client_def)
  have "for_range move_down n (Suc i) (s\<lparr>neighbor_client := ?cs\<rparr>) =
      Some (s\<lparr>neighbor_client := take (Suc i) ?cs @ take (n - Suc i) (drop (Suc (Suc i)) ?cs) @ drop n ?cs\<rparr>)"
    by (rule Suc.hyps(1)) (use Suc.hyps(2) Suc.prems(1) i in simp_all)
  moreover have "take (Suc i) ?cs = take i cs @ [cs ! Suc i]" using i by (simp add: take_Suc_conv_app_nth)
  moreover have "take (n - i) (drop (Suc i) cs) = cs ! Suc i # take (n - Suc i) (drop (Suc (Suc i)) cs)"
    using i Cons_nth_drop_Suc [OF i(2)] by (metis Suc_diff_Suc take_Suc_Cons)
  ultimately show ?case using i step by (simp add: for_range_step)
qed

lemma remove_client_spec:
  assumes inv: "nb_inv s" and i: "i < num_neighbor_client s"
  shows "\<exists>s'. remove_client i s = Some s' \<and> nb_inv s' \<and> cached s' = (cached s)(nc_mac (known s ! i) := None) \<and>
    num_neighbor_client s' = num_neighbor_client s - 1 \<and> circular_index s' = circular_index s \<and>
    n_config s' = n_config s \<and> n_posted s' = n_posted s"
proof -
  note d = nb_invD [OF inv]
  let ?n = "num_neighbor_client s" and ?z = "(neighbor_client s)[i := zero_client]"
  let ?cs = "take i ?z @ take (?n - 1 - i) (drop (Suc i) ?z) @ drop (?n - 1) ?z"
  let ?s = "s\<lparr>neighbor_client := ?cs, num_neighbor_client := ?n - 1\<rparr>"
  have "for_range move_down (?n - 1) i (s\<lparr>neighbor_client := ?z\<rparr>) = Some (s\<lparr>neighbor_client := ?cs\<rparr>)"
    by (rule move_down_loop) (use i d(1,2) in auto)
  then have run: "remove_client i s = Some ?s" using i d(1,2) by (simp add: remove_client_def upd_client_def)
  have k: "known ?s = take i (known s) @ drop (Suc i) (known s)"
    using i d(1,2) by (auto simp: list_eq_iff_nth_eq nth_append)
  have sub: "map nc_mac (known ?s) = take i (map nc_mac (known s)) @ drop (Suc i) (map nc_mac (known s))"
    unfolding k by (simp add: take_map drop_map)
  have "distinct (map nc_mac (known ?s))" unfolding sub
    using d(4) set_take_disj_set_drop_if_distinct [of "map nc_mac (known s)" i "Suc i"] by simp
  then have "nb_inv ?s" using inv i d(1,2) unfolding nb_inv_def by simp
  moreover have "cached ?s = (cached s)(nc_mac (known s ! i) := None)" unfolding cached_def k
    using map_of_drop_at [of "map entry_of (known s)" i] d(3,4) i by (simp add: take_map drop_map)
  ultimately show ?thesis using run by (intro exI [of _ ?s]) simp
qed

lemma cache_client_spec:
  assumes inv: "nb_inv s" and new: "mac \<notin> nc_mac ` set (known s)"
    and room: "num_neighbor_client s < IPA_MAX_NUM_NEIGHBOR_CLIENTS \<or> circular_index s < IPA_MAX_NUM_NEIGHBOR_CLIENTS"
  shows "\<exists>s'. cache_client mac ifx ipa v4 s = Some s' \<and> nb_inv s' \<and> n_config s' = n_config s \<and> n_posted s' = n_posted s \<and>
    (if num_neighbor_client s < IPA_MAX_NUM_NEIGHBOR_CLIENTS
     then cached s' = (cached s)(mac \<mapsto> (ifx, v4, ipa)) \<and> circular_index s' = circular_index s \<and>
       num_neighbor_client s' = num_neighbor_client s + 1
     else cached s' = (cached s)(nc_mac (known s ! circular_index s) := None, mac \<mapsto> (ifx, 0, ipa)) \<and>
       circular_index s' = circular_index s + 1 \<and> num_neighbor_client s' = num_neighbor_client s)"
proof -
  note d = nb_invD [OF inv]
  let ?c = "\<lambda>v. \<lparr>nc_mac = mac, nc_iface_index = ifx, nc_v4_addr = v, nc_ipa_if_num = ipa\<rparr>"
  have new': "mac \<notin> fst ` set (map entry_of (known s))" using new by (auto simp: image_image)
  show ?thesis
  proof (cases "num_neighbor_client s < IPA_MAX_NUM_NEIGHBOR_CLIENTS")
    case True
    let ?n = "num_neighbor_client s"
    let ?s = "s\<lparr>neighbor_client := (neighbor_client s)[?n := ?c v4], num_neighbor_client := ?n + 1\<rparr>"
    have run: "cache_client mac ifx ipa v4 s = Some ?s" using True d(1) by (simp add: cache_client_def upd_client_def)
    have k: "known ?s = known s @ [?c v4]" using True d(1) by (simp add: take_Suc_conv_app_nth)
    have "nb_inv ?s" using inv True new k unfolding nb_inv_def by (auto simp: k)
    moreover have "cached ?s = (cached s)(mac \<mapsto> (ifx, v4, ipa))" unfolding cached_def k
      using map_of_snoc [of "entry_of (?c v4)" "map entry_of (known s)"] new' by (simp add: entry_of_def)
    ultimately show ?thesis using run True by (intro exI [of _ ?s]) simp
  next
    case False
    then have n: "num_neighbor_client s = 100" and ci: "circular_index s < 100" using d(2) room by simp_all
    have kn: "known s = neighbor_client s" using n d(1) by simp
    let ?i = "circular_index s"
    let ?s = "s\<lparr>neighbor_client := (neighbor_client s)[?i := ?c 0], circular_index := ?i + 1\<rparr>"
    have run: "cache_client mac ifx ipa v4 s = Some ?s" using n ci d(1) by (simp add: cache_client_def upd_client_def)
    have k: "known ?s = (known s)[?i := ?c 0]" using n d(1) by simp
    have "distinct (map nc_mac (known ?s))"
      unfolding k map_update using d(4) new by (intro distinct_list_update) auto
    then have "nb_inv ?s" using inv unfolding nb_inv_def by simp
    moreover have "cached ?s = (cached s)(nc_mac (known s ! ?i) := None, mac \<mapsto> (ifx, 0, ipa))"
      unfolding cached_def k map_update using map_of_set_at [of "map entry_of (known s)" ?i "entry_of (?c 0)"] d(3,4) n ci new'
      by (simp add: entry_of_def)
    ultimately show ?thesis using run False by (intro exI [of _ ?s]) simp
  qed
qed

section \<open>The interface query\<close>

text \<open>The query fills in an interface index of the table and leaves everything else.\<close>

definition same_ifaces :: "ipacm_config \<Rightarrow> ipacm_config \<Rightarrow> bool" where
  "same_ifaces c c' \<longleftrightarrow> (\<exists>t. c' = c\<lparr>iface_table := t\<rparr> \<and> map iface_name t = map iface_name (iface_table c))"

lemma same_ifaces_refl [simp]: "same_ifaces c c"
  unfolding same_ifaces_def by (rule exI [of _ "iface_table c"]) simp

lemma same_ifacesD:
  assumes "same_ifaces c c'"
  shows "length (iface_table c') = length (iface_table c)" "ipa_num_ipa_interfaces c' = ipa_num_ipa_interfaces c"
    "ipa_virtual_iface_name c' = ipa_virtual_iface_name c"
    "i < length (iface_table c) \<Longrightarrow> iface_name (iface_table c' ! i) = iface_name (iface_table c ! i)"
proof -
  from assms obtain t where t: "c' = c\<lparr>iface_table := t\<rparr>" "map iface_name t = map iface_name (iface_table c)"
    by (auto simp: same_ifaces_def)
  have len: "length t = length (iface_table c)" using t(2) by (metis length_map)
  show "length (iface_table c') = length (iface_table c)" "ipa_num_ipa_interfaces c' = ipa_num_ipa_interfaces c"
    "ipa_virtual_iface_name c' = ipa_virtual_iface_name c" using t(1) len by simp_all
  show "i < length (iface_table c) \<Longrightarrow> iface_name (iface_table c' ! i) = iface_name (iface_table c ! i)"
  proof -
    assume "i < length (iface_table c)"
    moreover have "iface_table c' = t" using t(1) by simp
    ultimately show ?thesis using arg_cong [OF t(2), of "\<lambda>xs. xs ! i"] len by simp
  qed
qed

lemma same_ifaces_trans: "same_ifaces a b \<Longrightarrow> same_ifaces b c \<Longrightarrow> same_ifaces a c"
  unfolding same_ifaces_def by auto

lemma query_total:
  assumes "ipa_num_ipa_interfaces c \<le> length (iface_table c)"
  shows "\<exists>r c'. iface_ipa_index_query env i c = Some (r, c') \<and> same_ifaces c c' \<and> (r = -1 \<or> (\<exists>k < ipa_num_ipa_interfaces c. r = int k))"
proof -
  have t1: "map_option (\<lambda>e. i = netlink_interface_index e) (rd (iface_table c) j) = Some (i = netlink_interface_index (iface_table c ! j))"
    if "0 \<le> j" "j < ipa_num_ipa_interfaces c" for j using that assms by simp
  have t2: "map_option (\<lambda>e. same_ifname nm (iface_name e)) (rd (iface_table c) j) = Some (same_ifname nm (iface_name (iface_table c ! j)))"
    if "0 \<le> j" "j < ipa_num_ipa_interfaces c" for nm j using that assms by simp
  let ?p1 = "\<lambda>j. map_option (\<lambda>e. i = netlink_interface_index e) (rd (iface_table c) j)"
  obtain r1 where r1: "scan_first ?p1 (ipa_num_ipa_interfaces c) 0 = Some r1" by (rule that) (rule scan_first_total [OF t1])
  show ?thesis
  proof (cases "iface_table c = []")
    case True then show ?thesis by (simp add: iface_ipa_index_query_def)
  next
    case False
    show ?thesis
    proof (cases r1)
      case (Some k)
      have "scan_first ?p1 (ipa_num_ipa_interfaces c) 0 = Some (Some k)" using r1 Some by simp
      from scan_first_found [OF t1 this] have "k < ipa_num_ipa_interfaces c" by blast
      then show ?thesis using False r1 Some by (simp add: iface_ipa_index_query_def)
    next
      case None
      show ?thesis
      proof (cases "ie_socket_ok env \<and> ie_if_name env i \<noteq> None")
        case False
        then show ?thesis using r1 None \<open>iface_table c \<noteq> []\<close> by (auto simp: iface_ipa_index_query_def)
      next
        case True
        then obtain nm where nm: "ie_if_name env i = Some nm" by blast
        let ?p2 = "\<lambda>j. map_option (\<lambda>e. same_ifname nm (iface_name e)) (rd (iface_table c) j)"
        obtain r2 where r2: "scan_first ?p2 (ipa_num_ipa_interfaces c) 0 = Some r2" by (rule that) (rule scan_first_total [OF t2])
        show ?thesis
        proof (cases r2)
          case None2: None
          then show ?thesis using r1 r2 None nm True False by (simp add: iface_ipa_index_query_def)
        next
          case (Some k)
          have "scan_first ?p2 (ipa_num_ipa_interfaces c) 0 = Some (Some k)" using r2 Some by simp
          from scan_first_found [OF t2 this] have "k < ipa_num_ipa_interfaces c" by blast
          then have k: "k < ipa_num_ipa_interfaces c" "k < length (iface_table c)" using assms by simp_all
          have "map iface_name ((iface_table c)[k := (iface_table c ! k)\<lparr>netlink_interface_index := i\<rparr>]) = map iface_name (iface_table c)"
            using k(2) by (simp add: map_update list_update_same_conv)
          then show ?thesis using r1 r2 None nm True False Some k
            by (auto simp: iface_ipa_index_query_def same_ifaces_def)
        qed
      qed
    qed
  qed
qed

lemma nb_inv_same:
  assumes "nb_inv s" "same_ifaces (n_config s) c"
  shows "nb_inv (s\<lparr>n_config := c\<rparr>)"
  using assms same_ifacesD [OF assms(2)] by (simp add: nb_inv_def)

lemma n_query_spec:
  assumes "nb_inv s"
  shows "\<exists>r c. n_query env i s = Some (r, s\<lparr>n_config := c\<rparr>) \<and> same_ifaces (n_config s) c \<and> nb_inv (s\<lparr>n_config := c\<rparr>) \<and>
    iface_ipa_index_query env i (n_config s) = Some (r, c) \<and> (r = -1 \<or> (\<exists>k < length (iface_table (n_config s)). r = int k))"
proof -
  have b: "ipa_num_ipa_interfaces (n_config s) \<le> length (iface_table (n_config s))" using assms by (simp add: nb_inv_def)
  obtain r c where q: "iface_ipa_index_query env i (n_config s) = Some (r, c)" "same_ifaces (n_config s) c"
    "r = -1 \<or> (\<exists>k < ipa_num_ipa_interfaces (n_config s). r = int k)" using query_total [OF b] by blast
  then have "r = -1 \<or> (\<exists>k < length (iface_table (n_config s)). r = int k)" using b by auto
  then show ?thesis using q nb_inv_same [OF assms q(2)] by (simp add: n_query_def)
qed

lemma is_bridge_int [simp]:
  "k < length (iface_table c) \<Longrightarrow> is_bridge (int k) c = Some (ipa_virtual_iface_name c = iface_name (iface_table c ! k))"
  by (simp add: is_bridge_def)

lemma is_bridge_unknown [simp]: "is_bridge (-1) c = None"
  by (simp add: is_bridge_def)

text \<open>What holds of the state after a part of a handler.\<close>

definition kept :: "ipacm_neighbor \<Rightarrow> ipacm_neighbor \<Rightarrow> bool" where
  "kept s s' \<longleftrightarrow> nb_inv s' \<and> same_ifaces (n_config s) (n_config s')"

lemma keptI: "nb_inv s' \<Longrightarrow> n_config s' = n_config s \<Longrightarrow> kept s s'"
  by (simp add: kept_def)

lemma kept_refl: "nb_inv s \<Longrightarrow> kept s s"
  by (simp add: kept_def)

lemma kept_trans: "kept a b \<Longrightarrow> kept b c \<Longrightarrow> kept a c"
  unfolding kept_def by (metis same_ifaces_trans)

lemma kept_inv: "kept s s' \<Longrightarrow> nb_inv s'"
  by (simp add: kept_def)

lemma post_neigh_kept: "nb_inv s \<Longrightarrow> kept s (snd (post_neigh env isNew d s))"
  by (simp add: post_neigh_def kept_def nb_inv_def)

lemma post_and_query_spec:
  assumes "nb_inv s"
  shows "\<exists>s'. post_and_query env isNew d s = Some (ie_malloc_ok env, s') \<and> kept s s' \<and>
    neighbor_client s' = neighbor_client s \<and> num_neighbor_client s' = num_neighbor_client s \<and> circular_index s' = circular_index s \<and>
    n_posted s' = n_posted s @ (if ie_malloc_ok env then [(if isNew then 17 else 18, d)] else [])"
proof (cases "ie_malloc_ok env")
  case False
  then show ?thesis using assms by (simp add: post_and_query_def post_neigh_def kept_refl)
next
  case True
  let ?s = "s\<lparr>n_posted := n_posted s @ [(if isNew then 17 else 18, d)]\<rparr>"
  have inv: "nb_inv ?s" using assms by (simp add: nb_inv_def)
  obtain r c where q: "n_query env (ev_if_index d) ?s = Some (r, ?s\<lparr>n_config := c\<rparr>)" "same_ifaces (n_config ?s) c"
    "nb_inv (?s\<lparr>n_config := c\<rparr>)" using n_query_spec [OF inv] by blast
  then show ?thesis using True by (simp add: post_and_query_def post_neigh_def kept_def)
qed

section \<open>The handlers\<close>

abbreviation has_room :: "ipacm_neighbor \<Rightarrow> bool" where
  "has_room s \<equiv> circular_index s < IPA_MAX_NUM_NEIGHBOR_CLIENTS"

lemma upd_kept:
  assumes "nb_inv s" "i < num_neighbor_client s" "\<And>c. nc_mac (f c) = nc_mac c"
  obtains s' where "upd_client i f s = Some s'" "kept s s'" "known s' = (known s)[i := f (known s ! i)]"
    "cached s' = (cached s)(nc_mac (known s ! i) \<mapsto> snd (entry_of (f (known s ! i))))"
    "num_neighbor_client s' = num_neighbor_client s" "circular_index s' = circular_index s" "n_posted s' = n_posted s"
    "rd (neighbor_client s') i = Some (f (known s ! i))" "n_config s' = n_config s"
proof -
  obtain s' where s': "upd_client i f s = Some s'" "nb_inv s'" "known s' = (known s)[i := f (known s ! i)]"
    "cached s' = (cached s)(nc_mac (known s ! i) \<mapsto> snd (entry_of (f (known s ! i))))"
    "num_neighbor_client s' = num_neighbor_client s" "circular_index s' = circular_index s"
    "n_config s' = n_config s" "n_posted s' = n_posted s"
    using upd_client_spec [of s i f, OF assms(1,2)] assms(3) by blast
  have len: "i < length (neighbor_client s')" using nb_invD [OF s'(2)] assms(2) s'(5) by simp
  have "neighbor_client s' ! i = known s' ! i" using assms(2) s'(5) by simp
  also have "\<dots> = f (known s ! i)" unfolding s'(3) using nb_invD(3) [OF assms(1)] assms(2) by simp
  finally have "rd (neighbor_client s') i = Some (f (known s ! i))" using len by simp
  then show thesis using that s' by (metis keptI)
qed

lemma remove_kept:
  assumes "nb_inv s" "i < num_neighbor_client s"
  obtains s' where "remove_client i s = Some s'" "kept s s'" "cached s' = (cached s)(nc_mac (known s ! i) := None)"
    "circular_index s' = circular_index s" "n_posted s' = n_posted s" "n_config s' = n_config s"
  using remove_client_spec [OF assms] keptI by metis

lemma cache_kept:
  assumes "nb_inv s" "mac \<notin> nc_mac ` set (known s)" "has_room s"
  obtains s' where "cache_client mac ifx ipa v4 s = Some s'" "kept s s'" "n_posted s' = n_posted s"
    "num_neighbor_client s < IPA_MAX_NUM_NEIGHBOR_CLIENTS \<longrightarrow> cached s' = (cached s)(mac \<mapsto> (ifx, v4, ipa))"
    "cached s' mac = Some (ifx, (if num_neighbor_client s < IPA_MAX_NUM_NEIGHBOR_CLIENTS then v4 else 0), ipa)"
    "n_config s' = n_config s" "dom (cached s') \<subseteq> insert mac (dom (cached s))"
    "num_neighbor_client s' = min 100 (Suc (num_neighbor_client s))"
    "circular_index s' = circular_index s + (if num_neighbor_client s < 100 then 0 else 1)"
proof -
  obtain s' where s': "cache_client mac ifx ipa v4 s = Some s'" "nb_inv s'" "n_config s' = n_config s" "n_posted s' = n_posted s"
    "if num_neighbor_client s < IPA_MAX_NUM_NEIGHBOR_CLIENTS
     then cached s' = (cached s)(mac \<mapsto> (ifx, v4, ipa)) \<and> circular_index s' = circular_index s \<and>
       num_neighbor_client s' = num_neighbor_client s + 1
     else cached s' = (cached s)(nc_mac (known s ! circular_index s) := None, mac \<mapsto> (ifx, 0, ipa)) \<and>
       circular_index s' = circular_index s + 1 \<and> num_neighbor_client s' = num_neighbor_client s"
    using cache_client_spec [OF assms(1,2), of ifx ipa v4] assms(3) by blast
  show thesis by (rule that [OF s'(1) keptI [OF s'(2,3)] s'(4)])
    (use s'(3,5) nb_invD(2) [OF assms(1)] in \<open>auto split: if_splits\<close>)
qed

text \<open>A neighbour with an IPv4 address on an interface that is not the bridge.\<close>

lemma neigh_v4_plain:
  assumes inv: "nb_inv s" and k: "k < length (iface_table (n_config s))"
    and plain: "ipa_virtual_iface_name (n_config s) \<noteq> iface_name (iface_table (n_config s) ! k)"
    and addr: "ev_ipv4_addr d \<noteq> 0" "ev_ipv4_addr d AND 0xFFFF0000 \<noteq> 0xA9FE0000" and room: "has_room s"
  shows "\<exists>s'. neigh_v4 env isNew (int k) d s = Some s' \<and> kept s s' \<and>
    n_posted s' = n_posted s @ (if ie_malloc_ok env then [(if isNew then 17 else 18, d)] else []) \<and>
    (if isNew
     then (cached s (ev_mac_addr d) \<noteq> None \<or> num_neighbor_client s < IPA_MAX_NUM_NEIGHBOR_CLIENTS) \<longrightarrow>
       cached s' = (cached s)(ev_mac_addr d \<mapsto> (ev_if_index d, ev_ipv4_addr d, int k))
     else cached s' = (cached s)(ev_mac_addr d := None)) \<and>
    n_config s' = n_config s \<and>
    (isNew \<and> cached s (ev_mac_addr d) = None \<longrightarrow>
       dom (cached s') \<subseteq> insert (ev_mac_addr d) (dom (cached s)) \<and>
       num_neighbor_client s' = min 100 (Suc (num_neighbor_client s)) \<and>
       circular_index s' = circular_index s + (if num_neighbor_client s < 100 then 0 else 1))"
proof -
  note post = post_neigh_kept
  have pc: "cached (snd (post_neigh env b d t)) = cached t" for b t by (simp add: post_neigh_def cached_def)
  have pp: "n_posted (snd (post_neigh env b d t)) = n_posted t @ (if ie_malloc_ok env then [(if b then 17 else 18, d)] else [])" for b t
    by (simp add: post_neigh_def)
  have pn: "n_config (snd (post_neigh env b d t)) = n_config t" "num_neighbor_client (snd (post_neigh env b d t)) = num_neighbor_client t"
    "circular_index (snd (post_neigh env b d t)) = circular_index t" for b t by (simp_all add: post_neigh_def)
  show ?thesis
  proof (cases rule: find_client_cases [OF inv, of "ev_mac_addr d", case_names unknown found])
    case unknown
    show ?thesis
    proof (cases isNew)
      case False
      then show ?thesis using unknown k plain addr post [OF inv, of env isNew d]
        by (simp add: neigh_v4_def pc pp pn fun_upd_idem)
    next
      case True
      obtain t where t: "cache_client (ev_mac_addr d) (ev_if_index d) (int k) (ev_ipv4_addr d) s = Some t" "kept s t" "n_posted t = n_posted s"
        "num_neighbor_client s < IPA_MAX_NUM_NEIGHBOR_CLIENTS \<longrightarrow> cached t = (cached s)(ev_mac_addr d \<mapsto> (ev_if_index d, ev_ipv4_addr d, int k))"
        "n_config t = n_config s" "dom (cached t) \<subseteq> insert (ev_mac_addr d) (dom (cached s))"
        "num_neighbor_client t = min 100 (Suc (num_neighbor_client s))"
        "circular_index t = circular_index s + (if num_neighbor_client s < 100 then 0 else 1)"
        by (rule cache_kept [OF inv unknown(3) room, of "ev_if_index d" "int k" "ev_ipv4_addr d"])
      then show ?thesis using True unknown k plain addr kept_trans [OF t(2) post [OF kept_inv [OF t(2)]], of env isNew d]
        by (simp add: neigh_v4_def pc pp pn)
    qed
  next
    case (found i)
    show ?thesis
    proof (cases isNew)
      case True
      let ?f = "\<lambda>c. c\<lparr>nc_iface_index := ev_if_index d, nc_ipa_if_num := int k, nc_v4_addr := ev_ipv4_addr d\<rparr>"
      obtain t where t: "upd_client i ?f s = Some t" "kept s t"
        "cached t = (cached s)(nc_mac (known s ! i) \<mapsto> snd (entry_of (?f (known s ! i))))" "n_posted t = n_posted s"
        "n_config t = n_config s"
        by (rule upd_kept [OF inv found(2), of ?f]) simp_all
      then show ?thesis using True found k plain addr kept_trans [OF t(2) post [OF kept_inv [OF t(2)]], of env isNew d]
        by (simp add: neigh_v4_def entry_of_def pc pp pn)
    next
      case False
      obtain t where t: "remove_client i s = Some t" "kept s t" "cached t = (cached s)(nc_mac (known s ! i) := None)" "n_posted t = n_posted s"
        "n_config t = n_config s"
        by (rule remove_kept [OF inv found(2)])
      then show ?thesis using False found k plain addr kept_trans [OF t(2) post [OF kept_inv [OF t(2)]], of env isNew d]
        by (simp add: neigh_v4_def pc pp pn)
    qed
  qed
qed

text \<open>A neighbour seen through the bridge: what is cached says which interface it is on.\<close>

lemma neigh_v4_bridge:
  assumes inv: "nb_inv s" and k: "k < length (iface_table (n_config s))"
    and bridge: "ipa_virtual_iface_name (n_config s) = iface_name (iface_table (n_config s) ! k)"
    and addr: "ev_ipv4_addr d \<noteq> 0" "ev_ipv4_addr d AND 0xFFFF0000 \<noteq> 0xA9FE0000"
  shows "\<exists>s'. neigh_v4 env isNew (int k) d s = Some s' \<and> kept s s' \<and>
    (case cached s (ev_mac_addr d) of
       None \<Rightarrow> s' = s
     | Some (ifx, v4, ipa) \<Rightarrow>
         n_posted s' = n_posted s @ (if ie_malloc_ok env then [(if isNew then 17 else 18, d\<lparr>ev_if_index := ifx\<rparr>)] else []) \<and>
         cached s' = (cached s)(ev_mac_addr d := if isNew then Some (ifx, ev_ipv4_addr d, ipa) else None))"
proof (cases rule: find_client_cases [OF inv, of "ev_mac_addr d", case_names unknown found])
  case unknown
  then show ?thesis using k bridge addr inv by (simp add: neigh_v4_def kept_refl)
next
  case (found i)
  let ?f = "\<lambda>c. c\<lparr>nc_v4_addr := ev_ipv4_addr d\<rparr>" and ?d = "d\<lparr>ev_if_index := nc_iface_index (known s ! i)\<rparr>"
  have rd: "rd (neighbor_client s) i = Some (known s ! i)" using found(2) nb_invD [OF inv] by simp
  obtain t where t: "upd_client i ?f s = Some t" "kept s t" "known t = (known s)[i := ?f (known s ! i)]"
    "cached t = (cached s)(nc_mac (known s ! i) \<mapsto> snd (entry_of (?f (known s ! i))))"
    "num_neighbor_client t = num_neighbor_client s" "n_posted t = n_posted s"
    by (rule upd_kept [OF inv found(2), of ?f]) simp_all
  have mac: "nc_mac (known t ! i) = ev_mac_addr d" unfolding t(3) using found(2,3) nb_invD(3) [OF inv] by (simp del: nth_take)
  obtain u where u: "(if isNew then Some t else remove_client i t) = Some u" "kept s u" "n_posted u = n_posted s"
    "cached u = (cached s)(ev_mac_addr d := if isNew then Some (nc_iface_index (known s ! i), ev_ipv4_addr d, nc_ipa_if_num (known s ! i)) else None)"
  proof (cases isNew)
    case True
    then show thesis using that [of t] t(2,4,6) found(3) by (simp add: entry_of_def)
  next
    case False
    obtain v where v: "remove_client i t = Some v" "kept t v" "cached v = (cached t)(nc_mac (known t ! i) := None)" "n_posted v = n_posted t"
      by (rule remove_kept [OF kept_inv [OF t(2)], of i]) (use found(2) t(5) in simp_all)
    show thesis by (rule that [of v]) (use False v t(4,6) mac found(3) kept_trans [OF t(2) v(2)] in simp_all)
  qed
  obtain s' where s': "post_and_query env isNew ?d u = Some (ie_malloc_ok env, s')" "kept u s'"
    "neighbor_client s' = neighbor_client u" "num_neighbor_client s' = num_neighbor_client u"
    "n_posted s' = n_posted u @ (if ie_malloc_ok env then [(if isNew then 17 else 18, ?d)] else [])"
    using post_and_query_spec [OF kept_inv [OF u(2)]] by blast
  have c: "cached s' = cached u" using s'(3,4) by (simp add: cached_def)
  have cs: "cached s (ev_mac_addr d) = Some (nc_iface_index (known s ! i), nc_v4_addr (known s ! i), nc_ipa_if_num (known s ! i))"
    using found(4) by (simp add: entry_of_def)
  have "neigh_v4 env isNew (int k) d s = Some s'"
    using k bridge addr found(1) rd t(1) u(1) s'(1) by (simp add: neigh_v4_def Let_def)
  then show ?thesis using kept_trans [OF u(2) s'(2)] s'(5) u(3,4) c cs by simp
qed

lemma neigh_v4_total:
  assumes inv: "nb_inv s" and k: "k < length (iface_table (n_config s))" and room: "has_room s"
  shows "\<exists>s'. neigh_v4 env isNew (int k) d s = Some s' \<and> kept s s'"
proof (cases "ev_ipv4_addr d = 0 \<or> ev_ipv4_addr d AND 0xFFFF0000 = 0xA9FE0000")
  case True
  then show ?thesis by (intro exI [of _ s]) (auto simp: neigh_v4_def kept_refl [OF inv])
next
  case False
  then have a: "ev_ipv4_addr d \<noteq> 0" "ev_ipv4_addr d AND 0xFFFF0000 \<noteq> 0xA9FE0000" by simp_all
  show ?thesis
  proof (cases "ipa_virtual_iface_name (n_config s) = iface_name (iface_table (n_config s) ! k)")
    case True
    show ?thesis using neigh_v4_bridge [OF inv k True a] by blast
  next
    case False
    show ?thesis using neigh_v4_plain [OF inv k False a room] by blast
  qed
qed

lemma neigh_v6_total:
  assumes inv: "nb_inv s" and k: "k < length (iface_table (n_config s))"
  shows "\<exists>s'. neigh_v6 env isNew (int k) d s = Some s' \<and> kept s s'"
proof (cases rule: find_client_cases [OF inv, of "ev_mac_addr d", case_names unknown found])
  case unknown
  then show ?thesis using k post_neigh_kept [OF inv] by (simp add: neigh_v6_def kept_refl inv)
next
  case (found i)
  have rd: "rd (neighbor_client s) i = Some (known s ! i)" using found(2) nb_invD [OF inv] by simp
  from post_and_query_spec [OF inv, of env isNew "d\<lparr>ev_if_index := nc_iface_index (known s ! i)\<rparr>"] 
  show ?thesis using k post_neigh_kept [OF inv] found(1) rd by (auto simp: neigh_v6_def)
qed

lemma neigh_no_addr_total:
  assumes inv: "nb_inv s" and k: "k < length (iface_table (n_config s))" and room: "has_room s"
  shows "\<exists>s'. neigh_no_addr env isNew (int k) d s = Some s' \<and> kept s s'"
proof (cases rule: find_client_cases [OF inv, of "ev_mac_addr d", case_names unknown found])
  case unknown
  obtain t where "cache_client (ev_mac_addr d) (ev_if_index d) (int k) 0 s = Some t" "kept s t"
    by (rule cache_kept [OF inv unknown(3) room])
  then show ?thesis using unknown k kept_refl [OF inv] by (simp add: neigh_no_addr_def)
next
  case (found i)
  let ?f = "\<lambda>c. c\<lparr>nc_iface_index := ev_if_index d\<rparr>" and ?b = "ipa_virtual_iface_name (n_config s) = iface_name (iface_table (n_config s) ! k)"
  obtain t where t: "upd_client i ?f s = Some t" "kept s t" "num_neighbor_client t = num_neighbor_client s"
    "rd (neighbor_client t) i = Some (?f (known s ! i))"
    by (rule upd_kept [OF inv found(2), of ?f]) simp_all
  from post_and_query_spec [OF kept_inv [OF t(2)], of env isNew "client_data env (?f (known s ! i))"]
  obtain p where p: "post_and_query env isNew (client_data env (?f (known s ! i))) t = Some (ie_malloc_ok env, p)" "kept t p"
    "num_neighbor_client p = num_neighbor_client t" by blast
  obtain g u where u: "(if ?b then Some (True, s)
             else do {
               s \<leftarrow> upd_client i ?f s;
               c \<leftarrow> rd (neighbor_client s) i;
               if nc_v4_addr c \<noteq> 0 then post_and_query env isNew (client_data env c) s else Some (True, s)
             }) = Some (g, u)" "kept s u" "i < num_neighbor_client u"
    using t p found(2) kept_refl [OF inv] kept_trans [OF t(2) p(2)] by (cases ?b; cases "nc_v4_addr (known s ! i) = 0") auto
  obtain v where "remove_client i u = Some v" "kept u v" by (rule remove_kept [OF kept_inv [OF u(2)] u(3)])
  then show ?thesis using u k found(1) kept_trans [OF u(2)] by (auto simp: neigh_no_addr_def)
qed

end
