(* ===== verification/Ipacm_Neighbor_Props.thy ===== *)
theory Ipacm_Neighbor_Props
  imports Ipacm_Neighbor_Correct Ipacm_Props
begin

text \<open>
  Properties of the neighbour cache: it is a map from MAC addresses that the events update, it stays
  consistent in every run, what it remembers completes later events, and where it goes wrong.
\<close>

section \<open>The interface query settles\<close>

lemma query_by_index:
  assumes "k < length (iface_table c)" "k < ipa_num_ipa_interfaces c" "ipa_num_ipa_interfaces c \<le> length (iface_table c)"
    and "netlink_interface_index (iface_table c ! k) = i" "\<And>j. j < k \<Longrightarrow> netlink_interface_index (iface_table c ! j) \<noteq> i"
  shows "iface_ipa_index_query env i c = Some (int k, c)"
proof -
  let ?q = "\<lambda>j. i = netlink_interface_index (iface_table c ! j)"
  have t: "map_option (\<lambda>e. i = netlink_interface_index e) (rd (iface_table c) j) = Some (?q j)"
    if "0 \<le> j" "j < ipa_num_ipa_interfaces c" for j using that assms(3) by simp
  have "(LEAST j. 0 \<le> j \<and> ?q j) = k"
  proof (rule Least_equality)
    show "0 \<le> k \<and> ?q k" using assms(4) by simp
    show "k \<le> j" if "0 \<le> j \<and> ?q j" for j using that assms(5) [of j] by (metis not_le)
  qed
  moreover have "\<exists>j. 0 \<le> j \<and> j < ipa_num_ipa_interfaces c \<and> ?q j" using assms(2,4) by blast
  ultimately have "scan_first (\<lambda>j. map_option (\<lambda>e. i = netlink_interface_index e) (rd (iface_table c) j)) (ipa_num_ipa_interfaces c) 0 = Some (Some k)"
    using scan_first_total [OF t] by simp
  then show ?thesis using assms(1) by (auto simp: iface_ipa_index_query_def)
qed

lemma query_stable:
  assumes b: "ipa_num_ipa_interfaces c \<le> length (iface_table c)" and q: "iface_ipa_index_query env i c = Some (int k, c')"
  shows "iface_ipa_index_query env' i c' = Some (int k, c')"
proof -
  have t1: "map_option (\<lambda>e. i = netlink_interface_index e) (rd (iface_table c) j) = Some (i = netlink_interface_index (iface_table c ! j))"
    if "0 \<le> j" "j < ipa_num_ipa_interfaces c" for j using that b by simp
  have t2: "map_option (\<lambda>e. same_ifname nm (iface_name e)) (rd (iface_table c) j) = Some (same_ifname nm (iface_name (iface_table c ! j)))"
    if "0 \<le> j" "j < ipa_num_ipa_interfaces c" for nm j using that b by simp
  let ?p1 = "\<lambda>j. map_option (\<lambda>e. i = netlink_interface_index e) (rd (iface_table c) j)"
  have ne: "iface_table c \<noteq> []" using q by (auto simp: iface_ipa_index_query_def)
  obtain r1 where r1: "scan_first ?p1 (ipa_num_ipa_interfaces c) 0 = Some r1" by (rule that) (rule scan_first_total [OF t1])
  show ?thesis
  proof (cases r1)
    case (Some j)
    then have hit: "scan_first ?p1 (ipa_num_ipa_interfaces c) 0 = Some (Some j)" using r1 by simp
    then have "j = k" "c' = c" using q ne by (auto simp: iface_ipa_index_query_def)
    from scan_first_found [OF t1 hit] show ?thesis unfolding \<open>c' = c\<close> \<open>j = k\<close>
      by (intro query_by_index) (use b in auto)
  next
    case None
    then have miss: "scan_first ?p1 (ipa_num_ipa_interfaces c) 0 = Some None" using r1 by simp
    obtain nm where nm: "ie_socket_ok env" "ie_if_name env i = Some nm"
      using q ne miss by (auto simp: iface_ipa_index_query_def split: if_splits option.splits)
    let ?p2 = "\<lambda>j. map_option (\<lambda>e. same_ifname nm (iface_name e)) (rd (iface_table c) j)"
    obtain r2 where r2: "scan_first ?p2 (ipa_num_ipa_interfaces c) 0 = Some r2" by (rule that) (rule scan_first_total [OF t2])
    then obtain j where j: "r2 = Some j" using q ne miss nm by (cases r2) (auto simp: iface_ipa_index_query_def)
    have "scan_first ?p2 (ipa_num_ipa_interfaces c) 0 = Some (Some j)" using r2 j by simp
    from scan_first_found [OF t2 this] have jn: "j < ipa_num_ipa_interfaces c" by blast
    have jk: "j = k" and c': "c' = c\<lparr>iface_table := (iface_table c)[k := (iface_table c ! k)\<lparr>netlink_interface_index := i\<rparr>]\<rparr>"
      using q ne miss nm r2 j jn b by (auto simp: iface_ipa_index_query_def)
    have "netlink_interface_index (iface_table c' ! m) \<noteq> i" if "m < k" for m
      proof -
      have "m < ipa_num_ipa_interfaces c" using that jn jk by simp
      then have "netlink_interface_index (iface_table c ! m) \<noteq> i" using scan_first_none [OF t1 miss] by auto
      then show ?thesis using that unfolding c' by simp
    qed
    then show ?thesis by (intro query_by_index) (use jn jk b c' in auto)
  qed
qed

section \<open>Every handler returns on a known interface\<close>


definition known_iface :: "iface_env \<Rightarrow> int \<Rightarrow> ipacm_neighbor \<Rightarrow> bool" where
  "known_iface env i s \<longleftrightarrow> (case iface_ipa_index_query env i (n_config s) of Some (r, c) \<Rightarrow> r \<noteq> -1 | None \<Rightarrow> False)"


lemma wlan_add_cached:
  assumes inv: "nb_inv s" and q: "n_query env ifx s = Some (int k, t)" "kept s t" "k < length (iface_table (n_config t))" "cached t = cached s"
    "num_neighbor_client t = num_neighbor_client s" "n_posted t = n_posted s"
  shows "\<exists>s'. wlan_client_add_ex env ifx as s = Some s' \<and> kept s s' \<and>
    (ipa_virtual_iface_name (n_config t) \<noteq> iface_name (iface_table (n_config t) ! k) \<longrightarrow>
      (\<forall>i0 v4. cached s (attrib_mac (ie_junk_mac env) as) = Some (i0, v4, int k) \<and> v4 \<noteq> 0 \<and> ie_malloc_ok env \<longrightarrow>
        n_posted s' = n_posted s @ [(17, \<lparr>ev_iptype = IPA_IP_v4, ev_if_index = ifx, ev_ipv4_addr = v4,
          ev_ipv6_addr = ie_junk_ipv6 env, ev_mac_addr = attrib_mac (ie_junk_mac env) as\<rparr>)]))"
proof (cases rule: find_client_cases [OF kept_inv [OF q(2)], of "attrib_mac (ie_junk_mac env) as", case_names unknown found])
  case unknown
  then show ?thesis using q by (simp add: wlan_client_add_ex_def)
next
  case (found i)
  let ?f = "\<lambda>c. c\<lparr>nc_iface_index := ifx\<rparr>"
  obtain u where u: "upd_client i ?f t = Some u" "kept t u" "rd (neighbor_client u) i = Some (?f (known t ! i))" "n_posted u = n_posted t"
    by (rule upd_kept [OF kept_inv [OF q(2)] found(2), of ?f]) simp_all
  from post_and_query_spec [OF kept_inv [OF u(2)], of env True "client_data env (?f (known t ! i))"]
  obtain p where p: "post_and_query env True (client_data env (?f (known t ! i))) u = Some (ie_malloc_ok env, p)" "kept u p"
    "n_posted p = n_posted u @ (if ie_malloc_ok env then [(17, client_data env (?f (known t ! i)))] else [])" by auto
  show ?thesis
    using q u p found kept_trans [OF q(2) u(2)] kept_trans [OF kept_trans [OF q(2) u(2)] p(2)]
    by (cases "nc_v4_addr (known t ! i) = 0")
      (auto simp: wlan_client_add_ex_def entry_of_def client_data_def)
qed


section \<open>Plain interfaces\<close>

definition plain_iface :: "iface_env \<Rightarrow> int \<Rightarrow> nat \<Rightarrow> ipacm_config \<Rightarrow> bool" where
  "plain_iface env i k c \<longleftrightarrow> (\<exists>c'. iface_ipa_index_query env i c = Some (int k, c') \<and>
     k < length (iface_table c') \<and> ipa_virtual_iface_name c' \<noteq> iface_name (iface_table c' ! k))"

definition usable_v4 :: "ipacm_event_data_all \<Rightarrow> bool" where
  "usable_v4 d \<longleftrightarrow> ev_iptype d = IPA_IP_v4 \<and> ev_ipv4_addr d \<noteq> 0 \<and> ev_ipv4_addr d AND 0xFFFF0000 \<noteq> 0xA9FE0000"

definition nb_event :: "bool \<Rightarrow> ipacm_event_data_all \<Rightarrow> neigh_evt" where
  "nb_event isNew d = (if isNew then NEW_NEIGH d else DEL_NEIGH d)"

lemma callback_nb_event [simp]: "neigh_callback env (nb_event isNew d) s = neigh_event env isNew d s"
  by (simp add: nb_event_def)

lemma plain_query:
  assumes "nb_inv s" "plain_iface env i k (n_config s)"
  obtains c where "n_query env i s = Some (int k, s\<lparr>n_config := c\<rparr>)" "kept s (s\<lparr>n_config := c\<rparr>)" "k < length (iface_table c)"
    "ipa_virtual_iface_name c \<noteq> iface_name (iface_table c ! k)" "iface_ipa_index_query env i (n_config s) = Some (int k, c)"
    "plain_iface env' i k c"
proof -
  obtain c where c: "iface_ipa_index_query env i (n_config s) = Some (int k, c)" "k < length (iface_table c)"
    "ipa_virtual_iface_name c \<noteq> iface_name (iface_table c ! k)" using assms(2) by (auto simp: plain_iface_def)
  have b: "ipa_num_ipa_interfaces (n_config s) \<le> length (iface_table (n_config s))" using assms(1) by (simp add: nb_inv_def)
  have "same_ifaces (n_config s) c" using query_total [OF b, of env i] c(1) by auto
  then have "kept s (s\<lparr>n_config := c\<rparr>)" using nb_inv_same [OF assms(1)] by (simp add: kept_def)
  moreover have "n_query env i s = Some (int k, s\<lparr>n_config := c\<rparr>)" using c(1) by (simp add: n_query_def)
  moreover have "plain_iface env' i k c" using query_stable [OF b c(1)] c by (auto simp: plain_iface_def)
  ultimately show thesis using that c by blast
qed

lemma plain_event:
  assumes inv: "nb_inv s" and plain: "plain_iface env (ev_if_index d) k (n_config s)" and v4: "usable_v4 d" and room: "has_room s"
  shows "\<exists>s'. neigh_event env isNew d s = Some s' \<and> kept s s' \<and>
    n_posted s' = n_posted s @ (if ie_malloc_ok env then [(if isNew then 17 else 18, d)] else []) \<and>
    (if isNew
     then (cached s (ev_mac_addr d) \<noteq> None \<or> num_neighbor_client s < IPA_MAX_NUM_NEIGHBOR_CLIENTS) \<longrightarrow>
       cached s' = (cached s)(ev_mac_addr d \<mapsto> (ev_if_index d, ev_ipv4_addr d, int k))
     else cached s' = (cached s)(ev_mac_addr d := None)) \<and>
    plain_iface env' (ev_if_index d) k (n_config s') \<and>
    (isNew \<and> cached s (ev_mac_addr d) = None \<longrightarrow>
       dom (cached s') \<subseteq> insert (ev_mac_addr d) (dom (cached s)) \<and>
       num_neighbor_client s' = min 100 (Suc (num_neighbor_client s)) \<and>
       circular_index s' = circular_index s + (if num_neighbor_client s < 100 then 0 else 1))"
proof -
  obtain c where q: "n_query env (ev_if_index d) s = Some (int k, s\<lparr>n_config := c\<rparr>)" "kept s (s\<lparr>n_config := c\<rparr>)"
    "k < length (iface_table c)" "ipa_virtual_iface_name c \<noteq> iface_name (iface_table c ! k)" "plain_iface env' (ev_if_index d) k c"
    by (rule plain_query [OF inv plain])
  let ?s = "s\<lparr>n_config := c\<rparr>"
  have same: "cached ?s = cached s" "n_posted ?s = n_posted s" "num_neighbor_client ?s = num_neighbor_client s"
    "circular_index ?s = circular_index s" by (simp_all add: cached_def)
  have a: "ev_ipv4_addr d \<noteq> 0" "ev_ipv4_addr d AND 0xFFFF0000 \<noteq> 0xA9FE0000" using v4 by (simp_all add: usable_v4_def)
  from neigh_v4_plain [OF kept_inv [OF q(2)], of k d env isNew] q(3,4) a room
  obtain s' where s': "neigh_v4 env isNew (int k) d ?s = Some s'" "kept ?s s'"
    "n_posted s' = n_posted ?s @ (if ie_malloc_ok env then [(if isNew then 17 else 18, d)] else [])"
    "if isNew
     then (cached ?s (ev_mac_addr d) \<noteq> None \<or> num_neighbor_client ?s < IPA_MAX_NUM_NEIGHBOR_CLIENTS) \<longrightarrow>
       cached s' = (cached ?s)(ev_mac_addr d \<mapsto> (ev_if_index d, ev_ipv4_addr d, int k))
     else cached s' = (cached ?s)(ev_mac_addr d := None)"
    "n_config s' = n_config ?s"
    "isNew \<and> cached ?s (ev_mac_addr d) = None \<longrightarrow>
       dom (cached s') \<subseteq> insert (ev_mac_addr d) (dom (cached ?s)) \<and>
       num_neighbor_client s' = min 100 (Suc (num_neighbor_client ?s)) \<and>
       circular_index s' = circular_index ?s + (if num_neighbor_client ?s < 100 then 0 else 1)"
    by auto
  have "neigh_event env isNew d s = Some s'" using q(1) s'(1) v4 by (simp add: neigh_event_def usable_v4_def)
  moreover have "plain_iface env' (ev_if_index d) k (n_config s')" using q(5) s'(5) by simp
  ultimately show ?thesis using kept_trans [OF q(2) s'(2)] s'(3,4,6) unfolding same by blast
qed

lemma new_inv: "ipa_num_ipa_interfaces c \<le> length (iface_table c) \<Longrightarrow> nb_inv (IPACM_Neighbor_new c)"
  by (simp add: nb_inv_def IPACM_Neighbor_new_def)

lemma new_cached [simp]: "cached (IPACM_Neighbor_new c) = Map.empty"
  by (simp add: cached_def IPACM_Neighbor_new_def)

section \<open>Runs\<close>



fun neigh_run :: "iface_env \<Rightarrow> neigh_evt list \<Rightarrow> ipacm_neighbor \<Rightarrow> ipacm_neighbor option" where
  "neigh_run env [] s = Some s"
| "neigh_run env (e # es) s = do { s \<leftarrow> neigh_callback env e s; neigh_run env es s }"

lemma neigh_run_append: "neigh_run env (xs @ ys) s = neigh_run env xs s \<bind> neigh_run env ys"
proof (induction xs arbitrary: s)
  case (Cons e xs) then show ?case by (cases "neigh_callback env e s") simp_all
qed simp

text \<open>New neighbours fill the array, and then take the places from its start.\<close>

lemma disjoint_insert_mono: "B \<subseteq> insert x A \<Longrightarrow> x \<notin> C \<Longrightarrow> A \<inter> C = {} \<Longrightarrow> B \<inter> C = {}"
  by blast

lemma fresh_run:
  assumes "nb_inv s" "plain_iface env i k (n_config s)" "\<And>d. d \<in> set ds \<Longrightarrow> usable_v4 d \<and> ev_if_index d = i"
    and "distinct (map ev_mac_addr ds)" "dom (cached s) \<inter> ev_mac_addr ` set ds = {}"
    and "circular_index s = 0 \<or> num_neighbor_client s = 100" "num_neighbor_client s + circular_index s + length ds \<le> 200"
  shows "\<exists>s'. neigh_run env (map NEW_NEIGH ds) s = Some s' \<and> nb_inv s' \<and> plain_iface env i k (n_config s') \<and>
    dom (cached s') \<subseteq> dom (cached s) \<union> ev_mac_addr ` set ds \<and>
    (circular_index s' = 0 \<or> num_neighbor_client s' = 100) \<and>
    num_neighbor_client s' + circular_index s' = num_neighbor_client s + circular_index s + length ds"
  using assms
proof (induction ds arbitrary: s)
  case Nil
  then show ?case by simp
next
  case (Cons d ds)
  have n: "num_neighbor_client s \<le> 100" using nb_invD(2) [OF Cons.prems(1)] .
  have room: "has_room s" using Cons.prems(6,7) n by auto
  have ix: "ev_if_index d = i" and v4: "usable_v4 d" using Cons.prems(3) [of d] by simp_all
  have new: "cached s (ev_mac_addr d) = None" using Cons.prems(5) by auto
  obtain t where t: "neigh_event env True d s = Some t" "kept s t" "plain_iface env i k (n_config t)"
    "dom (cached t) \<subseteq> insert (ev_mac_addr d) (dom (cached s))" "num_neighbor_client t = min 100 (Suc (num_neighbor_client s))"
    "circular_index t = circular_index s + (if num_neighbor_client s < 100 then 0 else 1)"
    using plain_event [OF Cons.prems(1) _ v4 room, of env k True env] Cons.prems(2) ix new by auto
  have sum: "num_neighbor_client t + circular_index t = num_neighbor_client s + circular_index s + 1" using t(5,6) n by auto
  have "\<exists>s'. neigh_run env (map NEW_NEIGH ds) t = Some s' \<and> nb_inv s' \<and> plain_iface env i k (n_config s') \<and>
      dom (cached s') \<subseteq> dom (cached t) \<union> ev_mac_addr ` set ds \<and>
      (circular_index s' = 0 \<or> num_neighbor_client s' = 100) \<and>
      num_neighbor_client s' + circular_index s' = num_neighbor_client t + circular_index t + length ds"
  proof (rule Cons.IH [OF kept_inv [OF t(2)] t(3)])
    show "\<And>d. d \<in> set ds \<Longrightarrow> usable_v4 d \<and> ev_if_index d = i" using Cons.prems(3) by simp
    show "distinct (map ev_mac_addr ds)" using Cons.prems(4) by simp
    have "ev_mac_addr d \<notin> ev_mac_addr ` set ds" "dom (cached s) \<inter> ev_mac_addr ` set ds = {}" using Cons.prems(4,5) by auto
    then show "dom (cached t) \<inter> ev_mac_addr ` set ds = {}" by (rule disjoint_insert_mono [OF t(4)])
    show "circular_index t = 0 \<or> num_neighbor_client t = 100"
    proof (cases "num_neighbor_client s < 100")
      case True
      then have "circular_index s = 0" using Cons.prems(6) by linarith
      then show ?thesis using t(6) True by simp
    next
      case False
      then show ?thesis using t(5) by simp
    qed
    show "num_neighbor_client t + circular_index t + length ds \<le> 200" using sum Cons.prems(7) by simp
  qed
  then obtain s' where s': "neigh_run env (map NEW_NEIGH ds) t = Some s'" "nb_inv s'" "plain_iface env i k (n_config s')"
    "dom (cached s') \<subseteq> dom (cached t) \<union> ev_mac_addr ` set ds" "circular_index s' = 0 \<or> num_neighbor_client s' = 100"
    "num_neighbor_client s' + circular_index s' = num_neighbor_client t + circular_index t + length ds" by blast
  have "dom (cached s') \<subseteq> dom (cached s) \<union> ev_mac_addr ` set (d # ds)"
    using subset_trans [OF s'(4) Un_mono [OF t(4) subset_refl]] by simp
  then show ?case using t(1) s' sum by (intro exI [of _ s']) simp
qed

section \<open>Properties\<close>

definition demo_ienv :: iface_env where
  "demo_ienv = \<lparr>ie_socket_ok = True, ie_if_name = (\<lambda>i. if i = 7 then Some ''rndis0'' else if i = 8 then Some ''wlan0'' else None),
     ie_malloc_ok = True, ie_junk_ipv6 = [9, 9, 9, 9], ie_junk_mac = [9, 9, 9, 9, 9, 9]\<rparr>"

definition demo_data :: "int \<Rightarrow> u32 \<Rightarrow> u8 \<Rightarrow> ipacm_event_data_all" where
  "demo_data i a m = \<lparr>ev_iptype = IPA_IP_v4, ev_if_index = i, ev_ipv4_addr = a, ev_ipv6_addr = [0, 0, 0, 0],
     ev_mac_addr = [m, 0, 0, 0, 0, 0]\<rparr>"

lemma demo_plain: "plain_iface demo_ienv 8 1 demo_config" "ipa_num_ipa_interfaces demo_config \<le> length (iface_table demo_config)"
  by (simp_all add: plain_iface_def demo_ienv_def demo_config_def IPACM_Config_Init_def demo_config_env_def demo_conf_def Let_def
      IPACM_Config_new_def
      iface_ipa_index_query_def scan_first.simps rd_def wr_def same_ifname_def)

lemma demo_data_simps [simp]: "ev_if_index (demo_data i a m) = i" "ev_mac_addr (demo_data i a m) = [m, 0, 0, 0, 0, 0]"
  "ev_ipv4_addr (demo_data i a m) = a"
  "usable_v4 (demo_data i a m) \<longleftrightarrow> a \<noteq> 0 \<and> a AND 0xFFFF0000 \<noteq> 0xA9FE0000"
  by (simp_all add: demo_data_def usable_v4_def)

text \<open>
  C1: the cache is a map from MAC addresses to interface, IPv4 address and table index. A new
  neighbour with an IPv4 address (neither zero nor link local) on an interface of the table that is
  not the bridge is an update of that map at its MAC address, as long as the array has room for it;
  a deleted one is a removal; nothing else of the map changes, and exactly the event of that kind
  is posted, with the data as they came.
\<close>

theorem neighbor_cache_refines:
  assumes "nb_inv s" "plain_iface env (ev_if_index d) k (n_config s)" "usable_v4 d" "has_room s" "ie_malloc_ok env"
    and "cached s (ev_mac_addr d) \<noteq> None \<or> num_neighbor_client s < IPA_MAX_NUM_NEIGHBOR_CLIENTS"
  shows "\<exists>s' s''. neigh_callback env (NEW_NEIGH d) s = Some s' \<and> neigh_callback env (DEL_NEIGH d) s = Some s'' \<and>
    cached s' = (cached s)(ev_mac_addr d \<mapsto> (ev_if_index d, ev_ipv4_addr d, int k)) \<and>
    cached s'' = (cached s)(ev_mac_addr d := None) \<and>
    n_posted s' = n_posted s @ [(IPA_NEIGH_CLIENT_IP_ADDR_ADD_EVENT, d)] \<and>
    n_posted s'' = n_posted s @ [(IPA_NEIGH_CLIENT_IP_ADDR_DEL_EVENT, d)]"
proof -
  from plain_event [OF assms(1,2,3,4), where isNew = True and env' = env] assms(5,6)
  obtain s' where "neigh_event env True d s = Some s'" "n_posted s' = n_posted s @ [(17, d)]"
    "cached s' = (cached s)(ev_mac_addr d \<mapsto> (ev_if_index d, ev_ipv4_addr d, int k))" by auto
  moreover from plain_event [OF assms(1,2,3,4), where isNew = False and env' = env] assms(5)
  obtain s'' where "neigh_event env False d s = Some s''" "n_posted s'' = n_posted s @ [(18, d)]"
    "cached s'' = (cached s)(ev_mac_addr d := None)" by auto
  ultimately show ?thesis by simp
qed

lemma neighbor_cache_refines_witness:
  "\<exists>s'. neigh_callback demo_ienv (NEW_NEIGH (demo_data 8 0xC0A80002 1)) (IPACM_Neighbor_new demo_config) = Some s' \<and>
    cached s' = [[1, 0, 0, 0, 0, 0] \<mapsto> (8, 0xC0A80002, 1)] \<and> n_posted s' = [(17, demo_data 8 0xC0A80002 1)]"
  using neighbor_cache_refines [of "IPACM_Neighbor_new demo_config" demo_ienv "demo_data 8 0xC0A80002 1" 1]
    new_inv [OF demo_plain(2)] demo_plain(1) by (auto simp: IPACM_Neighbor_new_def demo_ienv_def new_cached [unfolded IPACM_Neighbor_new_def])



text \<open>
  C3: the recycling index never returns to the start of the array: after 200 new neighbours with
  different MAC addresses, which are all handled, the next one writes behind the array.
\<close>

theorem recycled_index_overruns:
  assumes "plain_iface env i k c" "ipa_num_ipa_interfaces c \<le> length (iface_table c)"
    and "length ds = 200" "distinct (map ev_mac_addr (ds @ [d]))" "list_all (\<lambda>d. usable_v4 d \<and> ev_if_index d = i) (ds @ [d])"
  shows "neigh_run env (map NEW_NEIGH ds) (IPACM_Neighbor_new c) \<noteq> None \<and>
    neigh_run env (map NEW_NEIGH (ds @ [d])) (IPACM_Neighbor_new c) = None"
proof -
  let ?s = "IPACM_Neighbor_new c"
  have "\<exists>s'. neigh_run env (map NEW_NEIGH ds) ?s = Some s' \<and> nb_inv s' \<and> plain_iface env i k (n_config s') \<and>
    dom (cached s') \<subseteq> dom (cached ?s) \<union> ev_mac_addr ` set ds \<and>
    (circular_index s' = 0 \<or> num_neighbor_client s' = 100) \<and>
    num_neighbor_client s' + circular_index s' = num_neighbor_client ?s + circular_index ?s + length ds"
    by (rule fresh_run) (use assms new_inv [OF assms(2)] in \<open>auto simp: list_all_iff IPACM_Neighbor_new_def new_cached [unfolded IPACM_Neighbor_new_def]\<close>)
  then obtain s' where s': "neigh_run env (map NEW_NEIGH ds) ?s = Some s'" "nb_inv s'" "plain_iface env i k (n_config s')"
    "dom (cached s') \<subseteq> ev_mac_addr ` set ds" "circular_index s' = 0 \<or> num_neighbor_client s' = 100"
    "num_neighbor_client s' + circular_index s' = 200"
    using assms(3) by (auto simp: IPACM_Neighbor_new_def new_cached [unfolded IPACM_Neighbor_new_def])
  have full: "num_neighbor_client s' = 100" "circular_index s' = 100" using s'(5,6) nb_invD(2) [OF s'(2)] by auto
  have d: "usable_v4 d" "ev_if_index d = i" using assms(5) by simp_all
  obtain q where q: "n_query env i s' = Some (int k, s'\<lparr>n_config := q\<rparr>)" "kept s' (s'\<lparr>n_config := q\<rparr>)" "k < length (iface_table q)"
    "ipa_virtual_iface_name q \<noteq> iface_name (iface_table q ! k)"
    by (rule plain_query [OF s'(2,3)])
  let ?t = "s'\<lparr>n_config := q\<rparr>"
  have "ev_mac_addr d \<notin> dom (cached s')" using s'(4) assms(4) by auto
  then have new: "cached ?t (ev_mac_addr d) = None" by (auto simp: cached_def)
  have f: "find_client (ev_mac_addr d) ?t = Some None"
    using new by (cases rule: find_client_cases [OF kept_inv [OF q(2)], of "ev_mac_addr d"]) simp_all
  have len: "length (neighbor_client ?t) = 100" using nb_invD(1) [OF s'(2)] by simp
  have "neigh_callback env (NEW_NEIGH d) s' = None"
    using q f d full len by (simp add: neigh_event_def usable_v4_def neigh_v4_def cache_client_def upd_client_def rd_def)
  then show ?thesis using s'(1) by (simp add: neigh_run_append)
qed

lemma recycled_index_overruns_witness:
  "neigh_run demo_ienv (map NEW_NEIGH (map (\<lambda>n. demo_data 8 0xC0A80002 (of_nat n)) [0..<200] @ [demo_data 8 0xC0A80002 200]))
     (IPACM_Neighbor_new demo_config) = None"
proof -
  have "inj_on (\<lambda>n. [of_nat n :: u8, 0, 0, 0, 0, 0]) {0..<201}"
    by (intro inj_onI) (simp add: of_nat_inverse unsigned_of_nat word_of_nat_eq_iff take_bit_nat_eq_self)
  then have "distinct (map (\<lambda>n. [of_nat n :: u8, 0, 0, 0, 0, 0]) [0..<201])" by (simp add: distinct_map)
  moreover have "[0..<201] = [0..<200] @ [200::nat]" using upt_Suc_append [of 0 200] by simp
  ultimately have dist: "distinct (map ev_mac_addr (map (\<lambda>n. demo_data 8 0xC0A80002 (of_nat n)) [0..<200] @ [demo_data 8 0xC0A80002 200]))"
    by (simp add: o_def)
  show ?thesis
    by (rule recycled_index_overruns [OF demo_plain _ dist, THEN conjunct2]) (simp_all add: list_all_iff)
qed

text \<open>
  C4: an event about an interface that is not in the table, with a usable IPv4 address, reads the
  table at index -1.
\<close>

theorem unknown_interface_read:
  assumes "nb_inv s" "\<not> known_iface env (ev_if_index d) s" "usable_v4 d"
  shows "neigh_callback env (nb_event isNew d) s = None"
proof -
  obtain r c where "n_query env (ev_if_index d) s = Some (r, s\<lparr>n_config := c\<rparr>)"
    "iface_ipa_index_query env (ev_if_index d) (n_config s) = Some (r, c)" using n_query_spec [OF assms(1)] by blast
  then show ?thesis using assms(2,3) by (simp add: known_iface_def neigh_event_def usable_v4_def neigh_v4_def)
qed

lemma unknown_interface_read_witness:
  "neigh_callback demo_ienv (nb_event True (demo_data 99 0xC0A80002 1)) (IPACM_Neighbor_new demo_config) = None"
  by (rule unknown_interface_read [OF new_inv [OF demo_plain(2)]])
    (simp_all add: known_iface_def demo_ienv_def demo_config_def IPACM_Config_Init_def demo_config_env_def demo_conf_def Let_def
      iface_ipa_index_query_def scan_first.simps rd_def IPACM_Neighbor_new_def)

text \<open>
  C5: an IPv4 neighbour seen through the bridge is turned to the interface it is cached on: the new
  address is remembered, and the posted event names the cached interface.
\<close>

theorem bridge_neighbor_redirected:
  assumes "nb_inv s" "iface_ipa_index_query env (ev_if_index d) (n_config s) = Some (int k, c)" "k < length (iface_table c)"
    and "ipa_virtual_iface_name c = iface_name (iface_table c ! k)" "usable_v4 d" "ie_malloc_ok env"
    and "cached s (ev_mac_addr d) = Some (ifx, v4, ipa)"
  shows "\<exists>s'. neigh_callback env (NEW_NEIGH d) s = Some s' \<and>
    cached s' = (cached s)(ev_mac_addr d \<mapsto> (ifx, ev_ipv4_addr d, ipa)) \<and>
    n_posted s' = n_posted s @ [(IPA_NEIGH_CLIENT_IP_ADDR_ADD_EVENT, d\<lparr>ev_if_index := ifx\<rparr>)]"
proof -
  have b: "ipa_num_ipa_interfaces (n_config s) \<le> length (iface_table (n_config s))" using assms(1) by (simp add: nb_inv_def)
  have inv: "nb_inv (s\<lparr>n_config := c\<rparr>)"
    using query_total [OF b, of env "ev_if_index d"] assms(2) nb_inv_same [OF assms(1)] by auto
  have "cached (s\<lparr>n_config := c\<rparr>) = cached s" by (simp add: cached_def)
  then show ?thesis using neigh_v4_bridge [OF inv, of k d env True] assms(2-7)
    by (auto simp: neigh_event_def n_query_def usable_v4_def)
qed

definition demo_bridge :: ipacm_neighbor where
  "demo_bridge = (IPACM_Neighbor_new (demo_config\<lparr>ipa_virtual_iface_name := ''rndis0''\<rparr>))\<lparr>num_neighbor_client := 1,
     neighbor_client := \<lparr>nc_mac = [1, 0, 0, 0, 0, 0], nc_iface_index = 8, nc_v4_addr = 0xC0A80002, nc_ipa_if_num = 1\<rparr> # replicate 99 zero_client\<rparr>"

lemma bridge_neighbor_redirected_witness:
  "\<exists>s'. neigh_callback demo_ienv (NEW_NEIGH (demo_data 7 0xC0A80003 1)) demo_bridge = Some s' \<and>
    n_posted s' = [(17, demo_data 8 0xC0A80003 1)]"
proof -
  have inv: "nb_inv demo_bridge" using demo_plain(2) by (simp add: nb_inv_def demo_bridge_def IPACM_Neighbor_new_def)
  have c: "cached demo_bridge [1, 0, 0, 0, 0, 0] = Some (8, 0xC0A80002, 1)"
    by (simp add: cached_def demo_bridge_def IPACM_Neighbor_new_def entry_of_def)
  obtain c where q: "iface_ipa_index_query demo_ienv 7 (n_config demo_bridge) = Some (int 0, c)" "0 < length (iface_table c)"
    "ipa_virtual_iface_name c = iface_name (iface_table c ! 0)"
    by (simp add: demo_bridge_def IPACM_Neighbor_new_def demo_ienv_def demo_config_def IPACM_Config_Init_def demo_config_env_def
        demo_conf_def Let_def IPACM_Config_new_def iface_ipa_index_query_def scan_first.simps rd_def wr_def same_ifname_def)
  show ?thesis
    using bridge_neighbor_redirected [OF inv, of demo_ienv "demo_data 7 0xC0A80003 1" 0 c 8 "0xC0A80002" 1] q c
    by (auto simp: demo_ienv_def demo_bridge_def IPACM_Neighbor_new_def demo_data_def usable_v4_def)
qed

text \<open>
  C6: what the cache remembers of a neighbour completes its later events: when a client whose
  address is known joins the WLAN interface again, the event that it has an address is posted
  with that address, though the join says nothing of it.
\<close>

theorem neighbor_address_remembered:
  assumes "nb_inv s" "plain_iface env (ev_if_index d) k (n_config s)" "usable_v4 d" "has_room s"
    and "cached s (ev_mac_addr d) \<noteq> None \<or> num_neighbor_client s < IPA_MAX_NUM_NEIGHBOR_CLIENTS" "ie_malloc_ok env'"
    and "attrib_mac (ie_junk_mac env') as = ev_mac_addr d"
  shows "\<exists>s' s''. neigh_callback env (NEW_NEIGH d) s = Some s' \<and>
    neigh_callback env' (WLAN_CLIENT_ADD_EX (ev_if_index d) as) s' = Some s'' \<and>
    n_posted s'' = n_posted s' @ [(IPA_NEIGH_CLIENT_IP_ADDR_ADD_EVENT, \<lparr>ev_iptype = IPA_IP_v4, ev_if_index = ev_if_index d,
      ev_ipv4_addr = ev_ipv4_addr d, ev_ipv6_addr = ie_junk_ipv6 env', ev_mac_addr = ev_mac_addr d\<rparr>)]"
proof -
  from plain_event [OF assms(1-4), where isNew = True and env' = env'] assms(5)
  obtain s' where s': "neigh_event env True d s = Some s'" "kept s s'" "plain_iface env' (ev_if_index d) k (n_config s')"
    "cached s' = (cached s)(ev_mac_addr d \<mapsto> (ev_if_index d, ev_ipv4_addr d, int k))" by auto
  obtain c where q: "n_query env' (ev_if_index d) s' = Some (int k, s'\<lparr>n_config := c\<rparr>)" "kept s' (s'\<lparr>n_config := c\<rparr>)" "k < length (iface_table c)"
    "ipa_virtual_iface_name c \<noteq> iface_name (iface_table c ! k)" by (rule plain_query [OF kept_inv [OF s'(2)] s'(3)])
  have "cached (s'\<lparr>n_config := c\<rparr>) = cached s'" by (simp add: cached_def)
  then show ?thesis
    using wlan_add_cached [OF kept_inv [OF s'(2)], of env' "ev_if_index d" k "s'\<lparr>n_config := c\<rparr>" as] q s' assms(3,6,7)
    by (auto simp: usable_v4_def)
qed

lemma neighbor_address_remembered_witness:
  "\<exists>s' s''. neigh_callback demo_ienv (NEW_NEIGH (demo_data 8 0xC0A80002 1)) (IPACM_Neighbor_new demo_config) = Some s' \<and>
    neigh_callback demo_ienv (WLAN_CLIENT_ADD_EX 8 [WLAN_HDR_ATTRIB_MAC_ADDR [1, 0, 0, 0, 0, 0]]) s' = Some s'' \<and>
    map (ev_ipv4_addr \<circ> snd) (n_posted s'') = map (ev_ipv4_addr \<circ> snd) (n_posted s') @ [0xC0A80002]"
  using neighbor_address_remembered [of "IPACM_Neighbor_new demo_config" demo_ienv "demo_data 8 0xC0A80002 1" 1 demo_ienv
      "[WLAN_HDR_ATTRIB_MAC_ADDR [1, 0, 0, 0, 0, 0]]"] new_inv [OF demo_plain(2)] demo_plain(1)
  by (auto simp: IPACM_Neighbor_new_def demo_ienv_def)

end
