(* ===== verification/Loc_Heap.thy ===== *)
theory Loc_Heap
  imports Prelude "HOL-Library.Multiset"
begin

text \<open>
  The heap of the GPS utilities (gps/utils/LocHeap.cpp and LocHeap.h): a binary tree whose nodes hold
  pointers to the client's data, ordered downwards by the virtual method \<open>ranks\<close>, which is an
  argument here. A node is known by its place only: the operations exchange data between nodes and
  never move a node, so the tree is a value, with \<open>Null\<close> for a null pointer. Data are compared by
  address, which is equality of the type \<open>'d\<close>.
\<close>

datatype 'd node = is_Null: Null | Node (mSize: int) (mData: 'd) (mLeft: "'d node") (mRight: "'d node")

definition outRanks :: "('d \<Rightarrow> 'd \<Rightarrow> int) \<Rightarrow> 'd \<Rightarrow> 'd \<Rightarrow> bool" where
  "outRanks ranks a b \<longleftrightarrow> ranks a b > 0"

section \<open>Nodes\<close>

text \<open>A new node, and the data of a node exchanged.\<close>

definition new_node :: "'d \<Rightarrow> 'd node" where
  "new_node d = Node 1 d Null Null"

fun set_data :: "'d \<Rightarrow> 'd node \<Rightarrow> 'd node" where
  "set_data d Null = Null"
| "set_data d (Node s e l r) = Node s d l r"

lemma size_set_data [simp]: "size (set_data d t) = size t"
  by (cases t) simp_all

text \<open>The higher of the two data stays, the other goes down into the smaller subtree.\<close>

fun node_push :: "('d \<Rightarrow> 'd \<Rightarrow> int) \<Rightarrow> 'd \<Rightarrow> 'd node \<Rightarrow> 'd node option" where
  "node_push ranks x Null = None"
| "node_push ranks x (Node s d l r) =
     (let (d, x) = (if outRanks ranks x d then (x, d) else (d, x)) in
      if is_Null l then Some (Node (s + 1) d (new_node x) r)
      else if is_Null r then Some (Node (s + 1) d l (new_node x))
      else if mSize l \<le> mSize r then do { l \<leftarrow> node_push ranks x l; Some (Node (s + 1) d l r) }
      else do { r \<leftarrow> node_push ranks x r; Some (Node (s + 1) d l r) })"

text \<open>
  The data of the top go down along the higher children to a leaf, which is cut off: the tree that
  is left, and the data of that leaf.
\<close>

function node_pop :: "('d \<Rightarrow> 'd \<Rightarrow> int) \<Rightarrow> 'd node \<Rightarrow> ('d node \<times> 'd) option" where
  "node_pop ranks Null = None"
| "node_pop ranks (Node s d l r) =
     (if is_Null l \<and> is_Null r then Some (Null, d)
      else if (if is_Null l then True else if is_Null r then False else \<not> outRanks ranks (mData l) (mData r))
      then do { (r', popped) \<leftarrow> node_pop ranks (set_data d r); Some (Node (s - 1) (mData r) l r', popped) }
      else do { (l', popped) \<leftarrow> node_pop ranks (set_data d l); Some (Node (s - 1) (mData l) l' r, popped) })"
  by pat_completeness auto

termination by (relation "measure (\<lambda>(ranks, t). size t)") auto

text \<open>The search for data by address, in the part of the tree that they do not outrank.\<close>

fun node_remove :: "('d \<Rightarrow> 'd \<Rightarrow> int) \<Rightarrow> 'd \<Rightarrow> 'd node \<Rightarrow> ('d node \<times> 'd option) option" where
  "node_remove ranks x Null = None"
| "node_remove ranks x (Node s d l r) =
     (if x = d then map_option (\<lambda>(t, popped). (t, Some popped)) (node_pop ranks (Node s d l r))
      else if \<not> outRanks ranks x d
      then do {
        (l, removed) \<leftarrow> (if is_Null l then Some (l, None) else node_remove ranks x l);
        (r, removed) \<leftarrow> (if removed = None \<and> \<not> is_Null r then node_remove ranks x r else Some (r, removed));
        Some (Node (if removed = None then s else s - 1) d l r, removed)
      }
      else Some (Node s d l r, None))"

fun checkNodes :: "('d \<Rightarrow> 'd \<Rightarrow> int) \<Rightarrow> 'd node \<Rightarrow> bool" where
  "checkNodes ranks Null = False"
| "checkNodes ranks (Node s d l r) =
     (if \<not> is_Null l \<and> (outRanks ranks (mData l) d \<or> \<not> checkNodes ranks l) then False
      else if \<not> is_Null r \<and> (outRanks ranks (mData r) d \<or> \<not> checkNodes ranks r) then False
      else s - (if is_Null l then 0 else mSize l) - (if is_Null r then 0 else mSize r) = 1)"

section \<open>The heap\<close>

text \<open>The tree of the heap is null when it is empty. A null result is \<open>None\<close> inside the outer option.\<close>

definition heap_push :: "('d \<Rightarrow> 'd \<Rightarrow> int) \<Rightarrow> 'd \<Rightarrow> 'd node \<Rightarrow> 'd node option" where
  "heap_push ranks x mTree = (if is_Null mTree then Some (new_node x) else node_push ranks x mTree)"

definition heap_peek :: "'d node \<Rightarrow> 'd option" where
  "heap_peek mTree = (if is_Null mTree then None else Some (mData mTree))"

definition heap_pop :: "('d \<Rightarrow> 'd \<Rightarrow> int) \<Rightarrow> 'd node \<Rightarrow> ('d node \<times> 'd option) option" where
  "heap_pop ranks mTree =
     (if is_Null mTree then Some (mTree, None) else map_option (\<lambda>(t, d). (t, Some d)) (node_pop ranks mTree))"

definition heap_remove :: "('d \<Rightarrow> 'd \<Rightarrow> int) \<Rightarrow> 'd \<Rightarrow> 'd node \<Rightarrow> ('d node \<times> 'd option) option" where
  "heap_remove ranks x mTree = (if is_Null mTree then Some (mTree, None) else node_remove ranks x mTree)"

definition checkTree :: "('d \<Rightarrow> 'd \<Rightarrow> int) \<Rightarrow> 'd node \<Rightarrow> bool" where
  "checkTree ranks mTree \<longleftrightarrow> is_Null mTree \<or> checkNodes ranks mTree"

definition getTreeSize :: "'d node \<Rightarrow> int" where
  "getTreeSize mTree = (if is_Null mTree then 0 else mSize mTree)"

section \<open>Rankings\<close>

text \<open>
  What the heap asks of the client's method: on the data that it is given, outranking is a strict
  weak order.
\<close>

locale ranking =
  fixes ranks :: "'d \<Rightarrow> 'd \<Rightarrow> int" and U :: "'d set"
  assumes asym: "a \<in> U \<Longrightarrow> b \<in> U \<Longrightarrow> outRanks ranks a b \<Longrightarrow> \<not> outRanks ranks b a"
    and not_trans: "a \<in> U \<Longrightarrow> b \<in> U \<Longrightarrow> c \<in> U \<Longrightarrow> \<not> outRanks ranks a b \<Longrightarrow> \<not> outRanks ranks b c \<Longrightarrow> \<not> outRanks ranks a c"

primrec data :: "'d node \<Rightarrow> 'd multiset" where
  "data Null = {#}"
| "data (Node s d l r) = add_mset d (data l + data r)"

text \<open>Stored sizes count the data, and nothing in a subtree outranks its top.\<close>

primrec heap_inv :: "('d \<Rightarrow> 'd \<Rightarrow> int) \<Rightarrow> 'd node \<Rightarrow> bool" where
  "heap_inv ranks Null \<longleftrightarrow> True"
| "heap_inv ranks (Node s d l r) \<longleftrightarrow> heap_inv ranks l \<and> heap_inv ranks r \<and> s = int (size (data l + data r)) + 1 \<and>
     (\<forall>x \<in># data l + data r. \<not> outRanks ranks x d)"

lemma data_set_data [simp]: "\<not> is_Null t \<Longrightarrow> data (set_data d t) = add_mset d (data (mLeft t) + data (mRight t))"
  by (cases t) simp_all

lemma data_node: "\<not> is_Null t \<Longrightarrow> data t = add_mset (mData t) (data (mLeft t) + data (mRight t))"
  by (cases t) simp_all

lemma data_empty [simp]: "data t = {#} \<longleftrightarrow> is_Null t"
  by (cases t) simp_all

lemma data_is_Null [simp]: "is_Null t \<Longrightarrow> data t = {#}"
  by simp

lemma data_topI: "x \<in># data t \<Longrightarrow> \<not> is_Null t \<and> mData t \<in># data t"
  by (cases t) simp_all

lemma heap_inv_size: "heap_inv ranks t \<Longrightarrow> \<not> is_Null t \<Longrightarrow> mSize t = int (size (data t))"
  by (cases t) simp_all

lemma heap_inv_top: "heap_inv ranks t \<Longrightarrow> x \<in># data t \<Longrightarrow> x = mData t \<or> \<not> outRanks ranks x (mData t)"
  by (cases t) auto

context ranking
begin

lemma refl: "a \<in> U \<Longrightarrow> \<not> outRanks ranks a a"
  using asym by blast

lemma push_step:
  assumes "heap_inv ranks t" "\<not> is_Null t" "set_mset (data t) \<subseteq> U" "x \<in> U"
  shows "\<exists>t'. node_push ranks x t = Some t' \<and> heap_inv ranks t' \<and> data t' = add_mset x (data t)"
  using assms
proof (induction t arbitrary: x)
  case (Node s d l r)
  obtain d' x' where dx: "(if outRanks ranks x d then (x, d) else (d, x)) = (d', x')" by fastforce
  have U: "d \<in> U" "x \<in> U" using Node.prems by simp_all
  have d': "{#d', x'#} = {#x, d#}" "d' \<in> U" "x' \<in> U" using dx U by (auto split: if_splits simp: add_mset_commute)
  have low: "\<not> outRanks ranks x' d'" using dx asym [OF U(2,1)] refl U by (auto split: if_splits)
  have top: "\<not> outRanks ranks y d'" if "y \<in># data l + data r" for y
  proof -
    have "y \<in> U" "\<not> outRanks ranks y d" using that Node.prems by auto
    then show ?thesis using dx not_trans [of y d x] asym [OF U(2,1)] U by (auto split: if_splits)
  qed
  have size: "s = int (size (data l + data r)) + 1" and ok: "heap_inv ranks l" "heap_inv ranks r" using Node.prems by simp_all
  have sub: "set_mset (data l) \<subseteq> U" "set_mset (data r) \<subseteq> U" using Node.prems by auto
  have swap: "add_mset d' (add_mset x' M) = add_mset x (add_mset d M)" for M using d'(1) by (metis add_mset_add_single union_mset_add_mset_left add_mset_commute empty_neutral(1))
  consider (l) "is_Null l" | (r) "\<not> is_Null l" "is_Null r" | (left) "\<not> is_Null l" "\<not> is_Null r" "mSize l \<le> mSize r"
    | (right) "\<not> is_Null l" "\<not> is_Null r" "\<not> mSize l \<le> mSize r" by blast
  then show ?case
  proof cases
    case l
    then have "l = Null" by (cases l) simp_all
    then show ?thesis using dx ok size top low swap [of "data r"] by (auto simp: new_node_def)
  next
    case r
    then have "r = Null" by (cases r) simp_all
    then show ?thesis using r dx ok size top low swap [of "data l"] by (auto simp: new_node_def)
  next
    case left
    obtain l' where "node_push ranks x' l = Some l'" "heap_inv ranks l'" "data l' = add_mset x' (data l)"
      using Node.IH(1) [OF ok(1) left(1) sub(1) d'(3)] by blast
    then show ?thesis using left dx ok size top low swap [of "data l + data r"] by auto
  next
    case right
    obtain r' where "node_push ranks x' r = Some r'" "heap_inv ranks r'" "data r' = add_mset x' (data r)"
      using Node.IH(2) [OF ok(2) right(2) sub(2) d'(3)] by blast
    then show ?thesis using right dx ok size top low swap [of "data l + data r"] by auto
  qed
qed simp

text \<open>The tree handed down is in order but for its top.\<close>

lemma pop_step:
  assumes "\<not> is_Null t" "heap_inv ranks (mLeft t)" "heap_inv ranks (mRight t)" "set_mset (data (mLeft t) + data (mRight t)) \<subseteq> U"
    and "mSize t = int (size (data t))"
  shows "\<exists>t'. node_pop ranks t = Some (t', mData t) \<and> heap_inv ranks t' \<and> data t' = data (mLeft t) + data (mRight t)"
  using assms
proof (induction "size t" arbitrary: t rule: less_induct)
  case less
  obtain s d l r where t: "t = Node s d l r" using less.prems(1) by (cases t) simp_all
  have ok: "heap_inv ranks l" "heap_inv ranks r" and U: "set_mset (data l) \<subseteq> U" "set_mset (data r) \<subseteq> U"
    and s: "s = int (size (data l + data r)) + 1" using less.prems t by simp_all
  have rec: "\<exists>u'. node_pop ranks (set_data d u) = Some (u', d) \<and> heap_inv ranks u' \<and> data u' = data (mLeft u) + data (mRight u)"
    if u: "u = l \<or> u = r" "\<not> is_Null u" for u
  proof -
    obtain s' d' l' r' where n: "u = Node s' d' l' r'" using u(2) by (cases u) simp_all
    have "size (set_data d u) < size t" using u t by auto
    from less.hyps [OF this] show ?thesis using n u(1) ok U by auto
  qed
  have top: "heap_inv ranks t' \<Longrightarrow> \<forall>x \<in># data u + data v. \<not> outRanks ranks x (mData u) \<Longrightarrow>
      data t' = data (mLeft u) + data (mRight u) \<Longrightarrow> heap_inv ranks v \<Longrightarrow> \<not> is_Null u \<Longrightarrow> s = int (size (data u + data v)) + 1 \<Longrightarrow>
      heap_inv ranks (Node (s - 1) (mData u) t' v) \<and> heap_inv ranks (Node (s - 1) (mData u) v t') \<and>
      data (Node (s - 1) (mData u) t' v) = data u + data v \<and> data (Node (s - 1) (mData u) v t') = data u + data v" for t' u v
    using data_node [of u] by auto
  have high: "\<forall>x \<in># data u + data v. \<not> outRanks ranks x (mData u)"
    if uv: "heap_inv ranks u" "heap_inv ranks v" "\<not> is_Null u" "set_mset (data u) \<subseteq> U" "set_mset (data v) \<subseteq> U"
      "is_Null v \<or> \<not> outRanks ranks (mData v) (mData u)" for u v
  proof
    fix x assume x: "x \<in># data u + data v"
    have u: "mData u \<in> U" using uv(3,4) data_node [of u] by auto
    show "\<not> outRanks ranks x (mData u)"
    proof (cases "x \<in># data u")
      case True then show ?thesis using heap_inv_top [OF uv(1) True] refl [OF u] by auto
    next
      case False
      then have x: "x \<in># data v" using x by simp
      then have v: "\<not> is_Null v" "mData v \<in> U" "x \<in> U" using uv(5) data_topI [OF x] by auto
      then show ?thesis using heap_inv_top [OF uv(2) x] uv(6) not_trans [OF v(3,2) u] by auto
    qed
  qed
  consider (leaf) "is_Null l" "is_Null r"
    | (right) "\<not> is_Null r" "is_Null l \<or> \<not> outRanks ranks (mData l) (mData r)"
    | (left) "\<not> is_Null l" "is_Null r \<or> outRanks ranks (mData l) (mData r)" by blast
  then show ?case
  proof cases
    case leaf
    then show ?thesis using t by simp
  next
    case right
    obtain r' where r': "node_pop ranks (set_data d r) = Some (r', d)" "heap_inv ranks r'" "data r' = data (mLeft r) + data (mRight r)"
      using rec [of r] right(1) by blast
    have "\<forall>x \<in># data r + data l. \<not> outRanks ranks x (mData r)" by (rule high) (use ok U right in simp_all)
    from top [OF r'(2) this r'(3) ok(1) right(1)] show ?thesis using t r'(1) right s by (auto simp: add.commute)
  next
    case left
    obtain l' where l': "node_pop ranks (set_data d l) = Some (l', d)" "heap_inv ranks l'" "data l' = data (mLeft l) + data (mRight l)"
      using rec [of l] left(1) by blast
    have "is_Null r \<or> \<not> outRanks ranks (mData r) (mData l)"
      using left asym [of "mData l" "mData r"] U data_node [of l] data_node [of r] by auto
    then have "\<forall>x \<in># data l + data r. \<not> outRanks ranks x (mData l)" by (intro high) (use ok U left in simp_all)
    from top [OF l'(2) this l'(3) ok(2) left(1)] show ?thesis using t l'(1) left s by auto
  qed
qed

lemma remove_step:
  assumes "heap_inv ranks t" "\<not> is_Null t" "set_mset (data t) \<subseteq> U" "x \<in> U"
  shows "\<exists>t'. node_remove ranks x t = Some (t', if x \<in># data t then Some x else None) \<and> heap_inv ranks t' \<and> data t' = data t - {#x#} \<and>
    (x \<noteq> mData t \<longrightarrow> \<not> is_Null t' \<and> mData t' = mData t) \<and> (x \<notin># data t \<longrightarrow> t' = t)"
  using assms
proof (induction t)
  case (Node s d l r)
  have ok: "heap_inv ranks l" "heap_inv ranks r" and U: "set_mset (data l) \<subseteq> U" "set_mset (data r) \<subseteq> U" "d \<in> U"
    and s: "s = int (size (data l + data r)) + 1" and top: "\<forall>y \<in># data l + data r. \<not> outRanks ranks y d"
    using Node.prems by simp_all
  show ?case
  proof (cases "x = d")
    case True
    obtain t' where "node_pop ranks (Node s d l r) = Some (t', d)" "heap_inv ranks t'" "data t' = data l + data r"
      using pop_step [of "Node s d l r"] ok U s by auto
    then show ?thesis using True by auto
  next
    case False
    show ?thesis
    proof (cases "outRanks ranks x d")
      case True
      then have "x \<notin># data l + data r" using top by blast
      then show ?thesis using False True Node.prems(1) by simp
    next
      case out: False
      let ?a = "if x \<in># data l then Some x else None" and ?b = "if x \<in># data r then Some x else None"
      obtain l' where l': "(if is_Null l then Some (l, None) else node_remove ranks x l) = Some (l', ?a)"
        "heap_inv ranks l'" "data l' = data l - {#x#}" "x \<notin># data l \<longrightarrow> l' = l"
      proof (cases "is_Null l")
        case True
        then have "l = Null" by (cases l) simp_all
        then show thesis using that [of Null] by simp
      next
        case False
        obtain t where "node_remove ranks x l = Some (t, if x \<in># data l then Some x else None)" "heap_inv ranks t"
          "data t = data l - {#x#}" "x \<notin># data l \<longrightarrow> t = l" using Node.IH(1) [OF ok(1) False U(1) Node.prems(4)] by blast
        then show thesis using that [of t] False by (simp only: if_False not_False_eq_True if_True)
      qed
      obtain r' where r': "(if \<not> is_Null r then node_remove ranks x r else Some (r, None)) = Some (r', ?b)"
        "heap_inv ranks r'" "data r' = data r - {#x#}" "x \<notin># data r \<longrightarrow> r' = r"
      proof (cases "is_Null r")
        case True
        then have "r = Null" by (cases r) simp_all
        then show thesis using that [of Null] by simp
      next
        case False
        obtain t where "node_remove ranks x r = Some (t, if x \<in># data r then Some x else None)" "heap_inv ranks t"
          "data t = data r - {#x#}" "x \<notin># data r \<longrightarrow> t = r" using Node.IH(2) [OF ok(2) False U(2) Node.prems(4)] by blast
        then show thesis using that [of t] False by (simp only: if_False not_False_eq_True if_True)
      qed
      have run: "node_remove ranks x (Node s d l r) = do {
          (r, removed) \<leftarrow> (if ?a = None \<and> \<not> is_Null r then node_remove ranks x r else Some (r, ?a));
          Some (Node (if removed = None then s else s - 1) d l' r, removed) }"
        using False out by (simp add: l'(1))
      consider (left) "x \<in># data l" | (right) "x \<notin># data l" "x \<in># data r" | (no) "x \<notin># data l" "x \<notin># data r" by blast
      then show ?thesis
      proof cases
        case left
        have sz: "size (data l) = Suc (size (data l'))" unfolding l'(3) using left by (metis size_Suc_Diff1)
        have res: "node_remove ranks x (Node s d l r) = Some (Node (s - 1) d l' r, Some x)" unfolding run using left by simp
        have d: "add_mset d (data l' + data r) = data (Node s d l r) - {#x#}" using left False by (simp add: l'(3))
        have "\<forall>y \<in># data l' + data r. \<not> outRanks ranks y d" using top l'(3) by (auto dest: in_diffD)
        then have "heap_inv ranks (Node (s - 1) d l' r)" using l'(2) ok(2) s sz by simp
        then show ?thesis unfolding res using False left d by (simp del: heap_inv.simps)
      next
        case right
        have l'l: "l' = l" using l'(4) right by simp
        have sz: "size (data r) = Suc (size (data r'))" unfolding r'(3) using right(2) by (metis size_Suc_Diff1)
        have res: "node_remove ranks x (Node s d l r) = Some (Node (s - 1) d l r', Some x)"
          unfolding run using right data_topI [OF right(2)] r'(1) by (simp add: l'l)
        have d: "add_mset d (data l + data r') = data (Node s d l r) - {#x#}" using right False by (simp add: r'(3))
        have "\<forall>y \<in># data l + data r'. \<not> outRanks ranks y d" using top r'(3) by (auto dest: in_diffD)
        then have "heap_inv ranks (Node (s - 1) d l r')" using r'(2) ok(1) s sz by simp
        then show ?thesis unfolding res using False right d by (simp del: heap_inv.simps)
      next
        case no
        then have "node_remove ranks x (Node s d l r) = Some (Node s d l r, None)"
          unfolding run using l'(4) r'(1,4) by (cases "is_Null r") simp_all
        then show ?thesis using no False Node.prems(1) by (simp add: diff_single_trivial del: node_remove.simps)
      qed
    qed
  qed
qed simp

text \<open>The operations of the heap on the multiset of its data.\<close>

lemma heap_push_spec:
  assumes "heap_inv ranks t" "set_mset (data t) \<subseteq> U" "x \<in> U"
  shows "\<exists>t'. heap_push ranks x t = Some t' \<and> heap_inv ranks t' \<and> data t' = add_mset x (data t) \<and> \<not> is_Null t' \<and>
    (if \<not> is_Null t \<and> \<not> outRanks ranks x (mData t) then mData t' = mData t else mData t' = x)"
proof (cases "is_Null t")
  case True
  then have "t = Null" by (cases t) simp_all
  then show ?thesis by (simp add: heap_push_def new_node_def)
next
  case False
  obtain t' where t': "node_push ranks x t = Some t'" "heap_inv ranks t'" "data t' = add_mset x (data t)"
    using push_step [OF assms(1) False assms(2,3)] by blast
  have "mData t' = (if outRanks ranks x (mData t) then x else mData t)" "\<not> is_Null t'"
    using t'(1) False by (cases t; auto simp: Let_def split: if_splits option.splits bind_splits)+
  then show ?thesis using t' False by (simp add: heap_push_def)
qed

lemma heap_peek_spec:
  assumes "heap_inv ranks t"
  shows "case heap_peek t of None \<Rightarrow> data t = {#} | Some x \<Rightarrow> x \<in># data t \<and> (\<forall>y \<in># data t - {#x#}. \<not> outRanks ranks y x)"
  using assms by (cases t) (simp_all add: heap_peek_def)

lemma heap_pop_spec:
  assumes "heap_inv ranks t" "set_mset (data t) \<subseteq> U"
  shows "\<exists>t'. heap_pop ranks t = Some (t', heap_peek t) \<and> heap_inv ranks t' \<and>
    data t' = (case heap_peek t of None \<Rightarrow> {#} | Some x \<Rightarrow> data t - {#x#})"
proof (cases t)
  case (Node s d l r)
  then show ?thesis using pop_step [of t] assms by (auto simp: heap_pop_def heap_peek_def)
qed (simp add: heap_pop_def heap_peek_def)

lemma heap_remove_spec:
  assumes "heap_inv ranks t" "set_mset (data t) \<subseteq> U" "x \<in> U"
  shows "\<exists>t'. heap_remove ranks x t = Some (t', if x \<in># data t then Some x else None) \<and> heap_inv ranks t' \<and>
    data t' = data t - {#x#} \<and> (heap_peek t \<noteq> Some x \<longrightarrow> heap_peek t' = heap_peek t)"
proof (cases "is_Null t")
  case True
  then have "t = Null" by (cases t) simp_all
  then show ?thesis by (simp add: heap_remove_def)
next
  case False
  obtain t' where t': "node_remove ranks x t = Some (t', if x \<in># data t then Some x else None)" "heap_inv ranks t'" "data t' = data t - {#x#}"
    "x \<noteq> mData t \<longrightarrow> \<not> is_Null t' \<and> mData t' = mData t" using remove_step [OF assms(1) False assms(2,3)] by blast
  have "heap_peek t \<noteq> Some x \<longrightarrow> heap_peek t' = heap_peek t" using t'(4) False by (simp add: heap_peek_def)
  then show ?thesis using t'(1-3) False by (intro exI [of _ t']) (simp only: heap_remove_def if_False simp_thms)
qed

text \<open>The check of the debug code is the invariant.\<close>

lemma checkNodes_iff:
  assumes "\<not> is_Null t" "set_mset (data t) \<subseteq> U"
  shows "checkNodes ranks t \<longleftrightarrow> heap_inv ranks t"
  using assms
proof (induction t)
  case (Node s d l r)
  have low: "(\<forall>x \<in># data u. \<not> outRanks ranks x d) \<longleftrightarrow> is_Null u \<or> \<not> outRanks ranks (mData u) d"
    if u: "set_mset (data u) \<subseteq> U" "heap_inv ranks u" for u
  proof (cases "is_Null u")
    case True
    then have "u = Null" by (cases u) simp_all
    then show ?thesis by simp
  next
    case False
    have top: "mData u \<in># data u" using data_node [OF False] by simp
    have "\<not> outRanks ranks x d" if "x \<in># data u" "\<not> outRanks ranks (mData u) d" for x
      using heap_inv_top [OF u(2) that(1)] that(2) not_trans [of x "mData u" d] that(1) top u(1) Node.prems(2) by auto
    then show ?thesis using False top by blast
  qed
  have size: "(if is_Null u then 0 else mSize u) = int (size (data u))" if "heap_inv ranks u" for u
    using heap_inv_size [OF that] by (cases u) simp_all
  have U: "set_mset (data l) \<subseteq> U" "set_mset (data r) \<subseteq> U" using Node.prems(2) by simp_all
  have ok: "heap_inv ranks u \<longleftrightarrow> is_Null u \<or> checkNodes ranks u" if "u = l \<or> u = r" for u
    using Node.IH U that by (cases "is_Null u") (auto elim: node.set_cases simp: is_Null_def)
  have "checkNodes ranks (Node s d l r) \<longleftrightarrow> heap_inv ranks l \<and> heap_inv ranks r \<and>
      (is_Null l \<or> \<not> outRanks ranks (mData l) d) \<and> (is_Null r \<or> \<not> outRanks ranks (mData r) d) \<and>
      s - (if is_Null l then 0 else mSize l) - (if is_Null r then 0 else mSize r) = 1"
    using ok [of l] ok [of r] by auto
  also have "\<dots> \<longleftrightarrow> heap_inv ranks (Node s d l r)"
  proof (cases "heap_inv ranks l \<and> heap_inv ranks r")
    case True
    have "s - (if is_Null l then 0 else mSize l) - (if is_Null r then 0 else mSize r) = 1 \<longleftrightarrow> s = int (size (data l + data r)) + 1"
      using size [of l] size [of r] True by auto
    then show ?thesis using low [OF U(1)] low [OF U(2)] True by (simp only: heap_inv.simps set_mset_union ball_Un) blast
  next
    case False
    then show ?thesis unfolding heap_inv.simps by blast
  qed
  finally show ?case .
qed simp

end

end
