(* ===== verification/Loc_Timer.thy ===== *)
theory Loc_Timer
  imports Loc_Heap
begin

text \<open>
  The timers of the GPS utilities (gps/utils/LocTimer.cpp): a client's \<open>LocTimer\<close> has at most one
  internal timer (\<open>LocTimerDelegate\<close>), which lives from \<open>start\<close> until the message that removes it is
  processed. A container (\<open>LocTimerContainer\<close>, one for timers and one for alarms) is a heap of them by
  the time they are due; all its changes are messages processed in order by one thread
  (\<open>MsgTask\<close>). Another thread polls the descriptor of each container, which is armed with the time
  of the soonest timer.

  Timers and clients are numbers; a timer that was deleted is absent from \<open>t_dels\<close>, and using it is
  undefined. Reading the clock and creating the descriptor are arguments, and so are the calls that a
  client's callback makes. \<open>LocTimerWrapper\<close>, the C interface, is not in the model.
\<close>

record timespec =
  tv_sec :: int
  tv_nsec :: int

record loc_timer_delegate =
  mClient :: "nat option"
  mFutureTime :: timespec
  mContainer :: "bool option"

record loc_timer_container =
  mTree :: "nat node"
  armed :: "timespec option"
  polled :: bool

datatype timer_msg = MsgTimerPush bool nat | MsgTimerRemove bool nat | MsgTimerExpire bool

record timers =
  t_cont :: "bool \<Rightarrow> loc_timer_container option"
  t_dels :: "nat \<Rightarrow> loc_timer_delegate option"
  t_next :: nat
  t_client :: "nat \<Rightarrow> nat option"
  t_msgs :: "timer_msg list"
  t_fired :: "nat list"

definition timers_new :: timers where
  "timers_new = \<lparr>t_cont = (\<lambda>_. None), t_dels = (\<lambda>_. None), t_next = 0, t_client = (\<lambda>_. None), t_msgs = [], t_fired = []\<rparr>"

section \<open>Ranks\<close>

text \<open>The differences are converted to a 32 bit integer; a larger time ranks lower.\<close>

definition time_ranks :: "timespec \<Rightarrow> timespec \<Rightarrow> int" where
  "time_ranks this timer =
     (let rank = signed_take_bit 31 (tv_sec timer - tv_sec this) in
      if rank = 0 then signed_take_bit 31 (tv_nsec timer - tv_nsec this) else rank)"

definition time_of :: "(nat \<Rightarrow> loc_timer_delegate option) \<Rightarrow> nat \<Rightarrow> timespec" where
  "time_of dels d = (case dels d of Some t \<Rightarrow> mFutureTime t | None \<Rightarrow> \<lparr>tv_sec = 0, tv_nsec = 0\<rparr>)"

definition timer_ranks :: "(nat \<Rightarrow> loc_timer_delegate option) \<Rightarrow> nat \<Rightarrow> nat \<Rightarrow> int" where
  "timer_ranks dels a b = time_ranks (time_of dels a) (time_of dels b)"

text \<open>Whether all timers of a tree still exist: its operations read any of them.\<close>

fun all_live :: "(nat \<Rightarrow> loc_timer_delegate option) \<Rightarrow> nat node \<Rightarrow> bool" where
  "all_live dels Null = True"
| "all_live dels (Node s d l r) \<longleftrightarrow> dels d \<noteq> None \<and> all_live dels l \<and> all_live dels r"

section \<open>Containers\<close>

text \<open>The container is created on first use; \<open>timerfd\<close> says whether its descriptor can be.\<close>

definition container_get :: "(bool \<Rightarrow> bool) \<Rightarrow> bool \<Rightarrow> timers \<Rightarrow> bool \<times> timers" where
  "container_get timerfd b s =
     (case t_cont s b of
        Some c \<Rightarrow> (True, s)
      | None \<Rightarrow>
          if timerfd b
          then (True, s\<lparr>t_cont := (t_cont s)(b := Some \<lparr>mTree = Null, armed = None, polled = False\<rparr>)\<rparr>)
          else (False, s))"

definition put_cont :: "bool \<Rightarrow> loc_timer_container \<Rightarrow> timers \<Rightarrow> timers" where
  "put_cont b c s = s\<lparr>t_cont := (t_cont s)(b := Some c)\<rparr>"

definition sendMsg :: "timer_msg \<Rightarrow> timers \<Rightarrow> timers" where
  "sendMsg m s = s\<lparr>t_msgs := t_msgs s @ [m]\<rparr>"

text \<open>The descriptor is set when the soonest timer has changed.\<close>

definition updateSoonestTime :: "nat option \<Rightarrow> (nat \<Rightarrow> loc_timer_delegate option) \<Rightarrow> loc_timer_container \<Rightarrow> loc_timer_container option" where
  "updateSoonestTime priorTop dels c =
     (let curTop = heap_peek (mTree c) in
      if curTop = priorTop then Some c
      else case curTop of
          None \<Rightarrow> Some (c\<lparr>armed := None, polled := False\<rparr>)
        | Some cur \<Rightarrow> do {
            t \<leftarrow> dels cur;
            better \<leftarrow> (case priorTop of
                None \<Rightarrow> Some True
              | Some p \<Rightarrow> map_option (\<lambda>_. outRanks (timer_ranks dels) cur p) (dels p));
            Some (if better then c\<lparr>armed := Some (mFutureTime t), polled := True\<rparr> else c)
          })"

definition proc_push :: "bool \<Rightarrow> nat \<Rightarrow> timers \<Rightarrow> timers option" where
  "proc_push b d s =
     do {
       c \<leftarrow> t_cont s b;
       let dels = t_dels s;
       if dels d = None \<or> \<not> all_live dels (mTree c) then None
       else do {
         let priorTop = heap_peek (mTree c);
         t \<leftarrow> heap_push (timer_ranks dels) d (mTree c);
         c \<leftarrow> updateSoonestTime priorTop dels (c\<lparr>mTree := t\<rparr>);
         Some (put_cont b c s)
       }
     }"

definition proc_remove :: "bool \<Rightarrow> nat \<Rightarrow> timers \<Rightarrow> timers option" where
  "proc_remove b d s =
     do {
       c \<leftarrow> t_cont s b;
       let dels = t_dels s;
       if dels d = None \<or> \<not> all_live dels (mTree c) then None
       else do {
         let priorTop = heap_peek (mTree c);
         (t, removed) \<leftarrow> heap_remove (timer_ranks dels) d (mTree c);
         c \<leftarrow> (if priorTop = removed then updateSoonestTime None dels (c\<lparr>mTree := t\<rparr>) else Some (c\<lparr>mTree := t\<rparr>));
         Some (put_cont b c (s\<lparr>t_dels := dels(d := None)\<rparr>))
       }
     }"

text \<open>Pops unless the given time is before that of the soonest timer.\<close>

definition popIfOutRanks :: "timespec \<Rightarrow> bool \<Rightarrow> timers \<Rightarrow> (nat option \<times> timers) option" where
  "popIfOutRanks now b s =
     do {
       c \<leftarrow> t_cont s b;
       let dels = t_dels s;
       if \<not> all_live dels (mTree c) then None
       else case heap_peek (mTree c) of
           None \<Rightarrow> Some (None, s)
         | Some soonest \<Rightarrow>
             if time_ranks now (time_of dels soonest) > 0 then Some (None, s)
             else do {
               (t, popped) \<leftarrow> heap_pop (timer_ranks dels) (mTree c);
               Some (popped, put_cont b (c\<lparr>mTree := t\<rparr>) s)
             }
     }"

definition pop_first :: "bool \<Rightarrow> timers \<Rightarrow> (nat option \<times> timers) option" where
  "pop_first b s =
     do {
       c \<leftarrow> t_cont s b;
       if \<not> all_live (t_dels s) (mTree c) then None
       else do {
         (t, popped) \<leftarrow> heap_pop (timer_ranks (t_dels s)) (mTree c);
         Some (popped, put_cont b (c\<lparr>mTree := t\<rparr>) s)
       }
     }"

text \<open>The polling thread: the descriptor is disarmed, and the expiration becomes a message.\<close>

definition container_expire :: "bool \<Rightarrow> timers \<Rightarrow> timers option" where
  "container_expire b s =
     do { c \<leftarrow> t_cont s b; Some (sendMsg (MsgTimerExpire b) (put_cont b (c\<lparr>armed := None, polled := False\<rparr>) s)) }"

section \<open>Clients\<close>

text \<open>The time in \<open>timeOutInMs\<close> milliseconds.\<close>

definition future_time :: "nat \<Rightarrow> timespec \<Rightarrow> timespec" where
  "future_time timeOutInMs now =
     (let sec = tv_sec now + int (timeOutInMs div 1000); nsec = tv_nsec now + int ((timeOutInMs mod 1000) * 1000000) in
      if nsec \<ge> 1000000000 then \<lparr>tv_sec = sec + nsec div 1000000000, tv_nsec = nsec mod 1000000000\<rparr>
      else \<lparr>tv_sec = sec, tv_nsec = nsec\<rparr>)"

definition timer_start :: "(bool \<Rightarrow> bool) \<Rightarrow> nat \<Rightarrow> nat \<Rightarrow> bool \<Rightarrow> timespec \<Rightarrow> timers \<Rightarrow> (bool \<times> timers) option" where
  "timer_start timerfd client timeOutInMs wakeOnExpire now s =
     (if t_client s client \<noteq> None then Some (False, s)
      else
        let (created, s) = container_get timerfd wakeOnExpire s; d = t_next s in
        if \<not> created then None
        else Some (True, sendMsg (MsgTimerPush wakeOnExpire d)
          (s\<lparr>t_dels := (t_dels s)(d \<mapsto> \<lparr>mClient = Some client, mFutureTime = future_time timeOutInMs now,
               mContainer = Some wakeOnExpire\<rparr>),
             t_next := Suc d, t_client := (t_client s)(client := Some d)\<rparr>)))"

definition destroyLocked :: "nat \<Rightarrow> timers \<Rightarrow> timers option" where
  "destroyLocked d s =
     do {
       t \<leftarrow> t_dels s d;
       let s = s\<lparr>t_dels := (t_dels s)(d \<mapsto> t\<lparr>mClient := None, mContainer := None\<rparr>)\<rparr>;
       Some (case mContainer t of None \<Rightarrow> s | Some b \<Rightarrow> sendMsg (MsgTimerRemove b d) s)
     }"

definition timer_stop :: "nat \<Rightarrow> timers \<Rightarrow> (bool \<times> timers) option" where
  "timer_stop client s =
     (case t_client s client of
        None \<Rightarrow> Some (False, s)
      | Some d \<Rightarrow> map_option (Pair True) (destroyLocked d (s\<lparr>t_client := (t_client s)(client := None)\<rparr>)))"

text \<open>What a client does: start and stop its timer, in its own thread or in its callback.\<close>

datatype client_op = START nat nat bool timespec | STOP nat

fun client_step :: "(bool \<Rightarrow> bool) \<Rightarrow> client_op \<Rightarrow> timers \<Rightarrow> timers option" where
  "client_step timerfd (START client ms wake now) s = map_option snd (timer_start timerfd client ms wake now s)"
| "client_step timerfd (STOP client) s = map_option snd (timer_stop client s)"

fun client_steps :: "(bool \<Rightarrow> bool) \<Rightarrow> client_op list \<Rightarrow> timers \<Rightarrow> timers option" where
  "client_steps timerfd [] s = Some s"
| "client_steps timerfd (p # ps) s = do { s \<leftarrow> client_step timerfd p s; client_steps timerfd ps s }"

text \<open>Expiration of a timer: if its client has not stopped it, the client is told.\<close>

definition delegate_expire :: "(bool \<Rightarrow> bool) \<Rightarrow> (nat \<Rightarrow> client_op list) \<Rightarrow> nat \<Rightarrow> timers \<Rightarrow> timers option" where
  "delegate_expire timerfd callback d s =
     do {
       t \<leftarrow> t_dels s d;
       case mClient t of
         None \<Rightarrow> Some s
       | Some client \<Rightarrow> do {
           (stopped, s) \<leftarrow> timer_stop client s;
           if stopped then client_steps timerfd (callback client) (s\<lparr>t_fired := t_fired s @ [client]\<rparr>) else Some s
         }
     }"

partial_function (option) expire_loop ::
  "(bool \<Rightarrow> bool) \<Rightarrow> (nat \<Rightarrow> client_op list) \<Rightarrow> timespec \<Rightarrow> bool \<Rightarrow> nat option \<Rightarrow> timers \<Rightarrow> timers option" where
  [code]: "expire_loop timerfd callback now b timer s =
     (case timer of
        None \<Rightarrow> Some s
      | Some d \<Rightarrow> do {
          s \<leftarrow> delegate_expire timerfd callback d s;
          (timer, s) \<leftarrow> popIfOutRanks now b s;
          expire_loop timerfd callback now b timer s
        })"

definition proc_expire :: "(bool \<Rightarrow> bool) \<Rightarrow> (nat \<Rightarrow> client_op list) \<Rightarrow> timespec \<Rightarrow> bool \<Rightarrow> timers \<Rightarrow> timers option" where
  "proc_expire timerfd callback now b s =
     do {
       (timer, s) \<leftarrow> pop_first b s;
       s \<leftarrow> expire_loop timerfd callback now b timer s;
       c \<leftarrow> t_cont s b;
       c \<leftarrow> updateSoonestTime None (t_dels s) c;
       Some (put_cont b c s)
     }"

text \<open>The message thread takes the oldest message; the clock shows \<open>now\<close>.\<close>

fun proc_msg :: "(bool \<Rightarrow> bool) \<Rightarrow> (nat \<Rightarrow> client_op list) \<Rightarrow> timespec \<Rightarrow> timer_msg \<Rightarrow> timers \<Rightarrow> timers option" where
  "proc_msg timerfd callback now (MsgTimerPush b d) s = proc_push b d s"
| "proc_msg timerfd callback now (MsgTimerRemove b d) s = proc_remove b d s"
| "proc_msg timerfd callback now (MsgTimerExpire b) s = proc_expire timerfd callback now b s"

fun msg_turn :: "(bool \<Rightarrow> bool) \<Rightarrow> (nat \<Rightarrow> client_op list) \<Rightarrow> timespec \<Rightarrow> timers \<Rightarrow> timers option" where
  "msg_turn timerfd callback now s =
     (case t_msgs s of [] \<Rightarrow> Some s | m # ms \<Rightarrow> proc_msg timerfd callback now m (s\<lparr>t_msgs := ms\<rparr>))"

end
