(* ===== verification/Loc_Timer_Correct.thy ===== *)
theory Loc_Timer_Correct
  imports Loc_Timer
begin

text \<open>
  The life of a timer: where a timer can be between its start and its deletion, and that the heap of
  each container stays in order. The state is viewed through the timers that exist, the multiset of
  each container, and the messages about each timer.
\<close>

section \<open>Times\<close>

definition valid_time :: "timespec \<Rightarrow> bool" where
  "valid_time t \<longleftrightarrow> 0 \<le> tv_sec t \<and> tv_sec t < 2 ^ 31 \<and> 0 \<le> tv_nsec t \<and> tv_nsec t < 1000000000"

definition before :: "timespec \<Rightarrow> timespec \<Rightarrow> bool" where
  "before t u \<longleftrightarrow> tv_sec t < tv_sec u \<or> tv_sec t = tv_sec u \<and> tv_nsec t < tv_nsec u"

lemma signed_take_bit_small: "-(2 ^ 31) \<le> (x::int) \<Longrightarrow> x < 2 ^ 31 \<Longrightarrow> signed_take_bit 31 x = x"
  by (rule signed_take_bit_int_eq_self) simp_all

lemma time_ranks_before:
  assumes "valid_time t" "valid_time u"
  shows "time_ranks t u > 0 \<longleftrightarrow> before t u"
proof -
  have "signed_take_bit 31 (tv_sec u - tv_sec t) = tv_sec u - tv_sec t" "signed_take_bit 31 (tv_nsec u - tv_nsec t) = tv_nsec u - tv_nsec t"
    using assms by (auto intro!: signed_take_bit_small simp: valid_time_def)
  then show ?thesis by (auto simp: time_ranks_def before_def Let_def)
qed

definition timed :: "(nat \<Rightarrow> loc_timer_delegate option) \<Rightarrow> nat set" where
  "timed dels = {d. dels d \<noteq> None \<and> valid_time (time_of dels d)}"

lemma outRanks_timer:
  "a \<in> timed dels \<Longrightarrow> b \<in> timed dels \<Longrightarrow> outRanks (timer_ranks dels) a b \<longleftrightarrow> before (time_of dels a) (time_of dels b)"
  by (simp add: outRanks_def timer_ranks_def timed_def time_ranks_before)

text \<open>The ranks of the timers are what the heap asks for.\<close>

interpretation timer: ranking "timer_ranks dels" "timed dels" for dels
proof
  fix a b c assume ab: "a \<in> timed dels" "b \<in> timed dels"
  show "outRanks (timer_ranks dels) a b \<Longrightarrow> \<not> outRanks (timer_ranks dels) b a"
    using ab by (auto simp: outRanks_timer before_def)
  assume "c \<in> timed dels"
  then show "\<not> outRanks (timer_ranks dels) a b \<Longrightarrow> \<not> outRanks (timer_ranks dels) b c \<Longrightarrow> \<not> outRanks (timer_ranks dels) a c"
    using ab by (auto simp: outRanks_timer before_def)
qed

lemma heap_inv_cong:
  assumes "\<And>x y. x \<in># data t \<Longrightarrow> y \<in># data t \<Longrightarrow> r x y = r' x y"
  shows "heap_inv r t = heap_inv r' t"
  using assms
proof (induction t)
  case (Node s d l h)
  have "outRanks r x d = outRanks r' x d" if "x \<in># data l + data h" for x
    using Node.prems [of x d] that by (simp add: outRanks_def)
  then show ?case using Node.IH Node.prems by auto
qed simp

lemma all_live_iff: "all_live dels t \<longleftrightarrow> (\<forall>d \<in># data t. dels d \<noteq> None)"
  by (induction t) auto

section \<open>The life of a timer\<close>

type_synonym dels = "nat \<Rightarrow> loc_timer_delegate option"

text \<open>
  A timer that runs: its push is pending, or it is in the heap of its container, or (in \<open>X\<close>) it was
  just taken out to expire. A timer that was stopped: its removal is pending, behind its push if that
  is pending too.
\<close>

definition running :: "nat set \<Rightarrow> nat \<Rightarrow> loc_timer_delegate \<Rightarrow> timer_msg list \<Rightarrow> (bool \<Rightarrow> nat multiset) \<Rightarrow> (nat \<Rightarrow> nat option) \<Rightarrow> bool \<Rightarrow> bool" where
  "running X d t q M C b \<longleftrightarrow> mContainer t = Some b \<and> (case mClient t of None \<Rightarrow> False | Some c \<Rightarrow> C c = Some d) \<and>
     (q = [MsgTimerPush b d] \<and> d \<notin> X \<and> (\<forall>b'. d \<notin># M b') \<or>
      q = [] \<and> d \<notin> X \<and> d \<in># M b \<and> (\<forall>b'. b' \<noteq> b \<longrightarrow> d \<notin># M b') \<or>
      q = [] \<and> d \<in> X \<and> (\<forall>b'. d \<notin># M b'))"

definition stopped :: "nat \<Rightarrow> loc_timer_delegate \<Rightarrow> timer_msg list \<Rightarrow> (bool \<Rightarrow> nat multiset) \<Rightarrow> bool \<Rightarrow> bool" where
  "stopped d t q M b \<longleftrightarrow> mContainer t = None \<and> mClient t = None \<and>
     (q = [MsgTimerPush b d, MsgTimerRemove b d] \<and> (\<forall>b'. d \<notin># M b') \<or>
      q = [MsgTimerRemove b d] \<and> (\<forall>b'. b' \<noteq> b \<longrightarrow> d \<notin># M b'))"

definition tinv :: "nat set \<Rightarrow> dels \<Rightarrow> (bool \<Rightarrow> nat multiset) \<Rightarrow> (nat \<Rightarrow> timer_msg list) \<Rightarrow> (nat \<Rightarrow> nat option) \<Rightarrow> nat \<Rightarrow> (bool \<Rightarrow> bool) \<Rightarrow> bool" where
  "tinv X D M Q C N ex \<longleftrightarrow>
     (\<forall>d t. D d = Some t \<longrightarrow> d < N \<and> valid_time (mFutureTime t) \<and> (\<exists>b. ex b \<and> (running X d t (Q d) M C b \<or> stopped d t (Q d) M b))) \<and>
     (\<forall>d. D d = None \<longrightarrow> Q d = [] \<and> (\<forall>b. d \<notin># M b)) \<and>
     (\<forall>b d. count (M b) d \<le> 1) \<and>
     (\<forall>c d. C c = Some d \<longrightarrow> (\<exists>t. D d = Some t \<and> mClient t = Some c))"

lemma tinvD:
  assumes "tinv X D M Q C N ex"
  shows "D d = Some t \<Longrightarrow> d < N \<and> valid_time (mFutureTime t) \<and> (\<exists>b. ex b \<and> (running X d t (Q d) M C b \<or> stopped d t (Q d) M b))"
    "D d = None \<Longrightarrow> Q d = [] \<and> (\<forall>b. d \<notin># M b)" "count (M b) d \<le> 1"
    "C c = Some d \<Longrightarrow> \<exists>t. D d = Some t \<and> mClient t = Some c"
  using assms unfolding tinv_def by blast+

lemma tinv_timed:
  assumes "tinv X D M Q C N ex"
  shows "set_mset (M b) \<subseteq> timed D" "D d \<noteq> None \<Longrightarrow> d \<in> timed D" "D N = None"
proof -
  show t: "d \<in> timed D" if "D d \<noteq> None" for d
    using that tinvD(1) [OF assms, of d] by (auto simp: timed_def time_of_def)
  show "set_mset (M b) \<subseteq> timed D" using tinvD(2) [OF assms] t by blast
  show "D N = None" using tinvD(1) [OF assms, of N] by (cases "D N") auto
qed

lemma tinv_start:
  assumes inv: "tinv X D M Q C N ex" and free: "C c = None" and b: "ex b" "valid_time tm" "N \<notin> X"
  shows "tinv X (D(N \<mapsto> \<lparr>mClient = Some c, mFutureTime = tm, mContainer = Some b\<rparr>)) M (Q(N := [MsgTimerPush b N])) (C(c \<mapsto> N)) (Suc N) ex"
proof -
  have new: "D N = None" by (rule tinv_timed(3) [OF inv])
  note D = tinvD [OF inv]
  have "\<exists>b'. ex b' \<and> (running X d t ((Q(N := [MsgTimerPush b N])) d) M (C(c \<mapsto> N)) b' \<or> stopped d t ((Q(N := [MsgTimerPush b N])) d) M b')"
    if e: "D d = Some t" "d \<noteq> N" for d t
  proof -
    obtain b' where b': "ex b'" "running X d t (Q d) M C b' \<or> stopped d t (Q d) M b'" using D(1) [OF e(1)] by blast
    have "running X d t (Q d) M C b' \<Longrightarrow> running X d t (Q d) M (C(c \<mapsto> N)) b'" using free by (auto simp: running_def split: option.splits)
    then show ?thesis using b' e(2) by auto
  qed
  moreover have "running X N \<lparr>mClient = Some c, mFutureTime = tm, mContainer = Some b\<rparr> [MsgTimerPush b N] M (C(c \<mapsto> N)) b"
    using D(2) [OF new] b by (simp add: running_def)
  moreover have "d < N" "valid_time (mFutureTime t)" if "D d = Some t" for d t using D(1) [OF that] by simp_all
  moreover have "C c' \<noteq> Some N" for c' using D(4) [of c' N] new by auto
  ultimately show ?thesis unfolding tinv_def using b D(2,3,4) new
    by (auto simp: less_Suc_eq split: if_splits)
qed

lemma tinv_stop:
  assumes inv: "tinv X D M Q C N ex" and cd: "C c = Some d"
  obtains t b where "D d = Some t" "mContainer t = Some b" "ex b" "mClient t = Some c"
    "tinv (X - {d}) (D(d \<mapsto> t\<lparr>mClient := None, mContainer := None\<rparr>)) M (Q(d := Q d @ [MsgTimerRemove b d])) (C(c := None)) N ex"
proof -
  note D = tinvD [OF inv]
  obtain t where t: "D d = Some t" "mClient t = Some c" using D(4) [OF cd] by blast
  obtain b where b: "ex b" "running X d t (Q d) M C b" using D(1) [OF t(1)] t(2) by (auto simp: stopped_def)
  let ?t = "t\<lparr>mClient := None, mContainer := None\<rparr>"
  have st: "stopped d ?t (Q d @ [MsgTimerRemove b d]) M b" using b(2) by (auto simp: running_def stopped_def)
  have other: "\<exists>b'. ex b' \<and> (running (X - {d}) e u (Q e) M (C(c := None)) b' \<or> stopped e u (Q e) M b')" if e: "D e = Some u" "e \<noteq> d" for e u
  proof -
    obtain b' where b': "ex b'" "running X e u (Q e) M C b' \<or> stopped e u (Q e) M b'" using D(1) [OF e(1)] by blast
    have "running X e u (Q e) M C b' \<Longrightarrow> running (X - {d}) e u (Q e) M (C(c := None)) b'" using e(2) cd by (auto simp: running_def split: option.splits)
    then show ?thesis using b' by blast
  qed
  have "\<exists>t'. (D(d \<mapsto> ?t)) e = Some t' \<and> mClient t' = Some c'" if "(C(c := None)) c' = Some e" for c' e
    using D(4) [of c' e] that t by (auto split: if_splits)
  then have "tinv (X - {d}) (D(d \<mapsto> ?t)) M (Q(d := Q d @ [MsgTimerRemove b d])) (C(c := None)) N ex"
    unfolding tinv_def using other st b(1) D(1) [OF t(1)] D(1) D(2) D(3) by (auto split: if_splits)
  then show thesis using that t b by (auto simp: running_def)
qed

lemma tinv_push:
  assumes inv: "tinv X D M Q C N ex" and q: "Q d = MsgTimerPush b d # q'"
  shows "ex b" "d \<in> timed D" "tinv X D (M(b := add_mset d (M b))) (Q(d := q')) C N ex"
proof -
  note D = tinvD [OF inv]
  have ne: "D d \<noteq> None" using D(2) [of d] q by auto
  then obtain t where t: "D d = Some t" by blast
  show "d \<in> timed D" by (rule tinv_timed(2) [OF inv ne])
  obtain b0 where b0: "ex b0" "running X d t (Q d) M C b0 \<or> stopped d t (Q d) M b0" using D(1) [OF t] by blast
  then have eq: "b0 = b" "\<And>b'. d \<notin># M b'" using q by (auto simp: running_def stopped_def)
  then show "ex b" using b0 by simp
  have new: "running X d t q' (M(b := add_mset d (M b))) C b \<or> stopped d t q' (M(b := add_mset d (M b))) b"
    using b0(2) q eq by (auto simp: running_def stopped_def split: option.splits)
  have other: "\<exists>b'. ex b' \<and> (running X e u (Q e) (M(b := add_mset d (M b))) C b' \<or> stopped e u (Q e) (M(b := add_mset d (M b))) b')"
    if e: "D e = Some u" "e \<noteq> d" for e u
  proof -
    obtain b' where b': "ex b'" "running X e u (Q e) M C b' \<or> stopped e u (Q e) M b'" using D(1) [OF e(1)] by blast
    have "e \<in># (M(b := add_mset d (M b))) c \<longleftrightarrow> e \<in># M c" for c using e(2) by auto
    then show ?thesis using b' unfolding running_def stopped_def by blast
  qed
  have cnt: "count ((M(b := add_mset d (M b))) c) e \<le> 1" for c e
    using D(3) [of c e] eq(2) [of b] by (auto simp: not_in_iff)
  show "tinv X D (M(b := add_mset d (M b))) (Q(d := q')) C N ex"
    unfolding tinv_def
  proof (intro conjI allI impI)
    fix e u assume e: "D e = Some u"
    show "e < N" "valid_time (mFutureTime u)" using D(1) [OF e] by simp_all
    show "\<exists>c. ex c \<and> (running X e u ((Q(d := q')) e) (M(b := add_mset d (M b))) C c \<or> stopped e u ((Q(d := q')) e) (M(b := add_mset d (M b))) c)"
      using other [OF e] new e t b0(1) eq(1) by (cases "e = d") auto
  next
    fix e assume "D e = None"
    then show "(Q(d := q')) e = []" "\<And>c. e \<notin># (M(b := add_mset d (M b))) c" using D(2) [of e] ne by auto
  next
    fix c e show "count ((M(b := add_mset d (M b))) c) e \<le> 1" by (rule cnt)
  next
    fix c e assume "C c = Some e" then show "\<exists>t. D e = Some t \<and> mClient t = Some c" by (rule D(4))
  qed
qed

lemma tinv_remove:
  assumes inv: "tinv X D M Q C N ex" and q: "Q d = MsgTimerRemove b d # q'"
  shows "ex b" "d \<in> timed D" "q' = []" "tinv X (D(d := None)) (M(b := M b - {#d#})) (Q(d := [])) C N ex"
proof -
  note D = tinvD [OF inv]
  have ne: "D d \<noteq> None" using D(2) [of d] q by auto
  then obtain t where t: "D d = Some t" by blast
  show "d \<in> timed D" by (rule tinv_timed(2) [OF inv ne])
  obtain b0 where b0: "ex b0" "running X d t (Q d) M C b0 \<or> stopped d t (Q d) M b0" using D(1) [OF t] by blast
  then have eq: "b0 = b" "\<And>b'. b' \<noteq> b \<Longrightarrow> d \<notin># M b'" "mClient t = None" "q' = []" using q by (auto simp: running_def stopped_def)
  show "ex b" "q' = []" using b0 eq by simp_all
  let ?M = "M(b := M b - {#d#})"
  have mem: "e \<in># ?M c \<longleftrightarrow> e \<in># M c" if "e \<noteq> d" for e c using that by (auto simp: in_diff_count dest: in_diffD)
  have gone: "d \<notin># ?M c" for c using D(3) [of b d] eq(2) [of c] by (auto simp: not_in_iff)
  have other: "\<exists>b'. ex b' \<and> (running X e u (Q e) ?M C b' \<or> stopped e u (Q e) ?M b')" if e: "D e = Some u" "e \<noteq> d" for e u
  proof -
    obtain b' where b': "ex b'" "running X e u (Q e) M C b' \<or> stopped e u (Q e) M b'" using D(1) [OF e(1)] by blast
    then show ?thesis using mem [OF e(2)] unfolding running_def stopped_def by metis
  qed
  show "tinv X (D(d := None)) ?M (Q(d := [])) C N ex"
    unfolding tinv_def
  proof (intro conjI allI impI)
    fix e u assume "(D(d := None)) e = Some u"
    then have e: "D e = Some u" "e \<noteq> d" by (auto split: if_splits)
    show "e < N" "valid_time (mFutureTime u)" using D(1) [OF e(1)] by simp_all
    show "\<exists>c. ex c \<and> (running X e u ((Q(d := [])) e) ?M C c \<or> stopped e u ((Q(d := [])) e) ?M c)" using other [OF e] e(2) by simp
  next
    fix e assume "(D(d := None)) e = None"
    then show "(Q(d := [])) e = []" "\<And>c. e \<notin># ?M c" using D(2) [of e] mem [of e] gone by (cases "e = d"; simp)+
  next
    fix c e show "count (?M c) e \<le> 1" using D(3) [of c e] by auto
  next
    fix c e assume c: "C c = Some e"
    then show "\<exists>t. (D(d := None)) e = Some t \<and> mClient t = Some c" using D(4) [OF c] t eq(3) by (cases "e = d") auto
  qed
qed

lemma tinv_pop:
  assumes inv: "tinv X D M Q C N ex" and d: "d \<in># M b"
  shows "tinv (insert d X) D (M(b := M b - {#d#})) Q C N ex"
proof -
  note D = tinvD [OF inv]
  let ?M = "M(b := M b - {#d#})"
  have mem: "e \<in># ?M c \<longleftrightarrow> e \<in># M c" if "e \<noteq> d" for e c using that by (auto simp: in_diff_count dest: in_diffD)
  have one: "d \<notin># ?M b" using D(3) [of b d] by (auto simp: not_in_iff)
  show ?thesis unfolding tinv_def
  proof (intro conjI allI impI)
    fix e u assume e: "D e = Some u"
    show "e < N" "valid_time (mFutureTime u)" using D(1) [OF e] by simp_all
    obtain b' where b': "ex b'" "running X e u (Q e) M C b' \<or> stopped e u (Q e) M b'" using D(1) [OF e] by blast
    have "running (insert d X) e u (Q e) ?M C b' \<or> stopped e u (Q e) ?M b'"
    proof (cases "e = d")
      case False
      then show ?thesis using b'(2) mem [OF False] unfolding running_def stopped_def by auto
    next
      case True
      have "d \<notin># ?M c" for c using b'(2) d one True unfolding running_def stopped_def by (cases "c = b"; cases b') (auto split: option.splits)
      then show ?thesis using b'(2) d True unfolding running_def stopped_def by auto
    qed
    then show "\<exists>c. ex c \<and> (running (insert d X) e u (Q e) ?M C c \<or> stopped e u (Q e) ?M c)" using b'(1) by blast
  next
    fix e assume e: "D e = None"
    then show "Q e = []" "\<And>c. e \<notin># ?M c" using D(2) [OF e] by (auto dest: in_diffD)
  next
    fix c e show "count (?M c) e \<le> 1" using D(3) [of c e] by auto
  next
    fix c e assume "C c = Some e" then show "\<exists>t. D e = Some t \<and> mClient t = Some c" by (rule D(4))
  qed
qed

lemma tinv_ex_mono: "tinv X D M Q C N ex \<Longrightarrow> (\<And>b. ex b \<Longrightarrow> ex' b) \<Longrightarrow> tinv X D M Q C N ex'"
  unfolding tinv_def by blast

lemma tinv_done:
  assumes inv: "tinv X D M Q C N ex" and "\<And>t. D d = Some t \<Longrightarrow> mClient t = None"
  shows "tinv (X - {d}) D M Q C N ex"
proof -
  have "running X e t (Q e) M C b \<Longrightarrow> running (X - {d}) e t (Q e) M C b" if "D e = Some t" for e t b
    using assms(2) [of t] that by (cases "e = d") (auto simp: running_def)
  then show ?thesis using inv unfolding tinv_def by blast
qed

section \<open>The invariant of the state\<close>

fun about :: "nat \<Rightarrow> timer_msg \<Rightarrow> bool" where
  "about d (MsgTimerPush b e) \<longleftrightarrow> e = d"
| "about d (MsgTimerRemove b e) \<longleftrightarrow> e = d"
| "about d (MsgTimerExpire b) \<longleftrightarrow> False"

definition tree_of :: "bool \<Rightarrow> timers \<Rightarrow> nat node" where
  "tree_of b s = (case t_cont s b of None \<Rightarrow> Null | Some c \<Rightarrow> mTree c)"

definition TI :: "nat set \<Rightarrow> timers \<Rightarrow> bool" where
  "TI X s \<longleftrightarrow>
     tinv X (t_dels s) (\<lambda>b. data (tree_of b s)) (\<lambda>d. filter (about d) (t_msgs s)) (t_client s) (t_next s) (\<lambda>b. t_cont s b \<noteq> None) \<and>
     (\<forall>b. heap_inv (timer_ranks (t_dels s)) (tree_of b s)) \<and>
     (\<forall>b. MsgTimerExpire b \<in> set (t_msgs s) \<longrightarrow> t_cont s b \<noteq> None)"

text \<open>The descriptor of a container that is not empty is armed for its soonest timer, or an expiration is pending.\<close>

definition armed_ok :: "bool set \<Rightarrow> timers \<Rightarrow> bool" where
  "armed_ok E s \<longleftrightarrow> (\<forall>b c. t_cont s b = Some c \<and> \<not> is_Null (mTree c) \<longrightarrow>
     armed c = Some (time_of (t_dels s) (mData (mTree c))) \<and> polled c \<or> MsgTimerExpire b \<in> set (t_msgs s) \<or> b \<in> E)"

lemma armed_okD:
  "armed_ok E s \<Longrightarrow> t_cont s b = Some c \<Longrightarrow> \<not> is_Null (mTree c) \<Longrightarrow>
    armed c = Some (time_of (t_dels s) (mData (mTree c))) \<and> polled c \<or> MsgTimerExpire b \<in> set (t_msgs s) \<or> b \<in> E"
  by (simp add: armed_ok_def)

lemma TID:
  assumes "TI X s"
  shows "tinv X (t_dels s) (\<lambda>b. data (tree_of b s)) (\<lambda>d. filter (about d) (t_msgs s)) (t_client s) (t_next s) (\<lambda>b. t_cont s b \<noteq> None)"
    "heap_inv (timer_ranks (t_dels s)) (tree_of b s)" "set_mset (data (tree_of b s)) \<subseteq> timed (t_dels s)"
    "all_live (t_dels s) (tree_of b s)"
proof -
  show t: "tinv X (t_dels s) (\<lambda>b. data (tree_of b s)) (\<lambda>d. filter (about d) (t_msgs s)) (t_client s) (t_next s) (\<lambda>b. t_cont s b \<noteq> None)"
    using assms by (simp add: TI_def)
  show "heap_inv (timer_ranks (t_dels s)) (tree_of b s)" using assms by (simp add: TI_def)
  show u: "set_mset (data (tree_of b s)) \<subseteq> timed (t_dels s)" using tinv_timed(1) [OF t] by blast
  show "all_live (t_dels s) (tree_of b s)" using u by (auto simp: all_live_iff timed_def)
qed

lemma heap_inv_dels:
  assumes "heap_inv (timer_ranks D) t" "\<And>d. d \<in># data t \<Longrightarrow> time_of D' d = time_of D d"
  shows "heap_inv (timer_ranks D') t"
  using assms heap_inv_cong [of t "timer_ranks D" "timer_ranks D'"] by (simp add: timer_ranks_def)

lemma tree_of_simps [simp]:
  "tree_of b (s\<lparr>t_dels := D\<rparr>) = tree_of b s" "tree_of b (s\<lparr>t_client := C\<rparr>) = tree_of b s" "tree_of b (s\<lparr>t_next := n\<rparr>) = tree_of b s"
  "tree_of b (s\<lparr>t_msgs := ms\<rparr>) = tree_of b s" "tree_of b (s\<lparr>t_fired := fs\<rparr>) = tree_of b s" "tree_of b (sendMsg m s) = tree_of b s"
  "tree_of b (put_cont b' c s) = (if b = b' then mTree c else tree_of b s)"
  "t_cont s b = Some c \<Longrightarrow> tree_of b s = mTree c"
  by (simp_all add: tree_of_def sendMsg_def put_cont_def)

lemma msg_simps [simp]:
  "t_msgs (sendMsg m s) = t_msgs s @ [m]" "t_dels (sendMsg m s) = t_dels s" "t_cont (sendMsg m s) = t_cont s"
  "t_client (sendMsg m s) = t_client s" "t_next (sendMsg m s) = t_next s" "t_fired (sendMsg m s) = t_fired s"
  "t_msgs (put_cont b c s) = t_msgs s" "t_dels (put_cont b c s) = t_dels s" "t_cont (put_cont b c s) = (t_cont s)(b := Some c)"
  "t_client (put_cont b c s) = t_client s" "t_next (put_cont b c s) = t_next s" "t_fired (put_cont b c s) = t_fired s"
  by (simp_all add: sendMsg_def put_cont_def)

text \<open>What an operation of a client leaves alone.\<close>

definition calm :: "timers \<Rightarrow> timers \<Rightarrow> bool" where
  "calm s s' \<longleftrightarrow> (\<forall>b. t_cont s b \<noteq> None \<longrightarrow> t_cont s' b = t_cont s b) \<and>
     (\<forall>d. t_dels s d \<noteq> None \<longrightarrow> t_dels s' d \<noteq> None \<and> time_of (t_dels s') d = time_of (t_dels s) d) \<and>
     (\<exists>ms. t_msgs s' = t_msgs s @ ms)"

lemma calm_refl [simp]: "calm s s"
  by (simp add: calm_def)

lemma calm_trans: "calm a b \<Longrightarrow> calm b c \<Longrightarrow> calm a c"
  unfolding calm_def by (metis append_assoc)

lemma calm_armed:
  assumes inv: "TI X s" and arm: "armed_ok E s" and calm: "calm s s'" and new: "\<And>b. t_cont s b = None \<Longrightarrow> is_Null (tree_of b s')"
  shows "armed_ok E s'"
  unfolding armed_ok_def
proof (intro allI impI)
  fix b c assume c: "t_cont s' b = Some c \<and> \<not> is_Null (mTree c)"
  then have old: "t_cont s b = Some c" using new [of b] calm by (cases "t_cont s b") (auto simp: calm_def)
  have "mData (mTree c) \<in># data (tree_of b s)" using c old data_node [of "mTree c"] by simp
  then have "t_dels s (mData (mTree c)) \<noteq> None" using tinv_timed(1) [OF TID(1) [OF inv], of b] by (auto simp: timed_def)
  then have "time_of (t_dels s') (mData (mTree c)) = time_of (t_dels s) (mData (mTree c))" using calm by (simp add: calm_def)
  moreover have "set (t_msgs s) \<subseteq> set (t_msgs s')" using calm by (auto simp: calm_def)
  ultimately show "armed c = Some (time_of (t_dels s') (mData (mTree c))) \<and> polled c \<or> MsgTimerExpire b \<in> set (t_msgs s') \<or> b \<in> E"
    using arm old c unfolding armed_ok_def by auto
qed

lemma TI_create:
  assumes "TI X s" "t_cont s b = None"
  shows "TI X (s\<lparr>t_cont := (t_cont s)(b := Some \<lparr>mTree = Null, armed = a, polled = p\<rparr>)\<rparr>)" (is "TI X ?s")
proof -
  have tr: "tree_of b' ?s = tree_of b' s" for b' using assms(2) by (simp add: tree_of_def)
  have "tinv X (t_dels s) (\<lambda>b. data (tree_of b s)) (\<lambda>d. filter (about d) (t_msgs s)) (t_client s) (t_next s) (\<lambda>b. t_cont ?s b \<noteq> None)"
    by (rule tinv_ex_mono [OF TID(1) [OF assms(1)]]) auto
  then show ?thesis using assms unfolding TI_def tr by simp
qed

lemma timer_start_total:
  assumes inv: "TI {} s" "armed_ok E s" and t: "valid_time (future_time ms now)" and fd: "\<And>b. timerfd b"
  shows "\<exists>r s'. timer_start timerfd c ms w now s = Some (r, s') \<and> TI {} s' \<and> armed_ok E s' \<and> calm s s' \<and> t_fired s' = t_fired s"
proof (cases "t_client s c")
  case (Some d)
  then show ?thesis using inv by (auto simp: timer_start_def)
next
  case None
  obtain s1 where s1: "container_get timerfd w s = (True, s1)" "TI {} s1" "armed_ok E s1" "calm s s1" "t_cont s1 w \<noteq> None"
    "t_fired s1 = t_fired s" "t_client s1 = t_client s" "t_next s1 = t_next s"
  proof (cases "t_cont s w")
    case (Some k)
    then show thesis using that [of s] inv by (simp add: container_get_def)
  next
    case None
    let ?s = "s\<lparr>t_cont := (t_cont s)(w := Some \<lparr>mTree = Null, armed = None, polled = False\<rparr>)\<rparr>"
    have "armed_ok E ?s" using inv(2) by (simp add: armed_ok_def)
    moreover have "calm s ?s" using None by (auto simp: calm_def)
    ultimately show thesis using that [of ?s] None fd TI_create [OF inv(1) None] by (simp add: container_get_def)
  qed
  let ?d = "t_next s1"
  let ?t = "\<lparr>mClient = Some c, mFutureTime = future_time ms now, mContainer = Some w\<rparr>"
  let ?s = "sendMsg (MsgTimerPush w ?d) (s1\<lparr>t_dels := (t_dels s1)(?d \<mapsto> ?t), t_next := Suc ?d, t_client := (t_client s1)(c := Some ?d)\<rparr>)"
  note T = TID [OF s1(2)]
  have new: "t_dels s1 ?d = None" by (rule tinv_timed(3) [OF T(1)])
  have q: "(\<lambda>d. filter (about d) (t_msgs ?s)) = (\<lambda>d. filter (about d) (t_msgs s1))(?d := [MsgTimerPush w ?d])"
    using tinvD(2) [OF T(1) new] by (intro ext) simp
  have time: "time_of (t_dels ?s) d = time_of (t_dels s1) d" if "t_dels s1 d \<noteq> None" for d using that new by (auto simp: time_of_def)
  have "heap_inv (timer_ranks (t_dels ?s)) (tree_of b s1)" for b
    by (rule heap_inv_dels [OF T(2) [of b]], rule time) (use T(3) [of b] in \<open>auto simp: timed_def\<close>)
  then have "heap_inv (timer_ranks (t_dels ?s)) (tree_of b ?s)" for b by simp
  moreover have "tinv {} (t_dels ?s) (\<lambda>b. data (tree_of b ?s)) (\<lambda>d. filter (about d) (t_msgs ?s)) (t_client ?s) (t_next ?s) (\<lambda>b. t_cont ?s b \<noteq> None)"
    using tinv_start [OF T(1), of c w "future_time ms now"] None s1(5,7) t unfolding q by simp
  ultimately have "TI {} ?s" using s1(2) unfolding TI_def by auto
  moreover have c: "calm s1 ?s" using time new by (auto simp: calm_def)
  moreover have "armed_ok E ?s" by (rule calm_armed [OF s1(2,3) c]) (simp add: tree_of_def)
  ultimately show ?thesis using s1 None calm_trans [OF s1(4)]
    by (intro exI [of _ True] exI [of _ ?s]) (simp add: timer_start_def Let_def)
qed

lemma timer_stop_total:
  assumes inv: "TI X s" "armed_ok E s"
  shows "\<exists>r s'. timer_stop c s = Some (r, s') \<and> armed_ok E s' \<and> calm s s' \<and> t_fired s' = t_fired s \<and>
    (case t_client s c of None \<Rightarrow> s' = s \<and> \<not> r | Some d \<Rightarrow> r \<and> TI (X - {d}) s')"
proof (cases "t_client s c")
  case None
  then show ?thesis using inv by (auto simp: timer_stop_def)
next
  case (Some d)
  note T = TID [OF inv(1)]
  obtain t b where t: "t_dels s d = Some t" "mContainer t = Some b" "t_cont s b \<noteq> None"
    "tinv (X - {d}) ((t_dels s)(d \<mapsto> t\<lparr>mClient := None, mContainer := None\<rparr>)) (\<lambda>b. data (tree_of b s))
      ((\<lambda>d. filter (about d) (t_msgs s))(d := filter (about d) (t_msgs s) @ [MsgTimerRemove b d])) ((t_client s)(c := None)) (t_next s) (\<lambda>b. t_cont s b \<noteq> None)"
    by (rule tinv_stop [OF T(1) Some])
  let ?t = "t\<lparr>mClient := None, mContainer := None\<rparr>"
  let ?s = "sendMsg (MsgTimerRemove b d) (s\<lparr>t_client := (t_client s)(c := None), t_dels := (t_dels s)(d \<mapsto> ?t)\<rparr>)"
  have run: "timer_stop c s = Some (True, ?s)" using Some t(1,2) by (simp add: timer_stop_def destroyLocked_def)
  have q: "(\<lambda>e. filter (about e) (t_msgs ?s)) = (\<lambda>d. filter (about d) (t_msgs s))(d := filter (about d) (t_msgs s) @ [MsgTimerRemove b d])"
    by (intro ext) simp
  have time: "time_of (t_dels ?s) e = time_of (t_dels s) e" for e using t(1) by (simp add: time_of_def)
  have "heap_inv (timer_ranks (t_dels ?s)) (tree_of b' ?s)" for b'
    using heap_inv_dels [OF T(2) [of b'], of "t_dels ?s"] time by simp
  moreover have "tinv (X - {d}) (t_dels ?s) (\<lambda>b. data (tree_of b ?s)) (\<lambda>d. filter (about d) (t_msgs ?s)) (t_client ?s) (t_next ?s) (\<lambda>b. t_cont ?s b \<noteq> None)"
    using t(4) unfolding q by simp
  ultimately have "TI (X - {d}) ?s" using inv(1) unfolding TI_def by auto
  moreover have c: "calm s ?s" using time t(1) by (auto simp: calm_def)
  moreover have "armed_ok E ?s" by (rule calm_armed [OF inv c]) (simp add: tree_of_def)
  ultimately show ?thesis using run Some by (intro exI [of _ True] exI [of _ ?s]) simp
qed

section \<open>The message thread\<close>

text \<open>A message that was just taken out of the queue.\<close>

abbreviation before_msg :: "timer_msg \<Rightarrow> timers \<Rightarrow> timers" where
  "before_msg m s \<equiv> s\<lparr>t_msgs := m # t_msgs s\<rparr>"

lemma update_none:
  assumes "\<And>d. d \<in># data (mTree c) \<Longrightarrow> D d \<noteq> None"
  shows "\<exists>c'. updateSoonestTime None D c = Some c' \<and> mTree c' = mTree c \<and>
    (\<not> is_Null (mTree c) \<longrightarrow> armed c' = Some (time_of D (mData (mTree c))) \<and> polled c')"
proof (cases "mTree c")
  case Null
  then show ?thesis by (simp add: updateSoonestTime_def heap_peek_def)
next
  case (Node s d l r)
  then obtain t where "D d = Some t" using assms [of d] by auto
  then show ?thesis using Node by (simp add: updateSoonestTime_def heap_peek_def time_of_def)
qed

lemma proc_push_total:
  assumes inv: "TI {} (before_msg (MsgTimerPush b d) s)" and arm: "armed_ok E s"
  shows "\<exists>s'. proc_push b d s = Some s' \<and> TI {} s' \<and> armed_ok E s' \<and> t_msgs s' = t_msgs s \<and> t_dels s' = t_dels s \<and>
    t_client s' = t_client s \<and> t_fired s' = t_fired s"
proof -
  note T = TID [OF inv, simplified]
  have q: "filter (about d) (MsgTimerPush b d # t_msgs s) = MsgTimerPush b d # filter (about d) (t_msgs s)" by simp
  note P = tinv_push [OF TID(1) [OF inv], of d b "filter (about d) (t_msgs s)", simplified]
  obtain c where c: "t_cont s b = Some c" using P(1) by blast
  have U: "d \<in> timed (t_dels s)" "set_mset (data (mTree c)) \<subseteq> timed (t_dels s)" using P(2) T(3) [of b] c by simp_all
  obtain t where t: "heap_push (timer_ranks (t_dels s)) d (mTree c) = Some t" "heap_inv (timer_ranks (t_dels s)) t"
    "data t = add_mset d (data (mTree c))" "\<not> is_Null t"
    "if \<not> is_Null (mTree c) \<and> \<not> outRanks (timer_ranks (t_dels s)) d (mData (mTree c)) then mData t = mData (mTree c) else mData t = d"
    using timer.heap_push_spec [of "t_dels s" "mTree c" d] T(2) [of b] U c by auto
  have live: "t_dels s e \<noteq> None" if "e \<in># data t" for e using that t(3) U by (auto simp: timed_def)
  have peek: "heap_peek t = Some (mData t)" using t(4) by (simp add: heap_peek_def)
  obtain dt where dt: "t_dels s (mData t) = Some dt" using live [of "mData t"] data_node [OF t(4)] by auto
  obtain c' where c': "updateSoonestTime (heap_peek (mTree c)) (t_dels s) (c\<lparr>mTree := t\<rparr>) = Some c'" "mTree c' = t"
    "(armed c' = Some (mFutureTime dt) \<and> polled c') \<or> (mData t = mData (mTree c) \<and> \<not> is_Null (mTree c) \<and> armed c' = armed c \<and> polled c' = polled c)"
  proof (cases "is_Null (mTree c)")
    case True
    then show thesis using that [of "c\<lparr>mTree := t, armed := Some (mFutureTime dt), polled := True\<rparr>"] dt t(4) by (simp add: updateSoonestTime_def heap_peek_def)
  next
    case False
    obtain pt where pt: "t_dels s (mData (mTree c)) = Some pt"
      using live [of "mData (mTree c)"] data_node [OF False] t(3) by auto
    show thesis
    proof (cases "mData t = mData (mTree c)")
      case True
      then show thesis using that [of "c\<lparr>mTree := t\<rparr>"] False t(4) by (simp add: updateSoonestTime_def heap_peek_def)
    next
      case new: False
      then have "mData t = d" "outRanks (timer_ranks (t_dels s)) d (mData (mTree c))" using t(5) False by (auto split: if_splits)
      then show thesis using that [of "c\<lparr>mTree := t, armed := Some (mFutureTime dt), polled := True\<rparr>"] False t(4) new dt pt by (simp add: updateSoonestTime_def heap_peek_def)
    qed
  qed
  let ?s = "put_cont b c' s"
  have run: "proc_push b d s = Some ?s" using c t(1) c'(1) U T(4) [of b] by (auto simp: proc_push_def timed_def)
  have tr: "(\<lambda>b'. data (tree_of b' ?s)) = (\<lambda>b'. data (tree_of b' s))(b := add_mset d (data (tree_of b s)))"
    using c c'(2) t(3) by (auto simp: fun_eq_iff)
  have qs: "(\<lambda>e. filter (about e) (t_msgs ?s)) = (\<lambda>e. filter (about e) (MsgTimerPush b d # t_msgs s))(d := filter (about d) (t_msgs s))"
    by (auto simp: fun_eq_iff)
  have ex: "(\<lambda>b'. t_cont ?s b' \<noteq> None) = (\<lambda>b'. t_cont s b' \<noteq> None)" using c by (auto simp: fun_eq_iff)
  have "tinv {} (t_dels ?s) (\<lambda>b'. data (tree_of b' ?s)) (\<lambda>e. filter (about e) (t_msgs ?s)) (t_client ?s) (t_next ?s) (\<lambda>b'. t_cont ?s b' \<noteq> None)"
    unfolding tr qs ex using tinv_push(3) [OF TID(1) [OF inv], of d b "filter (about d) (t_msgs s)"] by simp
  moreover have "heap_inv (timer_ranks (t_dels ?s)) (tree_of b' ?s)" for b' using T(2) [of b'] t(2) c'(2) by auto
  ultimately have "TI {} ?s" using inv unfolding TI_def by auto
  moreover have "armed_ok E ?s"
    unfolding armed_ok_def
  proof (intro allI impI)
    fix b' k assume k: "t_cont ?s b' = Some k \<and> \<not> is_Null (mTree k)"
    have "time_of (t_dels s) (mData t) = mFutureTime dt" using dt by (simp add: time_of_def)
    then show "armed k = Some (time_of (t_dels ?s) (mData (mTree k))) \<and> polled k \<or> MsgTimerExpire b' \<in> set (t_msgs ?s) \<or> b' \<in> E"
      using k armed_okD [OF arm, of b' k] armed_okD [OF arm c] c'(2,3) by (cases "b' = b") auto
  qed
  ultimately show ?thesis using run by simp
qed

lemma proc_remove_total:
  assumes inv: "TI {} (before_msg (MsgTimerRemove b d) s)" and arm: "armed_ok E s"
  shows "\<exists>s'. proc_remove b d s = Some s' \<and> TI {} s' \<and> armed_ok E s' \<and> t_msgs s' = t_msgs s \<and> t_dels s' = (t_dels s)(d := None) \<and>
    t_client s' = t_client s \<and> t_fired s' = t_fired s"
proof -
  note T = TID [OF inv, simplified]
  note P = tinv_remove [OF TID(1) [OF inv], of d b "filter (about d) (t_msgs s)", simplified]
  obtain c where c: "t_cont s b = Some c" using P(1) by blast
  have U: "d \<in> timed (t_dels s)" "set_mset (data (mTree c)) \<subseteq> timed (t_dels s)" using P(2) T(3) [of b] c by simp_all
  let ?D = "(t_dels s)(d := None)"
  obtain t where t: "heap_remove (timer_ranks (t_dels s)) d (mTree c) = Some (t, if d \<in># data (mTree c) then Some d else None)"
    "heap_inv (timer_ranks (t_dels s)) t" "data t = data (mTree c) - {#d#}" "heap_peek (mTree c) \<noteq> Some d \<longrightarrow> heap_peek t = heap_peek (mTree c)"
    using timer.heap_remove_spec [of "t_dels s" "mTree c" d] T(2) [of b] U c by auto
  have gone: "d \<notin># data (mTree c) - {#d#}"
    using tinvD(3) [OF TID(1) [OF inv], of b d] c by (simp add: not_in_iff)
  have keep: "e \<noteq> d \<and> t_dels s e \<noteq> None" if "e \<in># data t" for e using that t(3) U(2) gone by (auto simp: timed_def dest: in_diffD)
  let ?r = "if d \<in># data (mTree c) then Some d else None"
  obtain c' where c': "(if heap_peek (mTree c) = ?r then updateSoonestTime None (t_dels s) (c\<lparr>mTree := t\<rparr>) else Some (c\<lparr>mTree := t\<rparr>)) = Some c'"
    "mTree c' = t" "\<not> is_Null t \<longrightarrow> (armed c' = Some (time_of (t_dels s) (mData t)) \<and> polled c') \<or>
       (\<not> is_Null (mTree c) \<and> mData t = mData (mTree c) \<and> armed c' = armed c \<and> polled c' = polled c)"
  proof (cases "heap_peek (mTree c) = ?r")
    case True
    obtain k where "updateSoonestTime None (t_dels s) (c\<lparr>mTree := t\<rparr>) = Some k" "mTree k = t"
      "\<not> is_Null t \<longrightarrow> armed k = Some (time_of (t_dels s) (mData t)) \<and> polled k"
      using update_none [of "c\<lparr>mTree := t\<rparr>" "t_dels s"] keep by auto
    then show thesis using that [of k] True by simp
  next
    case False
    have "heap_peek (mTree c) \<noteq> Some d"
    proof
      assume "heap_peek (mTree c) = Some d"
      then have "d \<in># data (mTree c)" by (cases "mTree c") (simp_all add: heap_peek_def)
      then show False using False \<open>heap_peek (mTree c) = Some d\<close> by simp
    qed
    then have "heap_peek t = heap_peek (mTree c)" using t(4) by simp
    then show thesis using that [of "c\<lparr>mTree := t\<rparr>"] False by (auto simp: heap_peek_def split: if_splits)
  qed
  let ?s = "put_cont b c' (s\<lparr>t_dels := ?D\<rparr>)"
  have run: "proc_remove b d s = Some ?s" using c t(1) c'(1) U T(4) [of b] by (auto simp: proc_remove_def timed_def)
  have tr: "(\<lambda>b'. data (tree_of b' ?s)) = (\<lambda>b'. data (tree_of b' s))(b := data (tree_of b s) - {#d#})"
    using c c'(2) t(3) by (auto simp: fun_eq_iff)
  have qs: "(\<lambda>e. filter (about e) (t_msgs ?s)) = (\<lambda>e. filter (about e) (MsgTimerRemove b d # t_msgs s))(d := [])"
    using P(3) by (auto simp: fun_eq_iff)
  have ex: "(\<lambda>b'. t_cont ?s b' \<noteq> None) = (\<lambda>b'. t_cont s b' \<noteq> None)" using c by (auto simp: fun_eq_iff)
  have "tinv {} (t_dels ?s) (\<lambda>b'. data (tree_of b' ?s)) (\<lambda>e. filter (about e) (t_msgs ?s)) (t_client ?s) (t_next ?s) (\<lambda>b'. t_cont ?s b' \<noteq> None)"
    unfolding tr qs ex using tinv_remove(4) [OF TID(1) [OF inv], of d b "filter (about d) (t_msgs s)"] by simp
  moreover have "heap_inv (timer_ranks (t_dels ?s)) (tree_of b' ?s)" for b'
  proof (cases "b' = b")
    case True
    have "heap_inv (timer_ranks ?D) t" by (rule heap_inv_dels [OF t(2)]) (use keep in \<open>auto simp: time_of_def\<close>)
    then show ?thesis using True c'(2) by simp
  next
    case False
    have "d \<notin># data (tree_of b' s)"
      using tinvD(1) [OF TID(1) [OF inv], of d] U(1) False P(3) by (auto simp: timed_def running_def stopped_def)
    then have "heap_inv (timer_ranks ?D) (tree_of b' s)" by (intro heap_inv_dels [OF T(2)]) (auto simp: time_of_def)
    then show ?thesis using False by simp
  qed
  ultimately have "TI {} ?s" using inv unfolding TI_def by auto
  moreover have "armed_ok E ?s"
    unfolding armed_ok_def
  proof (intro allI impI)
    fix b' k assume k: "t_cont ?s b' = Some k \<and> \<not> is_Null (mTree k)"
    have "mData (mTree k) \<noteq> d"
    proof (cases "b' = b")
      case True
      then show ?thesis using k keep [of "mData t"] c'(2) data_node [of t] by auto
    next
      case False
      have "d \<notin># data (tree_of b' s)"
        using tinvD(1) [OF TID(1) [OF inv], of d] U(1) False P(3) by (auto simp: timed_def running_def stopped_def)
      then show ?thesis using k False data_node [of "mTree k"] by auto
    qed
    then have time: "time_of (t_dels ?s) (mData (mTree k)) = time_of (t_dels s) (mData (mTree k))" by (simp add: time_of_def)
    show "armed k = Some (time_of (t_dels ?s) (mData (mTree k))) \<and> polled k \<or> MsgTimerExpire b' \<in> set (t_msgs ?s) \<or> b' \<in> E"
      unfolding time using k armed_okD [OF arm, of b' k] armed_okD [OF arm c] c'(2,3) by (cases "b' = b") auto
  qed
  ultimately show ?thesis using run by simp
qed

text \<open>Taking the soonest timer out of a container.\<close>

lemma take_out:
  assumes inv: "TI {} s" and c: "t_cont s b = Some c" and top: "heap_peek (mTree c) = Some d"
  shows "\<exists>t. heap_pop (timer_ranks (t_dels s)) (mTree c) = Some (t, Some d) \<and> TI {d} (put_cont b (c\<lparr>mTree := t\<rparr>) s) \<and>
    data t = data (mTree c) - {#d#} \<and> d \<in># data (mTree c) \<and> d \<notin># data t \<and>
    (\<forall>e \<in># data t. \<not> before (time_of (t_dels s) e) (time_of (t_dels s) d))"
proof -
  note T = TID [OF inv]
  have U: "set_mset (data (mTree c)) \<subseteq> timed (t_dels s)" and h: "heap_inv (timer_ranks (t_dels s)) (mTree c)" using T(2,3) [of b] c by simp_all
  obtain t where t: "heap_pop (timer_ranks (t_dels s)) (mTree c) = Some (t, Some d)" "heap_inv (timer_ranks (t_dels s)) t"
    "data t = data (mTree c) - {#d#}" using timer.heap_pop_spec [OF h U] top by auto
  have d: "d \<in># data (mTree c)" "\<forall>e \<in># data (mTree c) - {#d#}. \<not> outRanks (timer_ranks (t_dels s)) e d"
    using timer.heap_peek_spec [OF h] top by simp_all
  have "\<not> before (time_of (t_dels s) e) (time_of (t_dels s) d)" if "e \<in># data t" for e
  proof -
    have "e \<in> timed (t_dels s)" "d \<in> timed (t_dels s)" using that t(3) d(1) U by (auto dest: in_diffD)
    then show ?thesis using d(2) that t(3) outRanks_timer by auto
  qed
  moreover have "TI {d} (put_cont b (c\<lparr>mTree := t\<rparr>) s)" (is "TI _ ?s")
  proof -
    have tr: "(\<lambda>b'. data (tree_of b' ?s)) = (\<lambda>b'. data (tree_of b' s))(b := data (tree_of b s) - {#d#})" using c t(3) by (auto simp: fun_eq_iff)
    have ex: "(\<lambda>b'. t_cont ?s b' \<noteq> None) = (\<lambda>b'. t_cont s b' \<noteq> None)" using c by (auto simp: fun_eq_iff)
    have "tinv {d} (t_dels ?s) (\<lambda>b'. data (tree_of b' ?s)) (\<lambda>e. filter (about e) (t_msgs ?s)) (t_client ?s) (t_next ?s) (\<lambda>b'. t_cont ?s b' \<noteq> None)"
      unfolding tr ex using tinv_pop [OF T(1), of d b] d(1) c by simp
    moreover have "heap_inv (timer_ranks (t_dels ?s)) (tree_of b' ?s)" for b' using T(2) [of b'] t(2) by auto
    ultimately show ?thesis using inv unfolding TI_def by auto
  qed
  moreover have "d \<notin># data t" using tinvD(3) [OF T(1), of b d] c t(3) by (simp add: not_in_iff)
  ultimately show ?thesis using t d(1) by blast
qed

lemma popIfOutRanks_total:
  assumes inv: "TI {} s" and c: "t_cont s b = Some c" and now: "valid_time now"
  shows "popIfOutRanks now b s = Some (None, s) \<and> (\<forall>d \<in># data (mTree c). before now (time_of (t_dels s) d)) \<or>
    (\<exists>d t. popIfOutRanks now b s = Some (Some d, put_cont b (c\<lparr>mTree := t\<rparr>) s) \<and> TI {d} (put_cont b (c\<lparr>mTree := t\<rparr>) s) \<and>
      data t = data (mTree c) - {#d#} \<and> d \<in># data (mTree c) \<and> d \<notin># data t \<and> \<not> before now (time_of (t_dels s) d) \<and>
      (\<forall>e \<in># data t. \<not> before (time_of (t_dels s) e) (time_of (t_dels s) d)))"
proof -
  note T = TID [OF inv]
  have live: "all_live (t_dels s) (mTree c)" using T(4) [of b] c by simp
  have U: "set_mset (data (mTree c)) \<subseteq> timed (t_dels s)" and h: "heap_inv (timer_ranks (t_dels s)) (mTree c)" using T(2,3) [of b] c by simp_all
  show ?thesis
  proof (cases "heap_peek (mTree c)")
    case None
    then have "mTree c = Null" by (cases "mTree c") (simp_all add: heap_peek_def)
    then show ?thesis using None c live by (simp add: popIfOutRanks_def)
  next
    case (Some d)
    obtain t where t: "heap_pop (timer_ranks (t_dels s)) (mTree c) = Some (t, Some d)" "TI {d} (put_cont b (c\<lparr>mTree := t\<rparr>) s)"
      "data t = data (mTree c) - {#d#}" "d \<in># data (mTree c)" "d \<notin># data t" "\<forall>e \<in># data t. \<not> before (time_of (t_dels s) e) (time_of (t_dels s) d)"
      using take_out [OF inv c Some] by blast
    have vd: "valid_time (time_of (t_dels s) d)" using U t(4) by (auto simp: timed_def)
    show ?thesis
    proof (cases "before now (time_of (t_dels s) d)")
      case False
      then show ?thesis using Some c live t time_ranks_before [OF now vd] by (auto simp: popIfOutRanks_def)
    next
      case True
      have "before now (time_of (t_dels s) e)" if "e \<in># data (mTree c)" for e
      proof (cases "e = d")
        case False
        then have "e \<in># data t" using that t(3) by (simp add: in_diff_count)
        then have "\<not> before (time_of (t_dels s) e) (time_of (t_dels s) d)" using t(6) by blast
        then show ?thesis using True by (auto simp: before_def)
      qed (simp add: True)
      then show ?thesis using Some c live time_ranks_before [OF now vd] True by (simp add: popIfOutRanks_def)
    qed
  qed
qed

section \<open>Expiration\<close>

definition op_ok :: "client_op \<Rightarrow> bool" where
  "op_ok p = (case p of START client ms wake now \<Rightarrow> valid_time (future_time ms now) | STOP client \<Rightarrow> True)"

lemma client_step_total:
  assumes "TI {} s" "armed_ok E s" "op_ok p" "\<And>b. timerfd b"
  shows "\<exists>s'. client_step timerfd p s = Some s' \<and> TI {} s' \<and> armed_ok E s' \<and> calm s s' \<and> t_fired s' = t_fired s"
proof (cases p)
  case (START c ms w now)
  then show ?thesis using timer_start_total [OF assms(1,2), of ms now timerfd c w] assms(3,4) by (auto simp: op_ok_def)
next
  case (STOP c)
  then show ?thesis using timer_stop_total [OF assms(1,2), of c] assms(1) by (auto split: option.splits)
qed

lemma client_steps_total:
  assumes "TI {} s" "armed_ok E s" "list_all op_ok ps" "\<And>b. timerfd b"
  shows "\<exists>s'. client_steps timerfd ps s = Some s' \<and> TI {} s' \<and> armed_ok E s' \<and> calm s s' \<and> t_fired s' = t_fired s"
  using assms(1-3)
proof (induction ps arbitrary: s)
  case (Cons p ps)
  obtain t where t: "client_step timerfd p s = Some t" "TI {} t" "armed_ok E t" "calm s t" "t_fired t = t_fired s"
    using client_step_total [OF Cons.prems(1,2), of p timerfd] assms(4) Cons.prems(3) by auto
  obtain u where "client_steps timerfd ps t = Some u" "TI {} u" "armed_ok E u" "calm t u" "t_fired u = t_fired t"
    using Cons.IH [OF t(2,3)] Cons.prems(3) by auto
  then show ?case using t calm_trans by auto
qed simp

definition client_of :: "timers \<Rightarrow> nat \<Rightarrow> nat option" where
  "client_of s d = Option.bind (t_dels s d) mClient"

lemma delegate_expire_total:
  assumes inv: "TI {d} s" "armed_ok E s" and d: "t_dels s d \<noteq> None" and cb: "\<And>c. list_all op_ok (callback c)" "\<And>b. timerfd b"
  shows "\<exists>s'. delegate_expire timerfd callback d s = Some s' \<and> TI {} s' \<and> armed_ok E s' \<and> calm s s' \<and>
    t_fired s' = t_fired s @ (case client_of s d of None \<Rightarrow> [] | Some c \<Rightarrow> [c]) \<and>
    ((\<forall>c. callback c = []) \<longrightarrow> (\<forall>e. e \<noteq> d \<longrightarrow> t_dels s' e = t_dels s e))"
proof -
  obtain t where t: "t_dels s d = Some t" using d by blast
  show ?thesis
  proof (cases "mClient t")
    case None
    have "TI {} s" using tinv_done [OF TID(1) [OF inv(1)], of d] t None inv(1) by (simp add: TI_def)
    then show ?thesis using t None inv(2) by (simp add: delegate_expire_def client_of_def)
  next
    case (Some c)
    have "t_client s c = Some d"
      using tinvD(1) [OF TID(1) [OF inv(1)], of d t] t Some by (auto simp: running_def stopped_def)
    then obtain u where u: "timer_stop c s = Some (True, u)" "TI {} u" "armed_ok E u" "calm s u" "t_fired u = t_fired s"
      "\<forall>e. e \<noteq> d \<longrightarrow> t_dels u e = t_dels s e"
      using timer_stop_total [OF inv, of c] t by (auto simp: timer_stop_def destroyLocked_def Let_def split: option.splits)
    let ?u = "u\<lparr>t_fired := t_fired u @ [c]\<rparr>"
    have ui: "TI {} ?u" "armed_ok E ?u" "calm u ?u" using u(2,3) by (simp_all add: TI_def armed_ok_def calm_def)
    obtain v where v: "client_steps timerfd (callback c) ?u = Some v" "TI {} v" "armed_ok E v" "calm ?u v" "t_fired v = t_fired ?u"
      using client_steps_total [OF ui(1,2) cb(1), of timerfd] cb(2) by blast
    have "calm s v" using calm_trans [OF u(4) calm_trans [OF ui(3) v(4)]] .
    moreover have "(\<forall>c. callback c = []) \<longrightarrow> v = ?u" using v(1) by auto
    ultimately show ?thesis using t Some u v by (auto simp: delegate_expire_def client_of_def)
  qed
qed

lemma map_filter_same: "(\<And>x. x \<in> set xs \<Longrightarrow> f x = g x) \<Longrightarrow> List.map_filter f xs = List.map_filter g xs"
  by (induction xs) (auto simp: List.map_filter_simps split: option.splits)

text \<open>
  The loop: the timers taken out after the first, in order, are those that are due; what the first one
  is does not matter.
\<close>

lemma expire_loop_total:
  assumes "TI (set_option timer) s" "armed_ok E s" "b \<in> E" "t_cont s b \<noteq> None" "\<And>d. timer = Some d \<Longrightarrow> t_dels s d \<noteq> None \<and> d \<notin># data (tree_of b s)"
    and now: "valid_time now" and cb: "\<And>c. list_all op_ok (callback c)" "\<And>b. timerfd b"
  shows "\<exists>s' ds. expire_loop timerfd callback now b timer s = Some s' \<and> TI {} s' \<and> armed_ok E s' \<and> t_cont s' b \<noteq> None \<and>
    data (tree_of b s) = mset ds + data (tree_of b s') \<and> sorted_wrt (\<lambda>d e. \<not> before (time_of (t_dels s) e) (time_of (t_dels s) d)) ds \<and>
    list_all (\<lambda>d. \<not> before now (time_of (t_dels s) d)) ds \<and>
    (timer \<noteq> None \<longrightarrow> (\<forall>d \<in># data (tree_of b s'). before now (time_of (t_dels s) d))) \<and>
    ((\<forall>c. callback c = []) \<longrightarrow> t_fired s' = t_fired s @ List.map_filter (client_of s) ((case timer of None \<Rightarrow> [] | Some d \<Rightarrow> [d]) @ ds))"
  using assms(1-5)
proof (induction "size (data (tree_of b s))" arbitrary: timer s rule: less_induct)
  case less
  show ?case
  proof (cases timer)
    case None
    then show ?thesis using less.prems by (intro exI [of _ s] exI [of _ "[]"]) (simp add: expire_loop.simps List.map_filter_simps)
  next
    case (Some d)
    obtain u where u: "delegate_expire timerfd callback d s = Some u" "TI {} u" "armed_ok E u" "calm s u"
      "t_fired u = t_fired s @ (case client_of s d of None \<Rightarrow> [] | Some c \<Rightarrow> [c])"
      "(\<forall>c. callback c = []) \<longrightarrow> (\<forall>e. e \<noteq> d \<longrightarrow> t_dels u e = t_dels s e)"
      using delegate_expire_total [of d s E callback timerfd] less.prems Some cb by auto
    obtain c where c: "t_cont s b = Some c" using less.prems(4) by blast
    have cu: "t_cont u b = Some c" using c u(4) by (simp add: calm_def)
    have tree: "tree_of b u = mTree c" "tree_of b s = mTree c" using c cu by simp_all
    have dom: "t_dels s e \<noteq> None" if "e \<in># data (mTree c)" for e using TID(3) [OF less.prems(1), of b] that c by (auto simp: timed_def)
    have time: "time_of (t_dels u) e = time_of (t_dels s) e" if "e \<in># data (mTree c)" for e using dom [OF that] u(4) by (simp add: calm_def)
    have dnot: "d \<notin># data (mTree c)" using less.prems(5) [OF Some] tree(2) by simp
    from popIfOutRanks_total [OF u(2) cu now] consider
        (stop) "popIfOutRanks now b u = Some (None, u)" "\<forall>d \<in># data (mTree c). before now (time_of (t_dels u) d)"
      | (more) e t where "popIfOutRanks now b u = Some (Some e, put_cont b (c\<lparr>mTree := t\<rparr>) u)" "TI {e} (put_cont b (c\<lparr>mTree := t\<rparr>) u)"
        "data t = data (mTree c) - {#e#}" "e \<in># data (mTree c)" "e \<notin># data t" "\<not> before now (time_of (t_dels u) e)"
        "\<forall>x \<in># data t. \<not> before (time_of (t_dels u) x) (time_of (t_dels u) e)" by blast
    then show ?thesis
    proof cases
      case stop
      have "expire_loop timerfd callback now b timer s = Some u" using Some u(1) stop(1) by (simp add: expire_loop.simps)
      then show ?thesis using u stop(2) tree time cu Some
        by (intro exI [of _ u] exI [of _ "[]"]) (auto simp: List.map_filter_simps split: option.splits)
    next
      case more
      let ?s = "put_cont b (c\<lparr>mTree := t\<rparr>) u"
      have size: "size (data (tree_of b ?s)) < size (data (tree_of b s))"
      proof -
        have "data (mTree c) = add_mset e (data t)" using more(3,4) by simp
        then show ?thesis using tree(2) by simp
      qed
      have arm: "armed_ok E ?s" using u(3) cu less.prems(3) by (auto simp: armed_ok_def)
      have live: "t_dels ?s e \<noteq> None" using dom [OF more(4)] u(4) by (simp add: calm_def)
      from less.hyps [OF size, of "Some e"] more(2,5) arm less.prems(3) live
      obtain s' ds where r: "expire_loop timerfd callback now b (Some e) ?s = Some s'" "TI {} s'" "armed_ok E s'" "t_cont s' b \<noteq> None"
        "data (tree_of b ?s) = mset ds + data (tree_of b s')"
        "sorted_wrt (\<lambda>d e. \<not> before (time_of (t_dels ?s) e) (time_of (t_dels ?s) d)) ds"
        "list_all (\<lambda>d. \<not> before now (time_of (t_dels ?s) d)) ds" "\<forall>d \<in># data (tree_of b s'). before now (time_of (t_dels ?s) d)"
        "(\<forall>c. callback c = []) \<longrightarrow> t_fired s' = t_fired ?s @ List.map_filter (client_of ?s) (e # ds)" by auto
      have run: "expire_loop timerfd callback now b timer s = Some s'" using Some u(1) more(1) r(1) by (simp add: expire_loop.simps [of _ _ _ _ "Some d"])
      have sub: "x \<in># data t" "x \<in># data (mTree c)" if "x \<in> set ds \<or> x \<in># data (tree_of b s')" for x
      proof -
        show "x \<in># data t" using that r(5) by auto
        then show "x \<in># data (mTree c)" using more(3) by (auto dest: in_diffD)
      qed
      have tm: "time_of (t_dels ?s) x = time_of (t_dels s) x" if "x \<in># data (mTree c)" for x using time [OF that] by simp
      have "data (mTree c) = add_mset e (data t)" using more(3,4) by simp
      then have mem: "data (tree_of b s) = mset (e # ds) + data (tree_of b s')" using r(5) tree(2) by simp
      have "sorted_wrt (\<lambda>d e. \<not> before (time_of (t_dels s) e) (time_of (t_dels s) d)) ds"
        by (rule sorted_wrt_mono_rel [OF _ r(6)]) (use sub tm in auto)
      moreover have "\<not> before (time_of (t_dels s) x) (time_of (t_dels s) e)" if "x \<in> set ds" for x
        using more(7) sub [of x] that time [of x] time [OF more(4)] by auto
      ultimately have sorted: "sorted_wrt (\<lambda>d e. \<not> before (time_of (t_dels s) e) (time_of (t_dels s) d)) (e # ds)" by simp
      have due: "list_all (\<lambda>d. \<not> before now (time_of (t_dels s) d)) (e # ds)"
        using r(7) more(6) time [OF more(4)] sub(2) tm by (auto simp: list_all_iff)
      have rest: "\<forall>d \<in># data (tree_of b s'). before now (time_of (t_dels s) d)" using r(8) sub(2) tm by auto
      have "client_of ?s x = client_of s x" if "\<forall>c. callback c = []" "x \<in> set (e # ds)" for x
      proof -
        have "x \<noteq> d" using that(2) sub(2) [of x] more(4) dnot by auto
        then show ?thesis using u(6) that(1) by (simp add: client_of_def)
      qed
      then have "List.map_filter (client_of ?s) (e # ds) = List.map_filter (client_of s) (e # ds)" if "\<forall>c. callback c = []"
        using that by (intro map_filter_same) blast
      then have "(\<forall>c. callback c = []) \<longrightarrow> t_fired s' = t_fired s @ List.map_filter (client_of s) ([d] @ (e # ds))"
        using r(9) u(5) by (auto simp: List.map_filter_simps split: option.splits)
      then show ?thesis using run r(2,3,4) mem sorted due rest Some by (intro exI [of _ s'] exI [of _ "e # ds"]) simp
    qed
  qed
qed

lemma proc_expire_total:
  assumes inv: "TI {} s" and arm: "armed_ok {b} s" and c: "t_cont s b \<noteq> None"
    and now: "valid_time now" and cb: "\<And>c. list_all op_ok (callback c)" "\<And>b. timerfd b"
  shows "\<exists>s' ds. proc_expire timerfd callback now b s = Some s' \<and> TI {} s' \<and> armed_ok {} s' \<and>
    data (tree_of b s) = mset ds + data (tree_of b s') \<and>
    sorted_wrt (\<lambda>d e. \<not> before (time_of (t_dels s) e) (time_of (t_dels s) d)) ds \<and>
    list_all (\<lambda>d. \<not> before now (time_of (t_dels s) d)) (tl ds) \<and>
    (\<forall>d \<in># data (tree_of b s'). before now (time_of (t_dels s) d)) \<and>
    ((\<forall>c. callback c = []) \<longrightarrow> t_fired s' = t_fired s @ List.map_filter (client_of s) ds)"
proof -
  obtain k where k: "t_cont s b = Some k" using c by blast
  note T = TID [OF inv]
  have live: "all_live (t_dels s) (mTree k)" using T(4) [of b] k by simp
  obtain timer u ds0 where u: "pop_first b s = Some (timer, u)" "TI (set_option timer) u" "armed_ok {b} u" "t_cont u b \<noteq> None"
    "\<And>d. timer = Some d \<Longrightarrow> t_dels u d \<noteq> None \<and> d \<notin># data (tree_of b u)" "t_dels u = t_dels s" "t_fired u = t_fired s"
    "ds0 = (case timer of None \<Rightarrow> [] | Some d \<Rightarrow> [d])" "data (tree_of b s) = mset ds0 + data (tree_of b u)"
    "timer = None \<Longrightarrow> data (tree_of b u) = {#}"
    "\<And>d e. timer = Some d \<Longrightarrow> e \<in># data (tree_of b u) \<Longrightarrow> \<not> before (time_of (t_dels s) e) (time_of (t_dels s) d)"
  proof (cases "heap_peek (mTree k)")
    case None
    then have "mTree k = Null" by (cases "mTree k") (simp_all add: heap_peek_def)
    moreover from this have "put_cont b (k\<lparr>mTree := Null\<rparr>) s = s" using k by (cases s; cases k) (auto simp: put_cont_def)
    ultimately show thesis using that [of None s "[]"] k live inv arm by (auto simp: pop_first_def heap_pop_def)
  next
    case (Some d)
    obtain t where t: "heap_pop (timer_ranks (t_dels s)) (mTree k) = Some (t, Some d)" "TI {d} (put_cont b (k\<lparr>mTree := t\<rparr>) s)"
      "data t = data (mTree k) - {#d#}" "d \<in># data (mTree k)" "d \<notin># data t"
      "\<forall>e \<in># data t. \<not> before (time_of (t_dels s) e) (time_of (t_dels s) d)" using take_out [OF inv k Some] by blast
    have "armed_ok {b} (put_cont b (k\<lparr>mTree := t\<rparr>) s)" using arm k by (auto simp: armed_ok_def)
    moreover have "t_dels s d \<noteq> None" using T(3) [of b] t(4) k by (auto simp: timed_def)
    ultimately show thesis using that [of "Some d" "put_cont b (k\<lparr>mTree := t\<rparr>) s" "[d]"] k live t by (auto simp: pop_first_def)
  qed
  obtain v ds where v: "expire_loop timerfd callback now b timer u = Some v" "TI {} v" "armed_ok {b} v" "t_cont v b \<noteq> None"
    "data (tree_of b u) = mset ds + data (tree_of b v)" "sorted_wrt (\<lambda>d e. \<not> before (time_of (t_dels u) e) (time_of (t_dels u) d)) ds"
    "list_all (\<lambda>d. \<not> before now (time_of (t_dels u) d)) ds"
    "timer \<noteq> None \<longrightarrow> (\<forall>d \<in># data (tree_of b v). before now (time_of (t_dels u) d))"
    "(\<forall>c. callback c = []) \<longrightarrow> t_fired v = t_fired u @ List.map_filter (client_of u) (ds0 @ ds)"
    using expire_loop_total [where callback = callback and timerfd = timerfd and E = "{b}", OF u(2,3) singletonI u(4,5) now cb]
    unfolding u(8) by blast
  obtain c where c: "t_cont v b = Some c" using v(4) by blast
  have dom: "t_dels v d \<noteq> None" if "d \<in># data (mTree c)" for d using TID(3) [OF v(2), of b] that c by (auto simp: timed_def)
  obtain c' where c': "updateSoonestTime None (t_dels v) c = Some c'" "mTree c' = mTree c"
    "\<not> is_Null (mTree c) \<longrightarrow> armed c' = Some (time_of (t_dels v) (mData (mTree c))) \<and> polled c'"
    using update_none [of c "t_dels v"] dom by blast
  let ?s = "put_cont b c' v"
  have tr: "tree_of b' ?s = tree_of b' v" for b' using c c'(2) by simp
  have ex: "(\<lambda>b'. t_cont ?s b' \<noteq> None) = (\<lambda>b'. t_cont v b' \<noteq> None)" using c by (auto simp: fun_eq_iff)
  have "TI {} ?s" using v(2) unfolding TI_def tr ex by auto
  moreover have "armed_ok {} ?s" unfolding armed_ok_def
  proof (intro allI impI)
    fix b' k assume k: "t_cont ?s b' = Some k \<and> \<not> is_Null (mTree k)"
    show "armed k = Some (time_of (t_dels ?s) (mData (mTree k))) \<and> polled k \<or> MsgTimerExpire b' \<in> set (t_msgs ?s) \<or> b' \<in> {}"
      using k armed_okD [OF v(3), of b' k] c'(2,3) by (cases "b' = b") auto
  qed
  moreover have "proc_expire timerfd callback now b s = Some ?s" using u(1) v(1) c c'(1) by (simp add: proc_expire_def)
  moreover have "data (tree_of b s) = mset (ds0 @ ds) + data (tree_of b ?s)" using u(9) v(5) tr [of b] by simp
  moreover have "sorted_wrt (\<lambda>d e. \<not> before (time_of (t_dels s) e) (time_of (t_dels s) d)) (ds0 @ ds)"
    using v(6) u(6,8,11) v(5) by (cases timer) auto
  moreover have "list_all (\<lambda>d. \<not> before now (time_of (t_dels s) d)) (tl (ds0 @ ds))"
    using v(7) u(6,8) by (cases timer; cases ds) auto
  moreover have "\<forall>d \<in># data (tree_of b ?s). before now (time_of (t_dels s) d)"
    using v(5,8) u(6,10) tr [of b] by (cases timer) auto
  moreover have "(\<forall>c. callback c = []) \<longrightarrow> t_fired ?s = t_fired s @ List.map_filter (client_of s) (ds0 @ ds)"
    using v(9) u(6,7) by (simp add: client_of_def [abs_def])
  ultimately show ?thesis by blast
qed

end
