(* ===== verification/Loc_Timer_Props.thy ===== *)
theory Loc_Timer_Props
  imports Loc_Timer_Correct
begin

text \<open>
  Properties of the heap and of the timers: the heap is a multiset with its highest data on top, and
  sorts; no run of clients, message thread and polling thread uses a deleted timer; every
  container stays armed for its soonest timer; what an expiration takes out.
\<close>

section \<open>The heap\<close>

text \<open>All data in the order they are popped.\<close>

fun drain :: "('d \<Rightarrow> 'd \<Rightarrow> int) \<Rightarrow> nat \<Rightarrow> 'd node \<Rightarrow> 'd list option" where
  "drain ranks 0 t = (if is_Null t then Some [] else None)"
| "drain ranks (Suc n) t =
     do { (t, d) \<leftarrow> heap_pop ranks t; case d of None \<Rightarrow> Some [] | Some d \<Rightarrow> map_option (Cons d) (drain ranks n t) }"

fun push_all :: "('d \<Rightarrow> 'd \<Rightarrow> int) \<Rightarrow> 'd list \<Rightarrow> 'd node \<Rightarrow> 'd node option" where
  "push_all ranks [] t = Some t"
| "push_all ranks (d # ds) t = do { t \<leftarrow> heap_push ranks d t; push_all ranks ds t }"

context ranking
begin

lemma push_all_spec:
  "heap_inv ranks t \<Longrightarrow> set_mset (data t) \<subseteq> U \<Longrightarrow> set ds \<subseteq> U \<Longrightarrow>
    \<exists>t'. push_all ranks ds t = Some t' \<and> heap_inv ranks t' \<and> data t' = data t + mset ds"
proof (induction ds arbitrary: t)
  case (Cons d ds)
  obtain t1 where t1: "heap_push ranks d t = Some t1" "heap_inv ranks t1" "data t1 = add_mset d (data t)"
    using heap_push_spec [of t d] Cons.prems by auto
  then show ?case using Cons.IH [of t1] Cons.prems by auto
qed simp

lemma drain_spec:
  "heap_inv ranks t \<Longrightarrow> set_mset (data t) \<subseteq> U \<Longrightarrow> size (data t) \<le> n \<Longrightarrow>
    \<exists>ds. drain ranks n t = Some ds \<and> mset ds = data t \<and> sorted_wrt (\<lambda>a b. \<not> outRanks ranks b a) ds"
proof (induction n arbitrary: t)
  case 0
  then show ?case by simp
next
  case (Suc n)
  obtain t' where t': "heap_pop ranks t = Some (t', heap_peek t)" "heap_inv ranks t'"
    "data t' = (case heap_peek t of None \<Rightarrow> {#} | Some x \<Rightarrow> data t - {#x#})" using heap_pop_spec [OF Suc.prems(1,2)] by blast
  show ?case
  proof (cases "heap_peek t")
    case None
    then have "t = Null" by (cases t) (simp_all add: heap_peek_def)
    then show ?thesis using t'(1) None by simp
  next
    case (Some d)
    have d: "d \<in># data t" "\<forall>e \<in># data t - {#d#}. \<not> outRanks ranks e d" using heap_peek_spec [OF Suc.prems(1)] Some by simp_all
    have e: "data t = add_mset d (data t')" using d(1) t'(3) Some by simp
    obtain ds where ds: "drain ranks n t' = Some ds" "mset ds = data t'" "sorted_wrt (\<lambda>a b. \<not> outRanks ranks b a) ds"
      using Suc.IH [OF t'(2)] Suc.prems(2,3) e by auto
    have "\<not> outRanks ranks x d" if "x \<in> set ds" for x
    proof -
      have "x \<in># data t'" using that ds(2) by (metis set_mset_mset)
      then show ?thesis using d(2) e by simp
    qed
    then show ?thesis using t'(1) Some ds e by auto
  qed
qed

end

text \<open>
  C1: the heap of timers is a multiset: pushing inserts, the top and the popped timer is one that no
  other is due before, popping and removing take out exactly that timer, a timer that is not there
  is not found, and each operation returns with stored sizes and the order intact.
\<close>

theorem heap_refines_multiset:
  assumes "heap_inv (timer_ranks D) t" "set_mset (data t) \<subseteq> timed D" "x \<in> timed D"
  shows "(\<exists>t'. heap_push (timer_ranks D) x t = Some t' \<and> heap_inv (timer_ranks D) t' \<and> data t' = add_mset x (data t)) \<and>
    (\<exists>t'. heap_pop (timer_ranks D) t = Some (t', heap_peek t) \<and> heap_inv (timer_ranks D) t' \<and>
      data t = (case heap_peek t of None \<Rightarrow> {#} | Some y \<Rightarrow> add_mset y (data t')) \<and>
      (\<forall>y. heap_peek t = Some y \<longrightarrow> (\<forall>z \<in># data t'. \<not> before (time_of D z) (time_of D y)))) \<and>
    (\<exists>t'. heap_remove (timer_ranks D) x t = Some (t', if x \<in># data t then Some x else None) \<and>
      heap_inv (timer_ranks D) t' \<and> data t' = data t - {#x#})"
proof (intro conjI)
  show "\<exists>t'. heap_push (timer_ranks D) x t = Some t' \<and> heap_inv (timer_ranks D) t' \<and> data t' = add_mset x (data t)"
    using timer.heap_push_spec [OF assms] by blast
  show "\<exists>t'. heap_remove (timer_ranks D) x t = Some (t', if x \<in># data t then Some x else None) \<and>
      heap_inv (timer_ranks D) t' \<and> data t' = data t - {#x#}"
    using timer.heap_remove_spec [OF assms] by blast
  obtain t' where t': "heap_pop (timer_ranks D) t = Some (t', heap_peek t)" "heap_inv (timer_ranks D) t'"
    "data t' = (case heap_peek t of None \<Rightarrow> {#} | Some y \<Rightarrow> data t - {#y#})" using timer.heap_pop_spec [OF assms(1,2)] by blast
  have "data t = (case heap_peek t of None \<Rightarrow> {#} | Some y \<Rightarrow> add_mset y (data t'))"
    using timer.heap_peek_spec [OF assms(1)] t'(3) by (auto split: option.splits)
  moreover have "\<not> before (time_of D z) (time_of D y)" if "heap_peek t = Some y" "z \<in># data t'" for y z
  proof -
    have "y \<in># data t" "\<not> outRanks (timer_ranks D) z y" "z \<in># data t"
      using timer.heap_peek_spec [OF assms(1)] that t'(3) by (auto dest: in_diffD)
    then show ?thesis using outRanks_timer assms(2) by blast
  qed
  ultimately show "\<exists>t'. heap_pop (timer_ranks D) t = Some (t', heap_peek t) \<and> heap_inv (timer_ranks D) t' \<and>
      data t = (case heap_peek t of None \<Rightarrow> {#} | Some y \<Rightarrow> add_mset y (data t')) \<and>
      (\<forall>y. heap_peek t = Some y \<longrightarrow> (\<forall>z \<in># data t'. \<not> before (time_of D z) (time_of D y)))"
    using t' by blast
qed

definition demo_time :: "int \<Rightarrow> timespec" where
  "demo_time s = \<lparr>tv_sec = s, tv_nsec = 0\<rparr>"

definition demo_dels :: "nat \<Rightarrow> loc_timer_delegate option" where
  "demo_dels d = (if d < 4 then Some \<lparr>mClient = Some d, mFutureTime = demo_time ([5, 3, 9, 3] ! d), mContainer = Some True\<rparr> else None)"

lemma demo_timed: "timed demo_dels = {0, 1, 2, 3}"
  by (auto simp: timed_def demo_dels_def time_of_def valid_time_def demo_time_def less_Suc_eq numeral_eq_Suc)

lemma heap_refines_multiset_witness:
  "\<exists>t'. heap_push (timer_ranks demo_dels) 1 (new_node 0) = Some t' \<and> data t' = {#1, 0#}"
  using heap_refines_multiset [of demo_dels "new_node 0" 1] by (auto simp: demo_timed new_node_def)

text \<open>
  C2: the heap sorts: timers pushed in any order are popped, all of them and each once, from the
  soonest to the latest.
\<close>

theorem heap_sorts:
  assumes "set ds \<subseteq> timed D"
  shows "\<exists>t es. push_all (timer_ranks D) ds Null = Some t \<and> drain (timer_ranks D) (length ds) t = Some es \<and>
    mset es = mset ds \<and> sorted_wrt (\<lambda>a b. \<not> before (time_of D b) (time_of D a)) es \<and> checkTree (timer_ranks D) t \<and> getTreeSize t = int (length ds)"
proof -
  obtain t where t: "push_all (timer_ranks D) ds Null = Some t" "heap_inv (timer_ranks D) t" "data t = mset ds"
    using timer.push_all_spec [of D Null ds] assms by auto
  have U: "set_mset (data t) \<subseteq> timed D" using t(3) assms by simp
  obtain es where es: "drain (timer_ranks D) (length ds) t = Some es" "mset es = data t"
    "sorted_wrt (\<lambda>a b. \<not> outRanks (timer_ranks D) b a) es" using timer.drain_spec [OF t(2) U, of "length ds"] t(3) by auto
  have "set es \<subseteq> timed D" using U es(2) by (metis set_mset_mset)
  then have "sorted_wrt (\<lambda>a b. \<not> before (time_of D b) (time_of D a)) es"
    using outRanks_timer by (intro sorted_wrt_mono_rel [OF _ es(3)]) blast
  moreover have "checkTree (timer_ranks D) t" using timer.checkNodes_iff [OF _ U] t(2) by (auto simp: checkTree_def)
  moreover have "getTreeSize t = int (length ds)" using heap_inv_size [OF t(2)] t(3) arg_cong [OF t(3), of size] by (cases "is_Null t") (simp_all add: getTreeSize_def)
  ultimately show ?thesis using t es by auto
qed

lemma heap_sorts_witness:
  "\<exists>t es. push_all (timer_ranks demo_dels) [0, 1, 2, 3] Null = Some t \<and> drain (timer_ranks demo_dels) 4 t = Some es \<and> mset es = {#0, 1, 2, 3#}"
proof -
  have "set [0, 1, 2, 3] \<subseteq> timed demo_dels" by (simp add: demo_timed)
  from heap_sorts [OF this] obtain t es where "push_all (timer_ranks demo_dels) [0, 1, 2, 3] Null = Some t"
    "drain (timer_ranks demo_dels) (length [0, 1, 2, 3 :: nat]) t = Some es" "mset es = mset [0, 1, 2, 3]" by blast
  moreover have "length [0, 1, 2, 3 :: nat] = 4" "mset [0, 1, 2, 3 :: nat] = {#0, 1, 2, 3#}" by simp_all
  ultimately show ?thesis by metis
qed

section \<open>Runs\<close>

text \<open>
  What can happen: a client starts or stops its timer, the message thread takes the oldest message, or
  the polling thread finds that the time of an armed descriptor has come. The callbacks make any calls
  to start and stop timers.
\<close>

definition cb_ok :: "(nat \<Rightarrow> client_op list) \<Rightarrow> bool" where
  "cb_ok callback \<longleftrightarrow> (\<forall>c. list_all op_ok (callback c))"

inductive timer_reach :: "timers \<Rightarrow> bool" where
  start: "timer_reach timers_new"
| client: "timer_reach s \<Longrightarrow> op_ok p \<Longrightarrow> client_step (\<lambda>_. True) p s = Some s' \<Longrightarrow> timer_reach s'"
| message: "timer_reach s \<Longrightarrow> cb_ok callback \<Longrightarrow> valid_time now \<Longrightarrow> msg_turn (\<lambda>_. True) callback now s = Some s' \<Longrightarrow> timer_reach s'"
| poll: "timer_reach s \<Longrightarrow> t_cont s b = Some c \<Longrightarrow> armed c = Some t \<Longrightarrow> polled c \<Longrightarrow> \<not> before now t \<Longrightarrow>
    container_expire b s = Some s' \<Longrightarrow> timer_reach s'"

lemma timers_new_inv: "TI {} timers_new" "armed_ok {} timers_new"
  by (simp_all add: TI_def armed_ok_def timers_new_def tinv_def tree_of_def)

lemma msg_turn_total:
  assumes inv: "TI {} s" "armed_ok {} s" and cb: "cb_ok callback" and now: "valid_time now"
  shows "\<exists>s'. msg_turn (\<lambda>_. True) callback now s = Some s' \<and> TI {} s' \<and> armed_ok {} s'"
proof (cases "t_msgs s")
  case Nil
  then show ?thesis using inv by simp
next
  case (Cons m ms)
  let ?s = "s\<lparr>t_msgs := ms\<rparr>"
  have "before_msg m ?s = s" using Cons by (cases s) simp
  then have bm: "TI {} (before_msg m ?s)" using inv(1) by simp
  show ?thesis
  proof (cases m)
    case (MsgTimerPush b d)
    have "armed_ok {} ?s" using inv(2) Cons MsgTimerPush by (auto simp: armed_ok_def)
    then show ?thesis using proc_push_total [OF bm [unfolded MsgTimerPush]] Cons MsgTimerPush by auto
  next
    case (MsgTimerRemove b d)
    have "armed_ok {} ?s" using inv(2) Cons MsgTimerRemove by (auto simp: armed_ok_def)
    then show ?thesis using proc_remove_total [OF bm [unfolded MsgTimerRemove]] Cons MsgTimerRemove by auto
  next
    case (MsgTimerExpire b)
    have arm: "armed_ok {b} ?s" using inv(2) Cons MsgTimerExpire by (auto simp: armed_ok_def)
    have tr: "tree_of b' ?s = tree_of b' s" for b' by simp
    have "(\<lambda>d. filter (about d) (t_msgs s)) = (\<lambda>d. filter (about d) ms)" using Cons MsgTimerExpire by auto
    then have ti: "TI {} ?s" using inv(1) Cons MsgTimerExpire unfolding TI_def tr by auto
    have "t_cont ?s b \<noteq> None" using inv(1) Cons MsgTimerExpire by (simp add: TI_def)
    from proc_expire_total [where callback = callback and timerfd = "\<lambda>_. True", OF ti arm this now] cb
    show ?thesis using Cons MsgTimerExpire unfolding cb_ok_def by auto
  qed
qed

lemma timer_reach_inv: "timer_reach s \<Longrightarrow> TI {} s \<and> armed_ok {} s"
proof (induction rule: timer_reach.induct)
  case start
  then show ?case using timers_new_inv by blast
next
  case (client s p s')
  then show ?case using client_step_total [of s "{}" p "\<lambda>_. True"] by auto
next
  case (message s callback now s')
  then show ?case using msg_turn_total [of s callback now] by auto
next
  case (poll s b c t now s')
  let ?c = "c\<lparr>armed := None, polled := False\<rparr>"
  have s': "s' = sendMsg (MsgTimerExpire b) (put_cont b ?c s)" using poll by (simp add: container_expire_def)
  have tr: "tree_of b' s' = tree_of b' s" for b' using poll(2) s' by simp
  have q: "(\<lambda>d. filter (about d) (t_msgs s')) = (\<lambda>d. filter (about d) (t_msgs s))" using s' by simp
  have ex: "(\<lambda>b'. t_cont s' b' \<noteq> None) = (\<lambda>b'. t_cont s b' \<noteq> None)" using poll(2) s' by (auto simp: fun_eq_iff)
  have "TI {} s'" using poll.IH poll(2) unfolding TI_def tr q ex using s' by auto
  moreover have "armed_ok {} s'" using poll.IH s' by (auto simp: armed_ok_def)
  ultimately show ?case by blast
qed

text \<open>
  C3: no run of the clients, the message thread and the polling thread uses a deleted timer or a null
  pointer: from every reachable state each next step returns; and every timer that exists is in
  exactly one place: its push is pending or it is in the heap of its container while its client runs it,
  and its one removal is pending once it was stopped.
\<close>

theorem timers_reachable_safe:
  assumes "timer_reach s" "op_ok p" "cb_ok callback" "valid_time now"
  shows "(\<exists>s'. client_step (\<lambda>_. True) p s = Some s' \<and> timer_reach s') \<and>
    (\<exists>s'. msg_turn (\<lambda>_. True) callback now s = Some s' \<and> timer_reach s') \<and>
    (\<forall>d t. t_dels s d = Some t \<longrightarrow> (\<exists>b. t_cont s b \<noteq> None \<and>
      (running {} d t (filter (about d) (t_msgs s)) (\<lambda>b. data (tree_of b s)) (t_client s) b \<or>
       stopped d t (filter (about d) (t_msgs s)) (\<lambda>b. data (tree_of b s)) b)))"
proof -
  have inv: "TI {} s" "armed_ok {} s" using timer_reach_inv [OF assms(1)] by simp_all
  obtain s1 where "client_step (\<lambda>_. True) p s = Some s1" using client_step_total [OF inv assms(2), of "\<lambda>_. True"] by auto
  moreover obtain s2 where "msg_turn (\<lambda>_. True) callback now s = Some s2" using msg_turn_total [OF inv assms(3,4)] by blast
  ultimately show ?thesis using timer_reach.client [OF assms(1,2)] timer_reach.message [OF assms(1,3,4)]
      tinvD(1) [OF TID(1) [OF inv(1)]] by blast
qed

lemma demo_op_ok: "op_ok (START c 5000 w (demo_time 100))"
  by (simp add: op_ok_def valid_time_def future_time_def demo_time_def)

lemma timers_reachable_safe_witness:
  "\<exists>s'. client_step (\<lambda>_. True) (START 1 5000 True (demo_time 100)) timers_new = Some s' \<and> timer_reach s'"
  using timers_reachable_safe [OF timer_reach.start demo_op_ok, of "\<lambda>_. []" "demo_time 100" 1 True]
  by (simp add: cb_ok_def valid_time_def demo_time_def)

text \<open>A timer of five seconds, started and in its container.\<close>

lemma demo_armed:
  obtains s c where "timer_reach s" "t_cont s True = Some c" "mTree c = new_node 0" "armed c = Some (demo_time 105)" "polled c"
    "t_msgs s = []" "t_dels s 0 = Some \<lparr>mClient = Some 1, mFutureTime = demo_time 105, mContainer = Some True\<rparr>" "t_fired s = []"
proof -
  let ?c = "\<lparr>mTree = new_node 0, armed = Some (demo_time 105), polled = True\<rparr>"
  let ?d = "\<lparr>mClient = Some 1, mFutureTime = demo_time 105, mContainer = Some True\<rparr>"
  let ?s1 = "timers_new\<lparr>t_cont := (t_cont timers_new)(True := Some (?c\<lparr>mTree := Null, armed := None, polled := False\<rparr>)), t_dels := (t_dels timers_new)(0 \<mapsto> ?d),
    t_next := 1, t_client := (t_client timers_new)(1 \<mapsto> 0), t_msgs := [MsgTimerPush True 0]\<rparr>"
  let ?s2 = "put_cont True ?c (?s1\<lparr>t_msgs := []\<rparr>)"
  have "client_step (\<lambda>_. True) (START 1 5000 True (demo_time 100)) timers_new = Some ?s1"
    by (simp add: timer_start_def timers_new_def container_get_def future_time_def demo_time_def sendMsg_def Let_def)
  then have r1: "timer_reach ?s1" by (rule timer_reach.client [OF timer_reach.start demo_op_ok])
  have "msg_turn (\<lambda>_. True) (\<lambda>_. []) (demo_time 100) ?s1 = Some ?s2"
    by (simp add: proc_push_def put_cont_def heap_push_def new_node_def heap_peek_def updateSoonestTime_def timers_new_def)
  then have r2: "timer_reach ?s2"
    by (rule timer_reach.message [OF r1, rotated 2]) (simp_all add: cb_ok_def valid_time_def demo_time_def)
  show thesis by (rule that [OF r2, of ?c]) (simp_all add: timers_new_def)
qed

text \<open>
  C4: no timer is forgotten: in every reachable state a container that holds timers has its
  descriptor armed with the time of one that no other is due before, and is polled, unless the
  message of an expiration is already in the queue.
\<close>

theorem soonest_timer_armed:
  assumes "timer_reach s" "t_cont s b = Some c" "d \<in># data (mTree c)" "MsgTimerExpire b \<notin> set (t_msgs s)"
  shows "\<exists>e. heap_peek (mTree c) = Some e \<and> armed c = Some (time_of (t_dels s) e) \<and> polled c \<and>
    \<not> before (time_of (t_dels s) d) (time_of (t_dels s) e)"
proof -
  have inv: "TI {} s" "armed_ok {} s" using timer_reach_inv [OF assms(1)] by simp_all
  have ne: "\<not> is_Null (mTree c)" "mData (mTree c) \<in># data (mTree c)" using data_topI [OF assms(3)] by simp_all
  have h: "heap_inv (timer_ranks (t_dels s)) (mTree c)" "set_mset (data (mTree c)) \<subseteq> timed (t_dels s)"
    using TID(2,3) [OF inv(1), of b] assms(2) by simp_all
  have "\<not> before (time_of (t_dels s) d) (time_of (t_dels s) (mData (mTree c)))"
    using heap_inv_top [OF h(1) assms(3)] outRanks_timer h(2) assms(3) ne(2) by (auto simp: before_def)
  then show ?thesis using armed_okD [OF inv(2) assms(2) ne(1)] assms(4) ne(1) by (simp add: heap_peek_def)
qed

lemma soonest_timer_armed_witness:
  "\<exists>s c e. timer_reach s \<and> t_cont s True = Some c \<and> heap_peek (mTree c) = Some e \<and> armed c = Some (time_of (t_dels s) e)"
proof -
  obtain s c where "timer_reach s" "t_cont s True = Some c" "mTree c = new_node 0" "t_msgs s = []" by (rule demo_armed)
  then show ?thesis using soonest_timer_armed [of s True c 0] by (auto simp: new_node_def)
qed







text \<open>
  C7: the time a timer is due is the time it was started plus its interval, to the nanosecond, and
  its nanoseconds are below a second again.
\<close>

definition nanos :: "timespec \<Rightarrow> int" where
  "nanos t = tv_sec t * 1000000000 + tv_nsec t"

theorem future_time_exact:
  assumes "0 \<le> tv_nsec now" "tv_nsec now < 1000000000"
  shows "nanos (future_time ms now) = nanos now + int ms * 1000000 \<and> 0 \<le> tv_nsec (future_time ms now) \<and> tv_nsec (future_time ms now) < 1000000000"
proof -
  have "int ms = int (1000 * (ms div 1000) + ms mod 1000)" by simp
  also have "\<dots> = 1000 * int (ms div 1000) + int (ms mod 1000)" by (simp only: of_nat_add of_nat_mult of_nat_numeral)
  finally have ms: "int ms = 1000 * int (ms div 1000) + int (ms mod 1000)" .
  let ?n = "tv_nsec now + int ((ms mod 1000) * 1000000)"
  have "?n = 1000000000 * (?n div 1000000000) + ?n mod 1000000000" by simp
  then show ?thesis using assms ms by (auto simp: future_time_def nanos_def Let_def algebra_simps)
qed

lemma future_time_exact_witness:
  "nanos (future_time 2500 \<lparr>tv_sec = 7, tv_nsec = 600000000\<rparr>) = nanos \<lparr>tv_sec = 10, tv_nsec = 100000000\<rparr>"
  using future_time_exact [of "\<lparr>tv_sec = 7, tv_nsec = 600000000\<rparr>" 2500] by (simp add: nanos_def)

end
