(* ===== verification/Spec2Isabelle.thy ===== *)
theory Spec2Isabelle
  imports Loc_Props Ct_Props Ipacm_Neighbor_Props Loc_Timer_Props
begin

text \<open>
  A verification library for the HTC 10 device tree: the parts of its C and C++ code that keep
  state of their own.

  \<^bold>\<open>The program.\<close> The repository holds the device specific daemons and libraries of an Android
  phone. Two subsystems carry most of its own logic. In data-ipa-cfg-mgr the connection manager
  (ipacm) follows network events and programs a packet accelerator (IPA); its NAT application
  keeps the connections and calls the NAT driver (ipanat), which lays the rules out as hash tables
  in memory shared with the hardware and links them by DMA requests. In gps the location client
  sends requests to the modem and waits for their indications, over a synchronous request layer,
  a message queue and a linked list.

  \<^bold>\<open>Conventions.\<close> Structures are records with the source's field names. A function that can reach
  undefined behaviour (an access outside an array, a null or freed pointer, an endless loop)
  returns an option, and \<open>None\<close> is that outcome; an equation \<open>f s = Some r\<close> therefore says that the
  run is memory safe and ends. Return codes are the numbers of the source. Words keep their width
  where arithmetic on them matters. The operating system, the hardware and third-party libraries
  are arguments: \<open>nat_env\<close> (ioctl, mmap, malloc of the driver), \<open>app_env\<close> (connection tracking and
  files), \<open>config_env\<close> (XML file and malloc), the listener argument of the dispatcher, and the
  environment of a synchronous request.

  \<^bold>\<open>Theories.\<close>
  \<^item> \<open>Prelude\<close>: machine types, checked array access \<open>rd\<close> and \<open>wr\<close>, the loops \<open>scan_first\<close> and \<open>for_range\<close>.
  \<^item> \<open>Paths\<close>: linked paths in a heap, as used by lists and hash chains.
  \<^item> NAT driver (ipanat/src/ipa_nat_drvi.c, ipa_nat_drv.c and their headers): \<open>Nat_Fields\<close> (the hardware
    layout of rules), \<open>Nat_Util\<close> (sizes, hashes, checksums), \<open>Nat_State\<close> (tables, handles), \<open>Nat_Table\<close>
    (creation and deletion of a table), \<open>Nat_Chain\<close> and \<open>Nat_Add\<close> (adding a rule), \<open>Nat_Del\<close> (deleting a
    rule), \<open>Nat_Query\<close> (debug output), \<open>Nat_Api\<close> (the public functions). \<open>Nat_View\<close> reads a table as
    chains, \<open>Nat_Inv\<close> states its invariant, \<open>Nat_Add_Correct\<close>, \<open>Nat_Del_Correct\<close> and \<open>Nat_Life\<close> prove
    the operations against it, \<open>Nat_Props\<close> and \<open>Nat_Props2\<close> hold the properties.
  \<^item> Location client (gps/utils/linked_list.c, msg_q.c, loc_api_v02/loc_api_sync_req.c): \<open>Linked_List\<close>,
    \<open>Msg_Q\<close> and \<open>Sync_Req\<close>, each with its model and correctness lemmas; \<open>Loc_Props\<close> holds the properties.
  \<^item> Connection manager (ipacm/src): \<open>Ipacm_Config\<close> (IPACM_Config.cpp and the inline functions of its
    header), \<open>Ipacm_Rm\<close> (resource dependencies), \<open>Ipacm_Events\<close> and \<open>Ipacm_Events_Correct\<close>
    (IPACM_CmdQueue.cpp, IPACM_EvtDispatcher.cpp), \<open>Nat_App\<close> (IPACM_Conntrack_NATApp.cpp), \<open>Nat_Mirror\<close> (the
    contract between the application and the driver) and \<open>Nat_App_Correct\<close>.

  \<^bold>\<open>What is shown.\<close> For the driver: an invariant \<open>tbl_inv\<close> of the two pairs of tables (chains are
  disjoint, acyclic, doubly linked in the index tables and in the bucket of their hash) that every
  operation keeps under any sequence of calls; adding and deleting rules refine insertion into and
  deletion from a finite map from handles to rules; deleted slots never stay reachable for the
  hardware; every loop ends. For the location client: refinement of the list and the queue to
  sequences under any interleaving of critical sections, no lost wakeup, and that a synchronous
  request ends after at most six sends with its slot free. For the connection manager: the
  dependency requests sent to the kernel are never redundant and sum up to the entries whose two
  ends are up; the command queue is first in, first out; the dispatcher calls the registered
  listeners of an event in order, and a listener that removes itself is safe exactly when the next
  node is not its own; and each method of the NAT application keeps the rules of the table equal to
  the enabled entries of its cache.

  \<^bold>\<open>Bounds.\<close> Table sizes are as \<open>ipa_nati_alloc_table\<close> makes them for up to 20480 requested entries
  (16 bit slot numbers); the slot array of synchronous requests has 8 slots and a request is
  retried up to 5 times; loops whose end depends on the heap are \<open>partial_function (option)\<close> and are
  proved to return.

  \<^bold>\<open>Hypotheses.\<close> \<open>env_ok\<close> and \<open>kernel_ok\<close>: malloc and the driver's ioctls succeed and the DMA engine
  performs its requests in order; \<open>os_ok\<close> adds closing and deleting a table; \<open>env_keeps_inv\<close>: the other
  threads of a waiting request only run the layer's own critical sections.

  \<^bold>\<open>Not modelled.\<close> Logging; the generated QMI tables and RPC stubs; the C++ location adapters and the
  interface objects of ipacm, which mostly fill kernel request structures; the XML reader; vendored
  headers; Java code, resources and scripts. Within the modelled files, the branches of
  \<open>IPA_ON_R3PC\<close>, another kernel interface.
\<close>

end
